(* ===== verification/Prelude.thy ===== *)
theory Prelude
  imports Complex_Main "HOL-Library.Word" "HOL-Library.Sublist" "HOL-Library.Multiset"
begin

text \<open>
  Shared vocabulary of the development: the widths of the program's integers, the outcome type that
  makes every early return and every panic of the Rust code a value, the part of the Rust string
  library the code calls, and generic lemmas on words, lists and maps.

  Integers keep their width: \<open>u64\<close> is \<open>64 word\<close>, and \<open>+\<close> wraps as the release build of the crate does
  (its \<open>Cargo.toml\<close> does not switch overflow checks on).  \<open>usize\<close> values that only count elements of
  an in-memory vector are \<open>nat\<close>.  Strings are lists of bytes; \<open>to_lowercase\<close> is modelled on ASCII, the
  alphabet of every identifier, type name and object id that the program compares.
\<close>

type_synonym u8 = "8 word"
type_synonym u16 = "16 word"
type_synonym u32 = "32 word"
type_synonym u64 = "64 word"
type_synonym u128 = "128 word"
type_synonym i32 = "32 word"
type_synonym i64 = "64 word"
type_synonym i128 = "128 word"

named_theorems outcome_simps "equations of the outcome monad"
named_theorems string_simps "equations of the string library"

subsection \<open>Outcomes\<close>

text \<open>
  A fallible Rust function returns \<open>Ok\<close> or \<open>Err\<close>; a function that calls \<open>expect\<close>, \<open>unwrap\<close> or
  \<open>panic!\<close> may also stop the task.
\<close>

datatype ('a, 'e) outcome = Ok 'a | Err 'e | Panic string

fun bind_outcome :: "('a, 'e) outcome \<Rightarrow> ('a \<Rightarrow> ('b, 'e) outcome) \<Rightarrow> ('b, 'e) outcome" where
  "bind_outcome (Ok x) f = f x"
| "bind_outcome (Err e) f = Err e"
| "bind_outcome (Panic m) f = Panic m"

fun map_err :: "('e \<Rightarrow> 'f) \<Rightarrow> ('a, 'e) outcome \<Rightarrow> ('a, 'f) outcome" where
  "map_err f (Ok x) = Ok x"
| "map_err f (Err e) = Err (f e)"
| "map_err f (Panic m) = Panic m"

fun ok_or :: "'a option \<Rightarrow> 'e \<Rightarrow> ('a, 'e) outcome" where
  "ok_or (Some x) e = Ok x"
| "ok_or None e = Err e"

fun ok_option :: "('a, 'e) outcome \<Rightarrow> 'a option" where
  "ok_option (Ok x) = Some x"
| "ok_option (Err e) = None"
| "ok_option (Panic m) = None"

fun is_ok :: "('a, 'e) outcome \<Rightarrow> bool" where
  "is_ok (Ok x) = True"
| "is_ok (Err e) = False"
| "is_ok (Panic m) = False"

lemma bind_outcome_Ok_iff [outcome_simps]:
  "bind_outcome m f = Ok y \<longleftrightarrow> (\<exists>x. m = Ok x \<and> f x = Ok y)"
  by (cases m) auto

lemma bind_outcome_Err_iff [outcome_simps]:
  "bind_outcome m f = Err e \<longleftrightarrow> m = Err e \<or> (\<exists>x. m = Ok x \<and> f x = Err e)"
  by (cases m) auto

lemma bind_outcome_Panic_iff [outcome_simps]:
  "bind_outcome m f = Panic s \<longleftrightarrow> m = Panic s \<or> (\<exists>x. m = Ok x \<and> f x = Panic s)"
  by (cases m) auto

lemma ok_or_Ok_iff [outcome_simps]: "ok_or x e = Ok y \<longleftrightarrow> x = Some y"
  by (cases x) auto

lemma ok_or_Err_iff [outcome_simps]: "ok_or x e = Err e' \<longleftrightarrow> x = None \<and> e' = e"
  by (cases x) auto

lemma ok_or_no_Panic [outcome_simps]: "ok_or x e \<noteq> Panic s"
  by (cases x) auto

lemma map_err_Ok_iff [outcome_simps]: "map_err f m = Ok y \<longleftrightarrow> m = Ok y"
  by (cases m) auto

lemma map_err_Err_iff [outcome_simps]: "map_err f m = Err e \<longleftrightarrow> (\<exists>e'. m = Err e' \<and> e = f e')"
  by (cases m) auto

lemma map_err_Panic_iff [outcome_simps]: "map_err f m = Panic s \<longleftrightarrow> m = Panic s"
  by (cases m) auto

lemma ok_option_Some_iff [outcome_simps]: "ok_option m = Some y \<longleftrightarrow> m = Ok y"
  by (cases m) auto

text \<open>\<open>iter().map(f).collect::<Result<Vec<_>, _>>()\<close>: the first error ends the traversal.\<close>

fun try_collect :: "('a \<Rightarrow> ('b, 'e) outcome) \<Rightarrow> 'a list \<Rightarrow> ('b list, 'e) outcome" where
  "try_collect f [] = Ok []"
| "try_collect f (x # xs) =
     bind_outcome (f x) (\<lambda>y. bind_outcome (try_collect f xs) (\<lambda>ys. Ok (y # ys)))"

lemma try_collect_Ok_iff [outcome_simps]:
  "try_collect f xs = Ok ys \<longleftrightarrow> list_all2 (\<lambda>x y. f x = Ok y) xs ys"
  by (induction xs arbitrary: ys) (auto simp: outcome_simps list_all2_Cons1)

lemma try_collect_Err: "try_collect f xs = Err e \<Longrightarrow> \<exists>x \<in> set xs. f x = Err e"
  by (induction xs) (auto simp: outcome_simps)

lemma try_collect_Panic: "try_collect f xs = Panic s \<Longrightarrow> \<exists>x \<in> set xs. f x = Panic s"
  by (induction xs) (auto simp: outcome_simps)

subsection \<open>Strings\<close>

definition lower_char :: "char \<Rightarrow> char" where
  "lower_char c = (let n = of_char c :: nat in if 65 \<le> n \<and> n \<le> 90 then char_of (n + 32) else c)"

definition to_lowercase :: "string \<Rightarrow> string" where
  "to_lowercase s = map lower_char s"

text \<open>\<open>str::contains\<close> and \<open>str::starts_with\<close>.\<close>

fun contains :: "string \<Rightarrow> string \<Rightarrow> bool" where
  "contains [] pat = (pat = [])"
| "contains (c # s) pat = (prefix pat (c # s) \<or> contains s pat)"

definition starts_with :: "string \<Rightarrow> string \<Rightarrow> bool" where
  "starts_with s pat = prefix pat s"

lemma contains_iff [string_simps]: "contains s pat \<longleftrightarrow> (\<exists>a b. s = a @ pat @ b)"
proof (induction s)
  case Nil
  then show ?case by auto
next
  case (Cons c s)
  show ?case
  proof
    assume "contains (c # s) pat"
    then consider (pre) "prefix pat (c # s)" | (later) "contains s pat"
      by auto
    then show "\<exists>a b. c # s = a @ pat @ b"
    proof cases
      case pre
      then show ?thesis by (metis append_Nil prefixE)
    next
      case later
      then obtain a b where "s = a @ pat @ b" using Cons.IH by blast
      then show ?thesis by (metis append_Cons)
    qed
  next
    assume "\<exists>a b. c # s = a @ pat @ b"
    then obtain a b where ab: "c # s = a @ pat @ b" by blast
    show "contains (c # s) pat"
    proof (cases a)
      case Nil
      with ab have "prefix pat (c # s)" by simp
      then show ?thesis by simp
    next
      case (Cons x a')
      with ab have "s = a' @ pat @ b" by simp
      then show ?thesis using Cons.IH by auto
    qed
  qed
qed

lemma contains_refl [simp]: "contains s s"
  by (metis append_Nil append_Nil2 contains_iff)

text \<open>ASCII white space and \<open>str::trim\<close>.\<close>

definition is_space :: "char \<Rightarrow> bool" where
  "is_space c = (let n = of_char c :: nat in n = 32 \<or> (9 \<le> n \<and> n \<le> 13))"

definition trim :: "string \<Rightarrow> string" where
  "trim s = rev (dropWhile is_space (rev (dropWhile is_space s)))"

lemma dropWhile_none: "\<forall>x \<in> set xs. \<not> P x \<Longrightarrow> dropWhile P xs = xs"
  by (cases xs) auto

lemma trim_no_space: "\<forall>c \<in> set s. \<not> is_space c \<Longrightarrow> trim s = s"
  by (simp add: trim_def dropWhile_none)

text \<open>Bitwise code equations, for fast evaluation.\<close>

lemma nat_of_char:
  "(of_char (Char b0 b1 b2 b3 b4 b5 b6 b7) :: nat) =
     of_bool b0 + 2 * of_bool b1 + 4 * of_bool b2 + 8 * of_bool b3 + 16 * of_bool b4 + 32 * of_bool b5 + 64 * of_bool b6 + 128 * of_bool b7"
  by (simp add: of_char_def)

lemma lower_char_code [code]:
  "lower_char (Char b0 b1 b2 b3 b4 b5 b6 b7) =
     (if \<not> b7 \<and> b6 \<and> \<not> b5 \<and> (b0 \<or> b1 \<or> b2 \<or> b3 \<or> b4) \<and> \<not> (b4 \<and> b3 \<and> (b2 \<or> (b1 \<and> b0)))
      then Char b0 b1 b2 b3 b4 True b6 b7 else Char b0 b1 b2 b3 b4 b5 b6 b7)" (is "_ = (if ?u then ?c else _)")
proof -
  have u: "65 \<le> (of_char (Char b0 b1 b2 b3 b4 b5 b6 b7) :: nat) \<and> (of_char (Char b0 b1 b2 b3 b4 b5 b6 b7) :: nat) \<le> 90 \<longleftrightarrow> ?u"
    unfolding nat_of_char by (cases b7; cases b6; cases b5; cases b4; cases b3; cases b2; cases b1; cases b0; simp)
  have "(of_char (Char b0 b1 b2 b3 b4 b5 b6 b7) :: nat) + 32 = of_char ?c" if ?u
    using that unfolding nat_of_char by simp
  then have "char_of ((of_char (Char b0 b1 b2 b3 b4 b5 b6 b7) :: nat) + 32) = ?c" if ?u
    using that by (metis char_of_char)
  with u show ?thesis unfolding lower_char_def Let_def by simp
qed

lemma is_space_code [code]:
  "is_space (Char b0 b1 b2 b3 b4 b5 b6 b7) =
     (\<not> b7 \<and> \<not> b6 \<and> \<not> b4 \<and> (if b5 then \<not> b3 \<and> \<not> b2 \<and> \<not> b1 \<and> \<not> b0
        else b3 \<and> (b0 \<or> b1 \<or> b2) \<and> \<not> (b2 \<and> b1)))"
  unfolding is_space_def Let_def nat_of_char 
  by (cases b7; cases b6; cases b5; cases b4; cases b3; cases b2; cases b1; cases b0; simp)

subsection \<open>Decimal numbers\<close>

definition digit_of :: "char \<Rightarrow> nat option" where
  "digit_of c = (let n = of_char c :: nat in if 48 \<le> n \<and> n \<le> 57 then Some (n - 48) else None)"

fun parse_digits :: "nat \<Rightarrow> string \<Rightarrow> nat option" where
  "parse_digits acc [] = Some acc"
| "parse_digits acc (c # s) =
     (case digit_of c of None \<Rightarrow> None | Some d \<Rightarrow> parse_digits (10 * acc + d) s)"

text \<open>
  \<open>str::parse\<close> at an unsigned type whose values are below \<open>bound\<close>: the empty string and a lone sign
  are errors, one leading plus sign is accepted, and a value that does not fit is an error.
\<close>

definition parse_unsigned :: "nat \<Rightarrow> string \<Rightarrow> nat option" where
  "parse_unsigned bound s =
     (let digits = (case s of [] \<Rightarrow> [] | c # r \<Rightarrow> if c = CHR ''+'' then r else s)
      in if digits = [] then None
         else case parse_digits 0 digits of
                None \<Rightarrow> None
              | Some n \<Rightarrow> if n < bound then Some n else None)"

definition unwrap_or :: "'a option \<Rightarrow> 'a \<Rightarrow> 'a" where
  "unwrap_or x d = (case x of Some y \<Rightarrow> y | None \<Rightarrow> d)"

definition parse_u32 :: "string \<Rightarrow> u32 option" where
  "parse_u32 s = map_option of_nat (parse_unsigned (2 ^ 32) s)"

definition parse_u64 :: "string \<Rightarrow> u64 option" where
  "parse_u64 s = map_option of_nat (parse_unsigned (2 ^ 64) s)"

definition parse_u128 :: "string \<Rightarrow> u128 option" where
  "parse_u128 s = map_option of_nat (parse_unsigned (2 ^ 128) s)"

text \<open>\<open>to_string\<close> of an unsigned integer.\<close>

fun show_nat :: "nat \<Rightarrow> string" where
  "show_nat n = (if n < 10 then [char_of (48 + n)] else show_nat (n div 10) @ [char_of (48 + n mod 10)])"

declare show_nat.simps [simp del]

lemma digit_of_char_of: "d < 10 \<Longrightarrow> digit_of (char_of (48 + d)) = Some d"
  by (simp add: digit_of_def)

lemma parse_digits_append:
  "parse_digits acc (s @ t) = (case parse_digits acc s of None \<Rightarrow> None | Some m \<Rightarrow> parse_digits m t)"
  by (induction acc s rule: parse_digits.induct) (auto split: option.splits)

lemma parse_digits_show_nat: "parse_digits 0 (show_nat n) = Some n"
proof (induction n rule: show_nat.induct)
  case (1 n)
  show ?case
  proof (cases "n < 10")
    case True
    then show ?thesis by (subst show_nat.simps) (simp add: digit_of_char_of)
  next
    case False
    with 1 have "parse_digits 0 (show_nat (n div 10)) = Some (n div 10)" by simp
    with False show ?thesis
      by (subst show_nat.simps) (simp add: parse_digits_append digit_of_char_of)
  qed
qed

lemma show_nat_head: "\<exists>c r. show_nat n = c # r \<and> c \<noteq> CHR ''+''"
proof (induction n rule: show_nat.induct)
  case (1 n)
  show ?case
  proof (cases "n < 10")
    case True
    have "char_of (48 + n) \<noteq> CHR ''+''"
    proof
      assume "char_of (48 + n) = CHR ''+''"
      then have "(of_char (char_of (48 + n) :: char) :: nat) = of_char CHR ''+''" by simp
      with True show False by simp
    qed
    with True show ?thesis by (subst show_nat.simps) simp
  next
    case False
    with 1 show ?thesis by (subst show_nat.simps) auto
  qed
qed

lemma parse_unsigned_show_nat:
  "parse_unsigned bound (show_nat n) = (if n < bound then Some n else None)"
proof -
  obtain c r where "show_nat n = c # r" "c \<noteq> CHR ''+''" using show_nat_head by blast
  then show ?thesis
    using parse_digits_show_nat [of n] by (simp add: parse_unsigned_def)
qed

definition show_word :: "'a::len word \<Rightarrow> string" where
  "show_word w = show_nat (unat w)"

lemma parse_u128_show [simp]: "parse_u128 (show_word w) = Some w"
proof -
  have "unat w < 2 ^ 128" using unsigned_less [of w, where 'a = nat] by simp
  then show ?thesis by (simp add: parse_u128_def show_word_def parse_unsigned_show_nat)
qed

lemma parse_u64_show [simp]: "parse_u64 (show_word w) = Some w"
proof -
  have "unat w < 2 ^ 64" using unsigned_less [of w, where 'a = nat] by simp
  then show ?thesis by (simp add: parse_u64_def show_word_def parse_unsigned_show_nat)
qed

subsection \<open>Signed readings\<close>

lemma mod_wrap: "0 \<le> (b::int) \<Longrightarrow> b \<le> a \<Longrightarrow> a < b + m \<Longrightarrow> b = m \<Longrightarrow> a mod m = a - m"
proof -
  assume "0 \<le> b" "b \<le> a" "a < b + m" "b = m"
  then have "(a - m) mod m = a - m" by (intro mod_pos_pos_trivial) auto
  moreover have "(a - m) mod m = a mod m" by (rule minus_mod_self2)
  ultimately show ?thesis by simp
qed

lemma sint_cases:
  fixes w :: "'a::len word"
  shows "sint w = (if uint w < 2 ^ (LENGTH('a) - 1) then uint w else uint w - 2 ^ LENGTH('a))"
proof -
  obtain n where n: "LENGTH('a) = Suc n" by (metis len_not_eq_0 old.nat.exhaust)
  have eq: "sint w = (uint w + 2 ^ n) mod 2 ^ Suc n - 2 ^ n"
    unfolding sint_uint n by (simp add: signed_take_bit_eq_take_bit_shift take_bit_eq_mod)
  have b: "0 \<le> uint w" "uint w < 2 ^ Suc n" using uint_lt2p [of w] by (simp_all add: n)
  show ?thesis
  proof (cases "uint w < 2 ^ n")
    case True
    then show ?thesis using b eq by (simp add: n)
  next
    case False
    then have "(uint w + 2 ^ n) mod 2 ^ Suc n = uint w + 2 ^ n - 2 ^ Suc n"
      using b by (intro mod_wrap [of "2 ^ Suc n"]) auto
    then show ?thesis using False eq by (simp add: n)
  qed
qed

end
