(* ===== verification/F64.thy ===== *)
theory F64
  imports Prelude "HOL-Library.Log_Nat"
begin

text \<open>
  The \<open>f64\<close> arithmetic of the routing code: IEEE 754 binary64 with rounding to nearest, ties to even.
  A finite number is a sign and the exact rational magnitude; every operation computes the exact
  result and rounds it once (\<open>mk_f64\<close>).  Infinities, NaN, signed zeros, subnormal results and the
  saturating \<open>as\<close> casts of Rust are all modelled, so each line of the simulation code is translated
  to the operations the compiled program performs.  \<open>powf\<close> and \<open>powi\<close> have a precision the Rust
  documentation leaves unspecified; they are the fields of the \<open>libm\<close> record that the definitions
  using them take as an argument.
\<close>

named_theorems f64_simps "evaluation of f64 operations"

datatype f64 = NaN | Inf bool | Fin bool rat

subsection \<open>Rounding\<close>

definition pow2 :: "int \<Rightarrow> rat" where
  "pow2 e = (if 0 \<le> e then of_int (2 ^ nat e) else 1 / of_int (2 ^ nat (- e)))"

text \<open>The binary exponent: the unique \<open>e\<close> with \<open>2 ^ e \<le> x < 2 ^ (e + 1)\<close> (lemma \<open>ilog2_bounds\<close>).\<close>

definition ilog2 :: "rat \<Rightarrow> int" where
  "ilog2 x = (let (p, q) = quotient_of x; e = bitlen p - bitlen q
              in if pow2 e \<le> x then e else e - 1)"

definition round_even :: "rat \<Rightarrow> int" where
  "round_even x =
     (let f = \<lfloor>x\<rfloor>; r = x - of_int f
      in if r < 1 / 2 then f else if r > 1 / 2 then f + 1 else if even f then f else f + 1)"

definition round_mag :: "rat \<Rightarrow> rat" where
  "round_mag x =
     (if x = 0 then 0
      else let q = max (ilog2 x - 52) (- 1074) in of_int (round_even (x / pow2 q)) * pow2 q)"

definition mk_f64 :: "bool \<Rightarrow> rat \<Rightarrow> f64" where
  "mk_f64 s x = (let m = round_mag x in if m \<noteq> 0 \<and> 1024 \<le> ilog2 m then Inf s else Fin s m)"

subsection \<open>Operations\<close>

fun fval :: "f64 \<Rightarrow> rat" where
  "fval (Fin s m) = (if s then - m else m)"
| "fval (Inf s) = 0"
| "fval NaN = 0"

fun is_nan :: "f64 \<Rightarrow> bool" where
  "is_nan NaN = True"
| "is_nan (Inf s) = False"
| "is_nan (Fin s m) = False"

fun is_finite :: "f64 \<Rightarrow> bool" where
  "is_finite (Fin s m) = True"
| "is_finite (Inf s) = False"
| "is_finite NaN = False"

fun fneg :: "f64 \<Rightarrow> f64" where
  "fneg NaN = NaN"
| "fneg (Inf s) = Inf (\<not> s)"
| "fneg (Fin s m) = Fin (\<not> s) m"

fun fadd :: "f64 \<Rightarrow> f64 \<Rightarrow> f64" where
  "fadd NaN b = NaN"
| "fadd a NaN = NaN"
| "fadd (Inf s) (Inf t) = (if s = t then Inf s else NaN)"
| "fadd (Inf s) (Fin t y) = Inf s"
| "fadd (Fin s x) (Inf t) = Inf t"
| "fadd (Fin s x) (Fin t y) =
     (let v = fval (Fin s x) + fval (Fin t y)
      in if v = 0 then Fin (s \<and> t \<and> x = 0 \<and> y = 0) 0 else mk_f64 (v < 0) \<bar>v\<bar>)"

definition fsub :: "f64 \<Rightarrow> f64 \<Rightarrow> f64" where
  "fsub a b = fadd a (fneg b)"

fun fmul :: "f64 \<Rightarrow> f64 \<Rightarrow> f64" where
  "fmul NaN b = NaN"
| "fmul a NaN = NaN"
| "fmul (Inf s) (Inf t) = Inf (s \<noteq> t)"
| "fmul (Inf s) (Fin t y) = (if y = 0 then NaN else Inf (s \<noteq> t))"
| "fmul (Fin s x) (Inf t) = (if x = 0 then NaN else Inf (s \<noteq> t))"
| "fmul (Fin s x) (Fin t y) = mk_f64 (s \<noteq> t) (x * y)"

fun fdiv :: "f64 \<Rightarrow> f64 \<Rightarrow> f64" where
  "fdiv NaN b = NaN"
| "fdiv a NaN = NaN"
| "fdiv (Inf s) (Inf t) = NaN"
| "fdiv (Inf s) (Fin t y) = Inf (s \<noteq> t)"
| "fdiv (Fin s x) (Inf t) = Fin (s \<noteq> t) 0"
| "fdiv (Fin s x) (Fin t y) =
     (if y = 0 then (if x = 0 then NaN else Inf (s \<noteq> t)) else mk_f64 (s \<noteq> t) (x / y))"

fun flt :: "f64 \<Rightarrow> f64 \<Rightarrow> bool" where
  "flt NaN b = False"
| "flt a NaN = False"
| "flt (Inf s) (Inf t) = (s \<and> \<not> t)"
| "flt (Inf s) (Fin t y) = s"
| "flt (Fin s x) (Inf t) = (\<not> t)"
| "flt (Fin s x) (Fin t y) = (fval (Fin s x) < fval (Fin t y))"

fun fle :: "f64 \<Rightarrow> f64 \<Rightarrow> bool" where
  "fle NaN b = False"
| "fle a NaN = False"
| "fle (Inf s) (Inf t) = (s \<or> \<not> t)"
| "fle (Inf s) (Fin t y) = s"
| "fle (Fin s x) (Inf t) = (\<not> t)"
| "fle (Fin s x) (Fin t y) = (fval (Fin s x) \<le> fval (Fin t y))"

definition feq :: "f64 \<Rightarrow> f64 \<Rightarrow> bool" where
  "feq a b = (fle a b \<and> fle b a)"

text \<open>\<open>f64::max\<close> and \<open>f64::min\<close> return the other operand when one is NaN.\<close>

definition fmax :: "f64 \<Rightarrow> f64 \<Rightarrow> f64" where
  "fmax a b = (if is_nan a then b else if is_nan b then a else if flt a b then b else a)"

definition fmin :: "f64 \<Rightarrow> f64 \<Rightarrow> f64" where
  "fmin a b = (if is_nan a then b else if is_nan b then a else if flt b a then b else a)"

definition fclamp :: "f64 \<Rightarrow> f64 \<Rightarrow> f64 \<Rightarrow> f64" where
  "fclamp x lo hi = (let y = (if flt x lo then lo else x) in if flt hi y then hi else y)"

fun ffloor :: "f64 \<Rightarrow> f64" where
  "ffloor NaN = NaN"
| "ffloor (Inf s) = Inf s"
| "ffloor (Fin s m) = Fin s (if s then - of_int \<lfloor>- m\<rfloor> else of_int \<lfloor>m\<rfloor>)"

text \<open>\<open>f64::round\<close>: to the nearest integer, halves away from zero.\<close>

fun fround :: "f64 \<Rightarrow> f64" where
  "fround NaN = NaN"
| "fround (Inf s) = Inf s"
| "fround (Fin s m) = Fin s (of_int \<lfloor>m + 1 / 2\<rfloor>)"

subsection \<open>Casts and literals\<close>

text \<open>\<open>as u32\<close> and \<open>as u128\<close> truncate and saturate; NaN becomes 0.\<close>

fun f64_as_int :: "int \<Rightarrow> f64 \<Rightarrow> int" where
  "f64_as_int mx NaN = 0"
| "f64_as_int mx (Inf s) = (if s then 0 else mx)"
| "f64_as_int mx (Fin s m) = (if s then 0 else min mx \<lfloor>m\<rfloor>)"

definition f64_as_u32 :: "f64 \<Rightarrow> u32" where
  "f64_as_u32 x = word_of_int (f64_as_int (2 ^ 32 - 1) x)"

definition f64_as_u128 :: "f64 \<Rightarrow> u128" where
  "f64_as_u128 x = word_of_int (f64_as_int (2 ^ 128 - 1) x)"

definition int_as_f64 :: "int \<Rightarrow> f64" where
  "int_as_f64 i = mk_f64 (i < 0) (of_int \<bar>i\<bar>)"

definition lit :: "rat \<Rightarrow> f64" where
  "lit x = mk_f64 (x < 0) \<bar>x\<bar>"

record libm =
  fpowf :: "f64 \<Rightarrow> f64 \<Rightarrow> f64"
  fpowi :: "f64 \<Rightarrow> int \<Rightarrow> f64"

subsection \<open>Rounding is monotone and exact on 53-bit numbers\<close>


lemma pow2_powi: "pow2 e = 2 powi e"
  by (simp add: pow2_def power_int_def inverse_eq_divide power_one_over)

lemma pow2_pos [simp]: "0 < pow2 e"
  by (simp add: pow2_powi)

lemma pow2_nonneg [simp]: "0 \<le> pow2 e"
  by (simp add: pow2_powi)

lemma pow2_nz [simp]: "pow2 e \<noteq> 0"
  by (simp add: pow2_powi)

lemma pow2_add: "pow2 (a + b) = pow2 a * pow2 b"
  by (simp add: pow2_powi power_int_add)

lemma pow2_diff: "pow2 (a - b) = pow2 a / pow2 b"
  by (simp add: pow2_powi power_int_diff)

lemma pow2_mono: "a \<le> b \<Longrightarrow> pow2 a \<le> pow2 b"
  by (simp add: pow2_powi power_int_increasing)

lemma pow2_less_iff: "pow2 a < pow2 b \<longleftrightarrow> a < b"
  using pow2_mono [of b a] power_int_strict_increasing [of a b "2 :: rat"]
  by (auto simp: pow2_powi not_less [symmetric])

lemma pow2_int: "0 \<le> e \<Longrightarrow> pow2 e = of_int (2 ^ nat e)"
  by (simp add: pow2_def)

lemma pow2_split: "q \<le> e \<Longrightarrow> pow2 e = of_int (2 ^ nat (e - q)) * pow2 q"
  using pow2_add [of "e - q" q] pow2_int [of "e - q"] by simp

lemma bitlen_pow2:
  assumes "0 < p"
  shows "pow2 (bitlen p - 1) \<le> of_int p" and "of_int p < pow2 (bitlen p)"
proof -
  have b: "2 ^ nat (bitlen p - 1) \<le> p" "p < 2 ^ nat (bitlen p)"
    using bitlen_bounds [OF assms] by auto
  have "0 < bitlen p" using assms b(2) by (cases "bitlen p \<le> 0") auto
  then show "pow2 (bitlen p - 1) \<le> of_int p" "of_int p < pow2 (bitlen p)"
    using b by (simp_all only: pow2_int of_int_le_iff of_int_less_iff)
qed

lemma ilog2_bounds:
  assumes "0 < x"
  shows "pow2 (ilog2 x) \<le> x" and "x < pow2 (ilog2 x + 1)"
proof -
  obtain p q where pq: "quotient_of x = (p, q)" by (cases "quotient_of x")
  have q: "0 < q" using pq by (rule quotient_of_denom_pos)
  have x: "x = of_int p / of_int q" using pq by (rule quotient_of_div)
  have p: "0 < p" using assms x q by (simp add: zero_less_divide_iff)
  let ?e = "bitlen p - bitlen q"
  have lo: "pow2 (?e - 1) \<le> x"
  proof -
    have "pow2 (?e - 1) = pow2 (bitlen p - 1) / pow2 (bitlen q)"
      by (simp add: pow2_diff [symmetric] algebra_simps)
    also have "\<dots> \<le> of_int p / of_int q"
      using bitlen_pow2 [OF p] bitlen_pow2 [OF q] p q
      by (intro frac_le) auto
    finally show ?thesis using x by simp
  qed
  have hi: "x < pow2 (?e + 1)"
  proof -
    have "of_int p / of_int q < pow2 (bitlen p) / pow2 (bitlen q - 1)"
      using bitlen_pow2 [OF p] bitlen_pow2 [OF q] p q
      by (intro frac_less) auto
    also have "\<dots> = pow2 (?e + 1)"
      by (simp add: pow2_diff [symmetric] algebra_simps)
    finally show ?thesis using x by simp
  qed
  show "pow2 (ilog2 x) \<le> x" "x < pow2 (ilog2 x + 1)"
    using lo hi by (auto simp: ilog2_def pq Let_def)
qed

lemma ilog2_eqI: "pow2 e \<le> x \<Longrightarrow> x < pow2 (e + 1) \<Longrightarrow> ilog2 x = e"
proof -
  assume a: "pow2 e \<le> x" "x < pow2 (e + 1)"
  then have "0 < x" using pow2_pos [of e] by linarith
  note b = ilog2_bounds [OF this]
  have "pow2 e < pow2 (ilog2 x + 1)" "pow2 (ilog2 x) < pow2 (e + 1)"
    using a b by linarith+
  then show ?thesis by (simp add: pow2_less_iff)
qed

lemma ilog2_mono: "0 < x \<Longrightarrow> x \<le> y \<Longrightarrow> ilog2 x \<le> ilog2 y"
proof -
  assume a: "0 < x" "x \<le> y"
  then have "pow2 (ilog2 x) < pow2 (ilog2 y + 1)"
    using ilog2_bounds [of x] ilog2_bounds [of y] by linarith
  then show ?thesis by (simp add: pow2_less_iff)
qed

lemma round_even_of_int [simp]: "round_even (of_int n) = n"
  by (simp add: round_even_def)

lemma round_even_mono: "x \<le> y \<Longrightarrow> round_even x \<le> round_even y"
proof -
  assume xy: "x \<le> y"
  then have f: "\<lfloor>x\<rfloor> \<le> \<lfloor>y\<rfloor>" by (rule floor_mono)
  have up: "round_even z \<le> \<lfloor>z\<rfloor> + 1" and dn: "\<lfloor>z\<rfloor> \<le> round_even z" for z :: rat
    by (auto simp: round_even_def Let_def)
  show ?thesis
  proof (cases "\<lfloor>x\<rfloor> = \<lfloor>y\<rfloor>")
    case True
    with xy show ?thesis by (auto simp: round_even_def Let_def)
  next
    case False
    with f up [of x] dn [of y] show ?thesis by linarith
  qed
qed

lemma round_mag_0 [simp]: "round_mag 0 = 0"
  by (simp add: round_mag_def)

lemma round_mag_nonneg: "0 \<le> x \<Longrightarrow> 0 \<le> round_mag x"
proof (cases "x = 0")
  case False
  assume "0 \<le> x"
  let ?q = "max (ilog2 x - 52) (- 1074)"
  have "round_even 0 \<le> round_even (x / pow2 ?q)"
    using \<open>0 \<le> x\<close> by (intro round_even_mono) simp
  moreover have "round_even 0 = 0" using round_even_of_int [of 0] by simp
  ultimately show ?thesis using False by (simp add: round_mag_def Let_def)
qed simp

text \<open>Rounding on one grid: a bound that lies on the grid survives it.\<close>

lemma round_grid_le:
  assumes "x \<le> of_int n * pow2 q"
  shows "of_int (round_even (x / pow2 q)) * pow2 q \<le> of_int n * pow2 q"
proof -
  have "x / pow2 q \<le> of_int n" using assms by (simp add: pos_divide_le_eq)
  then have "round_even (x / pow2 q) \<le> n" using round_even_mono by fastforce
  then show ?thesis by simp
qed

lemma round_grid_ge:
  assumes "of_int n * pow2 q \<le> x"
  shows "of_int n * pow2 q \<le> of_int (round_even (x / pow2 q)) * pow2 q"
proof -
  have "of_int n \<le> x / pow2 q" using assms by (simp add: pos_le_divide_eq)
  then have "n \<le> round_even (x / pow2 q)" using round_even_mono by fastforce
  then show ?thesis by simp
qed

lemma round_mag_mono:
  assumes "0 \<le> x" "x \<le> y"
  shows "round_mag x \<le> round_mag y"
proof (cases "x = 0")
  case True
  with assms show ?thesis by (simp add: round_mag_nonneg)
next
  case False
  with assms have pos: "0 < x" "0 < y" by auto
  define qx where "qx = max (ilog2 x - 52) (- 1074)"
  define qy where "qy = max (ilog2 y - 52) (- 1074)"
  have le: "qx \<le> qy" using ilog2_mono [OF pos(1) assms(2)] by (simp add: qx_def qy_def)
  have rx: "round_mag x = of_int (round_even (x / pow2 qx)) * pow2 qx"
    and ry: "round_mag y = of_int (round_even (y / pow2 qy)) * pow2 qy"
    using pos by (simp_all add: round_mag_def qx_def qy_def Let_def)
  show ?thesis
  proof (cases "qx = qy")
    case True
    have "x / pow2 qx \<le> y / pow2 qx" using assms by (simp add: divide_right_mono)
    with True show ?thesis unfolding rx ry by (simp add: round_even_mono)
  next
    case False
    with le have lt: "qx < qy" by simp
    then have qy: "qy = ilog2 y - 52" and ex: "ilog2 x + 1 \<le> ilog2 y" and qxe: "qx \<le> ilog2 y"
      by (auto simp: qx_def qy_def)
    have "x \<le> pow2 (ilog2 y)"
      using ilog2_bounds(2) [OF pos(1)] pow2_mono [OF ex] by linarith
    also have "pow2 (ilog2 y) = of_int (2 ^ nat (ilog2 y - qx)) * pow2 qx"
      using qxe by (rule pow2_split)
    finally have "round_mag x \<le> of_int (2 ^ nat (ilog2 y - qx)) * pow2 qx"
      unfolding rx by (rule round_grid_le)
    also have "\<dots> = pow2 (ilog2 y)"
      using qxe by (rule pow2_split [symmetric])
    also have "\<dots> \<le> round_mag y"
    proof -
      have g: "pow2 (ilog2 y) = of_int (2 ^ nat (ilog2 y - qy)) * pow2 qy"
        using qy by (intro pow2_split) simp
      then show ?thesis unfolding ry g using ilog2_bounds(1) [OF pos(2)] g
        by (intro round_grid_ge) simp
    qed
    finally show ?thesis .
  qed
qed

text \<open>Numbers of at most 53 bits are exact.\<close>

lemma round_mag_exact:
  assumes "0 \<le> n" "n \<le> 2 ^ 53" "- 1074 \<le> e"
  shows "round_mag (of_int n * pow2 e) = of_int n * pow2 e"
proof (cases "n = 0")
  case False
  define x where "x = of_int n * pow2 e"
  define q where "q = max (ilog2 x - 52) (- 1074)"
  have x: "0 < x" using assms False by (simp add: x_def)
  show ?thesis
  proof (cases "n = 2 ^ 53")
    case True
    then have "x = pow2 (53 + e)" by (simp add: x_def pow2_add pow2_int)
    then have l: "ilog2 x = 53 + e"
      using pow2_less_iff [of "53 + e" "53 + e + 1"] by (intro ilog2_eqI) auto
    then have q: "q = e + 1" using assms by (simp add: q_def)
    have "x / pow2 q = of_int (2 ^ 52)"
      using \<open>x = pow2 (53 + e)\<close> q by (simp add: pow2_diff [symmetric] pow2_int)
    then have "round_even (x / pow2 q) = 2 ^ 52" by (metis round_even_of_int)
    then have "round_mag x = of_int (2 ^ 52) * pow2 q"
      using x by (simp add: round_mag_def q_def Let_def)
    also have "\<dots> = x" using \<open>x / pow2 q = of_int (2 ^ 52)\<close> by (simp add: divide_eq_eq)
    finally show ?thesis by (simp add: x_def)
  next
    case False
    then have "n < 2 ^ 53" using assms by simp
    then have "of_int n < (of_int (2 ^ 53) :: rat)" by (simp only: of_int_less_iff)
    then have "x < pow2 (53 + e)" by (simp add: x_def pow2_add pow2_int)
    moreover have "pow2 (ilog2 x) \<le> x" using x by (rule ilog2_bounds)
    ultimately have "ilog2 x < 53 + e" by (metis le_less_trans pow2_less_iff)
    then have qe: "q \<le> e" using assms by (simp add: q_def)
    have "x / pow2 q = of_int (n * 2 ^ nat (e - q))"
      by (simp add: x_def pow2_split [OF qe])
    then have "round_even (x / pow2 q) = n * 2 ^ nat (e - q)" by (metis round_even_of_int)
    with \<open>x / pow2 q = _\<close> have "of_int (round_even (x / pow2 q)) * pow2 q = x"
      by (metis divide_eq_eq pow2_nz)
    then show ?thesis using x by (simp add: round_mag_def q_def [symmetric] Let_def x_def [symmetric])
  qed
qed simp


subsection \<open>Well-formed values\<close>

text \<open>A magnitude is never negative; every operation keeps that.\<close>

fun wf_f64 :: "f64 \<Rightarrow> bool" where
  "wf_f64 (Fin s m) = (0 \<le> m)"
| "wf_f64 (Inf s) = True"
| "wf_f64 NaN = True"

lemma wf_mk_f64 [simp, intro]: "0 \<le> x \<Longrightarrow> wf_f64 (mk_f64 s x)"
  by (simp add: mk_f64_def Let_def round_mag_nonneg)

lemma wf_lit [simp]: "wf_f64 (lit x)" and wf_int_as_f64 [simp]: "wf_f64 (int_as_f64 i)"
  by (simp_all add: lit_def int_as_f64_def)

lemma wf_fneg [simp]: "wf_f64 (fneg a) = wf_f64 a"
  by (cases a) auto

lemma wf_fadd [simp, intro]: "wf_f64 a \<Longrightarrow> wf_f64 b \<Longrightarrow> wf_f64 (fadd a b)"
  by (cases "(a, b)" rule: fadd.cases) (auto simp: Let_def)

lemma wf_fsub [simp, intro]: "wf_f64 a \<Longrightarrow> wf_f64 b \<Longrightarrow> wf_f64 (fsub a b)"
  by (simp add: fsub_def wf_fadd)

lemma wf_fmul [simp, intro]: "wf_f64 a \<Longrightarrow> wf_f64 b \<Longrightarrow> wf_f64 (fmul a b)"
  by (cases "(a, b)" rule: fmul.cases) auto

lemma wf_fdiv [simp, intro]: "wf_f64 a \<Longrightarrow> wf_f64 b \<Longrightarrow> wf_f64 (fdiv a b)"
  by (cases "(a, b)" rule: fdiv.cases) auto

lemma wf_fmax [simp, intro]: "wf_f64 a \<Longrightarrow> wf_f64 b \<Longrightarrow> wf_f64 (fmax a b)"
  by (simp add: fmax_def)

lemma wf_ffloor [simp, intro]: "wf_f64 a \<Longrightarrow> wf_f64 (ffloor a)"
  by (cases a) auto

lemma wf_fround [simp, intro]: "wf_f64 a \<Longrightarrow> wf_f64 (fround a)"
  by (cases a) auto

text \<open>Casts to an unsigned type stay inside the type's range.\<close>

lemma f64_as_int_range: "wf_f64 x \<Longrightarrow> 0 \<le> mx \<Longrightarrow> 0 \<le> f64_as_int mx x \<and> f64_as_int mx x \<le> mx"
  by (cases x) auto

lemma uint_f64_as_u128: "wf_f64 x \<Longrightarrow> uint (f64_as_u128 x) = f64_as_int (2 ^ 128 - 1) x"
  using f64_as_int_range [of x "2 ^ 128 - 1"] by (simp add: f64_as_u128_def uint_word_of_int)

lemma uint_f64_as_u32: "wf_f64 x \<Longrightarrow> uint (f64_as_u32 x) = f64_as_int (2 ^ 32 - 1) x"
  using f64_as_int_range [of x "2 ^ 32 - 1"] by (simp add: f64_as_u32_def uint_word_of_int)

subsection \<open>Non-negative values\<close>

text \<open>\<open>0.0 <= x\<close> as Rust evaluates it: false for NaN.\<close>

abbreviation fzero :: f64 where "fzero \<equiv> Fin False 0"

abbreviation nonneg :: "f64 \<Rightarrow> bool" where "nonneg x \<equiv> fle fzero x"

lemma nonneg_fmax_zero [simp]: "nonneg (fmax x fzero)"
  by (cases x) (auto simp: fmax_def)

lemma nonneg_not_nan: "nonneg x \<Longrightarrow> \<not> is_nan x"
  by (cases x) auto

subsection \<open>Order and rounding error\<close>

lemma f64_as_int_mono:
  assumes "wf_f64 x" "wf_f64 y" "fle x y" "0 \<le> mx"
  shows "f64_as_int mx x \<le> f64_as_int mx y"
proof (cases "\<exists>s a t b. x = Fin s a \<and> y = Fin t b")
  case True
  then obtain s a t b where xy: "x = Fin s a" "y = Fin t b" by blast
  with assms consider s | "\<not> s" "\<not> t" "a \<le> b" | "\<not> s" "t" "a = 0"
    by (cases s; cases t) auto
  then show ?thesis
  proof cases
    case 1
    then show ?thesis using assms xy by (cases t) auto
  next
    case 2
    then show ?thesis using xy floor_mono [of a b] by (auto simp: min_def)
  qed (use assms xy in auto)
next
  case False
  with assms show ?thesis by (cases "(x, y)" rule: fle.cases) auto
qed

lemma f64_as_u128_mono: "wf_f64 x \<Longrightarrow> wf_f64 y \<Longrightarrow> fle x y \<Longrightarrow> f64_as_u128 x \<le> f64_as_u128 y"
  by (simp add: word_le_def uint_f64_as_u128 f64_as_int_mono)

lemma f64_as_u32_mono: "wf_f64 x \<Longrightarrow> wf_f64 y \<Longrightarrow> fle x y \<Longrightarrow> f64_as_u32 x \<le> f64_as_u32 y"
  by (simp add: word_le_def uint_f64_as_u32 f64_as_int_mono)

lemma round_even_error: "\<bar>of_int (round_even x) - x\<bar> \<le> 1 / 2"
  using floor_correct [of x] by (auto simp: round_even_def Let_def abs_le_iff)

lemma round_mag_error:
  assumes "0 < x"
  shows "\<bar>round_mag x - x\<bar> \<le> pow2 (max (ilog2 x - 52) (- 1074)) / 2"
proof -
  define p where "p = pow2 (max (ilog2 x - 52) (- 1074))"
  have p: "0 < p" by (simp add: p_def)
  have "round_mag x - x = (of_int (round_even (x / p)) - x / p) * p"
    using assms p by (simp add: round_mag_def p_def Let_def algebra_simps)
  also have "\<bar>\<dots>\<bar> = \<bar>of_int (round_even (x / p)) - x / p\<bar> * p" using p by (simp add: abs_mult)
  also have "\<dots> \<le> 1 / 2 * p" using round_even_error [of "x / p"] p by (intro mult_right_mono) auto
  finally show ?thesis by (simp add: p_def)
qed

lemma round_mag_pow2: "- 1074 \<le> e \<Longrightarrow> round_mag (pow2 e) = pow2 e"
  using round_mag_exact [of 1 e] by simp

lemma mk_f64_small:
  assumes "0 \<le> x" "x \<le> pow2 1023"
  shows "mk_f64 s x = Fin s (round_mag x)"
proof -
  have "round_mag x \<le> pow2 1023"
    using round_mag_mono [OF assms] round_mag_pow2 [of 1023] by simp
  moreover have "pow2 (1023 :: int) < pow2 1024" by (simp add: pow2_less_iff)
  ultimately have "ilog2 (round_mag x) < 1024" if "round_mag x \<noteq> 0"
    using that round_mag_nonneg [OF assms(1)] ilog2_bounds(1) [of "round_mag x"]
    by (metis le_less_trans order_le_less pow2_less_iff)
  then show ?thesis by (auto simp: mk_f64_def Let_def)
qed

lemma fmul_small:
  "0 \<le> x * y \<Longrightarrow> x * y \<le> pow2 1023 \<Longrightarrow> fmul (Fin s x) (Fin t y) = Fin (s \<noteq> t) (round_mag (x * y))"
  by (simp add: mk_f64_small)

lemma int_as_f64_exact:
  assumes "0 \<le> i" "i \<le> 2 ^ 53"
  shows "int_as_f64 i = Fin False (of_int i)"
proof -
  have "of_int i \<le> (of_int (2 ^ 53) :: rat)" using assms(2) by (simp only: of_int_le_iff)
  also have "\<dots> = pow2 53" by (simp add: pow2_def)
  also have "\<dots> \<le> pow2 1023" by (rule pow2_mono) simp
  finally have le: "of_int i \<le> pow2 1023" .
  have "round_mag (of_int i) = of_int i"
    using round_mag_exact [of i 0] assms by (simp add: pow2_def)
  with le assms show ?thesis by (simp add: int_as_f64_def mk_f64_small)
qed

subsection \<open>The relative error of rounding a normal number\<close>

lemma round_mag_rel:
  assumes "pow2 (- 1022) \<le> x"
  shows "\<bar>round_mag x - x\<bar> \<le> x / 2 ^ 53"
proof -
  have pos: "0 < x" using assms pow2_pos [of "- 1022"] by linarith
  have "ilog2 (pow2 (- 1022)) \<le> ilog2 x" using assms by (intro ilog2_mono) simp_all
  moreover have "ilog2 (pow2 (- 1022)) = - 1022" by (rule ilog2_eqI) (simp_all add: pow2_less_iff)
  ultimately have "max (ilog2 x - 52) (- 1074) = ilog2 x - 52" by simp
  then have "\<bar>round_mag x - x\<bar> \<le> pow2 (ilog2 x - 52) / 2" using round_mag_error [OF pos] by simp
  also have "\<dots> = pow2 (ilog2 x) / 2 ^ 53" by (simp add: pow2_diff pow2_int)
  also have "\<dots> \<le> x / 2 ^ 53" using ilog2_bounds(1) [OF pos] by (simp add: divide_right_mono)
  finally show ?thesis .
qed

lemma round_mag_between:
  assumes "pow2 (- 1022) \<le> lo" "lo \<le> x" "x \<le> hi"
  shows "lo * (1 - 1 / 2 ^ 53) \<le> round_mag x" "round_mag x \<le> hi * (1 + 1 / 2 ^ 53)"
proof -
  have "\<bar>round_mag x - x\<bar> \<le> x / 2 ^ 53" using assms by (intro round_mag_rel) simp
  then have "x * (1 - 1 / 2 ^ 53) \<le> round_mag x" "round_mag x \<le> x * (1 + 1 / 2 ^ 53)"
    unfolding abs_le_iff by (simp_all add: algebra_simps)
  moreover have "lo * (1 - 1 / 2 ^ 53) \<le> x * (1 - 1 / 2 ^ 53)" using assms(2) by (intro mult_right_mono) simp_all
  moreover have "x * (1 + 1 / 2 ^ 53) \<le> hi * (1 + 1 / 2 ^ 53)" using assms(3) by (intro mult_right_mono) simp_all
  ultimately show "lo * (1 - 1 / 2 ^ 53) \<le> round_mag x" "round_mag x \<le> hi * (1 + 1 / 2 ^ 53)" by linarith+
qed

end
