(* ===== verification/Models.thy ===== *)
theory Models
  imports F64
begin

text \<open>
  The data model of \<open>src/models.rs\<close>: pool and tick state, the symbolic programmable transaction and
  the request and response bodies of the API.  Field names carry a prefix where two structs of the
  source share a field name.  Tick indices and net liquidity are the integers the signed fields
  denote; \<open>price_impact\<close> and \<open>slippage_tolerance\<close> are \<open>f64\<close> values.
\<close>

record token =
  address :: string
  symbol :: string
  tok_name :: string
  decimals :: u8

record quote_request =
  qr_from_token :: string
  qr_to_token :: string
  qr_amount :: string

record route_step =
  rs_dex_name :: string
  rs_pool_address :: string
  rs_weight :: u32

record quote_response =
  qs_from_token :: string
  qs_to_token :: string
  qs_amount_in :: string
  qs_amount_out :: string
  qs_price_impact :: f64
  qs_route :: "route_step list"

record pool_state =
  pool_id :: string
  dex_name :: string
  coin_type_a :: string
  coin_type_b :: string
  sqrt_price :: u128
  liquidity :: u128
  fee_rate :: u64
  is_paused :: bool

definition u128_as_f64 :: "u128 \<Rightarrow> f64" where
  "u128_as_f64 w = int_as_f64 (uint w)"

definition u64_as_f64 :: "u64 \<Rightarrow> f64" where
  "u64_as_f64 w = int_as_f64 (uint w)"

lemma wf_u128_as_f64 [simp]: "wf_f64 (u128_as_f64 w)" and wf_u64_as_f64 [simp]: "wf_f64 (u64_as_f64 v)"
  by (simp_all add: u128_as_f64_def u64_as_f64_def)

definition calculate_price :: "libm \<Rightarrow> pool_state \<Rightarrow> u8 \<Rightarrow> u8 \<Rightarrow> int \<Rightarrow> f64" where
  "calculate_price m pool decimals_a decimals_b factor_bits =
     (let sqrt_price_f = u128_as_f64 (sqrt_price pool);
          base = fpowi m (lit 2) factor_bits;
          price_internal = fpowi m (fdiv sqrt_price_f base) 2;
          decimal_diff = uint decimals_a - uint decimals_b
      in fmul price_internal (fpowi m (lit 10) decimal_diff))"

record tick_info =
  tick_index :: int
  liquidity_net :: int

record pool_tick_data =
  td_pool_id :: string
  current_tick_index :: int
  tick_spacing :: u32
  ticks :: "tick_info list"
  fee_growth_global_a :: "u128 option"
  fee_growth_global_b :: "u128 option"

datatype ptb_argument =
    GasCoin
  | InputCoin
  | Result u16
  | NestedResult u16 u16
  | Pure string
  | Object string
  | ArgBool bool
  | U64 u64
  | U128 u128
  | Address string

datatype ptb_command =
    SplitCoins ptb_argument "ptb_argument list"
  | MoveCall (mc_package: string) (mc_module: string) (mc_function: string)
      (mc_type_arguments: "string list") (mc_arguments: "ptb_argument list")
  | TransferObjects "ptb_argument list" ptb_argument
  | MergeCoins ptb_argument "ptb_argument list"
  | MakeMoveVec "string option" "ptb_argument list"

record ptb_transaction =
  tx_sender :: string
  tx_commands :: "ptb_command list"

record build_tx_request =
  br_from_token :: string
  br_to_token :: string
  br_amount :: string
  br_user_address :: string
  br_slippage_tolerance :: f64
  br_coin_ids :: "string list option"

record object_ref_summary =
  or_object_id :: string
  or_version :: u64
  or_digest :: string
  or_owner_kind :: string

text \<open>A library for concrete evaluations: powers by repeated multiplication.\<close>

definition plain_libm :: libm where
  "plain_libm = \<lparr>fpowf = (\<lambda>x y. if feq y (lit 0) then lit 1 else x),
     fpowi = (\<lambda>x n. if 0 \<le> n then ((\<lambda>v. fmul v x) ^^ nat n) (lit 1) else fdiv (lit 1) (((\<lambda>v. fmul v x) ^^ nat (- n)) (lit 1)))\<rparr>"

lemma wf_plain_powi [simp]: "wf_f64 x \<Longrightarrow> wf_f64 (fpowi plain_libm x n)"
proof -
  assume x: "wf_f64 x"
  have "wf_f64 (((\<lambda>v. fmul v x) ^^ k) (lit 1))" for k
    using x by (induction k) auto
  then show ?thesis by (simp add: plain_libm_def wf_fdiv)
qed

lemma u128_as_f64_eq: "u128_as_f64 w = Fin False (round_mag (of_int (uint w)))"
proof -
  have "of_int (uint w) \<le> (of_int (2 ^ 128) :: rat)" using uint_lt2p [of w] by (simp only: of_int_le_iff) simp
  also have "\<dots> = pow2 128" by (simp add: pow2_def)
  also have "\<dots> \<le> pow2 1023" by (rule pow2_mono) simp
  finally have le: "of_int (uint w) \<le> pow2 1023" .
  have "0 \<le> (of_int (uint w) :: rat)" by (simp only: of_int_0_le_iff uint_ge_0)
  from mk_f64_small [OF this le] show ?thesis by (simp add: u128_as_f64_def int_as_f64_def not_less)
qed

end
