(* ===== verification/Registry.thy ===== *)
theory Registry
  imports Models
begin

text \<open>
  \<open>src/discovery/registry.rs\<close>: the mainnet contracts of the four supported exchanges, their lookup by
  name, and the set of shared objects that transactions must pass as immutable.
\<close>

subsection \<open>Definitions\<close>

record dex_discovery_spec =
  ds_dex_name :: string
  ds_package_id :: string
  pool_object_type :: string
  create_pool_event_types :: "string list"
  pool_type_module :: string
  required_event_fields :: "string list"

record dex_swap_contract =
  sc_dex_name :: string
  sc_package_id :: string
  swap_module :: string
  shared_objects :: "string list"

definition OBJECT_BOOTSTRAP_SOURCE_KEY :: string where "OBJECT_BOOTSTRAP_SOURCE_KEY = ''object_bootstrap''"

definition CETUS_DISCOVERY_PACKAGE :: string where "CETUS_DISCOVERY_PACKAGE = ''0x1eabed72c53feb3805120a081dc15963c204dc8d091542592abaf7a35689b2fb''"

definition CETUS_SWAP_PACKAGE :: string where "CETUS_SWAP_PACKAGE = ''0x25ebb9a7c50eb17b3fa9c5a30fb8b5ad8f97caaf4928943acbcff7153dfee5e3''"

definition TURBOS_DISCOVERY_PACKAGE :: string where "TURBOS_DISCOVERY_PACKAGE = ''0x91bfbc386a41afcfd9b2533058d7e915a1d3829089cc268ff4333d54d6339ca1''"

definition TURBOS_SWAP_PACKAGE :: string where "TURBOS_SWAP_PACKAGE = ''0xa5a0c25c79e428eba04fb98b3fb2a34db45ab26d4c8faf0d7e39d66a63891e64''"

definition MAGMA_DISCOVERY_PACKAGE :: string where "MAGMA_DISCOVERY_PACKAGE = ''0x4a35d3dfef55ed3631b7158544c6322a23bc434fe4fca1234cb680ce0505f82d''"

definition MAGMA_SWAP_PACKAGE :: string where "MAGMA_SWAP_PACKAGE = ''0x0acd1d187950450ae3e625375f8067a7802e99a05b6e655e1fec124a0e3c891e''"

definition MOMENTUM_DISCOVERY_PACKAGE :: string where "MOMENTUM_DISCOVERY_PACKAGE = ''0x70285592c97965e811e0c6f98dccc3a9c2b4ad854b3594faab9597ada267b860''"

definition CETUS_GLOBAL_CONFIG :: string where "CETUS_GLOBAL_CONFIG = ''0xdaa46292632c3c4d8f31f23ea0f9b36a28ff3677e9684980e4438403a67a3d8f''"

definition MAGMA_GLOBAL_CONFIG :: string where "MAGMA_GLOBAL_CONFIG = ''0x4c4e1402401f72c7d8533d0ed8d5f8949da363c7a3319ccef261ffe153d32f8a''"

definition MOMENTUM_VERSION_OBJECT :: string where "MOMENTUM_VERSION_OBJECT = ''0x2375a0b1ec12010aaea3b2545acfa2ad34cfbba03ce4b59f4c39e1e25eed1b2a''"

definition TURBOS_VERSIONED :: string where "TURBOS_VERSIONED = ''0xf1cf0e81048df168ebeb1b8030fad24b3e0b53ae827c25053fff0779c1445b6f''"

definition SUI_CLOCK :: string where "SUI_CLOCK = ''0x6''"

definition SUI_FRAMEWORK_PACKAGE :: string where "SUI_FRAMEWORK_PACKAGE = ''0x2''"

definition ALL_DISCOVERY_SPECS :: "dex_discovery_spec list" where
  "ALL_DISCOVERY_SPECS =
     [\<lparr>ds_dex_name = ''Cetus'', ds_package_id = CETUS_DISCOVERY_PACKAGE,
       pool_object_type = ''0x1eabed72c53feb3805120a081dc15963c204dc8d091542592abaf7a35689b2fb::pool::Pool'',
       create_pool_event_types = [''0x1eabed72c53feb3805120a081dc15963c204dc8d091542592abaf7a35689b2fb::factory::CreatePoolEvent''],
       pool_type_module = ''pool'', required_event_fields = [''pool_id'', ''coin_type_a'', ''coin_type_b'']\<rparr>,
      \<lparr>ds_dex_name = ''Turbos'', ds_package_id = TURBOS_DISCOVERY_PACKAGE,
       pool_object_type = ''0x91bfbc386a41afcfd9b2533058d7e915a1d3829089cc268ff4333d54d6339ca1::pool::Pool'',
       create_pool_event_types = [''0x91bfbc386a41afcfd9b2533058d7e915a1d3829089cc268ff4333d54d6339ca1::pool_factory::PoolCreatedEvent''],
       pool_type_module = ''pool'', required_event_fields = [''pool'']\<rparr>,
      \<lparr>ds_dex_name = ''Magma'', ds_package_id = MAGMA_DISCOVERY_PACKAGE,
       pool_object_type = ''0x4a35d3dfef55ed3631b7158544c6322a23bc434fe4fca1234cb680ce0505f82d::pool::Pool'',
       create_pool_event_types = [''0x4a35d3dfef55ed3631b7158544c6322a23bc434fe4fca1234cb680ce0505f82d::factory::CreatePoolEvent''],
       pool_type_module = ''pool'', required_event_fields = [''pool_id'', ''coin_type_a'', ''coin_type_b'']\<rparr>,
      \<lparr>ds_dex_name = ''Momentum'', ds_package_id = MOMENTUM_DISCOVERY_PACKAGE,
       pool_object_type = ''0x70285592c97965e811e0c6f98dccc3a9c2b4ad854b3594faab9597ada267b860::pool::Pool'',
       create_pool_event_types = [''0x70285592c97965e811e0c6f98dccc3a9c2b4ad854b3594faab9597ada267b860::create_pool::PoolCreatedEvent''],
       pool_type_module = ''pool'', required_event_fields = [''pool_id'', ''type_x'', ''type_y'']\<rparr>]"

definition ALL_SWAP_CONTRACTS :: "dex_swap_contract list" where
  "ALL_SWAP_CONTRACTS =
     [\<lparr>sc_dex_name = ''Cetus'', sc_package_id = CETUS_SWAP_PACKAGE, swap_module = ''pool'', shared_objects = [CETUS_GLOBAL_CONFIG, SUI_CLOCK]\<rparr>,
      \<lparr>sc_dex_name = ''Turbos'', sc_package_id = TURBOS_SWAP_PACKAGE, swap_module = ''swap_router'', shared_objects = [TURBOS_VERSIONED, SUI_CLOCK]\<rparr>,
      \<lparr>sc_dex_name = ''Magma'', sc_package_id = MAGMA_SWAP_PACKAGE, swap_module = ''pool'', shared_objects = [MAGMA_GLOBAL_CONFIG, SUI_CLOCK]\<rparr>,
      \<lparr>sc_dex_name = ''Momentum'', sc_package_id = MOMENTUM_DISCOVERY_PACKAGE, swap_module = ''trade'', shared_objects = [MOMENTUM_VERSION_OBJECT, SUI_CLOCK]\<rparr>]"

definition spec_for_dex_name :: "string \<Rightarrow> dex_discovery_spec option" where
  "spec_for_dex_name name =
     (let lower = to_lowercase name
      in find (\<lambda>s. to_lowercase (ds_dex_name s) = lower \<or> contains lower (to_lowercase (ds_dex_name s)))
           ALL_DISCOVERY_SPECS)"

definition swap_contract_for_dex_name :: "string \<Rightarrow> dex_swap_contract option" where
  "swap_contract_for_dex_name name =
     (let lower = to_lowercase name
      in find (\<lambda>s. to_lowercase (sc_dex_name s) = lower \<or> contains lower (to_lowercase (sc_dex_name s)))
           ALL_SWAP_CONTRACTS)"

definition all_swap_shared_object_ids :: "string list" where
  "all_swap_shared_object_ids =
     fold (\<lambda>spec ids. fold (\<lambda>obj ids. if obj \<in> set ids then ids else ids @ [obj]) (shared_objects spec) ids)
       ALL_SWAP_CONTRACTS [SUI_CLOCK]"

text \<open>\<open>trim_start_matches("0x")\<close> removes the prefix as often as it occurs.\<close>

fun trim_start_0x :: "string \<Rightarrow> string" where
  "trim_start_0x (a # b # s) = (if a = CHR ''0'' \<and> b = CHR ''x'' then trim_start_0x s else a # b # s)"
| "trim_start_0x s = s"

definition normalize_object_id :: "string \<Rightarrow> string" where
  "normalize_object_id object_id =
     (let hex = to_lowercase (trim_start_0x (trim object_id))
      in ''0x'' @ replicate (64 - length hex) CHR ''0'' @ hex)"

definition shared_object_is_mutable :: "string \<Rightarrow> bool" where
  "shared_object_is_mutable object_id =
     (let id = normalize_object_id object_id;
          immutable = map normalize_object_id
            [SUI_CLOCK, CETUS_GLOBAL_CONFIG, MAGMA_GLOBAL_CONFIG, MOMENTUM_VERSION_OBJECT, TURBOS_VERSIONED]
      in id \<notin> set immutable)"

subsection \<open>The tables are consistent\<close>

text \<open>
  Every swap contract is found under its own name, belongs to an exchange that is also discovered,
  and lists only shared objects that transactions pass as immutable; every discovery type name lies in
  the package it is discovered under.
\<close>

theorem registry_consistent:
  "list_all (\<lambda>c. swap_contract_for_dex_name (sc_dex_name c) = Some c \<and>
       map_option ds_dex_name (spec_for_dex_name (sc_dex_name c)) = Some (sc_dex_name c) \<and>
       list_all (\<lambda>obj. \<not> shared_object_is_mutable obj) (shared_objects c)) ALL_SWAP_CONTRACTS \<and>
   list_all (\<lambda>s. starts_with (pool_object_type s) (ds_package_id s) \<and>
       list_all (\<lambda>e. starts_with e (ds_package_id s)) (create_pool_event_types s)) ALL_DISCOVERY_SPECS \<and>
   list_all (\<lambda>obj. \<not> shared_object_is_mutable obj) all_swap_shared_object_ids"
  by code_simp

end
