(* ===== verification/Router_Graph.thy ===== *)
theory Router_Graph
  imports Models
begin

text \<open>
  The path finding half of \<open>src/router.rs\<close>: the token graph, the hop-limited depth-first enumeration
  of simple paths, Dijkstra's search and the choice between them.

  The adjacency \<open>HashMap\<close> is a map from token to its edge vector.  \<open>BinaryHeap::pop\<close> promises a node of
  least cost but no order among equal costs, so the search takes the pop function as an argument;
  the interface it relies on is the locale \<open>binary_heap\<close>.
\<close>

subsection \<open>The token graph\<close>

record edge =
  e_pool_id :: string
  e_dex_name :: string
  e_fee_rate :: u64

record token_graph =
  adjacency_list :: "string \<rightharpoonup> (string \<times> edge) list"

record swap_hop =
  h_pool_id :: string
  h_dex_name :: string
  h_input_token :: string
  h_output_token :: string
  h_fee_rate :: u64

record route_path =
  hops :: "swap_hop list"

definition graph_new :: token_graph where
  "graph_new = \<lparr>adjacency_list = Map.empty\<rparr>"

text \<open>\<open>entry(k).or_default().push(v)\<close>\<close>

definition push_entry :: "('k \<rightharpoonup> 'v list) \<Rightarrow> 'k \<Rightarrow> 'v \<Rightarrow> ('k \<rightharpoonup> 'v list)" where
  "push_entry m k v = m(k \<mapsto> (case m k of None \<Rightarrow> [] | Some vs \<Rightarrow> vs) @ [v])"

definition pool_edge :: "pool_state \<Rightarrow> edge" where
  "pool_edge pool = \<lparr>e_pool_id = pool_id pool, e_dex_name = dex_name pool, e_fee_rate = fee_rate pool\<rparr>"

fun add_pools :: "(string \<rightharpoonup> (string \<times> edge) list) \<Rightarrow> pool_state list \<Rightarrow> (string \<rightharpoonup> (string \<times> edge) list)" where
  "add_pools adj [] = adj"
| "add_pools adj (pool # pools) =
     (if is_paused pool then add_pools adj pools
      else let adj1 = push_entry adj (coin_type_a pool) (coin_type_b pool, pool_edge pool);
               adj2 = push_entry adj1 (coin_type_b pool) (coin_type_a pool, pool_edge pool)
           in add_pools adj2 pools)"

definition build_from_pools :: "token_graph \<Rightarrow> pool_state list \<Rightarrow> token_graph" where
  "build_from_pools g pools = g\<lparr>adjacency_list := add_pools Map.empty pools\<rparr>"

text \<open>The edges leaving a token; a missing entry has none.\<close>

definition out_edges :: "token_graph \<Rightarrow> string \<Rightarrow> (string \<times> edge) list" where
  "out_edges g t = (case adjacency_list g t of None \<Rightarrow> [] | Some es \<Rightarrow> es)"

definition mk_hop :: "string \<Rightarrow> string \<times> edge \<Rightarrow> swap_hop" where
  "mk_hop current ne =
     \<lparr>h_pool_id = e_pool_id (snd ne), h_dex_name = e_dex_name (snd ne), h_input_token = current,
      h_output_token = fst ne, h_fee_rate = e_fee_rate (snd ne)\<rparr>"

subsection \<open>Depth-first enumeration\<close>

record dfs_state =
  visited :: "string set"
  current_path :: "swap_hop list"
  paths :: "route_path list"

text \<open>
  \<open>dfs_helper\<close> threads the three mutable arguments of the source.  The first argument bounds the
  depth of the recursion; the call in \<open>find_all_paths_dfs\<close> starts it one above \<open>max_hops\<close>, which the
  length check of the source never lets run out (lemma \<open>dfs_helper_eq\<close> holds for that value).
\<close>

fun dfs_helper :: "nat \<Rightarrow> token_graph \<Rightarrow> string \<Rightarrow> string \<Rightarrow> nat \<Rightarrow> dfs_state \<Rightarrow> dfs_state" where
  "dfs_helper 0 g current target max_hops st = st"
| "dfs_helper (Suc n) g current target max_hops st =
     (if current = target then
        (if current_path st \<noteq> [] then st\<lparr>paths := paths st @ [\<lparr>hops = current_path st\<rparr>]\<rparr> else st)
      else if max_hops \<le> length (current_path st) then st
      else
        let st1 = st\<lparr>visited := insert current (visited st)\<rparr>;
            st2 = (case adjacency_list g current of
                     None \<Rightarrow> st1
                   | Some edges \<Rightarrow>
                       fold (\<lambda>ne s.
                         if fst ne \<notin> visited s then
                           let s1 = s\<lparr>current_path := current_path s @ [mk_hop current ne]\<rparr>;
                               s2 = dfs_helper n g (fst ne) target max_hops s1
                           in s2\<lparr>current_path := butlast (current_path s2)\<rparr>
                         else s) edges st1)
        in st2\<lparr>visited := visited st2 - {current}\<rparr>)"

definition find_all_paths_dfs :: "token_graph \<Rightarrow> string \<Rightarrow> string \<Rightarrow> nat \<Rightarrow> route_path list" where
  "find_all_paths_dfs g from to max_hops =
     paths (dfs_helper (Suc max_hops) g from to max_hops
       \<lparr>visited = {}, current_path = [], paths = []\<rparr>)"

subsection \<open>Dijkstra's search\<close>

record dijkstra_node =
  n_token :: string
  n_cost :: u64

record dijkstra_state =
  dists :: "string \<rightharpoonup> u64"
  parent :: "string \<rightharpoonup> (string \<times> edge)"
  heap :: "dijkstra_node list"

definition edge_weight :: "edge \<Rightarrow> u64" where
  "edge_weight e = e_fee_rate e + 100"

text \<open>One iteration of the loop over the edges of a popped token.\<close>

definition relax_edge :: "string \<Rightarrow> u64 \<Rightarrow> string \<times> edge \<Rightarrow> dijkstra_state \<Rightarrow> dijkstra_state" where
  "relax_edge token cost ne st =
     (let next_token = fst ne;
          next_cost = cost + edge_weight (snd ne);
          should_update = (case dists st next_token of Some d \<Rightarrow> next_cost < d | None \<Rightarrow> True)
      in if should_update then
           st\<lparr>dists := (dists st)(next_token \<mapsto> next_cost),
              parent := (parent st)(next_token \<mapsto> (token, snd ne)),
              heap := heap st @ [\<lparr>n_token = next_token, n_cost = next_cost\<rparr>]\<rparr>
         else st)"

text \<open>Walking the parent links back from the target; \<open>None\<close> means the walk does not end.\<close>

partial_function (option) reconstruct ::
  "(string \<rightharpoonup> (string \<times> edge)) \<Rightarrow> string \<Rightarrow> swap_hop list \<Rightarrow> swap_hop list option" where
  "reconstruct par cur acc =
     (case par cur of
        None \<Rightarrow> Some acc
      | Some pe \<Rightarrow> reconstruct par (fst pe) (mk_hop (fst pe) (cur, snd pe) # acc))"

text \<open>
  The main loop, with the heap's pop as an argument.  The outer \<open>option\<close> is non-termination, the
  inner one the \<open>Option<RoutePath>\<close> of the source.
\<close>

partial_function (option) dijkstra_loop ::
  "(dijkstra_node list \<Rightarrow> (dijkstra_node \<times> dijkstra_node list) option) \<Rightarrow> token_graph \<Rightarrow> string \<Rightarrow>
   dijkstra_state \<Rightarrow> route_path option option" where
  "dijkstra_loop pop g to st =
     (case pop (heap st) of
        None \<Rightarrow> Some None
      | Some nh \<Rightarrow>
          (let token = n_token (fst nh); cost = n_cost (fst nh); st1 = st\<lparr>heap := snd nh\<rparr>
           in if token = to then
                (case reconstruct (parent st1) to [] of
                   None \<Rightarrow> None
                 | Some hs \<Rightarrow> Some (Some \<lparr>hops = hs\<rparr>))
              else if (case dists st1 token of Some d \<Rightarrow> d < cost | None \<Rightarrow> False) then
                dijkstra_loop pop g to st1
              else
                dijkstra_loop pop g to (fold (relax_edge token cost) (out_edges g token) st1)))"

declare reconstruct.simps [code] dijkstra_loop.simps [code]

definition dijkstra_init :: "string \<Rightarrow> dijkstra_state" where
  "dijkstra_init from =
     \<lparr>dists = [from \<mapsto> 0], parent = Map.empty, heap = [\<lparr>n_token = from, n_cost = 0\<rparr>]\<rparr>"

definition find_shortest_path_dijkstra ::
  "(dijkstra_node list \<Rightarrow> (dijkstra_node \<times> dijkstra_node list) option) \<Rightarrow> token_graph \<Rightarrow> string \<Rightarrow>
   string \<Rightarrow> route_path option option" where
  "find_shortest_path_dijkstra pop g from to = dijkstra_loop pop g to (dijkstra_init from)"

text \<open>A pop function: the first node of least cost.\<close>

fun pop_min :: "dijkstra_node list \<Rightarrow> (dijkstra_node \<times> dijkstra_node list) option" where
  "pop_min [] = None"
| "pop_min (n # ns) =
     (case pop_min ns of
        None \<Rightarrow> Some (n, [])
      | Some (k, ks) \<Rightarrow> if n_cost n \<le> n_cost k then Some (n, ns) else Some (k, n # ks))"

subsection \<open>Route selection\<close>

record route_config =
  small_amount_threshold :: u128
  max_hops :: nat

definition route_config_default :: route_config where
  "route_config_default = \<lparr>small_amount_threshold = 100000000, max_hops = 3\<rparr>"

definition find_best_route ::
  "(dijkstra_node list \<Rightarrow> (dijkstra_node \<times> dijkstra_node list) option) \<Rightarrow> token_graph \<Rightarrow> string \<Rightarrow>
   string \<Rightarrow> u128 \<Rightarrow> route_config \<Rightarrow> route_path list option" where
  "find_best_route pop g from to amount config =
     (if amount \<le> small_amount_threshold config then
        (case find_shortest_path_dijkstra pop g from to of
           None \<Rightarrow> None
         | Some (Some path) \<Rightarrow> Some [path]
         | Some None \<Rightarrow> Some [])
      else Some (find_all_paths_dfs g from to (max_hops config)))"

subsection \<open>The graph holds exactly the active pools\<close>

text \<open>The edges an active pool contributes to the vector of a token, in insertion order.\<close>

definition pool_edges_at :: "string \<Rightarrow> pool_state \<Rightarrow> (string \<times> edge) list" where
  "pool_edges_at t pool =
     (if is_paused pool then []
      else (if coin_type_a pool = t then [(coin_type_b pool, pool_edge pool)] else [])
         @ (if coin_type_b pool = t then [(coin_type_a pool, pool_edge pool)] else []))"

definition entries :: "('k \<rightharpoonup> 'v list) \<Rightarrow> 'k \<Rightarrow> 'v list" where
  "entries m k = (case m k of None \<Rightarrow> [] | Some vs \<Rightarrow> vs)"

lemma entries_push_entry: "entries (push_entry m k v) j = entries m j @ (if j = k then [v] else [])"
  by (simp add: entries_def push_entry_def)

lemma entries_add_pools:
  "entries (add_pools adj pools) t = entries adj t @ concat (map (pool_edges_at t) pools)"
  by (induction adj pools rule: add_pools.induct)
    (auto simp: entries_push_entry pool_edges_at_def Let_def)

lemma out_edges_entries: "out_edges g t = entries (adjacency_list g) t"
  by (simp add: out_edges_def entries_def)

lemma out_edges_build:
  "out_edges (build_from_pools g pools) t = concat (map (pool_edges_at t) pools)"
  by (simp add: out_edges_entries build_from_pools_def entries_add_pools) (simp add: entries_def)

text \<open>A hop that trades through a given pool, in either direction.\<close>

definition hop_of_pool :: "pool_state \<Rightarrow> swap_hop \<Rightarrow> bool" where
  "hop_of_pool pool h \<longleftrightarrow>
     \<not> is_paused pool \<and> h_pool_id h = pool_id pool \<and> h_dex_name h = dex_name pool \<and>
     h_fee_rate h = fee_rate pool \<and>
     ((h_input_token h = coin_type_a pool \<and> h_output_token h = coin_type_b pool) \<or>
      (h_input_token h = coin_type_b pool \<and> h_output_token h = coin_type_a pool))"

lemma hops_of_build:
  "(\<exists>ne \<in> set (out_edges (build_from_pools g pools) cur). h = mk_hop cur ne) \<longleftrightarrow>
   (\<exists>pool \<in> set pools. hop_of_pool pool h) \<and> h_input_token h = cur"
proof -
  have "(\<exists>ne \<in> set (pool_edges_at cur pool). h = mk_hop cur ne) \<longleftrightarrow> hop_of_pool pool h \<and> h_input_token h = cur"
    for pool
    by (cases h) (auto simp: pool_edges_at_def hop_of_pool_def pool_edge_def mk_hop_def)
  then show ?thesis by (auto simp: out_edges_build) 
qed

subsection \<open>Chains of hops\<close>

text \<open>\<open>hop_chain g a hs b\<close>: the hops lead from token \<open>a\<close> to token \<open>b\<close>, each along an edge of the graph.\<close>

fun hop_chain :: "token_graph \<Rightarrow> string \<Rightarrow> swap_hop list \<Rightarrow> string \<Rightarrow> bool" where
  "hop_chain g a [] b = (a = b)"
| "hop_chain g a (h # hs) b =
     ((\<exists>ne \<in> set (out_edges g a). h = mk_hop a ne) \<and> hop_chain g (h_output_token h) hs b)"

definition path_tokens :: "string \<Rightarrow> swap_hop list \<Rightarrow> string list" where
  "path_tokens a hs = a # map h_output_token hs"

lemma path_tokens_simps [simp]:
  "path_tokens a [] = [a]" "path_tokens a (h # hs) = a # path_tokens (h_output_token h) hs"
  by (simp_all add: path_tokens_def)

lemma path_tokens_not_Nil [simp]: "path_tokens a hs \<noteq> []"
  by (simp add: path_tokens_def)

lemma hop_chain_append:
  "hop_chain g a (hs @ ks) c \<longleftrightarrow> (\<exists>b. hop_chain g a hs b \<and> hop_chain g b ks c)"
  by (induction hs arbitrary: a) auto

lemma hop_chain_last: "hop_chain g a hs b \<Longrightarrow> last (path_tokens a hs) = b"
  by (induction hs arbitrary: a) auto

lemma start_in_path_tokens [simp]: "a \<in> set (path_tokens a hs)"
  by (cases hs) auto

lemma hop_chain_end_in: "hop_chain g a hs b \<Longrightarrow> b \<in> set (path_tokens a hs)"
  using hop_chain_last last_in_set path_tokens_not_Nil by metis

lemma hop_chain_cycle: "hop_chain g a hs a \<Longrightarrow> distinct (path_tokens a hs) \<longleftrightarrow> hs = []"
  by (cases hs) (auto dest: hop_chain_end_in)

lemma mk_hop_out [simp]: "h_output_token (mk_hop a ne) = fst ne" "h_input_token (mk_hop a ne) = a"
  by (simp_all add: mk_hop_def)

subsection \<open>The depth-first search enumerates the simple paths\<close>

text \<open>The enumeration without the mutable state: \<open>V\<close> is the set of tokens on the path so far.\<close>

fun routes_from :: "nat \<Rightarrow> token_graph \<Rightarrow> string \<Rightarrow> string set \<Rightarrow> string \<Rightarrow> swap_hop list list" where
  "routes_from 0 g target V cur = (if cur = target then [[]] else [])"
| "routes_from (Suc b) g target V cur =
     (if cur = target then [[]]
      else concat (map (\<lambda>ne. if fst ne \<notin> insert cur V
                             then map ((#) (mk_hop cur ne)) (routes_from b g target (insert cur V) (fst ne))
                             else []) (out_edges g cur)))"

lemma routes_from_iff:
  assumes "cur \<notin> V"
  shows "r \<in> set (routes_from b g target V cur) \<longleftrightarrow>
    hop_chain g cur r target \<and> length r \<le> b \<and> distinct (path_tokens cur r) \<and> set (path_tokens cur r) \<inter> V = {}"
  using assms
proof (induction b g target V cur arbitrary: r rule: routes_from.induct)
  case (1 g target V cur)
  then show ?case by (cases r) auto
next
  case (2 b g target V cur)
  show ?case
  proof (cases "cur = target")
    case True
    with 2(2) show ?thesis by (cases r) (auto dest: hop_chain_end_in)
  next
    case False
    note IH = 2(1)[OF False]
    show ?thesis 
    proof (cases r)
      case Nil
      with False show ?thesis by (auto split: if_splits)
    next
      case (Cons h hs)
      define Q where "Q t \<longleftrightarrow> hop_chain g t hs target \<and> length hs \<le> b \<and> distinct (path_tokens t hs) \<and>
          set (path_tokens t hs) \<inter> insert cur V = {}" for t
      have Q: "Q t \<Longrightarrow> t \<notin> insert cur V" for t
        unfolding Q_def using start_in_path_tokens [of t hs] by blast
      have "r \<in> set (routes_from (Suc b) g target V cur) \<longleftrightarrow>
        (\<exists>ne \<in> set (out_edges g cur). fst ne \<notin> insert cur V \<and> h = mk_hop cur ne \<and>
           hs \<in> set (routes_from b g target (insert cur V) (fst ne)))"
        using False Cons by (auto split: if_splits)
      also have "\<dots> \<longleftrightarrow> (\<exists>ne \<in> set (out_edges g cur). fst ne \<notin> insert cur V \<and> h = mk_hop cur ne \<and> Q (fst ne))"
        using IH by (intro bex_cong conj_cong refl) (auto simp: Q_def)
      also have "\<dots> \<longleftrightarrow> (\<exists>ne \<in> set (out_edges g cur). h = mk_hop cur ne) \<and> Q (h_output_token h)"
        using Q mk_hop_out(1) by metis
      also have "\<dots> \<longleftrightarrow> hop_chain g cur r target \<and> length r \<le> Suc b \<and> distinct (path_tokens cur r) \<and>
          set (path_tokens cur r) \<inter> V = {}"
        using Cons 2(2) by (auto simp: Q_def)
      finally show ?thesis .
    qed
  qed
qed

definition add_routes :: "swap_hop list list \<Rightarrow> dfs_state \<Rightarrow> dfs_state" where
  "add_routes rs st = st\<lparr>paths := paths st @ map (\<lambda>r. \<lparr>hops = r\<rparr>) (filter (\<lambda>r. r \<noteq> []) (map ((@) (current_path st)) rs))\<rparr>"

lemma add_routes_fields [simp]:
  "visited (add_routes rs st) = visited st" "current_path (add_routes rs st) = current_path st"
  by (simp_all add: add_routes_def)

lemma add_routes_Nil [simp]: "add_routes [] st = st"
  by (simp add: add_routes_def)

lemma add_routes_append: "add_routes (rs @ qs) st = add_routes qs (add_routes rs st)"
  by (simp add: add_routes_def)

text \<open>
  The recursion leaves the path and the visited set as it found them and appends the enumerated
  routes, whenever the fuel is above the number of hops still allowed.
\<close>

lemma dfs_step_eq:
  assumes IH: "\<And>cur st. cur \<notin> visited st \<Longrightarrow> length (current_path st) + b = k \<Longrightarrow>
      dfs_helper n g cur target k st = add_routes (routes_from b g target (visited st) cur) st"
    and st: "V = visited st" "length (current_path st) + Suc b = k"
  shows "fold (\<lambda>ne s.
       if fst ne \<notin> visited s then
         let s1 = s\<lparr>current_path := current_path s @ [mk_hop cur ne]\<rparr>;
             s2 = dfs_helper n g (fst ne) target k s1
         in s2\<lparr>current_path := butlast (current_path s2)\<rparr>
       else s) es st =
     add_routes (concat (map (\<lambda>ne. if fst ne \<notin> V then map ((#) (mk_hop cur ne)) (routes_from b g target V (fst ne))
                             else []) es)) st"
  using st
proof (induction es arbitrary: st)
  case (Cons ne es)
  let ?one = "\<lambda>s. if fst ne \<notin> visited s then
         let s1 = s\<lparr>current_path := current_path s @ [mk_hop cur ne]\<rparr>;
             s2 = dfs_helper n g (fst ne) target k s1
         in s2\<lparr>current_path := butlast (current_path s2)\<rparr>
       else s"
  have one: "?one st = add_routes (if fst ne \<notin> V then map ((#) (mk_hop cur ne)) (routes_from b g target V (fst ne)) else []) st"
  proof (cases "fst ne \<in> visited st")
    case False
    with Cons.prems IH[of "fst ne" "st\<lparr>current_path := current_path st @ [mk_hop cur ne]\<rparr>"]
    show ?thesis by (simp add: Let_def) (simp add: add_routes_def o_def)
  qed (simp add: Cons.prems)
  show ?case using Cons.IH[of "?one st"] Cons.prems unfolding one by (simp add: add_routes_append one del: Let_def)
qed simp

lemma dfs_helper_eq:
  "cur \<notin> visited st \<Longrightarrow> length (current_path st) + b = k \<Longrightarrow> b < n \<Longrightarrow>
   dfs_helper n g cur target k st = add_routes (routes_from b g target (visited st) cur) st"
proof (induction n arbitrary: b cur st)
  case (Suc n)
  show ?case
  proof (cases "cur = target")
    case True
    then show ?thesis by (cases b) (simp_all add: add_routes_def)
  next
    case False
    show ?thesis
    proof (cases b)
      case 0
      with False Suc.prems show ?thesis by simp
    next
      case (Suc b')
      have "\<And>cur st. cur \<notin> visited st \<Longrightarrow> length (current_path st) + b' = k \<Longrightarrow>
        dfs_helper n g cur target k st = add_routes (routes_from b' g target (visited st) cur) st"
        using Suc.IH Suc.prems Suc by simp
      note step = dfs_step_eq[OF this, of "insert cur (visited st)" "st\<lparr>visited := insert cur (visited st)\<rparr>" cur "out_edges g cur"]
      show ?thesis using False Suc.prems Suc step
        by (auto simp: Let_def out_edges_def add_routes_def split: option.splits)
    qed
  qed
qed simp

lemma find_all_paths_dfs_eq:
  "map hops (find_all_paths_dfs g from to k) = filter (\<lambda>r. r \<noteq> []) (routes_from k g to {} from)"
  unfolding find_all_paths_dfs_def
  by (subst dfs_helper_eq [where b = k]) (simp_all add: add_routes_def o_def append_Nil [abs_def])

lemma dfs_paths_iff:
  "p \<in> set (find_all_paths_dfs g from to k) \<longleftrightarrow>
   hops p \<noteq> [] \<and> hop_chain g from (hops p) to \<and> length (hops p) \<le> k \<and> distinct (path_tokens from (hops p))"
proof -
  have "p \<in> set (find_all_paths_dfs g from to k) \<longleftrightarrow> hops p \<in> set (map hops (find_all_paths_dfs g from to k))"
    by (auto simp: image_iff) (metis route_path.equality old.unit.exhaust)
  then show ?thesis by (simp add: find_all_paths_dfs_eq routes_from_iff) blast
qed

end
