(* ===== verification/Slippage.thy ===== *)
theory Slippage
  imports Models
begin

text \<open>
  \<open>src/slippage.rs\<close>: the basis-point slippage budget, the minimum outputs derived from it and the
  square-root price limits of a hop.  Amounts are 128-bit words; the tolerance enters as \<open>f64\<close>.
  \<open>powf\<close> and \<open>powi\<close> come from the \<open>libm\<close> argument.
\<close>

subsection \<open>Definitions\<close>

definition MIN_SQRT_PRICE :: string where "MIN_SQRT_PRICE = ''4295048016''"

definition MAX_SQRT_PRICE :: string where "MAX_SQRT_PRICE = ''79226673515401279992447579055''"

definition BPS_SCALE :: u32 where "BPS_SCALE = 10000"

datatype slippage_bps = SlippageBps u32

datatype slippage_error = NotFinite | OutOfRange

definition u32_as_f64 :: "u32 \<Rightarrow> f64" where
  "u32_as_f64 w = int_as_f64 (uint w)"

definition try_from_tolerance :: "f64 \<Rightarrow> (slippage_bps, slippage_error) outcome" where
  "try_from_tolerance tolerance =
     (if \<not> is_finite tolerance then Err NotFinite
      else if \<not> (fle (lit 0) tolerance \<and> flt tolerance (lit 1)) then Err OutOfRange
      else let bps = f64_as_u32 (fround (fmul tolerance (u32_as_f64 BPS_SCALE)))
           in Ok (SlippageBps (min bps (BPS_SCALE - 1))))"

fun bps :: "slippage_bps \<Rightarrow> u32" where
  "bps (SlippageBps b) = b"

definition retain_bps :: "slippage_bps \<Rightarrow> u32" where
  "retain_bps s = BPS_SCALE - bps s"

definition apply_retain_bps :: "u128 \<Rightarrow> u32 \<Rightarrow> u128" where
  "apply_retain_bps amount r =
     (let retain = ucast r; scale = ucast BPS_SCALE
      in amount div scale * retain + amount mod scale * retain div scale)"

definition apply_to_amount :: "slippage_bps \<Rightarrow> u128 \<Rightarrow> u128" where
  "apply_to_amount s amount = apply_retain_bps amount (retain_bps s)"

definition compound_retain_bps :: "libm \<Rightarrow> u32 \<Rightarrow> u32 \<Rightarrow> u32 \<Rightarrow> u32" where
  "compound_retain_bps m total_slippage_bps hop_one_based total_hops =
     (if total_hops = 0 \<or> hop_one_based = 0 then BPS_SCALE
      else
        let retain_ratio = fdiv (u32_as_f64 (BPS_SCALE - total_slippage_bps)) (u32_as_f64 BPS_SCALE);
            exponent = fdiv (u32_as_f64 hop_one_based) (u32_as_f64 total_hops);
            factor = fpowf m retain_ratio exponent
        in f64_as_u32 (ffloor (fmul factor (u32_as_f64 BPS_SCALE))))"

definition incremental_hop_retain_bps :: "libm \<Rightarrow> slippage_bps \<Rightarrow> u32 \<Rightarrow> u32" where
  "incremental_hop_retain_bps m s total_hops =
     (if total_hops \<le> 1 then retain_bps s else compound_retain_bps m (bps s) 1 total_hops)"

definition hop_adverse_bps :: "libm \<Rightarrow> slippage_bps \<Rightarrow> nat \<Rightarrow> nat \<Rightarrow> u32" where
  "hop_adverse_bps m s hop_idx total_hops =
     (if total_hops \<le> 1 \<or> hop_idx + 1 = total_hops then bps s
      else BPS_SCALE - incremental_hop_retain_bps m s (of_nat total_hops))"

definition path_min_amount_out :: "u128 \<Rightarrow> slippage_bps \<Rightarrow> u128" where
  "path_min_amount_out total_out s = apply_to_amount s total_out"

definition intermediate_hop_min_out :: "libm \<Rightarrow> u128 \<Rightarrow> slippage_bps \<Rightarrow> u32 \<Rightarrow> u128" where
  "intermediate_hop_min_out m expected_out s total_hops =
     (let retain = incremental_hop_retain_bps m s total_hops in apply_retain_bps expected_out retain)"

definition MIN_SQRT_PRICE_F64 :: f64 where "MIN_SQRT_PRICE_F64 = lit 4295048016"

definition MAX_SQRT_PRICE_F64 :: f64 where "MAX_SQRT_PRICE_F64 = lit 79226673515401279992447579055"

text \<open>\<open>parse().unwrap()\<close> of the two constants; lemma \<open>parse_limits\<close> shows that it cannot panic.\<close>

definition min_u128 :: u128 where "min_u128 = the (parse_u128 MIN_SQRT_PRICE)"

definition max_u128 :: u128 where "max_u128 = the (parse_u128 MAX_SQRT_PRICE)"

definition static_sqrt_price_limit :: "bool \<Rightarrow> u128" where
  "static_sqrt_price_limit is_a_to_b = (if is_a_to_b then min_u128 else max_u128)"

definition u128_clamp :: "u128 \<Rightarrow> u128 \<Rightarrow> u128 \<Rightarrow> u128" where
  "u128_clamp x lo hi = (if x < lo then lo else if hi < x then hi else x)"

definition dynamic_sqrt_price_limit_raw :: "libm \<Rightarrow> f64 \<Rightarrow> int \<Rightarrow> bool \<Rightarrow> u32 \<Rightarrow> u128" where
  "dynamic_sqrt_price_limit_raw m final_sqrt_internal factor_bits is_a_to_b adverse_slippage_bps =
     (if \<not> is_finite final_sqrt_internal \<or> fle final_sqrt_internal (lit 0) then static_sqrt_price_limit is_a_to_b
      else
        let scale = fpowi m (lit 2) factor_bits;
            adverse_frac = fdiv (u32_as_f64 adverse_slippage_bps) (u32_as_f64 BPS_SCALE);
            limit_internal = (if is_a_to_b then fmul final_sqrt_internal (fsub (lit 1) adverse_frac)
                              else fmul final_sqrt_internal (fadd (lit 1) adverse_frac));
            raw0 = ffloor (fmul limit_internal scale);
            final_raw = fmul final_sqrt_internal scale;
            raw = (if is_a_to_b then fmin raw0 final_raw else fmax raw0 final_raw);
            clamped = f64_as_u128 (fclamp raw MIN_SQRT_PRICE_F64 MAX_SQRT_PRICE_F64)
        in u128_clamp clamped min_u128 max_u128)"

subsection \<open>The retained amount is the exact floor\<close>

lemma split_floor: "(a :: nat) div s * k + a mod s * k div s = a * k div s"
proof (cases "s = 0")
  case False
  have "a * k = (a mod s * k) + (a div s * k) * s"
    by (metis (no_types) add.commute div_mult_mod_eq distrib_right mult.commute mult.left_commute)
  then show ?thesis using False by (metis div_mult_self1 add.commute)
qed simp

lemma unat_ucast_u128 [simp]: "unat (ucast (r :: u32) :: u128) = unat r"
proof -
  have "unat r < 2 ^ 32" using unsigned_less [of r, where 'a = nat] by simp
  then have "unat r < 2 ^ 128" by (rule less_le_trans) simp
  then show ?thesis by (simp add: unsigned_ucast_eq take_bit_nat_eq_self)
qed

lemma unat_scale [simp]: "unat BPS_SCALE = 10000"
  by (simp add: BPS_SCALE_def)

lemma unat_apply_retain_bps:
  assumes "unat r \<le> 10000"
  shows "unat (apply_retain_bps amount r) = unat amount * unat r div 10000"
proof -
  let ?a = "unat amount" and ?k = "unat r"
  have a: "?a < 2 ^ 128" using unsigned_less [of amount, where 'a = nat] by simp
  have total: "?a * ?k div 10000 \<le> ?a"
    using assms by (metis div_le_mono div_mult_self_is_m mult.commute mult_le_mono2 zero_less_numeral)
  then have q: "?a div 10000 * ?k < 2 ^ 128" and s: "?a div 10000 * ?k + ?a mod 10000 * ?k div 10000 < 2 ^ 128"
    using a split_floor [of ?a 10000 ?k] by linarith+
  have "?a mod 10000 * ?k \<le> 10000 * 10000"
    using assms by (intro mult_le_mono) auto
  then have r: "?a mod 10000 * ?k < 2 ^ 128" by simp
  let ?q = "amount div ucast BPS_SCALE * ucast r" and ?r = "amount mod ucast BPS_SCALE * ucast r div ucast BPS_SCALE"
  have uq: "unat ?q = ?a div 10000 * ?k"
    using q by (subst unat_mult_lem [THEN iffD1]) (simp_all add: unat_div)
  have ur: "unat ?r = ?a mod 10000 * ?k div 10000"
    using r by (subst unat_div, subst unat_mult_lem [THEN iffD1]) (simp_all add: unat_mod)
  have "unat (apply_retain_bps amount r) = ?a div 10000 * ?k + ?a mod 10000 * ?k div 10000"
    unfolding apply_retain_bps_def Let_def using s uq ur
    by (subst unat_add_lem [THEN iffD1]) simp_all
  then show ?thesis by (simp add: split_floor)
qed

lemma apply_retain_le: "unat r \<le> 10000 \<Longrightarrow> apply_retain_bps amount r \<le> amount"
proof -
  assume "unat r \<le> 10000"
  then have "unat amount * unat r div 10000 \<le> unat amount * 10000 div 10000"
    by (intro div_le_mono mult_le_mono2)
  with \<open>unat r \<le> 10000\<close> show ?thesis by (simp add: word_le_nat_alt unat_apply_retain_bps)
qed

subsection \<open>Budgets\<close>

lemma scale_f64: "u32_as_f64 BPS_SCALE = Fin False 10000"
  by code_simp

lemma lit_0 [simp]: "lit 0 = Fin False 0" and lit_1 [simp]: "lit 1 = Fin False 1"
  by code_simp+

definition valid_bps :: "slippage_bps \<Rightarrow> bool" where
  "valid_bps s \<longleftrightarrow> bps s < BPS_SCALE"

lemma unat_retain: "valid_bps s \<Longrightarrow> unat (retain_bps s) = 10000 - unat (bps s)"
  by (simp add: valid_bps_def retain_bps_def unat_sub word_less_nat_alt word_le_nat_alt)

lemma tolerance_scaled_error:
  assumes "0 \<le> x" "x < 1"
  shows "\<bar>round_mag (x * 10000) - x * 10000\<bar> \<le> 1 / 2 ^ 40" and "round_mag (x * 10000) \<le> 10000"
    and "0 \<le> round_mag (x * 10000)"
proof -
  have e: "round_mag 10000 = 10000" by code_simp
  then show "round_mag (x * 10000) \<le> 10000"
    using round_mag_mono [of "x * 10000" 10000] assms by simp
  show "0 \<le> round_mag (x * 10000)" using assms by (intro round_mag_nonneg) simp
  show "\<bar>round_mag (x * 10000) - x * 10000\<bar> \<le> 1 / 2 ^ 40"
  proof (cases "x = 0")
    case False
    with assms have "0 < x * 10000" by simp
    moreover have "ilog2 (x * 10000) \<le> ilog2 10000" using assms False by (intro ilog2_mono) auto
    moreover have "ilog2 10000 = 13" by code_simp
    ultimately have "pow2 (max (ilog2 (x * 10000) - 52) (- 1074)) \<le> pow2 (- 39)"
      by (intro pow2_mono) auto
    moreover have "pow2 (- 39) / 2 = 1 / 2 ^ 40" by code_simp
    ultimately show ?thesis using round_mag_error [OF \<open>0 < x * 10000\<close>] by linarith
  qed simp
qed

text \<open>The budget of an accepted tolerance: the scaled tolerance to the nearest basis point, at most 9999.\<close>

lemma try_from_tolerance_Fin:
  assumes "0 \<le> x" "x < 1" "s \<longrightarrow> x = 0"
  shows "\<exists>b. try_from_tolerance (Fin s x) = Ok (SlippageBps b) \<and>
     uint b = min \<lfloor>round_mag (x * 10000) + 1 / 2\<rfloor> 9999"
proof -
  let ?n = "\<lfloor>round_mag (x * 10000) + 1 / 2\<rfloor>"
  let ?w = "f64_as_u32 (fround (fmul (Fin s x) (u32_as_f64 BPS_SCALE)))"
  have "pow2 14 \<le> pow2 1023" by (rule pow2_mono) simp
  moreover have "pow2 14 = 16384" by code_simp
  ultimately have "x * 10000 \<le> pow2 1023" using assms by linarith
  then have f: "fmul (Fin s x) (u32_as_f64 BPS_SCALE) = Fin s (round_mag (x * 10000))"
    using assms by (simp add: scale_f64 mk_f64_small)
  note r = tolerance_scaled_error [OF assms(1,2)]
  have n: "0 \<le> ?n" "?n \<le> 10000"
    using r(2,3) by (simp_all add: floor_le_iff)
  have w: "uint ?w = ?n"
  proof (cases s)
    case True
    with assms show ?thesis unfolding f by (simp add: uint_f64_as_u32 floor_eq_iff)
  next
    case False
    have "wf_f64 (fround (Fin s (round_mag (x * 10000))))" using r(3) by simp
    then show ?thesis unfolding f using False n by (simp add: uint_f64_as_u32)
  qed
  have "uint (BPS_SCALE - 1) = 9999" by (simp add: BPS_SCALE_def)
  then have "uint (min ?w (BPS_SCALE - 1)) = min ?n 9999"
    using w by (simp add: min_def word_le_def)
  moreover have "try_from_tolerance (Fin s x) = Ok (SlippageBps (min ?w (BPS_SCALE - 1)))"
    using assms by (simp add: try_from_tolerance_def Let_def)
  ultimately show ?thesis by blast
qed

lemma tolerance_valid_bps: "wf_f64 t \<Longrightarrow> try_from_tolerance t = Ok s \<Longrightarrow> valid_bps s"
proof (cases t)
  case (Fin sg x)
  assume a: "wf_f64 t" "try_from_tolerance t = Ok s"
  then have "0 \<le> x" "x < 1" "sg \<longrightarrow> x = 0"
    using Fin by (auto simp: try_from_tolerance_def split: if_splits)
  from try_from_tolerance_Fin [OF this] a Fin show ?thesis
    by (auto simp: valid_bps_def word_less_def BPS_SCALE_def)
qed (simp_all add: try_from_tolerance_def)

text \<open>
  C10.  A tolerance is accepted exactly when it is finite and lies in \<open>0 \<le> t < 1\<close>; NaN and infinities give
  \<open>NotFinite\<close>, other values \<open>OutOfRange\<close>.  The accepted budget is below 10000 basis points and is a nearest whole number to
  \<open>10000 * t\<close>, or to 9999 where that is smaller: it is off by at most one half and the \<open>1 / 2^40\<close> that the floating-point product
  can be off.
\<close>

theorem try_from_tolerance_spec:
  assumes "wf_f64 t"
  shows "case try_from_tolerance t of
      Ok s \<Rightarrow> is_finite t \<and> 0 \<le> fval t \<and> fval t < 1 \<and> valid_bps s \<and>
        \<bar>of_int (uint (bps s)) - min (10000 * fval t) 9999\<bar> \<le> 1 / 2 + 1 / 2 ^ 40
    | Err NotFinite \<Rightarrow> \<not> is_finite t
    | Err OutOfRange \<Rightarrow> is_finite t \<and> (fval t < 0 \<or> 1 \<le> fval t)
    | Panic msg \<Rightarrow> False"
proof (cases t)
  case (Fin s x)
  show ?thesis
  proof (cases "0 \<le> fval t \<and> fval t < 1")
    case True
    with Fin assms have x: "0 \<le> x" "x < 1" "s \<longrightarrow> x = 0" and v: "fval t = x"
      by (auto split: if_splits)
    obtain b where b: "try_from_tolerance t = Ok (SlippageBps b)"
      "uint b = min \<lfloor>round_mag (x * 10000) + 1 / 2\<rfloor> 9999"
      using try_from_tolerance_Fin [OF x] Fin by blast
    define n where "n = \<lfloor>round_mag (x * 10000) + 1 / 2\<rfloor>"
    have n: "\<bar>of_int n - 10000 * x\<bar> \<le> 1 / 2 + 1 / 2 ^ 40"
      unfolding n_def using tolerance_scaled_error(1) [OF x(1,2)] floor_correct [of "round_mag (x * 10000) + 1 / 2"]
      by linarith
    have "of_int (uint b) = min (of_int n) (9999 :: rat)"
      unfolding b(2) n_def [symmetric] by (simp add: min_def)
    with n have "\<bar>of_int (uint b) - min (10000 * x) 9999\<bar> \<le> 1 / 2 + 1 / 2 ^ 40" by (auto simp: min_def abs_le_iff)
    moreover have "uint b < 10000" using b(2) by simp
    ultimately show ?thesis using b True Fin v
      by (simp add: valid_bps_def word_less_def BPS_SCALE_def)
  next
    case False
    with Fin show ?thesis by (auto simp: try_from_tolerance_def not_le not_less)
  qed
qed (simp_all add: try_from_tolerance_def)

theorem try_from_tolerance_spec_witness:
  "\<exists>s. try_from_tolerance (lit (1 / 200)) = Ok s \<and> valid_bps s \<and>
     \<bar>of_int (uint (bps s)) - min (10000 * fval (lit (1 / 200))) 9999\<bar> \<le> 1 / 2 + 1 / 2 ^ 40"
proof -
  have "try_from_tolerance (lit (1 / 200)) = Ok (SlippageBps 50)" by code_simp
  with try_from_tolerance_spec [OF wf_lit, of "1 / 200"] show ?thesis by simp
qed

text \<open>
  C9.  The minimum output of a path is the exact floor of \<open>total * (10000 - bps) / 10000\<close>: the 128-bit
  computation never wraps, whatever the amount, and the result never exceeds the amount.
\<close>

theorem path_min_amount_out_exact:
  assumes "valid_bps s"
  shows "unat (path_min_amount_out total_out s) = unat total_out * (10000 - unat (bps s)) div 10000 \<and>
    path_min_amount_out total_out s \<le> total_out"
  using assms unat_apply_retain_bps [of "retain_bps s" total_out] apply_retain_le [of "retain_bps s" total_out]
  by (simp add: path_min_amount_out_def apply_to_amount_def unat_retain)

theorem path_min_amount_out_exact_witness:
  "unat (path_min_amount_out (2 ^ 128 - 1) (SlippageBps 50)) =
     unat (2 ^ 128 - 1 :: u128) * (10000 - unat (bps (SlippageBps 50))) div 10000 \<and>
   path_min_amount_out (2 ^ 128 - 1) (SlippageBps 50) \<le> 2 ^ 128 - 1"
  by (rule path_min_amount_out_exact) (simp add: valid_bps_def BPS_SCALE_def)

subsection \<open>Price limits\<close>

lemma parse_limits:
  "parse_u128 MIN_SQRT_PRICE = Some 4295048016" "parse_u128 MAX_SQRT_PRICE = Some 79226673515401279992447579055"
  by (simp_all add: parse_u128_def parse_unsigned_def MIN_SQRT_PRICE_def MAX_SQRT_PRICE_def digit_of_def)

lemma limit_values [simp]: "min_u128 = 4295048016" "max_u128 = 79226673515401279992447579055"
  by (simp_all add: min_u128_def max_u128_def parse_limits)

lemma limit_casts: "f64_as_u128 MIN_SQRT_PRICE_F64 = min_u128" "max_u128 \<le> f64_as_u128 MAX_SQRT_PRICE_F64"
  unfolding limit_values by code_simp+

lemma u128_clamp_range: "lo \<le> hi \<Longrightarrow> lo \<le> u128_clamp x lo hi \<and> u128_clamp x lo hi \<le> hi"
  by (simp add: u128_clamp_def not_less)

lemma u128_clamp_lower: "min hi v \<le> x \<Longrightarrow> min hi v \<le> u128_clamp x lo hi"
  by (simp add: u128_clamp_def less_imp_le order_trans [of _ x])

lemma flt_imp_fle: "flt x y \<Longrightarrow> fle x y"
  by (cases "(x, y)" rule: flt.cases) auto

lemma fle_total: "\<not> is_nan x \<Longrightarrow> \<not> is_nan y \<Longrightarrow> \<not> flt x y \<Longrightarrow> fle y x"
  by (cases "(x, y)" rule: flt.cases) auto

lemma fmin_le: "\<not> is_nan y \<Longrightarrow> fle (fmin x y) y"
proof -
  have "\<not> is_nan y \<Longrightarrow> fle y y" by (cases y) auto
  then show "\<not> is_nan y \<Longrightarrow> fle (fmin x y) y" by (auto simp: fmin_def fle_total)
qed

lemma fmax_ge: "\<not> is_nan y \<Longrightarrow> fle y (fmax x y)"
proof -
  have "\<not> is_nan y \<Longrightarrow> fle y y" by (cases y) auto
  then show "\<not> is_nan y \<Longrightarrow> fle y (fmax x y)" by (auto simp: fmax_def fle_total)
qed

lemma wf_fmin [simp, intro]: "wf_f64 a \<Longrightarrow> wf_f64 b \<Longrightarrow> wf_f64 (fmin a b)"
  by (simp add: fmin_def)

lemma wf_limits [simp]: "wf_f64 MIN_SQRT_PRICE_F64" "wf_f64 MAX_SQRT_PRICE_F64"
  by (simp_all add: MIN_SQRT_PRICE_F64_def MAX_SQRT_PRICE_F64_def)

text \<open>Both clamps together: the limit lies between the on-chain bounds and follows the unclamped value.\<close>

definition clamp_limit :: "f64 \<Rightarrow> u128" where
  "clamp_limit raw = u128_clamp (f64_as_u128 (fclamp raw MIN_SQRT_PRICE_F64 MAX_SQRT_PRICE_F64)) min_u128 max_u128"

lemma clamp_limit_upper:
  assumes "wf_f64 x" shows "clamp_limit x \<le> max min_u128 (f64_as_u128 x)"
proof -
  let ?y = "if flt x MIN_SQRT_PRICE_F64 then MIN_SQRT_PRICE_F64 else x"
  have "f64_as_u128 (fclamp x MIN_SQRT_PRICE_F64 MAX_SQRT_PRICE_F64) \<le> f64_as_u128 ?y"
    using assms f64_as_u128_mono [OF _ _ flt_imp_fle, of MAX_SQRT_PRICE_F64 ?y]
    by (auto simp: fclamp_def Let_def)
  also have "\<dots> \<le> max min_u128 (f64_as_u128 x)" by (simp add: limit_casts)
  finally show ?thesis by (auto simp: clamp_limit_def u128_clamp_def le_max_iff_disj)
qed

lemma clamp_limit_lower:
  assumes "wf_f64 x" shows "min max_u128 (f64_as_u128 x) \<le> clamp_limit x"
proof -
  let ?y = "if flt x MIN_SQRT_PRICE_F64 then MIN_SQRT_PRICE_F64 else x"
  have "f64_as_u128 x \<le> f64_as_u128 ?y"
    using assms f64_as_u128_mono [OF _ _ flt_imp_fle, of x MIN_SQRT_PRICE_F64] by auto
  then have "min max_u128 (f64_as_u128 x) \<le> f64_as_u128 (fclamp x MIN_SQRT_PRICE_F64 MAX_SQRT_PRICE_F64)"
    using limit_casts(2) by (auto simp: fclamp_def Let_def min_le_iff_disj)
  then show ?thesis unfolding clamp_limit_def by (rule u128_clamp_lower)
qed

text \<open>
  C11.  The price limit sent with a hop always lies between the protocol bounds.  Selling coin A the limit
  is never above the simulated final price (unless that is below the lower bound), and selling coin B
  never below it (unless that is above the upper bound), whatever budget is applied.
\<close>

theorem dynamic_limit_bounds:
  assumes "wf_f64 final" and "wf_f64 (fpowi m (lit 2) bits)"
  shows "let limit = dynamic_sqrt_price_limit_raw m final bits is_a_to_b adverse;
             final_raw = f64_as_u128 (fmul final (fpowi m (lit 2) bits))
    in min_u128 \<le> limit \<and> limit \<le> max_u128 \<and>
       (is_a_to_b \<longrightarrow> limit \<le> max min_u128 final_raw) \<and>
       (\<not> is_a_to_b \<longrightarrow> min max_u128 final_raw \<le> limit)"
proof (cases "\<not> is_finite final \<or> fle final (lit 0)")
  case True
  then show ?thesis
    by (auto simp: dynamic_sqrt_price_limit_raw_def static_sqrt_price_limit_def Let_def)
next
  case False
  let ?scale = "fpowi m (lit 2) bits"
  let ?frac = "fdiv (u32_as_f64 adverse) (u32_as_f64 BPS_SCALE)"
  define raw0 where "raw0 = ffloor (fmul (if is_a_to_b then fmul final (fsub (lit 1) ?frac)
      else fmul final (fadd (lit 1) ?frac)) ?scale)"
  define raw where "raw = (if is_a_to_b then fmin raw0 (fmul final ?scale) else fmax raw0 (fmul final ?scale))"
  have limit: "dynamic_sqrt_price_limit_raw m final bits is_a_to_b adverse = clamp_limit raw"
    using False by (simp add: dynamic_sqrt_price_limit_raw_def Let_def raw_def raw0_def clamp_limit_def)
  have wf: "wf_f64 raw0" "wf_f64 (fmul final ?scale)" "wf_f64 raw"
    using assms unfolding raw_def raw0_def
    by (auto simp: u32_as_f64_def simp del: lit_0 lit_1)
  have nan: "is_nan raw0" if "is_nan (fmul final ?scale)"
  proof -
    obtain v where "final = Fin False v" "0 < v"
      using False assms by (cases final) (auto split: if_splits)
    with that have "?scale = NaN" by (cases ?scale) (auto simp: mk_f64_def Let_def split: if_splits)
    moreover have "fmul z NaN = NaN" for z by (cases z) auto
    ultimately show ?thesis by (simp add: raw0_def)
  qed
  have "f64_as_u128 raw \<le> f64_as_u128 (fmul final ?scale)" if is_a_to_b
    using that nan wf f64_as_u128_mono [OF wf(3,2)] fmin_le
    by (cases "is_nan (fmul final ?scale)") (auto simp: raw_def fmin_def)
  moreover have "f64_as_u128 (fmul final ?scale) \<le> f64_as_u128 raw" if "\<not> is_a_to_b"
    using that nan wf f64_as_u128_mono [OF wf(2,3)] fmax_ge
    by (cases "is_nan (fmul final ?scale)") (auto simp: raw_def fmax_def)
  moreover have "min_u128 \<le> clamp_limit raw \<and> clamp_limit raw \<le> max_u128"
    unfolding clamp_limit_def by (rule u128_clamp_range) simp
  ultimately show ?thesis
    using clamp_limit_upper [OF wf(3)] clamp_limit_lower [OF wf(3)]
    unfolding limit Let_def by (auto simp: le_max_iff_disj min_le_iff_disj)
qed

theorem dynamic_limit_bounds_witness:
  "let limit = dynamic_sqrt_price_limit_raw plain_libm (lit 2) 64 True 50;
       final_raw = f64_as_u128 (fmul (lit 2) (fpowi plain_libm (lit 2) 64))
    in min_u128 \<le> limit \<and> limit \<le> max_u128 \<and>
       (True \<longrightarrow> limit \<le> max min_u128 final_raw) \<and>
       (\<not> True \<longrightarrow> min max_u128 final_raw \<le> limit)"
proof (rule dynamic_limit_bounds)
  show "wf_f64 (fpowi plain_libm (lit 2) 64)" by simp
qed simp

subsection \<open>Budgets of intermediate hops\<close>

lemma u32_as_f64_cases:
  obtains i where "uint w = i" "0 \<le> i" "i < 2 ^ 32" "u32_as_f64 w = Fin False (of_int i)"
  using int_as_f64_exact [of "uint w"] uint_lt2p [of w] by (simp add: u32_as_f64_def)

text \<open>
  What the budget needs of \<open>powf\<close>: a base between 0 and 1 and a non-negative exponent give a result
  between 0 and 1.
\<close>

definition pow_unit :: "libm \<Rightarrow> bool" where
  "pow_unit m \<longleftrightarrow>
     (\<forall>x y. wf_f64 x \<and> nonneg x \<and> fle x (lit 1) \<and> nonneg y \<longrightarrow>
        wf_f64 (fpowf m x y) \<and> nonneg (fpowf m x y) \<and> fle (fpowf m x y) (lit 1))"

lemma unit_fmul_scale:
  assumes "wf_f64 v" "nonneg v" "fle v (lit 1)"
  shows "unat (f64_as_u32 (ffloor (fmul v (u32_as_f64 BPS_SCALE)))) \<le> 10000"
proof -
  obtain s x where v: "v = Fin s x" using assms by (cases v) auto
  with assms have x: "0 \<le> x" "s \<or> x \<le> 1" "s \<longrightarrow> x = 0" by (auto split: if_splits)
  then have x1: "x \<le> 1" by auto
  have "pow2 14 \<le> pow2 1023" by (rule pow2_mono) simp
  moreover have "pow2 14 = 16384" by code_simp
  ultimately have "x * 10000 \<le> pow2 1023" using x1 by linarith
  then have f: "fmul v (u32_as_f64 BPS_SCALE) = Fin s (round_mag (x * 10000))"
    using x by (simp add: v scale_f64 mk_f64_small)
  have "round_mag 10000 = 10000" by code_simp
  then have "round_mag (x * 10000) \<le> 10000" "0 \<le> round_mag (x * 10000)"
    using round_mag_mono [of "x * 10000" 10000] x x1 by (simp_all add: round_mag_nonneg)
  then have fl: "0 \<le> \<lfloor>round_mag (x * 10000)\<rfloor>" "\<lfloor>round_mag (x * 10000)\<rfloor> \<le> 10000"
    by (simp_all add: floor_le_iff)
  then have wf: "wf_f64 (ffloor (Fin s (round_mag (x * 10000))))"
    using \<open>0 \<le> round_mag (x * 10000)\<close> by (intro wf_ffloor) simp
  have "uint (f64_as_u32 (ffloor (Fin s (round_mag (x * 10000))))) \<le> 10000"
    unfolding uint_f64_as_u32 [OF wf] using fl by auto
  then show ?thesis unfolding f unat_eq_nat_uint by linarith
qed

lemma unit_ratio:
  assumes "unat b \<le> 10000"
  shows "let r = fdiv (u32_as_f64 (BPS_SCALE - b)) (u32_as_f64 BPS_SCALE) in wf_f64 r \<and> nonneg r \<and> fle r (lit 1)"
proof -
  obtain i where i: "uint (BPS_SCALE - b) = i" "0 \<le> i" "u32_as_f64 (BPS_SCALE - b) = Fin False (of_int i)"
    by (rule u32_as_f64_cases)
  have "unat (BPS_SCALE - b) = 10000 - unat b"
    using assms by (subst unat_sub) (simp_all add: word_le_nat_alt)
  then have "i \<le> 10000" using i(1) unfolding unat_eq_nat_uint by linarith
  define x where "x = of_int i / (10000 :: rat)"
  have x: "0 \<le> x" "x \<le> 1" using i(2) \<open>i \<le> 10000\<close> by (simp_all add: x_def)
  have "pow2 0 \<le> pow2 1023" by (rule pow2_mono) simp
  then have "x \<le> pow2 1023" using x by (simp add: pow2_def)
  then have r: "fdiv (u32_as_f64 (BPS_SCALE - b)) (u32_as_f64 BPS_SCALE) = Fin False (round_mag x)"
    using x by (simp add: i(3) scale_f64 x_def mk_f64_small)
  have "round_mag 1 = 1" by code_simp
  then show ?thesis using x round_mag_mono [of x 1] by (simp add: r round_mag_nonneg)
qed

lemma unat_compound_retain_bps:
  assumes "pow_unit m" "unat b \<le> 10000"
  shows "unat (compound_retain_bps m b hop n) \<le> 10000"
proof (cases "n = 0 \<or> hop = 0")
  case False
  obtain i where i: "0 \<le> i" "u32_as_f64 hop = Fin False (of_int i)"
    by (rule u32_as_f64_cases)
  obtain j where j: "uint n = j" "0 \<le> j" "u32_as_f64 n = Fin False (of_int j)"
    by (rule u32_as_f64_cases)
  have "j \<noteq> 0" using False j(1) by (auto simp: uint_0_iff)
  then have "nonneg (fdiv (u32_as_f64 hop) (u32_as_f64 n))"
    using i j by (simp add: mk_f64_def Let_def round_mag_nonneg)
  with assms unit_ratio [OF assms(2)]
  have "let v = fpowf m (fdiv (u32_as_f64 (BPS_SCALE - b)) (u32_as_f64 BPS_SCALE)) (fdiv (u32_as_f64 hop) (u32_as_f64 n))
      in wf_f64 v \<and> nonneg v \<and> fle v (lit 1)"
    unfolding pow_unit_def Let_def by blast
  then show ?thesis using False unit_fmul_scale
    by (simp add: compound_retain_bps_def Let_def)
qed (auto simp: compound_retain_bps_def)

lemma unat_incremental:
  "pow_unit m \<Longrightarrow> valid_bps s \<Longrightarrow> unat (incremental_hop_retain_bps m s n) \<le> 10000"
  by (simp add: incremental_hop_retain_bps_def unat_retain unat_compound_retain_bps valid_bps_def
      word_less_nat_alt)

text \<open>
  For every hop of a path the adverse budget stays within 10000 basis points, so the subtraction in
  \<open>hop_adverse_bps\<close> does not wrap, and the minimum output of an intermediate hop is the exact floor of
  the retained share and never exceeds the expected output.
\<close>

theorem hop_budget_bounds:
  assumes "pow_unit m" and "valid_bps s"
  shows "unat (hop_adverse_bps m s i n) \<le> 10000 \<and>
    unat (intermediate_hop_min_out m expected s k) =
      unat expected * unat (incremental_hop_retain_bps m s k) div 10000 \<and>
    intermediate_hop_min_out m expected s k \<le> expected"
proof -
  note inc = unat_incremental [OF assms]
  have "unat (BPS_SCALE - incremental_hop_retain_bps m s (of_nat n)) \<le> 10000"
    using inc [of "of_nat n"] by (subst unat_sub) (simp_all add: word_le_nat_alt)
  moreover have "unat (bps s) \<le> 10000" using assms by (simp add: valid_bps_def word_less_nat_alt)
  ultimately show ?thesis using inc
    by (simp add: hop_adverse_bps_def intermediate_hop_min_out_def unat_apply_retain_bps apply_retain_le)
qed

theorem hop_budget_bounds_witness:
  "unat (hop_adverse_bps plain_libm (SlippageBps 50) 0 3) \<le> 10000 \<and>
    unat (intermediate_hop_min_out plain_libm 1000000 (SlippageBps 50) 3) =
      unat (1000000 :: u128) * unat (incremental_hop_retain_bps plain_libm (SlippageBps 50) 3) div 10000 \<and>
    intermediate_hop_min_out plain_libm 1000000 (SlippageBps 50) 3 \<le> 1000000"
proof (rule hop_budget_bounds)
  show "pow_unit plain_libm" by (simp add: pow_unit_def plain_libm_def)
qed (simp add: valid_bps_def BPS_SCALE_def)

end
