(* ===== verification/Dex_Swap.thy ===== *)
theory Dex_Swap
  imports Registry Router_Graph Slippage
begin

text \<open>
  \<open>src/dex_swap.rs\<close>: the programmable-transaction commands of one hop, per exchange.  Command
  indices are 16-bit words as in the source.  The second half states the resource discipline of the
  generated commands: Move coins, balances and flash-swap receipts can be neither copied nor dropped,
  so each value a hop produces must be used exactly once.
\<close>

subsection \<open>Definitions\<close>

definition TURBOS_DEADLINE_MS :: u64 where "TURBOS_DEADLINE_MS = 9999999999999"

datatype dex_swap_kind = Cetus | Turbos | Magma | Momentum | Unsupported

definition dex_kind :: "string \<Rightarrow> dex_swap_kind" where
  "dex_kind name =
     (let lower = to_lowercase name
      in if contains lower ''cetus'' then Cetus
         else if contains lower ''turbos'' then Turbos
         else if contains lower ''magma'' then Magma
         else if lower = ''momentum'' \<or> contains lower ''momentum'' then Momentum
         else Unsupported)"

definition package_for :: "dex_swap_kind \<Rightarrow> (string, string) outcome" where
  "package_for dex =
     bind_outcome
       (case dex of
          Cetus \<Rightarrow> Ok ''Cetus''
        | Turbos \<Rightarrow> Ok ''Turbos''
        | Magma \<Rightarrow> Ok ''Magma''
        | Momentum \<Rightarrow> Ok ''Momentum''
        | Unsupported \<Rightarrow> Panic ''unsupported DEX'')
       (\<lambda>name. case swap_contract_for_dex_name name of
          Some c \<Rightarrow> Ok (sc_package_id c)
        | None \<Rightarrow> Panic ''swap contract registered'')"

definition amount_u64 :: "u128 \<Rightarrow> (u64, string) outcome" where
  "amount_u64 amount =
     (if unat amount < 2 ^ 64 then Ok (ucast amount) else Panic ''swap amount must fit in u64'')"

definition turbos_fee_type_arg :: "u64 \<Rightarrow> (string, string) outcome" where
  "turbos_fee_type_arg fee =
     bind_outcome
       (if fee = 100 then Ok (''fee100bps'', ''FEE100BPS'')
        else if fee = 500 then Ok (''fee500bps'', ''FEE500BPS'')
        else if fee = 3000 then Ok (''fee3000bps'', ''FEE3000BPS'')
        else if fee = 10000 then Ok (''fee10000bps'', ''FEE10000BPS'')
        else Err (''unsupported Turbos fee_rate '' @ show_word fee @ '' (no in-package fee type mapping)''))
       (\<lambda>mn. Ok (TURBOS_DISCOVERY_PACKAGE @ ''::'' @ fst mn @ ''::'' @ snd mn))"

definition build_turbos_hop ::
  "pool_state \<Rightarrow> ptb_argument \<Rightarrow> bool \<Rightarrow> u128 \<Rightarrow> u128 \<Rightarrow> u128 \<Rightarrow> u16 \<Rightarrow> string \<Rightarrow>
   (ptb_command list \<times> ptb_argument option, string) outcome" where
  "build_turbos_hop pool current_coin is_a_to_b expected_amount hop_min_out sqrt_price_limit start_cmd_idx recipient =
     bind_outcome (turbos_fee_type_arg (fee_rate pool)) (\<lambda>fee_type.
     let coin_type = (if is_a_to_b then coin_type_a pool else coin_type_b pool);
         function_name = (if is_a_to_b then ''swap_a_b_with_return_'' else ''swap_b_a_with_return_'');
         make_vec_idx = start_cmd_idx;
         swap_idx = start_cmd_idx + 1;
         make_vec = MakeMoveVec (Some (''0x2::coin::Coin<'' @ coin_type @ ''>'')) [current_coin]
     in bind_outcome (package_for Turbos) (\<lambda>package.
        bind_outcome (amount_u64 expected_amount) (\<lambda>amount.
        bind_outcome (amount_u64 hop_min_out) (\<lambda>min_out.
        let swap = MoveCall package ''swap_router'' function_name
              [coin_type_a pool, coin_type_b pool, fee_type]
              [Object (pool_id pool), Result make_vec_idx, U64 amount, U64 min_out, U128 sqrt_price_limit,
               ArgBool True, Address recipient, U64 TURBOS_DEADLINE_MS, Object SUI_CLOCK, Object TURBOS_VERSIONED];
            transfer_leftover = TransferObjects [NestedResult swap_idx 1] (Address recipient)
        in Ok ([make_vec, swap, transfer_leftover], Some (NestedResult swap_idx 0))))))"

definition build_config_pool_flash_hop ::
  "string \<Rightarrow> string \<Rightarrow> pool_state \<Rightarrow> ptb_argument \<Rightarrow> bool \<Rightarrow> u128 \<Rightarrow> u128 \<Rightarrow> u16 \<Rightarrow>
   (ptb_command list \<times> ptb_argument, string) outcome" where
  "build_config_pool_flash_hop package global_config pool current_coin is_a_to_b expected_amount sqrt_price_limit start_cmd_idx =
     (let flash_idx = start_cmd_idx;
          into_idx = start_cmd_idx + 1;
          zero_idx = start_cmd_idx + 2;
          from_idx = start_cmd_idx + 5
      in bind_outcome (amount_u64 expected_amount) (\<lambda>amount.
         let flash_swap = MoveCall package ''pool'' ''flash_swap'' [coin_type_a pool, coin_type_b pool]
               [Object global_config, Object (pool_id pool), ArgBool is_a_to_b, ArgBool True, U64 amount,
                U128 sqrt_price_limit, Object SUI_CLOCK];
             pay_type = (if is_a_to_b then coin_type_a pool else coin_type_b pool);
             into_balance = MoveCall SUI_FRAMEWORK_PACKAGE ''coin'' ''into_balance'' [pay_type] [current_coin];
             zero_type = (if is_a_to_b then coin_type_b pool else coin_type_a pool);
             zero_balance = MoveCall SUI_FRAMEWORK_PACKAGE ''balance'' ''zero'' [zero_type] [];
             receipt = NestedResult flash_idx 2;
             pay_balance = Result into_idx;
             zero_result = Result zero_idx;
             balances = (if is_a_to_b then (pay_balance, zero_result) else (zero_result, pay_balance));
             repay = MoveCall package ''pool'' ''repay_flash_swap'' [coin_type_a pool, coin_type_b pool]
               [Object global_config, Object (pool_id pool), fst balances, snd balances, receipt];
             out_balance = (if is_a_to_b then NestedResult flash_idx 1 else NestedResult flash_idx 0);
             unused_balance = (if is_a_to_b then NestedResult flash_idx 0 else NestedResult flash_idx 1);
             unused_type = (if is_a_to_b then coin_type_a pool else coin_type_b pool);
             destroy_unused = MoveCall SUI_FRAMEWORK_PACKAGE ''balance'' ''destroy_zero'' [unused_type] [unused_balance];
             out_type = (if is_a_to_b then coin_type_b pool else coin_type_a pool);
             from_balance = MoveCall SUI_FRAMEWORK_PACKAGE ''coin'' ''from_balance'' [out_type] [out_balance]
         in Ok ([flash_swap, into_balance, zero_balance, repay, destroy_unused, from_balance], Result from_idx)))"

definition build_cetus_flash_hop ::
  "pool_state \<Rightarrow> ptb_argument \<Rightarrow> bool \<Rightarrow> u128 \<Rightarrow> u128 \<Rightarrow> u16 \<Rightarrow> (ptb_command list \<times> ptb_argument, string) outcome" where
  "build_cetus_flash_hop pool current_coin is_a_to_b expected_amount sqrt_price_limit start_cmd_idx =
     bind_outcome (package_for Cetus) (\<lambda>package.
       build_config_pool_flash_hop package CETUS_GLOBAL_CONFIG pool current_coin is_a_to_b expected_amount
         sqrt_price_limit start_cmd_idx)"

definition build_magma_flash_hop ::
  "pool_state \<Rightarrow> ptb_argument \<Rightarrow> bool \<Rightarrow> u128 \<Rightarrow> u128 \<Rightarrow> u16 \<Rightarrow> (ptb_command list \<times> ptb_argument, string) outcome" where
  "build_magma_flash_hop pool current_coin is_a_to_b expected_amount sqrt_price_limit start_cmd_idx =
     bind_outcome (package_for Magma) (\<lambda>package.
       build_config_pool_flash_hop package MAGMA_GLOBAL_CONFIG pool current_coin is_a_to_b expected_amount
         sqrt_price_limit start_cmd_idx)"

definition build_momentum_flash_hop ::
  "pool_state \<Rightarrow> ptb_argument \<Rightarrow> bool \<Rightarrow> u128 \<Rightarrow> u128 \<Rightarrow> u16 \<Rightarrow> (ptb_command list \<times> ptb_argument, string) outcome" where
  "build_momentum_flash_hop pool current_coin is_a_to_b expected_amount sqrt_price_limit start_cmd_idx =
     bind_outcome (package_for Momentum) (\<lambda>package.
     let flash_idx = start_cmd_idx;
         into_idx = start_cmd_idx + 1;
         zero_idx = start_cmd_idx + 2;
         from_idx = start_cmd_idx + 5
     in bind_outcome (amount_u64 expected_amount) (\<lambda>amount.
        let flash_swap = MoveCall package ''trade'' ''flash_swap'' [coin_type_a pool, coin_type_b pool]
              [Object (pool_id pool), ArgBool is_a_to_b, ArgBool True, U64 amount, U128 sqrt_price_limit,
               Object SUI_CLOCK, Object MOMENTUM_VERSION_OBJECT];
            pay_type = (if is_a_to_b then coin_type_a pool else coin_type_b pool);
            into_balance = MoveCall SUI_FRAMEWORK_PACKAGE ''coin'' ''into_balance'' [pay_type] [current_coin];
            zero_type = (if is_a_to_b then coin_type_b pool else coin_type_a pool);
            zero_balance = MoveCall SUI_FRAMEWORK_PACKAGE ''balance'' ''zero'' [zero_type] [];
            receipt = NestedResult flash_idx 2;
            pay_balance = Result into_idx;
            zero_result = Result zero_idx;
            balances = (if is_a_to_b then (pay_balance, zero_result) else (zero_result, pay_balance));
            repay = MoveCall package ''trade'' ''repay_flash_swap'' [coin_type_a pool, coin_type_b pool]
              [Object (pool_id pool), receipt, fst balances, snd balances, Object MOMENTUM_VERSION_OBJECT];
            out_balance = (if is_a_to_b then NestedResult flash_idx 1 else NestedResult flash_idx 0);
            unused_balance = (if is_a_to_b then NestedResult flash_idx 0 else NestedResult flash_idx 1);
            unused_type = (if is_a_to_b then coin_type_a pool else coin_type_b pool);
            destroy_unused = MoveCall SUI_FRAMEWORK_PACKAGE ''balance'' ''destroy_zero'' [unused_type] [unused_balance];
            out_type = (if is_a_to_b then coin_type_b pool else coin_type_a pool);
            from_balance = MoveCall SUI_FRAMEWORK_PACKAGE ''coin'' ''from_balance'' [out_type] [out_balance]
        in Ok ([flash_swap, into_balance, zero_balance, repay, destroy_unused, from_balance], Result from_idx)))"

definition build_hop_commands ::
  "pool_state \<Rightarrow> swap_hop \<Rightarrow> ptb_argument \<Rightarrow> u128 \<Rightarrow> u128 \<Rightarrow> u128 \<Rightarrow> u16 \<Rightarrow> string \<Rightarrow>
   (ptb_command list \<times> ptb_argument option, string) outcome" where
  "build_hop_commands pool hop current_coin expected_amount hop_min_out sqrt_price_limit_raw start_cmd_idx recipient =
     (let is_a_to_b = (h_input_token hop = coin_type_a pool)
      in case dex_kind (dex_name pool) of
           Cetus \<Rightarrow> bind_outcome
             (build_cetus_flash_hop pool current_coin is_a_to_b expected_amount sqrt_price_limit_raw start_cmd_idx)
             (\<lambda>co. Ok (fst co, Some (snd co)))
         | Turbos \<Rightarrow> build_turbos_hop pool current_coin is_a_to_b expected_amount hop_min_out sqrt_price_limit_raw
             start_cmd_idx recipient
         | Magma \<Rightarrow> bind_outcome
             (build_magma_flash_hop pool current_coin is_a_to_b expected_amount sqrt_price_limit_raw start_cmd_idx)
             (\<lambda>co. Ok (fst co, Some (snd co)))
         | Momentum \<Rightarrow> bind_outcome
             (build_momentum_flash_hop pool current_coin is_a_to_b expected_amount sqrt_price_limit_raw start_cmd_idx)
             (\<lambda>co. Ok (fst co, Some (snd co)))
         | Unsupported \<Rightarrow> Err (''unsupported DEX for swap: '' @ dex_name pool))"

fun remap_output_coin :: "ptb_argument \<Rightarrow> u16 \<Rightarrow> ptb_argument" where
  "remap_output_coin (NestedResult cmd nested) start_cmd_idx = NestedResult (start_cmd_idx + cmd) nested"
| "remap_output_coin (Result cmd) start_cmd_idx = Result (start_cmd_idx + cmd)"
| "remap_output_coin other start_cmd_idx = other"

subsection \<open>Resource discipline\<close>

text \<open>
  The values a command takes by value, and the linear values it yields.  \<open>flash_swap\<close> returns two balances
  and a receipt, \<open>into_balance\<close>, \<open>zero\<close> and \<open>from_balance\<close> one value each, the Turbos router the output
  coin and the leftover input coin.
\<close>

fun is_linear :: "ptb_argument \<Rightarrow> bool" where
  "is_linear InputCoin = True"
| "is_linear (Result i) = True"
| "is_linear (NestedResult i k) = True"
| "is_linear a = False"

fun linear_args :: "ptb_command \<Rightarrow> ptb_argument list" where
  "linear_args (SplitCoins coin amounts) = []"
| "linear_args (MoveCall p m f tys args) = filter is_linear args"
| "linear_args (TransferObjects objects addr) = filter is_linear objects"
| "linear_args (MergeCoins dest srcs) = filter is_linear srcs"
| "linear_args (MakeMoveVec ty elements) = filter is_linear elements"

definition call_results :: "u16 \<Rightarrow> string \<Rightarrow> ptb_argument list" where
  "call_results i f =
     (if f = ''flash_swap'' then [NestedResult i 0, NestedResult i 1, NestedResult i 2]
      else if f = ''into_balance'' \<or> f = ''zero'' \<or> f = ''from_balance'' then [Result i]
      else if f = ''swap_a_b_with_return_'' \<or> f = ''swap_b_a_with_return_'' then [NestedResult i 0, NestedResult i 1]
      else [])"

fun linear_results :: "u16 \<Rightarrow> ptb_command \<Rightarrow> ptb_argument list" where
  "linear_results i (SplitCoins coin amounts) = map (\<lambda>k. NestedResult i (of_nat k)) [0..<length amounts]"
| "linear_results i (MoveCall p m f tys args) = call_results i f"
| "linear_results i (TransferObjects objects addr) = []"
| "linear_results i (MergeCoins dest srcs) = []"
| "linear_results i (MakeMoveVec ty elements) = [Result i]"

fun take_args :: "ptb_argument list \<Rightarrow> ptb_argument list \<Rightarrow> ptb_argument list option" where
  "take_args [] avail = Some avail"
| "take_args (a # as) avail = (if a \<in> set avail then take_args as (remove1 a avail) else None)"

text \<open>Runs the commands from an index and a list of available values; \<open>None\<close> when a value is used that is not there.\<close>

fun run_linear :: "u16 \<Rightarrow> ptb_argument list \<Rightarrow> ptb_command list \<Rightarrow> ptb_argument list option" where
  "run_linear i avail [] = Some avail"
| "run_linear i avail (c # cs) =
     (case take_args (linear_args c) avail of
        None \<Rightarrow> None
      | Some rest \<Rightarrow> run_linear (i + 1) (rest @ linear_results i c) cs)"

text \<open>A coin made by a command before index \<open>i\<close>, or the caller's input coin.\<close>

fun coin_before :: "u16 \<Rightarrow> ptb_argument \<Rightarrow> bool" where
  "coin_before i InputCoin = True"
| "coin_before i (Result k) = (k < i)"
| "coin_before i (NestedResult k n) = (k < i)"
| "coin_before i a = False"

lemma take_args_iff:
  "(\<exists>r. take_args as av = Some r) \<longleftrightarrow> mset as \<subseteq># mset av"
  "take_args as av = Some r \<Longrightarrow> mset r = mset av - mset as"
proof (induction as arbitrary: av)
  case (Cons a as)
  {
    case 1
    show ?case
    proof (cases "a \<in> set av")
      case True
      then show ?thesis using Cons.IH(1) [of "remove1 a av"] True by (simp add: insert_subset_eq_iff)
    next
      case False
      then show ?thesis by (simp add: insert_subset_eq_iff)
    qed
  next
    case 2
    then show ?case using Cons.IH(2) [of "remove1 a av"] by (simp split: if_splits)
  }
qed simp_all

text \<open>\<open>runs i av cs av'\<close>: the commands turn the available values \<open>av\<close> into \<open>av'\<close>, up to order.\<close>

definition runs :: "u16 \<Rightarrow> ptb_argument list \<Rightarrow> ptb_command list \<Rightarrow> ptb_argument list \<Rightarrow> bool" where
  "runs i av cs av' \<longleftrightarrow> (\<exists>r. run_linear i av cs = Some r \<and> mset r = mset av')"

lemma run_linear_perm:
  "run_linear i av cs = Some r \<Longrightarrow> mset av = mset bv \<Longrightarrow> \<exists>r'. run_linear i bv cs = Some r' \<and> mset r' = mset r"
proof (induction i av cs arbitrary: bv rule: run_linear.induct)
  case (2 i avail c cs)
  then obtain rest where rest: "take_args (linear_args c) avail = Some rest"
    "run_linear (i + 1) (rest @ linear_results i c) cs = Some r"
    by (auto split: option.splits)
  have "\<exists>rest'. take_args (linear_args c) bv = Some rest'"
    using take_args_iff(1) [of "linear_args c" avail] take_args_iff(1) [of "linear_args c" bv] rest(1) "2.prems"(2)
    by auto
  then obtain rest' where rest': "take_args (linear_args c) bv = Some rest'" by blast
  then have "mset (rest @ linear_results i c) = mset (rest' @ linear_results i c)"
    using take_args_iff(2) [OF rest(1)] take_args_iff(2) [OF rest'] "2.prems"(2) by simp
  from "2.IH" [OF rest(1) rest(2) this] rest' show ?case by simp
qed simp

lemma run_linear_append:
  "run_linear i av (cs @ ds) =
     (case run_linear i av cs of None \<Rightarrow> None | Some r \<Rightarrow> run_linear (i + of_nat (length cs)) r ds)"
  by (induction i av cs rule: run_linear.induct) (auto split: option.splits simp: add.assoc)

lemma runs_append:
  assumes "runs i av cs bv" "runs (i + of_nat (length cs)) bv ds cv"
  shows "runs i av (cs @ ds) cv"
proof -
  obtain r where r: "run_linear i av cs = Some r" "mset r = mset bv" using assms by (auto simp: runs_def)
  obtain q where q: "run_linear (i + of_nat (length cs)) bv ds = Some q" "mset q = mset cv"
    using assms by (auto simp: runs_def)
  from run_linear_perm [OF q(1) r(2) [symmetric]] q r show ?thesis by (auto simp: runs_def run_linear_append)
qed

lemma runs_perm: "runs i av cs bv \<Longrightarrow> mset av = mset av' \<Longrightarrow> mset bv = mset bv' \<Longrightarrow> runs i av' cs bv'"
  using run_linear_perm [of i av cs _ av'] by (auto simp: runs_def)

lemma coin_before_mono: "coin_before i a \<Longrightarrow> i \<le> j \<Longrightarrow> coin_before j a"
  by (cases a) auto

lemma package_for_known [simp]:
  "package_for Cetus = Ok CETUS_SWAP_PACKAGE" "package_for Turbos = Ok TURBOS_SWAP_PACKAGE"
  "package_for Magma = Ok MAGMA_SWAP_PACKAGE" "package_for Momentum = Ok MOMENTUM_DISCOVERY_PACKAGE"
  by code_simp+

text \<open>Indices that a hop starting at \<open>i\<close> uses do not wrap.\<close>

definition room :: "u16 \<Rightarrow> bool" where
  "room i \<longleftrightarrow> unat i + 6 < 2 ^ 16"

lemma room_index:
  assumes "room i" "k \<le> 6"
  shows "unat (i + of_nat k) = unat i + k"
proof -
  have "unat (of_nat k :: u16) = k" using assms by (simp add: unat_of_nat room_def)
  then show ?thesis using assms by (subst unat_add_lem [THEN iffD1]) (simp_all add: room_def)
qed

lemma room_less:
  assumes "room i"
  shows "i < i + 3" "i + 1 < i + 3" "i + 5 < i + 6" "\<not> i + 1 < i" "\<not> i + 2 < i" "\<not> i + 5 < i"
  using assms room_index [OF assms, of 1] room_index [OF assms, of 2] room_index [OF assms, of 3]
    room_index [OF assms, of 5] room_index [OF assms, of 6]
  by (simp_all add: word_less_nat_alt)

lemma fresh_values:
  assumes "room i" "\<forall>a \<in> set rest. coin_before i a"
  shows "Result i \<notin> set rest" "NestedResult i n \<notin> set rest"
    "Result (i + 1) \<notin> set rest" "NestedResult (i + 1) n \<notin> set rest"
    "Result (i + 2) \<notin> set rest" "Result (i + 5) \<notin> set rest"
  using assms room_less [OF assms(1)] by (metis coin_before.simps(2,3) order_less_irrefl)+

lemma coin_before_linear: "coin_before i a \<Longrightarrow> is_linear a"
  by (cases a) auto

lemma coin_before_not_new:
  "room i \<Longrightarrow> coin_before i a \<Longrightarrow> a \<noteq> Result i \<and> a \<noteq> NestedResult i n \<and> a \<noteq> Result (i + 1)"
  using room_less [of i] by (cases a) auto

lemma remove1_rest: "a \<notin> set rest \<Longrightarrow> remove1 a (rest @ xs) = rest @ remove1 a xs"
  by (simp add: remove1_append)

lemma flash_hop_linear:
  assumes "build_config_pool_flash_hop package config pool coin a2b amount limit i = Ok (cmds, out)"
    and "room i" "coin_before i coin" "\<forall>a \<in> set rest. coin_before i a"
  shows "run_linear i (coin # rest) cmds = Some (rest @ [out]) \<and> length cmds = 6 \<and> coin_before (i + 6) out"
  using assms fresh_values [OF assms(2,4)] coin_before_linear [OF assms(3)] coin_before_not_new [OF assms(2,3)]
    room_less [OF assms(2)]
  by (cases a2b)
    (auto simp: build_config_pool_flash_hop_def Let_def outcome_simps call_results_def remove1_rest)

lemma momentum_hop_linear:
  assumes "build_momentum_flash_hop pool coin a2b amount limit i = Ok (cmds, out)"
    and "room i" "coin_before i coin" "\<forall>a \<in> set rest. coin_before i a"
  shows "run_linear i (coin # rest) cmds = Some (rest @ [out]) \<and> length cmds = 6 \<and> coin_before (i + 6) out"
  using assms fresh_values [OF assms(2,4)] coin_before_linear [OF assms(3)] coin_before_not_new [OF assms(2,3)]
    room_less [OF assms(2)]
  by (cases a2b)
    (auto simp: build_momentum_flash_hop_def Let_def outcome_simps call_results_def remove1_rest)

lemma turbos_hop_linear:
  assumes "build_turbos_hop pool coin a2b amount min_out limit i recipient = Ok (cmds, out)"
    and "room i" "coin_before i coin" "\<forall>a \<in> set rest. coin_before i a"
  shows "\<exists>c. out = Some c \<and> run_linear i (coin # rest) cmds = Some (rest @ [c]) \<and> length cmds = 3 \<and> coin_before (i + 3) c"
  using assms fresh_values [OF assms(2,4)] coin_before_linear [OF assms(3)] coin_before_not_new [OF assms(2,3)]
    room_less [OF assms(2)]
  by (cases a2b)
    (auto simp: build_turbos_hop_def Let_def outcome_simps call_results_def remove1_rest)

lemma build_hop_linear:
  assumes "build_hop_commands pool hop coin amount min_out limit i recipient = Ok (cmds, out)"
    and "room i" and "coin_before i coin" and "\<forall>a \<in> set rest. coin_before i a"
  shows "\<exists>c. out = Some c \<and> run_linear i (coin # rest) cmds = Some (rest @ [c]) \<and>
    length cmds \<le> 6 \<and> coin_before (i + of_nat (length cmds)) c"
  using assms(1) flash_hop_linear [OF _ assms(2-4)] momentum_hop_linear [OF _ assms(2-4)]
    turbos_hop_linear [OF _ assms(2-4)]
  by (fastforce simp: build_hop_commands_def Let_def outcome_simps build_cetus_flash_hop_def build_magma_flash_hop_def
      split: dex_swap_kind.splits)

text \<open>
  C13.  The commands of a hop use every linear value exactly once: run from the current coin and any other
  values made earlier, they consume the current coin and all balances, receipts and vectors the hop makes,
  refer to nothing that is not there, and leave exactly the hop's output coin besides the earlier values.
  The output coin lies before the next free command index, so hops can be chained.
\<close>

theorem hop_commands_linear:
  assumes "build_hop_commands pool hop coin amount min_out limit i recipient = Ok (cmds, out)"
    and "room i" and "coin_before i coin" and "\<forall>a \<in> set rest. coin_before i a"
  shows "\<exists>c. out = Some c \<and> run_linear i (coin # rest) cmds = Some (rest @ [c]) \<and>
    length cmds \<le> 6 \<and> coin_before (i + of_nat (length cmds)) c"
  using assms by (rule build_hop_linear)

definition flash_pool :: pool_state where
  "flash_pool = \<lparr>pool_id = ''0xabc'', dex_name = ''cetus'', coin_type_a = ''SUI'', coin_type_b = ''USDC'',
     sqrt_price = 2 ^ 64, liquidity = 1000000000, fee_rate = 2500, is_paused = False\<rparr>"

definition flash_hop :: swap_hop where
  "flash_hop = \<lparr>h_pool_id = ''0xabc'', h_dex_name = ''cetus'', h_input_token = ''SUI'', h_output_token = ''USDC'',
     h_fee_rate = 2500\<rparr>"

lemma dex_kind_cetus [simp]: "dex_kind ''cetus'' = Cetus"
  by code_simp

theorem hop_commands_linear_witness:
  "\<exists>cmds out. build_hop_commands flash_pool flash_hop (NestedResult 0 0) 1000000 0 4295048016 1 ''0x1'' = Ok (cmds, out) \<and>
     (\<exists>c. out = Some c \<and> run_linear 1 (NestedResult 0 0 # []) cmds = Some ([] @ [c]) \<and>
        length cmds \<le> 6 \<and> coin_before (1 + of_nat (length cmds)) c)"
proof -
  obtain cmds out where b:
    "build_hop_commands flash_pool flash_hop (NestedResult 0 0) 1000000 0 4295048016 1 ''0x1'' = Ok (cmds, out)"
    by (simp add: build_hop_commands_def flash_pool_def build_cetus_flash_hop_def build_config_pool_flash_hop_def
        amount_u64_def Let_def)
  have "\<exists>c. out = Some c \<and> run_linear 1 (NestedResult 0 0 # []) cmds = Some ([] @ [c]) \<and>
      length cmds \<le> 6 \<and> coin_before (1 + of_nat (length cmds)) c"
    using b by (rule hop_commands_linear) (simp_all add: room_def)
  with b show ?thesis by blast
qed

subsection \<open>Outcomes\<close>

lemma amount_u64_iff [simp]:
  "amount_u64 a = Ok v \<longleftrightarrow> unat a < 2 ^ 64 \<and> v = ucast a" "amount_u64 a \<noteq> Err e"
  by (auto simp: amount_u64_def)

lemma turbos_fee_iff:
  "(\<exists>t. turbos_fee_type_arg fee = Ok t) \<longleftrightarrow> fee \<in> {100, 500, 3000, 10000}"
  "(\<exists>e. turbos_fee_type_arg fee = Err e) \<longleftrightarrow> fee \<notin> {100, 500, 3000, 10000}"
  by (auto simp: turbos_fee_type_arg_def)

text \<open>
  A hop is built exactly when its exchange is supported and the amount fits 64 bits, for Turbos also
  the fee tier must be one of the four known ones and the minimum output fit 64 bits.  An unsupported
  exchange or fee tier is an error value; only an amount of \<open>2 ^ 64\<close> or more panics.
\<close>

theorem build_hop_outcome:
  "(is_ok (build_hop_commands pool hop coin amount min_out limit i recipient) \<longleftrightarrow>
      unat amount < 2 ^ 64 \<and>
      (dex_kind (dex_name pool) \<in> {Cetus, Magma, Momentum} \<or>
       (dex_kind (dex_name pool) = Turbos \<and> fee_rate pool \<in> {100, 500, 3000, 10000} \<and> unat min_out < 2 ^ 64))) \<and>
   ((\<exists>e. build_hop_commands pool hop coin amount min_out limit i recipient = Err e) \<longleftrightarrow>
      dex_kind (dex_name pool) = Unsupported \<or>
      (dex_kind (dex_name pool) = Turbos \<and> fee_rate pool \<notin> {100, 500, 3000, 10000}))"
proof (cases "dex_kind (dex_name pool)")
  case Turbos
  show ?thesis
    using turbos_fee_iff [of "fee_rate pool"]
    by (cases "turbos_fee_type_arg (fee_rate pool)")
      (auto simp: Turbos build_hop_commands_def build_turbos_hop_def amount_u64_def Let_def)
qed (auto simp: build_hop_commands_def build_cetus_flash_hop_def build_magma_flash_hop_def
      build_momentum_flash_hop_def build_config_pool_flash_hop_def amount_u64_def Let_def)

text \<open>
  The flash-swap exchanges (Cetus, Magma, Momentum) do not receive the minimum output at all: their
  commands are the same for every \<open>hop_min_out\<close>, so only the price limit protects such a hop.
\<close>

theorem flash_hop_ignores_min_out:
  assumes "dex_kind (dex_name pool) \<in> {Cetus, Magma, Momentum}"
  shows "build_hop_commands pool hop coin amount min_out limit i recipient =
         build_hop_commands pool hop coin amount min_out' limit i recipient'"
  using assms by (auto simp: build_hop_commands_def Let_def)

theorem flash_hop_ignores_min_out_witness:
  "build_hop_commands flash_pool flash_hop InputCoin 1000000 990000 4295048016 1 ''0x1'' =
   build_hop_commands flash_pool flash_hop InputCoin 1000000 0 4295048016 1 ''0x2''"
  by (rule flash_hop_ignores_min_out) (simp add: flash_pool_def)

end
