(* ===== verification/Router_Sim.thy ===== *)
theory Router_Sim
  imports Router_Graph
begin

text \<open>
  The simulation half of \<open>src/router.rs\<close>: swaps inside one tick range, swaps that cross ticks, whole
  routes, the split of an order over several routes and the pruning of routes by gas cost.  Every
  \<open>f64\<close> expression is translated operation by operation.  \<open>powf\<close> and \<open>powi\<close> come from the \<open>libm\<close>
  argument; the order in which a \<open>HashMap\<close> yields its values is the list argument \<open>pool_values\<close>.
\<close>

subsection \<open>Swaps inside one tick range\<close>

definition pool_factor_bits :: "pool_state \<Rightarrow> int" where
  "pool_factor_bits pool = (if to_lowercase (dex_name pool) = ''turbos'' then 96 else 64)"

definition pool_sqrt_factor_bits :: "pool_state \<Rightarrow> int" where
  "pool_sqrt_factor_bits pool = pool_factor_bits pool"

record swap_simulation_result =
  amount_out :: f64
  marginal_price :: f64
  final_sqrt_price_internal :: f64

definition tick_to_sqrt_price_internal :: "libm \<Rightarrow> int \<Rightarrow> f64" where
  "tick_to_sqrt_price_internal m tick = fpowf m (lit (10001 / 10000)) (fdiv (int_as_f64 tick) (lit 2))"

definition pick_next_tick :: "tick_info list \<Rightarrow> int \<Rightarrow> bool \<Rightarrow> int option" where
  "pick_next_tick tks current going_down =
     (if going_down then
        let cands = map tick_index (filter (\<lambda>t. tick_index t < current) tks)
        in if cands = [] then None else Some (Max (set cands))
      else
        let cands = map tick_index (filter (\<lambda>t. current < tick_index t) tks)
        in if cands = [] then None else Some (Min (set cands)))"

definition liquidity_net_of :: "tick_info list \<Rightarrow> int \<Rightarrow> f64" where
  "liquidity_net_of tks index =
     (case find (\<lambda>t. tick_index t = index) tks of
        Some t \<Rightarrow> int_as_f64 (liquidity_net t)
      | None \<Rightarrow> lit 0)"

definition fee_factor :: "pool_state \<Rightarrow> f64" where
  "fee_factor pool = fsub (lit 1) (fdiv (u64_as_f64 (fee_rate pool)) (lit 1000000))"

definition pool_sqrt_price_internal :: "libm \<Rightarrow> pool_state \<Rightarrow> f64" where
  "pool_sqrt_price_internal m pool = fdiv (u128_as_f64 (sqrt_price pool)) (fpowi m (lit 2) (pool_factor_bits pool))"

definition simulate_hop_within_tick_spot :: "libm \<Rightarrow> pool_state \<Rightarrow> swap_hop \<Rightarrow> f64 \<times> f64" where
  "simulate_hop_within_tick_spot m pool hop =
     (let ff = fee_factor pool;
          sp = pool_sqrt_price_internal m pool;
          l_f = u128_as_f64 (liquidity pool)
      in if feq l_f (lit 0) then (lit 0, lit 0)
         else
           let marginal =
             (if h_input_token hop = coin_type_a pool then
                let x = fdiv l_f sp; y = fmul l_f sp in fmul (fdiv (fmul y x) (fmul x x)) ff
              else
                let x = fmul l_f sp; y = fdiv l_f sp in fmul (fdiv (fmul y x) (fmul x x)) ff)
           in (lit 0, marginal))"

definition simulate_hop_within_tick_detailed ::
  "libm \<Rightarrow> pool_state \<Rightarrow> swap_hop \<Rightarrow> f64 \<Rightarrow> swap_simulation_result" where
  "simulate_hop_within_tick_detailed m pool hop amount_in =
     (if fle amount_in (lit 0) \<or> liquidity pool = 0 then
        \<lparr>amount_out = lit 0, marginal_price = snd (simulate_hop_within_tick_spot m pool hop),
         final_sqrt_price_internal = pool_sqrt_price_internal m pool\<rparr>
      else
        let ff = fee_factor pool;
            sp = pool_sqrt_price_internal m pool;
            l_f = u128_as_f64 (liquidity pool);
            dx = fmul amount_in ff
        in if h_input_token hop = coin_type_a pool then
             let x = fdiv l_f sp;
                 y = fmul l_f sp;
                 dy = fdiv (fmul y dx) (fadd x dx);
                 sp' = fdiv (fmul l_f sp) (fadd l_f (fmul dx sp));
                 d_dy_d_dx = fdiv (fmul y x) (fpowi m (fadd x dx) 2)
             in \<lparr>amount_out = dy, marginal_price = fmul d_dy_d_dx ff, final_sqrt_price_internal = sp'\<rparr>
           else
             let x = fmul l_f sp;
                 y = fdiv l_f sp;
                 dy = fdiv (fmul y dx) (fadd x dx);
                 sp' = fadd sp (fdiv dx l_f);
                 d_dy_d_dx = fdiv (fmul y x) (fpowi m (fadd x dx) 2)
             in \<lparr>amount_out = dy, marginal_price = fmul d_dy_d_dx ff, final_sqrt_price_internal = sp'\<rparr>)"

definition simulate_hop_within_tick :: "libm \<Rightarrow> pool_state \<Rightarrow> swap_hop \<Rightarrow> f64 \<Rightarrow> f64 \<times> f64" where
  "simulate_hop_within_tick m pool hop amount_in =
     (let r = simulate_hop_within_tick_detailed m pool hop amount_in in (amount_out r, marginal_price r))"

subsection \<open>Swaps that cross ticks\<close>

definition MIN_SQRT_PRICE_X64 :: f64 where "MIN_SQRT_PRICE_X64 = lit 4295048016"

definition MAX_SQRT_PRICE_X64 :: f64 where "MAX_SQRT_PRICE_X64 = lit 79226673515401279992447579055"

text \<open>The mutable variables of the loop.\<close>

record tick_walk =
  remaining :: f64
  sqrtp :: f64
  wl :: f64
  tick_cur :: int
  w_out :: f64
  last_dx :: f64

definition sqrtp_target :: "libm \<Rightarrow> f64 \<Rightarrow> bool \<Rightarrow> int option \<Rightarrow> f64" where
  "sqrtp_target m scale going_down next_tick =
     (case next_tick of
        Some t \<Rightarrow> tick_to_sqrt_price_internal m t
      | None \<Rightarrow> if going_down then fdiv MIN_SQRT_PRICE_X64 scale else fdiv MAX_SQRT_PRICE_X64 scale)"

text \<open>One iteration after the check of \<open>remaining\<close>; the Boolean is false when the source breaks.\<close>

definition walk_down :: "tick_info list \<Rightarrow> int option \<Rightarrow> f64 \<Rightarrow> tick_walk \<Rightarrow> bool \<times> tick_walk" where
  "walk_down tks next_tick target w =
     (if fle (sqrtp w) target \<or> fle (wl w) (lit 0) then (False, w)
      else
        let delta_needed = fdiv (fmul (wl w) (fsub (sqrtp w) target)) (fmul (sqrtp w) target)
        in if fle (remaining w) delta_needed then
             let sqrtp_new = fdiv (fmul (wl w) (sqrtp w)) (fadd (wl w) (fmul (remaining w) (sqrtp w)))
             in (True, w\<lparr>w_out := fadd (w_out w) (fmul (wl w) (fsub (sqrtp w) sqrtp_new)),
                         last_dx := remaining w, sqrtp := sqrtp_new, remaining := lit 0\<rparr>)
           else
             let w1 = w\<lparr>w_out := fadd (w_out w) (fmul (wl w) (fsub (sqrtp w) target)),
                        remaining := fsub (remaining w) delta_needed, last_dx := delta_needed, sqrtp := target\<rparr>
             in case next_tick of
                  Some t \<Rightarrow> (True, w1\<lparr>wl := fsub (wl w1) (liquidity_net_of tks t), tick_cur := t\<rparr>)
                | None \<Rightarrow> (False, w1))"

definition walk_up :: "tick_info list \<Rightarrow> int option \<Rightarrow> f64 \<Rightarrow> tick_walk \<Rightarrow> bool \<times> tick_walk" where
  "walk_up tks next_tick target w =
     (if fle target (sqrtp w) \<or> fle (wl w) (lit 0) then (False, w)
      else
        let delta_needed = fmul (wl w) (fsub target (sqrtp w))
        in if fle (remaining w) delta_needed then
             let sqrtp_new = fadd (sqrtp w) (fdiv (remaining w) (wl w))
             in (True, w\<lparr>w_out := fadd (w_out w)
                           (fdiv (fmul (wl w) (fsub sqrtp_new (sqrtp w))) (fmul (sqrtp w) sqrtp_new)),
                         last_dx := remaining w, sqrtp := sqrtp_new, remaining := lit 0\<rparr>)
           else
             let w1 = w\<lparr>w_out := fadd (w_out w)
                          (fdiv (fmul (wl w) (fsub target (sqrtp w))) (fmul (sqrtp w) target)),
                        remaining := fsub (remaining w) delta_needed, last_dx := delta_needed, sqrtp := target\<rparr>
             in case next_tick of
                  Some t \<Rightarrow> (True, w1\<lparr>wl := fadd (wl w1) (liquidity_net_of tks t), tick_cur := t\<rparr>)
                | None \<Rightarrow> (False, w1))"

definition walk_step :: "libm \<Rightarrow> tick_info list \<Rightarrow> f64 \<Rightarrow> bool \<Rightarrow> tick_walk \<Rightarrow> bool \<times> tick_walk" where
  "walk_step m tks scale going_down w =
     (let next_tick = pick_next_tick tks (tick_cur w) going_down;
          target = sqrtp_target m scale going_down next_tick
      in if going_down then walk_down tks next_tick target w else walk_up tks next_tick target w)"

fun walk_loop :: "libm \<Rightarrow> tick_info list \<Rightarrow> f64 \<Rightarrow> bool \<Rightarrow> nat \<Rightarrow> tick_walk \<Rightarrow> tick_walk" where
  "walk_loop m tks scale going_down 0 w = w"
| "walk_loop m tks scale going_down (Suc n) w =
     (if fle (remaining w) (lit (1 / 10 ^ 12)) then w
      else let r = walk_step m tks scale going_down w
           in if fst r then walk_loop m tks scale going_down n (snd r) else snd r)"

definition walk_init :: "libm \<Rightarrow> pool_state \<Rightarrow> pool_tick_data \<Rightarrow> f64 \<Rightarrow> tick_walk" where
  "walk_init m pool td amount_in =
     \<lparr>remaining = fmul amount_in (fee_factor pool), sqrtp = pool_sqrt_price_internal m pool,
      wl = u128_as_f64 (liquidity pool), tick_cur = current_tick_index td, w_out = lit 0, last_dx = lit 0\<rparr>"

definition walk_result :: "libm \<Rightarrow> pool_state \<Rightarrow> tick_walk \<Rightarrow> swap_simulation_result" where
  "walk_result m pool w =
     (if fle (wl w) (lit 0) \<or> fle (sqrtp w) (lit 0) then
        \<lparr>amount_out = fmax (w_out w) (lit 0), marginal_price = lit 0,
         final_sqrt_price_internal = fmax (sqrtp w) (lit 0)\<rparr>
      else
        let x = fdiv (wl w) (sqrtp w);
            y = fmul (wl w) (sqrtp w);
            dx_eff = fmax (last_dx w) (lit (1 / 10 ^ 18));
            marginal = fmul (fdiv (fmul y x) (fpowi m (fadd x dx_eff) 2)) (fee_factor pool)
        in \<lparr>amount_out = fmax (w_out w) (lit 0), marginal_price = marginal,
            final_sqrt_price_internal = sqrtp w\<rparr>)"

definition simulate_swap_tick_aware_detailed ::
  "libm \<Rightarrow> pool_state \<Rightarrow> pool_tick_data \<Rightarrow> swap_hop \<Rightarrow> f64 \<Rightarrow> swap_simulation_result" where
  "simulate_swap_tick_aware_detailed m pool td hop amount_in =
     (if ticks td = [] then simulate_hop_within_tick_detailed m pool hop amount_in
      else if fle amount_in (lit 0) then simulate_hop_within_tick_detailed m pool hop (lit 0)
      else
        let scale = fpowi m (lit 2) (pool_factor_bits pool);
            going_down = (h_input_token hop = coin_type_a pool);
            max_iter = length (ticks td) + 2
        in walk_result m pool
             (walk_loop m (ticks td) scale going_down max_iter (walk_init m pool td amount_in)))"

definition simulate_swap_tick_aware ::
  "libm \<Rightarrow> pool_state \<Rightarrow> pool_tick_data \<Rightarrow> swap_hop \<Rightarrow> f64 \<Rightarrow> f64 \<times> f64" where
  "simulate_swap_tick_aware m pool td hop amount_in =
     (let r = simulate_swap_tick_aware_detailed m pool td hop amount_in in (amount_out r, marginal_price r))"

subsection \<open>Routes\<close>

fun simulate_hops ::
  "libm \<Rightarrow> (string \<rightharpoonup> pool_state) \<Rightarrow> (string \<rightharpoonup> pool_tick_data) \<Rightarrow> swap_hop list \<Rightarrow> f64 \<times> f64 \<Rightarrow> f64 \<times> f64" where
  "simulate_hops m pools_map ticks_map [] am = am"
| "simulate_hops m pools_map ticks_map (hop # rest) am =
     (case pools_map (h_pool_id hop) of
        None \<Rightarrow> (lit 0, lit 0)
      | Some pool \<Rightarrow>
          let r = (case ticks_map (h_pool_id hop) of
                     Some td \<Rightarrow> simulate_swap_tick_aware m pool td hop (fst am)
                   | None \<Rightarrow> simulate_hop_within_tick m pool hop (fst am))
          in simulate_hops m pools_map ticks_map rest (fst r, fmul (snd am) (snd r)))"

definition simulate_route_tick_aware ::
  "libm \<Rightarrow> (string \<rightharpoonup> pool_state) \<Rightarrow> (string \<rightharpoonup> pool_tick_data) \<Rightarrow> route_path \<Rightarrow> f64 \<Rightarrow> f64 \<times> f64" where
  "simulate_route_tick_aware m pools_map ticks_map route amount_in =
     simulate_hops m pools_map ticks_map (hops route) (amount_in, lit 1)"

definition simulate_route_with_marginal_price ::
  "libm \<Rightarrow> (string \<rightharpoonup> pool_state) \<Rightarrow> route_path \<Rightarrow> f64 \<Rightarrow> f64 \<times> f64" where
  "simulate_route_with_marginal_price m pools_map route amount_in =
     simulate_route_tick_aware m pools_map Map.empty route amount_in"

subsection \<open>Splitting an order over routes\<close>

text \<open>
  The simulation of a route enters the split only through this function of the route and the amount:
  output and marginal price.
\<close>

type_synonym simulator = "route_path \<Rightarrow> f64 \<Rightarrow> f64 \<times> f64"

fun bisect_marginal :: "nat \<Rightarrow> (f64 \<Rightarrow> f64 \<times> f64) \<Rightarrow> f64 \<Rightarrow> f64 \<Rightarrow> f64 \<Rightarrow> f64" where
  "bisect_marginal 0 sim target low high = fdiv (fadd low high) (lit 2)"
| "bisect_marginal (Suc n) sim target low high =
     (let mid = fdiv (fadd low high) (lit 2);
          marginal = snd (sim mid)
      in if flt target marginal then bisect_marginal n sim target mid high
         else bisect_marginal n sim target low mid)"

definition solve_allocation_for_target_marginal :: "simulator \<Rightarrow> route_path \<Rightarrow> f64 \<Rightarrow> f64 \<Rightarrow> f64" where
  "solve_allocation_for_target_marginal sim route target_marginal max_amount =
     (let spot_marginal = snd (sim route (lit 0))
      in if fle spot_marginal target_marginal then lit 0
         else bisect_marginal 15 (sim route) target_marginal (lit 0) max_amount)"

definition max_spot :: "simulator \<Rightarrow> route_path list \<Rightarrow> f64" where
  "max_spot sim routes =
     fold (\<lambda>r mx. let spot = snd (sim r (lit 0)) in if flt mx spot then spot else mx) routes (lit 0)"

fun bisect_split :: "nat \<Rightarrow> simulator \<Rightarrow> route_path list \<Rightarrow> f64 \<Rightarrow> f64 \<Rightarrow> f64 \<Rightarrow> f64 list \<Rightarrow> f64 list" where
  "bisect_split 0 sim routes total_amount low high best = best"
| "bisect_split (Suc n) sim routes total_amount low high best =
     (let mid = fdiv (fadd low high) (lit 2);
          allocs = map (\<lambda>r. solve_allocation_for_target_marginal sim r mid total_amount) routes;
          s = fold (\<lambda>a acc. fadd acc a) allocs (lit 0)
      in if flt total_amount s then bisect_split n sim routes total_amount mid high best
         else bisect_split n sim routes total_amount low mid allocs)"

type_synonym split_item = "route_path \<times> u128 \<times> u128"

fun allocate :: "simulator \<Rightarrow> f64 \<Rightarrow> route_path list \<Rightarrow> f64 list \<Rightarrow> split_item list" where
  "allocate sim scale (r # rs) (a # as) =
     (let alloc_f = fmul a scale;
          alloc_u = f64_as_u128 alloc_f
      in if 0 < alloc_u then (r, alloc_u, f64_as_u128 (fst (sim r alloc_f))) # allocate sim scale rs as
         else allocate sim scale rs as)"
| "allocate sim scale rs as = []"

text \<open>\<open>iter_mut().max_by_key(|item| item.1)\<close>: the position of the last item of largest allocation.\<close>

fun max_item :: "split_item list \<Rightarrow> nat option" where
  "max_item [] = None"
| "max_item (x # xs) =
     (case max_item xs of
        None \<Rightarrow> Some 0
      | Some j \<Rightarrow> if fst (snd x) \<le> fst (snd (xs ! j)) then Some (Suc j) else Some 0)"

definition top_up :: "simulator \<Rightarrow> u128 \<Rightarrow> split_item list \<Rightarrow> split_item list" where
  "top_up sim amount_in result =
     (let allocated = sum_list (map (fst \<circ> snd) result)
      in if allocated < amount_in \<and> result \<noteq> [] then
           (case max_item result of
              None \<Rightarrow> result
            | Some i \<Rightarrow>
                let r = fst (result ! i);
                    a = fst (snd (result ! i)) + (amount_in - allocated)
                in result[i := (r, a, f64_as_u128 (fst (sim r (u128_as_f64 a))))])
         else result)"

definition optimize_order_split_gross :: "simulator \<Rightarrow> route_path list \<Rightarrow> u128 \<Rightarrow> split_item list" where
  "optimize_order_split_gross sim routes amount_in =
     (if routes = [] \<or> amount_in = 0 then []
      else if length routes = 1 then
        [(hd routes, amount_in, f64_as_u128 (fst (sim (hd routes) (u128_as_f64 amount_in))))]
      else
        let total_amount_f = u128_as_f64 amount_in;
            best = bisect_split 20 sim routes total_amount_f (lit 0) (max_spot sim routes)
                     (replicate (length routes) (lit 0));
            sum_alloc = fold (\<lambda>a acc. fadd acc a) best (Fin True 0)
        in if flt (lit 0) sum_alloc then
             top_up sim amount_in (allocate sim (fdiv total_amount_f sum_alloc) routes best)
           else [(hd routes, amount_in, f64_as_u128 (fst (sim (hd routes) total_amount_f)))])"

subsection \<open>Gas cost\<close>

definition is_sui :: "string \<Rightarrow> bool" where
  "is_sui coin \<longleftrightarrow> coin = ''sui'' \<or> contains coin ''0x2::sui::sui''"

definition decimals_or_9 :: "(string \<rightharpoonup> u8) \<Rightarrow> string \<Rightarrow> u8" where
  "decimals_or_9 decimals_map t = (case decimals_map t of Some d \<Rightarrow> d | None \<Rightarrow> 9)"

fun sui_price_search :: "libm \<Rightarrow> (string \<rightharpoonup> u8) \<Rightarrow> string \<Rightarrow> pool_state list \<Rightarrow> f64" where
  "sui_price_search m decimals_map target_norm [] = lit (5 / 2)"
| "sui_price_search m decimals_map target_norm (pool # rest) =
     (let coin_a = to_lowercase (coin_type_a pool);
          coin_b = to_lowercase (coin_type_b pool);
          dec_a = decimals_or_9 decimals_map (coin_type_a pool);
          dec_b = decimals_or_9 decimals_map (coin_type_b pool);
          price = calculate_price m pool dec_a dec_b (pool_factor_bits pool)
      in if is_sui coin_a \<and> coin_b = target_norm then price
         else if coin_a = target_norm \<and> is_sui coin_b then
           (if flt (lit 0) price then fdiv (lit 1) price
            else sui_price_search m decimals_map target_norm rest)
         else sui_price_search m decimals_map target_norm rest)"

definition get_sui_price_in_target_token ::
  "libm \<Rightarrow> pool_state list \<Rightarrow> (string \<rightharpoonup> u8) \<Rightarrow> string \<Rightarrow> f64" where
  "get_sui_price_in_target_token m pool_values decimals_map target_token =
     (let target_norm = to_lowercase target_token
      in if is_sui target_norm then lit 1 else sui_price_search m decimals_map target_norm pool_values)"

definition calculate_route_gas_cost_in_target_token ::
  "libm \<Rightarrow> pool_state list \<Rightarrow> (string \<rightharpoonup> u8) \<Rightarrow> route_path \<Rightarrow> string \<Rightarrow> u64 \<Rightarrow> f64" where
  "calculate_route_gas_cost_in_target_token m pool_values decimals_map route target_token reference_gas_price =
     (let total_gas_units = fmul (int_as_f64 (int (length (hops route)))) (lit 5000);
          total_gas_mist = fmul total_gas_units (u64_as_f64 reference_gas_price);
          total_gas_sui = fdiv total_gas_mist (lit 1000000000);
          target_decimals = decimals_or_9 decimals_map target_token;
          sui_price = get_sui_price_in_target_token m pool_values decimals_map target_token;
          gas_cost_target_human = fmul total_gas_sui sui_price
      in fmul gas_cost_target_human (fpowi m (lit 10) (uint target_decimals)))"

subsection \<open>Pruning routes by net output\<close>

definition F64_MAX :: f64 where "F64_MAX = Fin False (of_int ((2 ^ 53 - 1) * 2 ^ 971))"

text \<open>
  The scan over the splits: \<open>Inl i\<close> when route \<open>i\<close> does not pay for its gas, otherwise the total net
  output and the index of the smallest contribution.
\<close>

fun net_scan :: "(route_path \<Rightarrow> f64) \<Rightarrow> nat \<Rightarrow> split_item list \<Rightarrow> f64 \<Rightarrow> f64 \<Rightarrow> nat option \<Rightarrow> nat + f64 \<times> nat option" where
  "net_scan gas i [] current_net_out min_contribution min_idx = Inr (current_net_out, min_idx)"
| "net_scan gas i ((r, alloc_in, alloc_out) # rest) current_net_out min_contribution min_idx =
     (let net_out = fsub (u128_as_f64 alloc_out) (gas r)
      in if fle net_out (lit 0) then Inl i
         else if flt net_out min_contribution
              then net_scan gas (Suc i) rest (fadd current_net_out net_out) net_out (Some i)
              else net_scan gas (Suc i) rest (fadd current_net_out net_out) min_contribution min_idx)"

text \<open>
  \<open>position(|r| r.hops[0].pool_id == pool_id_to_remove)\<close> followed by \<open>remove\<close>; indexing an empty hop
  vector panics.
\<close>

definition first_pool :: "route_path \<Rightarrow> (string, unit) outcome" where
  "first_pool r = (case hops r of [] \<Rightarrow> Panic ''index out of bounds'' | h # hs \<Rightarrow> Ok (h_pool_id h))"

fun remove_first :: "string \<Rightarrow> route_path list \<Rightarrow> (route_path list, unit) outcome" where
  "remove_first pid [] = Ok []"
| "remove_first pid (r # rs) =
     bind_outcome (first_pool r) (\<lambda>p.
       if p = pid then Ok rs else bind_outcome (remove_first pid rs) (\<lambda>rs'. Ok (r # rs')))"

definition drop_route :: "split_item list \<Rightarrow> nat \<Rightarrow> route_path list \<Rightarrow> (route_path list, unit) outcome" where
  "drop_route splits idx active =
     bind_outcome (first_pool (fst (splits ! idx))) (\<lambda>pid. remove_first pid active)"

text \<open>The outer \<open>option\<close> is non-termination of the \<open>loop\<close>.\<close>

partial_function (option) prune_loop ::
  "simulator \<Rightarrow> (route_path \<Rightarrow> f64) \<Rightarrow> u128 \<Rightarrow> route_path list \<Rightarrow> split_item list \<Rightarrow> f64 \<Rightarrow>
   (split_item list, unit) outcome option" where
  "prune_loop sim gas amount_in active best_splits best_net_out =
     (let splits = optimize_order_split_gross sim active amount_in
      in if splits = [] then Some (Ok best_splits)
         else case net_scan gas 0 splits (lit 0) F64_MAX None of
           Inl idx \<Rightarrow>
             (case drop_route splits idx active of
                Ok active' \<Rightarrow>
                  if active' = [] then Some (Ok best_splits)
                  else prune_loop sim gas amount_in active' best_splits best_net_out
              | Err e \<Rightarrow> Some (Err e)
              | Panic msg \<Rightarrow> Some (Panic msg))
         | Inr nm \<Rightarrow>
             if flt best_net_out (fst nm) then
               (case snd nm of
                  Some idx \<Rightarrow>
                    if 1 < length active then
                      (case drop_route splits idx active of
                         Ok active' \<Rightarrow> prune_loop sim gas amount_in active' splits (fst nm)
                       | Err e \<Rightarrow> Some (Err e)
                       | Panic msg \<Rightarrow> Some (Panic msg))
                    else Some (Ok splits)
                | None \<Rightarrow> Some (Ok splits))
             else Some (Ok best_splits))"

declare prune_loop.simps [code]

fun best_single :: "simulator \<Rightarrow> u128 \<Rightarrow> route_path list \<Rightarrow> route_path \<Rightarrow> u128 \<Rightarrow> route_path \<times> u128" where
  "best_single sim amount_in [] best_route max_out = (best_route, max_out)"
| "best_single sim amount_in (r # rs) best_route max_out =
     (let out = f64_as_u128 (fst (sim r (u128_as_f64 amount_in)))
      in if max_out < out then best_single sim amount_in rs r out
         else best_single sim amount_in rs best_route max_out)"

definition optimize_order_split_with ::
  "simulator \<Rightarrow> (route_path \<Rightarrow> f64) \<Rightarrow> route_path list \<Rightarrow> u128 \<Rightarrow> (split_item list, unit) outcome option" where
  "optimize_order_split_with sim gas routes amount_in =
     (if routes = [] \<or> amount_in = 0 then Some (Ok [])
      else
        let pruned_routes = filter (\<lambda>r. length (hops r) \<le> 3) routes
        in if pruned_routes = [] then Some (Ok [])
           else case prune_loop sim gas amount_in pruned_routes [] (lit (- 1)) of
             None \<Rightarrow> None
           | Some res \<Rightarrow> Some (bind_outcome res (\<lambda>best_splits.
               if best_splits = [] then
                 let rm = best_single sim amount_in pruned_routes (hd pruned_routes) 0
                 in Ok [(fst rm, amount_in, snd rm)]
               else Ok best_splits)))"

definition optimize_order_split ::
  "libm \<Rightarrow> (string \<rightharpoonup> pool_state) \<Rightarrow> pool_state list \<Rightarrow> (string \<rightharpoonup> u8) \<Rightarrow> (string \<rightharpoonup> pool_tick_data) \<Rightarrow>
   route_path list \<Rightarrow> u128 \<Rightarrow> string \<Rightarrow> u64 \<Rightarrow> (split_item list, unit) outcome option" where
  "optimize_order_split m pools_map pool_values decimals_map ticks_map routes amount_in to_token reference_gas_price =
     optimize_order_split_with (simulate_route_tick_aware m pools_map ticks_map)
       (\<lambda>r. calculate_route_gas_cost_in_target_token m pool_values decimals_map r to_token reference_gas_price)
       routes amount_in"

subsection \<open>The iteration cap of the tick walk is never reached\<close>

text \<open>The ticks that still lie ahead.\<close>

definition ahead :: "bool \<Rightarrow> tick_info list \<Rightarrow> int \<Rightarrow> tick_info list" where
  "ahead going_down tks cur = filter (\<lambda>t. if going_down then tick_index t < cur else cur < tick_index t) tks"

lemma pick_next_tick_iff:
  "pick_next_tick tks cur d = Some t \<Longrightarrow> t \<in> tick_index ` set (ahead d tks cur)"
  "pick_next_tick tks cur d = None \<longleftrightarrow> ahead d tks cur = []"
proof -
  assume a: "pick_next_tick tks cur d = Some t"
  have ne: "map tick_index (ahead d tks cur) \<noteq> []"
    using a by (auto simp: pick_next_tick_def ahead_def Let_def split: if_splits)
  have "t = (if d then Max else Min) (set (map tick_index (ahead d tks cur)))"
    using a by (auto simp: pick_next_tick_def ahead_def Let_def split: if_splits)
  with ne have "t \<in> set (map tick_index (ahead d tks cur))"
    by (metis List.finite_set Max_in Min_in set_empty)
  then show "t \<in> tick_index ` set (ahead d tks cur)" by simp
next
  show "pick_next_tick tks cur d = None \<longleftrightarrow> ahead d tks cur = []"
    by (auto simp: pick_next_tick_def ahead_def Let_def)
qed

lemma ahead_decreases:
  assumes "t \<in> tick_index ` set (ahead d tks cur)"
  shows "length (ahead d tks t) < length (ahead d tks cur)"
proof -
  obtain i where i: "i \<in> set tks" "tick_index i = t" "if d then t < cur else cur < t"
    using assms by (auto simp: ahead_def split: if_splits)
  have "ahead d tks t = filter (\<lambda>k. k \<in> set (ahead d tks t)) (ahead d tks cur)"
    using i by (auto simp: ahead_def filter_filter intro!: filter_cong)
  moreover have "i \<in> set (ahead d tks cur)" "i \<notin> set (ahead d tks t)"
    using i by (auto simp: ahead_def)
  ultimately show ?thesis by (metis length_filter_less)
qed

lemma walk_step_progress:
  assumes "walk_step m tks scale d w = (True, w')"
  shows "remaining w' = lit 0 \<or> length (ahead d tks (tick_cur w')) < length (ahead d tks (tick_cur w))"
  using assms pick_next_tick_iff(1) [of tks "tick_cur w" d] ahead_decreases [of _ d tks "tick_cur w"]
  by (auto simp: walk_step_def walk_down_def walk_up_def Let_def split: if_splits option.splits)

lemma zero_below_eps [simp]: "fle (lit 0) (lit (1 / 1000000000000))"
  by code_simp

lemma walk_loop_done: "remaining w = lit 0 \<Longrightarrow> walk_loop m tks scale d n w = w"
  by (cases n) simp_all

lemma walk_loop_stable:
  "length (ahead d tks (tick_cur w)) < n \<Longrightarrow>
   walk_loop m tks scale d (Suc n) w = walk_loop m tks scale d n w"
proof (induction n arbitrary: w)
  case (Suc n)
  obtain c w' where r: "walk_step m tks scale d w = (c, w')" by (cases "walk_step m tks scale d w")
  show ?case
  proof (cases "c \<and> \<not> fle (remaining w) (lit (1 / 10 ^ 12)) \<and> remaining w' \<noteq> lit 0")
    case True
    with r have "length (ahead d tks (tick_cur w')) < n"
      using walk_step_progress [of m tks scale d w w'] Suc.prems by simp
    with Suc.IH [of w'] True r show ?thesis by (simp add: Let_def)
  next
    case False
    then show ?thesis by (auto simp: r Let_def walk_loop_done)
  qed
qed simp

text \<open>
  C12.  The cap of \<open>ticks.len() + 2\<close> iterations never cuts a tick-crossing swap short: any larger number of
  iterations leaves the walk with the same amount, price, liquidity and remaining input.
\<close>

theorem tick_walk_cap_suffices:
  "walk_loop m tks scale going_down (length tks + 2 + k) w = walk_loop m tks scale going_down (length tks + 2) w"
proof (induction k)
  case (Suc k)
  have "length (ahead going_down tks (tick_cur w)) \<le> length tks" by (simp add: ahead_def)
  with Suc show ?case
    using walk_loop_stable [of going_down tks w "length tks + 2 + k" m scale] by simp
qed simp

subsection \<open>The split covers the order\<close>

abbreviation alloc_of :: "split_item \<Rightarrow> u128" where
  "alloc_of item \<equiv> fst (snd item)"

lemma allocate_items:
  "item \<in> set (allocate sim scale rs as) \<Longrightarrow> fst item \<in> set rs \<and> 0 < alloc_of item"
  by (induction sim scale rs as rule: allocate.induct) (auto simp: Let_def split: if_splits)

lemma max_item_in: "max_item xs = Some i \<Longrightarrow> i < length xs"
  by (induction xs arbitrary: i) (auto split: option.splits if_splits)

lemma max_item_None: "max_item xs = None \<longleftrightarrow> xs = []"
  by (cases xs) (auto split: option.splits)

lemma sum_list_update_word:
  "i < length xs \<Longrightarrow> sum_list (xs[i := v]) = sum_list xs - xs ! i + (v :: 'a :: ab_group_add)"
  by (induction xs arbitrary: i) (auto split: nat.splits simp: algebra_simps)

lemma top_up_total:
  "xs \<noteq> [] \<Longrightarrow> sum_list (map alloc_of (top_up sim amount xs)) =
     (if sum_list (map alloc_of xs) < amount then amount else sum_list (map alloc_of xs))"
  using max_item_in [of xs]
  by (auto simp: top_up_def Let_def max_item_None map_update sum_list_update_word comp_def split: option.splits)

lemma top_up_routes: "map fst (top_up sim amount xs) = map fst xs"
  using max_item_in [of xs]
  by (auto simp: top_up_def Let_def map_update list_update_same_conv split: option.splits)

definition covers :: "route_path list \<Rightarrow> u128 \<Rightarrow> split_item list \<Rightarrow> bool" where
  "covers routes amount xs \<longleftrightarrow>
     fst ` set xs \<subseteq> set routes \<and> (xs \<noteq> [] \<longrightarrow> amount \<le> sum_list (map alloc_of xs))"

lemma gross_covers: "covers routes amount (optimize_order_split_gross sim routes amount)"
proof -
  have "covers routes amount (top_up sim amount (allocate sim scale routes as))" for scale as
  proof (cases "allocate sim scale routes as = []")
    case True
    then show ?thesis by (simp add: covers_def top_up_def)
  next
    case False
    have "fst ` set (top_up sim amount (allocate sim scale routes as)) = fst ` set (allocate sim scale routes as)"
      by (metis list.set_map top_up_routes)
    then show ?thesis using top_up_total [OF False, of sim amount] allocate_items
      by (fastforce simp: covers_def not_less)
  qed
  then show ?thesis by (auto simp: optimize_order_split_gross_def Let_def) (auto simp: covers_def)
qed

lemma remove_first_subset: "remove_first pid rs = Ok rs' \<Longrightarrow> set rs' \<subseteq> set rs"
  by (induction rs arbitrary: rs') (auto simp: outcome_simps split: if_splits)

lemma remove_first_shorter:
  "remove_first pid rs = Ok rs' \<Longrightarrow> r \<in> set rs \<Longrightarrow> first_pool r = Ok pid \<Longrightarrow> Suc (length rs') = length rs"
  by (induction rs arbitrary: rs') (auto simp: outcome_simps split: if_splits)

lemma first_pool_Panic: "first_pool r = Panic msg \<Longrightarrow> hops r = []"
  by (auto simp: first_pool_def split: list.splits)

lemma first_pool_no_Err: "first_pool r \<noteq> Err e"
  by (auto simp: first_pool_def split: list.splits)

lemma remove_first_Panic: "remove_first pid rs = Panic msg \<Longrightarrow> \<exists>r \<in> set rs. hops r = []"
  by (induction rs) (auto simp: outcome_simps dest: first_pool_Panic split: if_splits)

lemma remove_first_no_Err: "remove_first pid rs \<noteq> Err e"
  by (induction rs) (auto simp: outcome_simps first_pool_no_Err split: if_splits)

lemma net_scan_index:
  "net_scan gas i xs c mn k = Inl j \<Longrightarrow> j < i + length xs"
  "net_scan gas i xs c mn k = Inr (t, Some j) \<Longrightarrow> (\<forall>q. k = Some q \<longrightarrow> q < i) \<Longrightarrow> j < i + length xs"
  by (induction gas i xs c mn k rule: net_scan.induct) (auto simp: Let_def less_Suc_eq split: if_splits)

text \<open>Dropping a route of the split shortens the list of active routes by one, or panics.\<close>

lemma drop_route_cases:
  assumes "covers active amount splits" "idx < length splits"
  obtains active' where "drop_route splits idx active = Ok active'" "set active' \<subseteq> set active"
      "Suc (length active') = length active"
  | msg r where "drop_route splits idx active = Panic msg" "r \<in> set active" "hops r = []"
proof -
  have r: "fst (splits ! idx) \<in> set active"
    using assms unfolding covers_def by (meson image_subset_iff nth_mem)
  show thesis
  proof (cases "drop_route splits idx active")
    case (Ok active')
    then show thesis using r remove_first_subset remove_first_shorter
      by (intro that(1)) (auto simp: drop_route_def outcome_simps)
  next
    case (Err e)
    then show thesis by (simp add: drop_route_def outcome_simps first_pool_no_Err remove_first_no_Err)
  next
    case (Panic msg)
    then show thesis using r that(2) first_pool_Panic remove_first_Panic
      by (fastforce simp: drop_route_def outcome_simps)
  qed
qed

definition prune_result_ok :: "route_path list \<Rightarrow> u128 \<Rightarrow> (split_item list, unit) outcome \<Rightarrow> bool" where
  "prune_result_ok routes amount res =
     (case res of
        Ok splits \<Rightarrow> covers routes amount splits
      | Err e \<Rightarrow> False
      | Panic msg \<Rightarrow> \<exists>r \<in> set routes. hops r = [])"

lemma covers_mono: "covers rs a xs \<Longrightarrow> set rs \<subseteq> set rs' \<Longrightarrow> covers rs' a xs"
  by (auto simp: covers_def)

lemma prune_loop_total:
  "set active \<subseteq> set routes \<Longrightarrow> covers routes amount best \<Longrightarrow>
   \<exists>res. prune_loop sim gas amount active best net = Some res \<and> prune_result_ok routes amount res"
proof (induction "length active" arbitrary: active best net rule: less_induct)
  case less
  define splits where "splits = optimize_order_split_gross sim active amount"
  have cov: "covers active amount splits" "covers routes amount splits"
    using gross_covers covers_mono less.prems(1) unfolding splits_def by blast+
  have step: "\<exists>res. (case drop_route splits idx active of
        Ok active' \<Rightarrow> if b \<and> active' = [] then Some (Ok best)
           else prune_loop sim gas amount active' best' net'
      | Err e \<Rightarrow> Some (Err e) | Panic msg \<Rightarrow> Some (Panic msg)) = Some res \<and> prune_result_ok routes amount res"
    if "idx < length splits" "covers routes amount best'" for idx b best' net'
    using cov(1) that(1)
  proof (cases rule: drop_route_cases)
    case (1 active')
    then have "\<exists>res. prune_loop sim gas amount active' best' net' = Some res \<and> prune_result_ok routes amount res"
      using less.hyps [of active' best' net'] less.prems(1) that(2) by auto
    with 1 less.prems show ?thesis by (auto simp: prune_result_ok_def)
  next
    case (2 msg r)
    with less.prems show ?thesis by (auto simp: prune_result_ok_def)
  qed
  show ?case
  proof (cases "splits = []")
    case True
    with less.prems show ?thesis
      by (subst prune_loop.simps) (auto simp: splits_def [symmetric] prune_result_ok_def)
  next
    case False
    show ?thesis
    proof (cases "net_scan gas 0 splits (lit 0) F64_MAX None")
      case (Inl idx)
      then have "idx < length splits" using net_scan_index(1) by fastforce
      from step [OF this less.prems(2), of True net] Inl False show ?thesis
        by (subst prune_loop.simps) (simp add: splits_def [symmetric] Let_def del: if_cancel cong: if_cong outcome.case_cong)
    next
      case (Inr nm)
      have "idx < length splits" if "snd nm = Some idx" for idx
        using net_scan_index(2) [of gas 0 splits "lit 0" F64_MAX None "fst nm" idx] Inr that
        by (metis add_0 option.distinct(1) prod.collapse)
      then have drop: "\<exists>res. (case drop_route splits idx active of
            Ok active' \<Rightarrow> prune_loop sim gas amount active' splits (fst nm)
          | Err e \<Rightarrow> Some (Err e) | Panic msg \<Rightarrow> Some (Panic msg)) = Some res \<and> prune_result_ok routes amount res"
        if "snd nm = Some idx" for idx
        using step [OF _ cov(2), of idx False "fst nm"] that by (simp cong: outcome.case_cong)
      have "prune_loop sim gas amount active best net =
        (if flt net (fst nm) then
           (case snd nm of
              Some idx \<Rightarrow> if 1 < length active then
                  (case drop_route splits idx active of
                     Ok active' \<Rightarrow> prune_loop sim gas amount active' splits (fst nm)
                   | Err e \<Rightarrow> Some (Err e) | Panic msg \<Rightarrow> Some (Panic msg))
                else Some (Ok splits)
            | None \<Rightarrow> Some (Ok splits))
         else Some (Ok best))"
        using Inr False by (subst prune_loop.simps) (simp add: splits_def [symmetric] Let_def)
      then show ?thesis using drop less.prems(2) cov(2)
        by (cases "snd nm") (simp_all add: prune_result_ok_def)
    qed
  qed
qed

lemma best_single_in:
  "best_route \<in> R \<Longrightarrow> set rs \<subseteq> R \<Longrightarrow> fst (best_single sim amount rs best_route mx) \<in> R"
  by (induction sim amount rs best_route mx rule: best_single.induct) (auto simp: Let_def)

definition split_ok :: "route_path list \<Rightarrow> u128 \<Rightarrow> (split_item list, unit) outcome \<Rightarrow> bool" where
  "split_ok routes amount res =
     (case res of
        Ok splits \<Rightarrow>
          (splits = [] \<longleftrightarrow> amount = 0 \<or> (\<forall>r \<in> set routes. 3 < length (hops r))) \<and>
          (\<forall>item \<in> set splits. fst item \<in> set routes \<and> length (hops (fst item)) \<le> 3) \<and>
          (splits \<noteq> [] \<longrightarrow> amount \<le> sum_list (map alloc_of splits))
      | Err e \<Rightarrow> False
      | Panic msg \<Rightarrow> \<exists>r \<in> set routes. hops r = [])"

lemma optimize_with_ok:
  "\<exists>res. optimize_order_split_with sim gas routes amount = Some res \<and> split_ok routes amount res"
proof (cases "amount = 0 \<or> filter (\<lambda>r. length (hops r) \<le> 3) routes = []")
  case True
  then show ?thesis
    by (auto simp: optimize_order_split_with_def split_ok_def Let_def filter_empty_conv not_le)
next
  case False
  define pruned where "pruned = filter (\<lambda>r. length (hops r) \<le> 3) routes"
  have p: "pruned \<noteq> []" "set pruned = {r \<in> set routes. length (hops r) \<le> 3}" using False by (auto simp: pruned_def)
  obtain res where res: "prune_loop sim gas amount pruned [] (lit (- 1)) = Some res"
    "prune_result_ok pruned amount res"
    using prune_loop_total [of pruned pruned amount "[]" sim gas "lit (- 1)"] by (auto simp: covers_def)
  have best: "fst (best_single sim amount pruned (hd pruned) 0) \<in> set pruned"
    using p(1) by (intro best_single_in) simp_all
  have "hd pruned \<in> set pruned" using p(1) by simp
  then have nz: "\<not> (\<forall>r \<in> set routes. 3 < length (hops r))" "routes \<noteq> []"
    unfolding p(2) by (auto simp: not_less)
  define final where "final = bind_outcome res (\<lambda>best_splits.
      if best_splits = [] then
        let rm = best_single sim amount pruned (hd pruned) 0 in Ok [(fst rm, amount, snd rm)]
      else Ok best_splits)"
  have eq: "optimize_order_split_with sim gas routes amount = Some final"
    using False res(1) nz(2) p(1)
    by (simp add: optimize_order_split_with_def pruned_def [symmetric] final_def)
  have "prune_result_ok pruned amount final \<and> final \<noteq> Ok []"
    using res(2) best by (cases res) (auto simp: final_def Let_def prune_result_ok_def covers_def)
  then show ?thesis
    unfolding eq using False nz p(2)
    by (cases final) (auto simp: prune_result_ok_def covers_def split_ok_def)
qed

text \<open>An order with a single route is not split.\<close>

lemma single_route_split:
  assumes "hops r \<noteq> []" "length (hops r) \<le> 3" "amount \<noteq> 0"
  shows "\<exists>out. optimize_order_split_with sim gas [r] amount = Some (Ok [(r, amount, out)])"
proof -
  obtain h hs where h: "hops r = h # hs" using assms(1) by (cases "hops r") auto
  have g: "optimize_order_split_gross sim [r] amount = [(r, amount, f64_as_u128 (fst (sim r (u128_as_f64 amount))))]"
    using assms(3) by (simp add: optimize_order_split_gross_def)
  have "\<exists>res. prune_loop sim gas amount [r] [] (lit (- 1)) = Some (Ok res) \<and> (res = [] \<or> (\<exists>out. res = [(r, amount, out)]))"
    by (subst prune_loop.simps) (auto simp: g Let_def drop_route_def first_pool_def h split: sum.splits)
  then show ?thesis using assms by (auto simp: optimize_order_split_with_def Let_def)
qed

text \<open>
  C4.  \<open>optimize_order_split\<close> always returns.  It returns the empty split exactly when the amount is zero or
  no route has at most three hops; otherwise every split uses one of the given routes with at most three
  hops and the allocations add up (as 128-bit integers) to at least the whole input amount, so no part of
  the order is left unrouted.  The only panic is the indexing of a route without hops.
\<close>

theorem optimize_order_split_covers:
  "\<exists>res. optimize_order_split m pools_map pool_values decimals_map ticks_map routes amount_in to_token gas_price = Some res \<and>
    (case res of
       Ok splits \<Rightarrow>
         (splits = [] \<longleftrightarrow> amount_in = 0 \<or> (\<forall>r \<in> set routes. 3 < length (hops r))) \<and>
         (\<forall>item \<in> set splits. fst item \<in> set routes \<and> length (hops (fst item)) \<le> 3) \<and>
         (splits \<noteq> [] \<longrightarrow> amount_in \<le> sum_list (map alloc_of splits))
     | Err e \<Rightarrow> False
     | Panic msg \<Rightarrow> \<exists>r \<in> set routes. hops r = [])"
  unfolding optimize_order_split_def
  by (rule optimize_with_ok [unfolded split_ok_def])

subsection \<open>Simulated amounts are never negative\<close>

text \<open>The sign bit is clear.\<close>

fun unsigned_f64 :: "f64 \<Rightarrow> bool" where
  "unsigned_f64 NaN = True"
| "unsigned_f64 (Inf s) = (\<not> s)"
| "unsigned_f64 (Fin s v) = (\<not> s \<and> 0 \<le> v)"

lemma unsigned_mk_f64 [simp]: "0 \<le> v \<Longrightarrow> unsigned_f64 (mk_f64 False v)"
  by (simp add: mk_f64_def Let_def round_mag_nonneg)

lemma unsigned_fmul [intro]: "unsigned_f64 a \<Longrightarrow> unsigned_f64 b \<Longrightarrow> unsigned_f64 (fmul a b)"
  by (cases "(a, b)" rule: fmul.cases) auto

lemma unsigned_fdiv [intro]: "unsigned_f64 a \<Longrightarrow> unsigned_f64 b \<Longrightarrow> unsigned_f64 (fdiv a b)"
  by (cases "(a, b)" rule: fdiv.cases) auto

lemma unsigned_fadd [intro]: "unsigned_f64 a \<Longrightarrow> unsigned_f64 b \<Longrightarrow> unsigned_f64 (fadd a b)"
  by (cases "(a, b)" rule: fadd.cases) (auto simp: Let_def not_less)

lemma unsigned_int_as_f64 [intro]: "0 \<le> i \<Longrightarrow> unsigned_f64 (int_as_f64 i)"
  by (simp add: int_as_f64_def)

lemma unsigned_casts [intro, simp]: "unsigned_f64 (u128_as_f64 w)" "unsigned_f64 (u64_as_f64 v)"
  by (auto simp: u128_as_f64_def u64_as_f64_def)

lemma unsigned_nonneg: "unsigned_f64 x \<Longrightarrow> is_nan x \<or> nonneg x"
  by (cases x) auto

lemma unsigned_fee_factor:
  assumes "fee_rate pool \<le> 1000000"
  shows "unsigned_f64 (fee_factor pool)"
proof -
  define i where "i = uint (fee_rate pool)"
  have i: "0 \<le> i" "i \<le> 1000000" using assms by (auto simp: i_def word_le_def)
  have lits: "lit 1000000 = Fin False 1000000" "lit 1 = Fin False 1" "round_mag 1 = 1" by code_simp+
  define q where "q = of_int i / (1000000 :: rat)"
  have q: "0 \<le> q" "q \<le> 1" using i by (simp_all add: q_def)
  have "pow2 0 \<le> pow2 1023" by (rule pow2_mono) simp
  then have "q \<le> pow2 1023" using q by (simp add: pow2_def)
  moreover have "u64_as_f64 (fee_rate pool) = Fin False (of_int i)"
    using i int_as_f64_exact [of i] by (simp add: u64_as_f64_def i_def)
  ultimately have "fdiv (u64_as_f64 (fee_rate pool)) (lit 1000000) = Fin False (round_mag q)"
    using q by (simp add: lits q_def mk_f64_small)
  moreover have "round_mag q \<le> 1" using round_mag_mono [of q 1] q lits(3) by simp
  ultimately show ?thesis by (simp add: fee_factor_def fsub_def lits Let_def)
qed

text \<open>
  What the simulation needs of the library: the powers of two used as price scales are not negative, and
  \<open>powf\<close> returns a floating-point number.
\<close>

definition sane_pow :: "libm \<Rightarrow> bool" where
  "sane_pow m \<longleftrightarrow>
     unsigned_f64 (fpowi m (lit 2) 64) \<and> unsigned_f64 (fpowi m (lit 2) 96) \<and>
     (\<forall>x y. wf_f64 x \<longrightarrow> wf_f64 y \<longrightarrow> wf_f64 (fpowf m x y))"

lemma unsigned_pool_price: "sane_pow m \<Longrightarrow> unsigned_f64 (pool_sqrt_price_internal m pool)"
  by (auto simp: pool_sqrt_price_internal_def pool_factor_bits_def sane_pow_def)

lemma positive_unsigned: "wf_f64 x \<Longrightarrow> \<not> fle x (lit 0) \<Longrightarrow> unsigned_f64 x"
proof -
  have "lit 0 = Fin False 0" by code_simp
  then show "wf_f64 x \<Longrightarrow> \<not> fle x (lit 0) \<Longrightarrow> unsigned_f64 x" by (cases x) auto
qed

definition amount_ok :: "f64 \<Rightarrow> bool" where
  "amount_ok x \<longleftrightarrow> wf_f64 x \<and> (is_nan x \<or> nonneg x)"

lemma unsigned_amount_ok: "unsigned_f64 x \<Longrightarrow> amount_ok x"
  using unsigned_nonneg by (cases x) (auto simp: amount_ok_def)

lemma within_tick_amount_ok:
  assumes "sane_pow m" "fee_rate pool \<le> 1000000" "wf_f64 amount"
  shows "amount_ok (amount_out (simulate_hop_within_tick_detailed m pool hop amount))"
proof (cases "fle amount (lit 0) \<or> liquidity pool = 0")
  case True
  have "lit 0 = Fin False 0" by code_simp
  with True show ?thesis by (simp add: simulate_hop_within_tick_detailed_def amount_ok_def)
next
  case False
  then have "unsigned_f64 amount" using assms positive_unsigned by blast
  then have "unsigned_f64 (amount_out (simulate_hop_within_tick_detailed m pool hop amount))"
    using False unsigned_pool_price [OF assms(1)] unsigned_fee_factor [OF assms(2)]
    by (auto simp: simulate_hop_within_tick_detailed_def Let_def)
  then show ?thesis by (rule unsigned_amount_ok)
qed

definition wf_walk :: "tick_walk \<Rightarrow> bool" where
  "wf_walk w \<longleftrightarrow> wf_f64 (remaining w) \<and> wf_f64 (sqrtp w) \<and> wf_f64 (wl w) \<and> wf_f64 (w_out w)"

lemma unsigned_wf: "unsigned_f64 x \<Longrightarrow> wf_f64 x"
  by (cases x) auto

lemma wf_target: "sane_pow m \<Longrightarrow> wf_f64 scale \<Longrightarrow> wf_f64 (sqrtp_target m scale d nt)"
  by (auto simp: sqrtp_target_def tick_to_sqrt_price_internal_def sane_pow_def MIN_SQRT_PRICE_X64_def
      MAX_SQRT_PRICE_X64_def split: option.splits)

lemma wf_liquidity_net [simp]: "wf_f64 (liquidity_net_of tks t)"
  by (auto simp: liquidity_net_of_def split: option.splits)

lemma wf_walk_step:
  assumes "sane_pow m" "wf_f64 scale" "wf_walk w"
  shows "wf_walk (snd (walk_step m tks scale d w))"
  using assms wf_target [OF assms(1,2)]
  by (auto simp: walk_step_def walk_down_def walk_up_def wf_walk_def Let_def split: option.splits)

lemma wf_walk_loop: "sane_pow m \<Longrightarrow> wf_f64 scale \<Longrightarrow> wf_walk w \<Longrightarrow> wf_walk (walk_loop m tks scale d n w)"
  by (induction m tks scale d n w rule: walk_loop.induct) (auto simp: Let_def wf_walk_step)

lemma wf_fee_factor [simp]: "wf_f64 (fee_factor pool)"
  by (simp add: fee_factor_def)

lemma wf_scale: "sane_pow m \<Longrightarrow> wf_f64 (fpowi m (lit 2) (pool_factor_bits pool))"
  by (simp add: sane_pow_def pool_factor_bits_def unsigned_wf)

lemma walk_result_amount_ok: "wf_walk w \<Longrightarrow> amount_ok (amount_out (walk_result m pool w))"
proof -
  have "lit 0 = Fin False 0" by code_simp
  then show "wf_walk w \<Longrightarrow> amount_ok (amount_out (walk_result m pool w))"
    by (auto simp: walk_result_def Let_def amount_ok_def wf_walk_def)
qed

lemma tick_aware_amount_ok:
  assumes "sane_pow m" "fee_rate pool \<le> 1000000" "wf_f64 amount"
  shows "amount_ok (amount_out (simulate_swap_tick_aware_detailed m pool td hop amount))"
proof -
  have "wf_walk (walk_init m pool td amount)"
    using assms unsigned_wf [OF unsigned_pool_price [OF assms(1)]] by (simp add: wf_walk_def walk_init_def)
  then have "wf_walk (walk_loop m (ticks td) (fpowi m (lit 2) (pool_factor_bits pool)) d n (walk_init m pool td amount))"
    for d n by (rule wf_walk_loop [OF assms(1) wf_scale [OF assms(1)]])
  then have "amount_ok (amount_out (walk_result m pool (walk_loop m (ticks td)
      (fpowi m (lit 2) (pool_factor_bits pool)) d n (walk_init m pool td amount))))" for d n
    by (rule walk_result_amount_ok)
  then show ?thesis using within_tick_amount_ok [OF assms(1,2)] assms(3)
    by (simp add: simulate_swap_tick_aware_detailed_def Let_def del: walk_loop.simps)
qed

lemma simulate_hops_amount_ok:
  assumes "sane_pow m" "\<forall>pool \<in> ran pools_map. fee_rate pool \<le> 1000000"
  shows "amount_ok (fst am) \<Longrightarrow> amount_ok (fst (simulate_hops m pools_map ticks_map hs am))"
  using assms
proof (induction m pools_map ticks_map hs am rule: simulate_hops.induct)
  case (2 m pools_map ticks_map hop rest am)
  show ?case
  proof (cases "pools_map (h_pool_id hop)")
    case None
    have "lit 0 = Fin False 0" by code_simp
    with None show ?thesis by (simp add: amount_ok_def)
  next
    case (Some pool)
    then have "fee_rate pool \<le> 1000000" using "2.prems" by (auto simp: ran_def)
    then have "amount_ok (fst (case ticks_map (h_pool_id hop) of
        Some td \<Rightarrow> simulate_swap_tick_aware m pool td hop (fst am)
      | None \<Rightarrow> simulate_hop_within_tick m pool hop (fst am)))"
      using "2.prems" tick_aware_amount_ok within_tick_amount_ok
      by (auto simp: simulate_swap_tick_aware_def simulate_hop_within_tick_def Let_def amount_ok_def
          split: option.splits)
    then show ?thesis using Some "2.IH" [OF Some refl] "2.prems" by (simp add: Let_def)
  qed
qed simp

text \<open>
  As long as no pool charges more than the whole input (\<open>fee_rate \<le> 1_000_000\<close> millionths), the
  simulated output of any route is not negative, whatever the tick data, prices and amounts; a degenerate
  pool can only make it NaN, which the later cast turns into 0.
\<close>

theorem simulate_route_not_negative:
  assumes "sane_pow m" and "\<forall>pool \<in> ran pools_map. fee_rate pool \<le> 1000000"
  shows "let out = fst (simulate_route_tick_aware m pools_map ticks_map route (u128_as_f64 amount))
    in is_nan out \<or> nonneg out"
  using simulate_hops_amount_ok [OF assms, of "(u128_as_f64 amount, lit 1)" ticks_map "hops route"]
    unsigned_amount_ok [OF unsigned_casts(1), of amount]
  by (simp add: simulate_route_tick_aware_def amount_ok_def)

lemma plain_libm_sane: "sane_pow plain_libm"
proof -
  have "lit 1 = Fin False 1" "lit 2 = Fin False 2" by code_simp+
  then have "unsigned_f64 (((\<lambda>v. fmul v (lit 2)) ^^ n) (lit 1))" for n
    by (induction n) auto
  then show ?thesis by (simp add: sane_pow_def plain_libm_def)
qed

definition demo_pool :: pool_state where
  "demo_pool = \<lparr>pool_id = ''p1'', dex_name = ''cetus'', coin_type_a = ''SUI'', coin_type_b = ''USDC'',
     sqrt_price = 2 ^ 64, liquidity = 1000000000, fee_rate = 2500, is_paused = False\<rparr>"

definition demo_hop :: swap_hop where
  "demo_hop = \<lparr>h_pool_id = ''p1'', h_dex_name = ''cetus'', h_input_token = ''SUI'', h_output_token = ''USDC'',
     h_fee_rate = 2500\<rparr>"

theorem simulate_route_not_negative_witness:
  "let out = fst (simulate_route_tick_aware plain_libm [''p1'' \<mapsto> demo_pool] Map.empty \<lparr>hops = [demo_hop]\<rparr>
      (u128_as_f64 1000000)) in is_nan out \<or> nonneg out"
  by (rule simulate_route_not_negative [OF plain_libm_sane]) (simp add: demo_pool_def)

theorem optimize_order_split_covers_witness:
  "\<exists>splits. optimize_order_split plain_libm Map.empty [] Map.empty Map.empty [\<lparr>hops = [demo_hop]\<rparr>] 100 ''B'' 1000 =
     Some (Ok splits) \<and> splits \<noteq> [] \<and> 100 \<le> sum_list (map alloc_of splits)"
proof -
  obtain res where res: "optimize_order_split plain_libm Map.empty [] Map.empty Map.empty [\<lparr>hops = [demo_hop]\<rparr>] 100 ''B'' 1000 = Some res"
    and ok: "case res of
       Ok splits \<Rightarrow>
         (splits = [] \<longleftrightarrow> (100 :: u128) = 0 \<or> (\<forall>r \<in> set [\<lparr>hops = [demo_hop]\<rparr>]. 3 < length (hops r))) \<and>
         (\<forall>item \<in> set splits. fst item \<in> set [\<lparr>hops = [demo_hop]\<rparr>] \<and> length (hops (fst item)) \<le> 3) \<and>
         (splits \<noteq> [] \<longrightarrow> 100 \<le> sum_list (map alloc_of splits))
     | Err e \<Rightarrow> False
     | Panic msg \<Rightarrow> \<exists>r \<in> set [\<lparr>hops = [demo_hop]\<rparr>]. hops r = []"
    using optimize_order_split_covers
      [of plain_libm Map.empty "[]" Map.empty Map.empty "[\<lparr>hops = [demo_hop]\<rparr>]" 100 "''B''" 1000] by blast
  from ok have "\<exists>splits. res = Ok splits \<and> splits \<noteq> [] \<and> 100 \<le> sum_list (map alloc_of splits)"
    by (cases res) auto
  with res show ?thesis by auto
qed

end
