(* ===== verification/Router_Dijkstra.thy ===== *)
theory Router_Dijkstra
  imports Router_Graph
begin

text \<open>
  Correctness of \<open>find_shortest_path_dijkstra\<close> (\<open>src/router.rs\<close>).  The interface of the priority queue
  is the locale \<open>binary_heap\<close>; the loop invariant says that the parent links form a tree whose
  distances are path costs, that every open token has its node in the heap, and that the edges of
  expanded tokens are relaxed.  From it the search ends with a path of least total cost, or with
  \<open>None\<close> exactly when the target cannot be reached.  The last section has the properties of
  \<open>find_best_route\<close>.
\<close>

subsection \<open>Dijkstra's search returns a cheapest path\<close>

text \<open>What the search relies on from \<open>std::collections::BinaryHeap\<close> with the reversed cost order.\<close>

locale binary_heap =
  fixes pop :: "dijkstra_node list \<Rightarrow> (dijkstra_node \<times> dijkstra_node list) option"
  assumes pop_None_iff: "pop h = None \<longleftrightarrow> h = []"
    and pop_mset: "pop h = Some (n, h') \<Longrightarrow> mset h = add_mset n (mset h')"
    and pop_least: "pop h = Some (n, h') \<Longrightarrow> k \<in> set h \<Longrightarrow> n_cost n \<le> n_cost k"

definition ecost :: "edge \<Rightarrow> nat" where
  "ecost e = unat (e_fee_rate e) + 100"

definition path_cost :: "swap_hop list \<Rightarrow> nat" where
  "path_cost hs = (\<Sum>h \<leftarrow> hs. unat (h_fee_rate h) + 100)"

lemma path_cost_simps [simp]:
  "path_cost [] = 0" "path_cost (h # hs) = unat (h_fee_rate h) + 100 + path_cost hs"
  "path_cost (hs @ ks) = path_cost hs + path_cost ks"
  by (simp_all add: path_cost_def)

text \<open>
  The costs along any path stay below \<open>2 ^ 64\<close>: the tokens reachable from \<open>from\<close> lie in the finite set \<open>T\<close> and
  each edge costs at most \<open>W\<close>.
\<close>

definition cost_bounded :: "token_graph \<Rightarrow> string \<Rightarrow> string set \<Rightarrow> nat \<Rightarrow> bool" where
  "cost_bounded g from T W \<longleftrightarrow>
     finite T \<and> from \<in> T \<and> (\<forall>t \<in> T. \<forall>ne \<in> set (out_edges g t). fst ne \<in> T \<and> ecost (snd ne) \<le> W) \<and>
     W * card T < 2 ^ 64"

definition dval :: "dijkstra_state \<Rightarrow> string \<Rightarrow> nat" where
  "dval st t = unat (the (dists st t))"

text \<open>
  The invariant of the main loop.  \<open>X\<close> are the tokens already expanded, \<open>R\<close> the edges already relaxed.
\<close>

definition inv_tree :: "token_graph \<Rightarrow> string \<Rightarrow> string set \<Rightarrow> dijkstra_state \<Rightarrow> bool" where
  "inv_tree g from X st \<longleftrightarrow>
     dists st from = Some 0 \<and> parent st from = None \<and>
     (\<forall>t \<in> dom (dists st) - {from}. \<exists>u e. parent st t = Some (u, e) \<and> u \<in> X \<and> (t, e) \<in> set (out_edges g u) \<and>
        dval st t = dval st u + ecost e)"

definition inv_dom :: "string set \<Rightarrow> nat \<Rightarrow> string set \<Rightarrow> dijkstra_state \<Rightarrow> bool" where
  "inv_dom T W X st \<longleftrightarrow>
     X \<subseteq> dom (dists st) \<and> dom (dists st) \<subseteq> T \<and> (\<forall>t \<in> dom (dists st). dval st t \<le> W * card X)"

definition inv_heap :: "string set \<Rightarrow> dijkstra_state \<Rightarrow> bool" where
  "inv_heap X st \<longleftrightarrow>
     distinct (heap st) \<and>
     (\<forall>n \<in> set (heap st). n_token n \<in> dom (dists st) \<and> dval st (n_token n) \<le> unat (n_cost n) \<and>
        (n_token n \<in> X \<longrightarrow> dval st (n_token n) < unat (n_cost n)) \<and> (\<forall>x \<in> X. dval st x \<le> unat (n_cost n))) \<and>
     (\<forall>t \<in> dom (dists st) - X. \<exists>n \<in> set (heap st). n_token n = t \<and> unat (n_cost n) = dval st t)"

definition inv_relaxed :: "(string \<times> string \<times> edge) set \<Rightarrow> dijkstra_state \<Rightarrow> bool" where
  "inv_relaxed R st \<longleftrightarrow>
     (\<forall>(x, ne) \<in> R. fst ne \<in> dom (dists st) \<and> dval st (fst ne) \<le> dval st x + ecost (snd ne))"

definition relaxed_edges :: "token_graph \<Rightarrow> string set \<Rightarrow> (string \<times> string \<times> edge) set" where
  "relaxed_edges g X = (SIGMA x:X. set (out_edges g x))"

definition dij_inv ::
  "token_graph \<Rightarrow> string \<Rightarrow> string set \<Rightarrow> nat \<Rightarrow> string set \<Rightarrow> (string \<times> string \<times> edge) set \<Rightarrow> dijkstra_state \<Rightarrow> bool" where
  "dij_inv g from T W X R st \<longleftrightarrow>
     inv_tree g from X st \<and> inv_dom T W X st \<and> inv_heap X st \<and> inv_relaxed R st \<and> fst ` R \<subseteq> X"

lemma dval_upd [simp]: "dval (st\<lparr>heap := h\<rparr>) t = dval st t"
  by (simp add: dval_def)

lemma unat_add_edge_weight:
  assumes "unat cost + ecost e < 2 ^ 64"
  shows "unat (cost + edge_weight e) = unat cost + ecost e"
proof -
  have "unat (edge_weight e) = ecost e"
    using assms by (simp add: edge_weight_def ecost_def unat_word_ariths)
  then show ?thesis using assms by (simp add: unat_word_ariths)
qed

text \<open>The update of one relaxation, and what it keeps.\<close>

definition improve :: "string \<Rightarrow> edge \<Rightarrow> string \<Rightarrow> u64 \<Rightarrow> dijkstra_state \<Rightarrow> dijkstra_state" where
  "improve x e t c st =
     st\<lparr>dists := (dists st)(t \<mapsto> c), parent := (parent st)(t \<mapsto> (x, e)),
        heap := heap st @ [\<lparr>n_token = t, n_cost = c\<rparr>]\<rparr>"

lemma improve_fields [simp]:
  "dists (improve x e t c st) = (dists st)(t \<mapsto> c)" "parent (improve x e t c st) = (parent st)(t \<mapsto> (x, e))"
  "heap (improve x e t c st) = heap st @ [\<lparr>n_token = t, n_cost = c\<rparr>]"
  by (simp_all add: improve_def)

lemma dval_improve [simp]: "dval (improve x e t c st) y = (if y = t then unat c else dval st y)"
  by (simp add: dval_def)

lemma relax_edge_improve:
  "relax_edge x c (t, e) st =
     (if dists st t = None \<or> unat (c + edge_weight e) < dval st t then improve x e t (c + edge_weight e) st else st)"
  by (auto simp: relax_edge_def improve_def Let_def dval_def word_less_nat_alt split: option.splits)

lemma inv_tree_improve:
  assumes inv: "inv_tree g from X st" and t: "t \<notin> X" "t \<noteq> from"
    and x: "x \<in> X" "(t, e) \<in> set (out_edges g x)" "unat c = dval st x + ecost e"
  shows "inv_tree g from X (improve x e t c st)"
proof -
  have "\<exists>u ed. parent (improve x e t c st) s = Some (u, ed) \<and> u \<in> X \<and> (s, ed) \<in> set (out_edges g u) \<and>
      dval (improve x e t c st) s = dval (improve x e t c st) u + ecost ed"
    if "s \<in> dom (dists (improve x e t c st)) - {from}" for s
  proof (cases "s = t")
    case True
    then show ?thesis using x t by auto
  next
    case False
    with that have "s \<in> dom (dists st) - {from}" by simp
    with inv obtain u ed where "parent st s = Some (u, ed)" "u \<in> X" "(s, ed) \<in> set (out_edges g u)"
      "dval st s = dval st u + ecost ed"
      unfolding inv_tree_def by blast
    with False t show ?thesis by auto
  qed
  with t inv show ?thesis by (auto simp: inv_tree_def)
qed

lemma inv_heap_improve:
  assumes inv: "inv_heap X st" and t: "t \<notin> X" "dists st t = None \<or> unat c < dval st t"
    and least: "\<forall>y \<in> X. dval st y \<le> unat c"
  shows "inv_heap X (improve x e t c st)" (is "inv_heap X ?st")
proof -
  have old: "n_token n \<in> dom (dists st)" "dval st (n_token n) \<le> unat (n_cost n)" if "n \<in> set (heap st)" for n
    using that inv by (auto simp: inv_heap_def)
  have "\<lparr>n_token = t, n_cost = c\<rparr> \<notin> set (heap st)"
    using old [of "\<lparr>n_token = t, n_cost = c\<rparr>"] t by fastforce
  then have "distinct (heap ?st)" using inv by (simp add: inv_heap_def)
  moreover have "n_token n \<in> dom (dists ?st) \<and> dval ?st (n_token n) \<le> unat (n_cost n) \<and>
    (n_token n \<in> X \<longrightarrow> dval ?st (n_token n) < unat (n_cost n)) \<and> (\<forall>y \<in> X. dval ?st y \<le> unat (n_cost n))"
    if "n \<in> set (heap ?st)" for n
  proof (cases "n \<in> set (heap st)")
    case True
    have "dval ?st (n_token n) \<le> dval st (n_token n)" using t old(1) [OF True] by auto
    with True old [OF True] inv t show ?thesis unfolding inv_heap_def by auto
  next
    case False
    with that have "n = \<lparr>n_token = t, n_cost = c\<rparr>" by simp
    with t least show ?thesis by auto
  qed
  moreover have "\<exists>n \<in> set (heap ?st). n_token n = s \<and> unat (n_cost n) = dval ?st s"
    if "s \<in> dom (dists ?st) - X" for s
  proof (cases "s = t")
    case False
    with that have "s \<in> dom (dists st) - X" by simp
    with inv obtain n where "n \<in> set (heap st)" "n_token n = s" "unat (n_cost n) = dval st s"
      unfolding inv_heap_def by blast
    with False show ?thesis by auto
  qed auto
  ultimately show ?thesis unfolding inv_heap_def by blast
qed

lemma inv_relaxed_improve:
  assumes "inv_relaxed R st" "fst ` R \<subseteq> X" "t \<notin> X" "dists st t = None \<or> unat c < dval st t"
  shows "inv_relaxed R (improve x e t c st)"
proof -
  have "fst m \<in> dom (dists (improve x e t c st)) \<and>
    dval (improve x e t c st) (fst m) \<le> dval (improve x e t c st) y + ecost (snd m)" if "(y, m) \<in> R" for y m
  proof -
    have "y \<in> X" "fst m \<in> dom (dists st)" "dval st (fst m) \<le> dval st y + ecost (snd m)"
      using that assms by (auto simp: inv_relaxed_def)
    then show ?thesis using assms by auto
  qed
  then show ?thesis unfolding inv_relaxed_def by blast
qed

lemma relax_edge_inv:
  assumes inv: "dij_inv g from T W X R st"
    and x: "x \<in> X" "dval st x = unat c" "\<forall>y \<in> X. dval st y \<le> unat c"
    and ne: "ne \<in> set (out_edges g x)" "fst ne \<in> T" "unat c + ecost (snd ne) \<le> W * card X" "W * card X < 2 ^ 64"
  shows "dij_inv g from T W X (insert (x, ne) R) (relax_edge x c ne st)"
    and "\<forall>y \<in> X. dval (relax_edge x c ne st) y = dval st y"
proof -
  obtain t e where te: "ne = (t, e)" by (cases ne)
  let ?c = "c + edge_weight e"
  have uc: "unat ?c = unat c + ecost e"
    using ne te by (intro unat_add_edge_weight) simp
  have parts: "inv_tree g from X st" "inv_dom T W X st" "inv_heap X st" "inv_relaxed R st" "fst ` R \<subseteq> X"
    using inv by (auto simp: dij_inv_def)
  have "dij_inv g from T W X (insert (x, ne) R) (relax_edge x c ne st) \<and>
      (\<forall>y \<in> X. dval (relax_edge x c ne st) y = dval st y)"
  proof (cases "dists st t = None \<or> unat ?c < dval st t")
    case False
    with parts x uc te show ?thesis
      by (auto simp: relax_edge_improve dij_inv_def inv_relaxed_def)
  next
    case True
    have "dval st t \<le> unat ?c" "dists st t \<noteq> None" if "t \<in> X"
      using that parts x uc by (auto simp: inv_dom_def intro: trans_le_add1)
    with True have tX: "t \<notin> X" by auto
    have tf: "t \<noteq> from" using True parts by (auto simp: inv_tree_def dval_def)
    have "inv_tree g from X (improve x e t ?c st)"
      using parts(1) tX tf by (rule inv_tree_improve) (use x ne te uc in auto)
    moreover have "inv_heap X (improve x e t ?c st)"
      using parts(3) tX True by (rule inv_heap_improve) (use x uc in \<open>auto intro: trans_le_add1\<close>)
    moreover have "inv_relaxed R (improve x e t ?c st)"
      using parts(4,5) tX True by (rule inv_relaxed_improve)
    moreover have "inv_dom T W X (improve x e t ?c st)"
      using parts ne te uc by (auto simp: inv_dom_def)
    ultimately show ?thesis using True te tX x uc parts
      by (auto simp: relax_edge_improve dij_inv_def inv_relaxed_def)
  qed
  then show "dij_inv g from T W X (insert (x, ne) R) (relax_edge x c ne st)"
    "\<forall>y \<in> X. dval (relax_edge x c ne st) y = dval st y" by auto
qed

lemma relax_edges_inv:
  assumes "dij_inv g from T W X R st" "x \<in> X" "dval st x = unat c" "\<forall>y \<in> X. dval st y \<le> unat c"
    "W * card X < 2 ^ 64"
    "\<forall>ne \<in> set es. ne \<in> set (out_edges g x) \<and> fst ne \<in> T \<and> unat c + ecost (snd ne) \<le> W * card X"
  shows "dij_inv g from T W X (R \<union> {x} \<times> set es) (fold (relax_edge x c) es st)"
  using assms
proof (induction es arbitrary: st R)
  case (Cons ne es)
  note step = relax_edge_inv [OF Cons.prems(1-4), of ne]
  have "dij_inv g from T W X (insert (x, ne) R \<union> {x} \<times> set es) (fold (relax_edge x c) es (relax_edge x c ne st))"
    using step Cons.prems by (intro Cons.IH) auto
  moreover have "insert (x, ne) R \<union> {x} \<times> set es = R \<union> {x} \<times> set (ne # es)" by auto
  ultimately show ?case by simp
qed simp

lemma dij_inv_init: "cost_bounded g from T W \<Longrightarrow> dij_inv g from T W {} (relaxed_edges g {}) (dijkstra_init from)"
  by (auto simp: dij_inv_def inv_tree_def inv_dom_def inv_heap_def inv_relaxed_def relaxed_edges_def
      dijkstra_init_def cost_bounded_def dval_def split: if_splits)

lemma inv_heap_open:
  "inv_heap X st \<Longrightarrow> t \<in> dom (dists st) - X \<Longrightarrow> \<exists>n \<in> set (heap st). n_token n = t \<and> unat (n_cost n) = dval st t"
  by (simp add: inv_heap_def)

lemma inv_tree_mono: "inv_tree g from X st \<Longrightarrow> X \<subseteq> Y \<Longrightarrow> inv_tree g from Y (st\<lparr>heap := h\<rparr>)"
  by (simp add: inv_tree_def) blast

text \<open>Popping an outdated node, and popping a current one.\<close>

lemma pop_stale_inv:
  assumes "dij_inv g from T W X R st" "mset (heap st) = add_mset n (mset h')"
    and "dval st (n_token n) < unat (n_cost n)"
  shows "dij_inv g from T W X R (st\<lparr>heap := h'\<rparr>)"
proof -
  have s: "set (heap st) = insert n (set h')" "distinct (heap st) \<Longrightarrow> distinct h'"
    using assms(2) by (metis set_mset_add_mset_insert set_mset_mset)
      (metis assms(2) distinct.simps(2) mset.simps(2) mset_eq_imp_distinct_iff)
  have "inv_heap X (st\<lparr>heap := h'\<rparr>)"
  proof -
    have h: "inv_heap X st" using assms by (simp add: dij_inv_def)
    have "\<exists>k \<in> set h'. n_token k = t \<and> unat (n_cost k) = dval st t" if t: "t \<in> dom (dists st) - X" for t
    proof -
      obtain k where "k \<in> set (heap st)" "n_token k = t" "unat (n_cost k) = dval st t"
        using inv_heap_open [OF h t] by blast
      then show ?thesis using s assms(3) by auto
    qed
    with h s show ?thesis by (auto simp: inv_heap_def)
  qed
  with assms show ?thesis
    by (auto simp: dij_inv_def inv_tree_def inv_dom_def inv_relaxed_def)
qed

lemma pop_current_inv:
  assumes inv: "dij_inv g from T W X R st" and m: "mset (heap st) = add_mset n (mset h')"
    and least: "\<forall>k \<in> set (heap st). n_cost n \<le> n_cost k"
    and cur: "dval st (n_token n) = unat (n_cost n)" and T: "finite T"
  shows "dij_inv g from T W (insert (n_token n) X) R (st\<lparr>heap := h'\<rparr>)"
    and "n_token n \<notin> X" and "n_token n \<in> T" and "\<forall>y \<in> X. dval st y \<le> unat (n_cost n)"
    and "unat (n_cost n) \<le> W * card X"
proof -
  have s: "set (heap st) = insert n (set h')"
    using m by (metis set_mset_add_mset_insert set_mset_mset)
  have d: "distinct (n # h')"
    using m inv by (metis dij_inv_def inv_heap_def mset.simps(2) mset_eq_imp_distinct_iff)
  have h: "inv_heap X st" "X \<subseteq> T" "finite X"
    using inv T by (auto simp: dij_inv_def inv_dom_def intro: rev_finite_subset)
  have n: "n \<in> set (heap st)" using s by simp
  with h cur show nX: "n_token n \<notin> X" by (auto simp: inv_heap_def)
  have dom: "n_token n \<in> dom (dists st)" using h n by (simp add: inv_heap_def)
  with inv show "n_token n \<in> T" by (auto simp: dij_inv_def inv_dom_def)
  from h n show le: "\<forall>y \<in> X. dval st y \<le> unat (n_cost n)" by (simp add: inv_heap_def)
  from inv dom show "unat (n_cost n) \<le> W * card X"
    unfolding dij_inv_def inv_dom_def cur [symmetric] by blast
  have lek: "unat (n_cost n) \<le> unat (n_cost k)" if "k \<in> set h'" for k
    using least s that by (simp add: word_le_nat_alt)
  have "k = n" if "k \<in> set (heap st)" "n_token k = n_token n" "unat (n_cost k) = dval st (n_token n)" for k
    using that cur by (auto simp: word_unat_eq_iff intro: dijkstra_node.equality)
  then have ne: "dval st (n_token k) < unat (n_cost k)" if "k \<in> set h'" "n_token k = n_token n" for k
    using that d lek [OF that(1)] s cur by (metis distinct.simps(2) insertCI le_neq_implies_less)
  have "inv_heap (insert (n_token n) X) (st\<lparr>heap := h'\<rparr>)"
  proof -
    have "\<exists>k \<in> set h'. n_token k = t \<and> unat (n_cost k) = dval st t"
      if t: "t \<in> dom (dists st) - insert (n_token n) X" for t
    proof -
      obtain k where "k \<in> set (heap st)" "n_token k = t" "unat (n_cost k) = dval st t"
        using inv_heap_open [OF h(1), of t] t by blast
      then show ?thesis using s t by auto
    qed
    with h d s lek ne cur show ?thesis by (auto simp: inv_heap_def)
  qed
  moreover have "inv_dom T W (insert (n_token n) X) st"
  proof -
    have "W * card X \<le> W * card (insert (n_token n) X)"
      using h by (simp add: card_insert_le)
    then have "\<forall>t \<in> dom (dists st). dval st t \<le> W * card (insert (n_token n) X)"
      using inv unfolding dij_inv_def inv_dom_def by (meson le_trans)
    then show ?thesis using inv dom by (simp add: dij_inv_def inv_dom_def)
  qed
  ultimately show "dij_inv g from T W (insert (n_token n) X) R (st\<lparr>heap := h'\<rparr>)"
    using inv inv_tree_mono [of g "from" X st "insert (n_token n) X" h']
    by (auto simp: dij_inv_def inv_dom_def inv_relaxed_def)
qed

text \<open>Every chain out of the start is settled up to its first token still in the heap.\<close>

lemma chain_settled:
  assumes inv: "dij_inv g from T W X (relaxed_edges g X) st" and c: "hop_chain g from hs t"
  shows "(t \<in> dom (dists st) \<and> dval st t \<le> path_cost hs) \<or> (\<exists>n \<in> set (heap st). unat (n_cost n) \<le> path_cost hs)"
  using c
proof (induction hs arbitrary: t rule: rev_induct)
  case Nil
  then show ?case using inv by (auto simp: dij_inv_def inv_tree_def dval_def)
next
  case (snoc h hs)
  then obtain u ne where u: "hop_chain g from hs u" "ne \<in> set (out_edges g u)" "h = mk_hop u ne" "t = fst ne"
    by (auto simp: hop_chain_append)
  have cost: "path_cost (hs @ [h]) = path_cost hs + ecost (snd ne)"
    using u by (simp add: ecost_def mk_hop_def)
  from snoc.IH [OF u(1)] consider (exp) "u \<in> X" "dval st u \<le> path_cost hs"
    | (front) "u \<in> dom (dists st) - X" "dval st u \<le> path_cost hs"
    | (later) "\<exists>n \<in> set (heap st). unat (n_cost n) \<le> path_cost hs" by blast
  then show ?case
  proof cases
    case exp
    then have "(u, ne) \<in> relaxed_edges g X" using u by (simp add: relaxed_edges_def)
    then have "fst ne \<in> dom (dists st)" "dval st (fst ne) \<le> dval st u + ecost (snd ne)"
      using inv by (auto simp: dij_inv_def inv_relaxed_def)
    then show ?thesis using exp u cost by simp
  next
    case front
    then obtain n where "n \<in> set (heap st)" "unat (n_cost n) = dval st u"
      using inv unfolding dij_inv_def inv_heap_def by blast
    then show ?thesis using front cost by (intro disjI2 bexI [of _ n]) auto
  next
    case later
    then show ?thesis using cost by (auto intro: trans_le_add1)
  qed
qed

lemma reconstruct_tree:
  assumes inv: "inv_tree g from X st" and sub: "X \<subseteq> dom (dists st)"
  shows "t \<in> dom (dists st) \<Longrightarrow>
    \<exists>hs. reconstruct (parent st) t acc = Some (hs @ acc) \<and> hop_chain g from hs t \<and> path_cost hs = dval st t"
proof (induction "dval st t" arbitrary: t acc rule: less_induct)
  case less
  show ?case
  proof (cases "t = from")
    case True
    with inv show ?thesis
      by (subst reconstruct.simps) (auto simp: inv_tree_def dval_def)
  next
    case False
    with less.prems inv obtain u e where u: "parent st t = Some (u, e)" "u \<in> X" "(t, e) \<in> set (out_edges g u)"
      "dval st t = dval st u + ecost e"
      unfolding inv_tree_def by blast
    then have "dval st u < dval st t" "u \<in> dom (dists st)" using sub by (auto simp: ecost_def)
    from less.hyps [OF this, of "mk_hop u (t, e) # acc"] obtain hs where
      hs: "reconstruct (parent st) u (mk_hop u (t, e) # acc) = Some (hs @ mk_hop u (t, e) # acc)"
      "hop_chain g from hs u" "path_cost hs = dval st u" by blast
    have "hop_chain g from (hs @ [mk_hop u (t, e)]) t"
      using hs u by (fastforce simp: hop_chain_append)
    moreover have "path_cost (hs @ [mk_hop u (t, e)]) = dval st t"
      using hs u by (simp add: ecost_def mk_hop_def)
    moreover have "reconstruct (parent st) t acc = Some ((hs @ [mk_hop u (t, e)]) @ acc)"
      using hs u by (subst reconstruct.simps) simp
    ultimately show ?thesis by blast
  qed
qed

text \<open>The answer of the search, as a specification.\<close>

definition cheapest_route :: "token_graph \<Rightarrow> string \<Rightarrow> string \<Rightarrow> route_path option \<Rightarrow> bool" where
  "cheapest_route g from to r =
     (case r of
        None \<Rightarrow> \<not> (\<exists>hs. hop_chain g from hs to)
      | Some p \<Rightarrow> hop_chain g from (hops p) to \<and> (\<forall>hs. hop_chain g from hs to \<longrightarrow> path_cost (hops p) \<le> path_cost hs))"

lemma empty_heap_answer:
  assumes "dij_inv g from T W X (relaxed_edges g X) st" "to \<notin> X" "heap st = []"
  shows "cheapest_route g from to None"
proof -
  have "\<not> hop_chain g from hs to" for hs
    using chain_settled [OF assms(1), of hs to] inv_heap_open [of X st to] assms
    by (auto simp: dij_inv_def)
  then show ?thesis by (simp add: cheapest_route_def)
qed

lemma target_popped_answer:
  assumes inv: "dij_inv g from T W X (relaxed_edges g X) st" and n: "n \<in> set (heap st)" "n_token n = to"
    and least: "\<forall>k \<in> set (heap st). n_cost n \<le> n_cost k"
  shows "\<exists>hs. reconstruct (parent st) to [] = Some hs \<and> cheapest_route g from to (Some \<lparr>hops = hs\<rparr>)"
proof -
  have dom: "to \<in> dom (dists st)" "dval st to \<le> unat (n_cost n)"
    using inv n by (auto simp: dij_inv_def inv_heap_def)
  obtain hs where hs: "reconstruct (parent st) to [] = Some hs" "hop_chain g from hs to" "path_cost hs = dval st to"
    using reconstruct_tree [of g "from" X st to "[]"] inv dom by (auto simp: dij_inv_def inv_dom_def)
  have "dval st to \<le> path_cost ks" if "hop_chain g from ks to" for ks
    using chain_settled [OF inv that] dom(2) least by (fastforce simp: word_le_nat_alt)
  with hs show ?thesis by (auto simp: cheapest_route_def)
qed

lemma expand_inv:
  assumes cb: "cost_bounded g from T W" and inv: "dij_inv g from T W X (relaxed_edges g X) st"
    and pop: "mset (heap st) = add_mset n (mset h')" "\<forall>k \<in> set (heap st). n_cost n \<le> n_cost k"
    and cur: "dval st (n_token n) = unat (n_cost n)"
  shows "dij_inv g from T W (insert (n_token n) X) (relaxed_edges g (insert (n_token n) X))
      (fold (relax_edge (n_token n) (n_cost n)) (out_edges g (n_token n)) (st\<lparr>heap := h'\<rparr>))"
    and "card (insert (n_token n) X) = Suc (card X)" and "card (insert (n_token n) X) \<le> card T"
proof -
  have T: "finite T" using cb by (simp add: cost_bounded_def)
  note p = pop_current_inv [OF inv pop cur T]
  have X: "X \<subseteq> T" "finite X"
    using inv T by (auto simp: dij_inv_def inv_dom_def intro: rev_finite_subset)
  show c: "card (insert (n_token n) X) = Suc (card X)" using X p(2) by simp
  show cT: "card (insert (n_token n) X) \<le> card T" using X p(3) T by (simp add: card_mono)
  have W: "W * card (insert (n_token n) X) < 2 ^ 64"
    using cT cb by (meson cost_bounded_def le_less_trans mult_le_mono2)
  have "dij_inv g from T W (insert (n_token n) X) (relaxed_edges g X \<union> {n_token n} \<times> set (out_edges g (n_token n)))
      (fold (relax_edge (n_token n) (n_cost n)) (out_edges g (n_token n)) (st\<lparr>heap := h'\<rparr>))"
    using p(1) _ _ _ W
  proof (rule relax_edges_inv)
    show "\<forall>ne \<in> set (out_edges g (n_token n)). ne \<in> set (out_edges g (n_token n)) \<and> fst ne \<in> T \<and>
        unat (n_cost n) + ecost (snd ne) \<le> W * card (insert (n_token n) X)"
      using p(3,5) cb c by (fastforce simp: cost_bounded_def)
  qed (use p cur in auto)
  moreover have "relaxed_edges g (insert (n_token n) X) =
      relaxed_edges g X \<union> {n_token n} \<times> set (out_edges g (n_token n))"
    by (auto simp: relaxed_edges_def)
  ultimately show "dij_inv g from T W (insert (n_token n) X) (relaxed_edges g (insert (n_token n) X))
      (fold (relax_edge (n_token n) (n_cost n)) (out_edges g (n_token n)) (st\<lparr>heap := h'\<rparr>))" by simp
qed

context binary_heap
begin

lemma loop_correct:
  assumes cb: "cost_bounded g from T W"
  shows "dij_inv g from T W X (relaxed_edges g X) st \<Longrightarrow> to \<notin> X \<Longrightarrow>
    \<exists>r. dijkstra_loop pop g to st = Some r \<and> cheapest_route g from to r"
proof (induction "(card T - card X, length (heap st))" arbitrary: X st
    rule: wf_induct_rule [OF wf_lex_prod [OF wf_less_than wf_less_than]])
  case 1
  note inv = 1(2)
  show ?case
  proof (cases "pop (heap st)")
    case None
    then have "heap st = []" by (simp add: pop_None_iff)
    then show ?thesis using empty_heap_answer [OF inv 1(3)] None
      by (subst dijkstra_loop.simps) simp
  next
    case (Some nh)
    obtain n h' where nh: "nh = (n, h')" by (cases nh)
    note m = pop_mset [OF Some [unfolded nh]] 
    have least: "\<forall>k \<in> set (heap st). n_cost n \<le> n_cost k" using pop_least Some nh by blast
    have n: "n \<in> set (heap st)" and len: "length (heap st) = Suc (length h')"
      using m by (metis set_mset_mset union_single_eq_member) (metis m size_add_mset size_mset)
    have dn: "n_token n \<in> dom (dists st)" "dval st (n_token n) \<le> unat (n_cost n)"
      using inv n by (auto simp: dij_inv_def inv_heap_def)
    consider (target) "n_token n = to" | (stale) "n_token n \<noteq> to" "dval st (n_token n) < unat (n_cost n)"
      | (expand) "n_token n \<noteq> to" "dval st (n_token n) = unat (n_cost n)" using dn by linarith
    then show ?thesis
    proof cases
      case target
      then show ?thesis using target_popped_answer [OF inv n target least] Some nh
        by (subst dijkstra_loop.simps) auto
    next
      case stale
      have "\<exists>r. dijkstra_loop pop g to (st\<lparr>heap := h'\<rparr>) = Some r \<and> cheapest_route g from to r"
        using pop_stale_inv [OF inv m stale(2)] 1(3) len by (intro 1(1)) auto
      then show ?thesis using stale Some nh dn
        by (subst dijkstra_loop.simps) (auto simp: dval_def word_less_nat_alt)
    next
      case expand
      note e = expand_inv [OF cb inv m least expand(2)]
      let ?st = "fold (relax_edge (n_token n) (n_cost n)) (out_edges g (n_token n)) (st\<lparr>heap := h'\<rparr>)"
      have "\<exists>r. dijkstra_loop pop g to ?st = Some r \<and> cheapest_route g from to r"
        using e 1(3) expand(1) by (intro 1(1) [of "insert (n_token n) X"]) auto
      then show ?thesis using expand Some nh dn
        by (subst dijkstra_loop.simps) (auto simp: dval_def word_less_nat_alt)
    qed
  qed
qed

lemma dijkstra_correct:
  "cost_bounded g from T W \<Longrightarrow>
   \<exists>r. find_shortest_path_dijkstra pop g from to = Some r \<and> cheapest_route g from to r"
  using loop_correct [OF _ dij_inv_init] by (simp add: find_shortest_path_dijkstra_def)

end

lemma pop_min_None: "pop_min h = None \<longleftrightarrow> h = []"
  by (cases h) (auto split: option.splits)

lemma pop_min_mset: "pop_min h = Some (n, h') \<Longrightarrow> mset h = add_mset n (mset h')"
  by (induction h arbitrary: n h') (auto simp: pop_min_None split: option.splits prod.splits if_splits)

lemma pop_min_least: "pop_min h = Some (n, h') \<Longrightarrow> k \<in> set h \<Longrightarrow> n_cost n \<le> n_cost k"
proof (induction h arbitrary: n h')
  case (Cons a h)
  then show ?case
    by (cases "pop_min h") (fastforce simp: pop_min_None split: if_splits)+
qed simp

interpretation pm: binary_heap pop_min
  by unfold_locales (rule pop_min_None, erule pop_min_mset, erule (1) pop_min_least)


text \<open>A graph built from pools: there are at most two tokens per pool besides the start.\<close>

definition pool_tokens :: "pool_state list \<Rightarrow> string list" where
  "pool_tokens pools = concat (map (\<lambda>p. [coin_type_a p, coin_type_b p]) pools)"

definition fees_fit :: "pool_state list \<Rightarrow> nat \<Rightarrow> bool" where
  "fees_fit pools F \<longleftrightarrow>
     (\<forall>p \<in> set pools. unat (fee_rate p) \<le> F) \<and> (F + 100) * (2 * length pools + 1) < 2 ^ 64"

lemma pools_cost_bounded:
  assumes "fees_fit pools F"
  shows "cost_bounded (build_from_pools g pools) from (insert from (set (pool_tokens pools))) (F + 100)"
proof -
  have "card (set (pool_tokens pools)) \<le> length (pool_tokens pools)" by (rule card_length)
  also have "length (pool_tokens pools) = 2 * length pools"
    unfolding pool_tokens_def by (induction pools) auto
  finally have "card (insert from (set (pool_tokens pools))) \<le> 2 * length pools + 1"
    by (metis List.finite_set add.commute card_insert_if le_SucI nat_add_left_cancel_le plus_1_eq_Suc)
  then have "(F + 100) * card (insert from (set (pool_tokens pools))) < 2 ^ 64"
    using assms unfolding fees_fit_def by (meson le_less_trans mult_le_mono2)
  then show ?thesis
    using assms
    by (auto simp: cost_bounded_def fees_fit_def out_edges_build pool_edges_at_def pool_tokens_def
        ecost_def pool_edge_def split: if_splits) 
qed

subsection \<open>Route selection\<close>

text \<open>A chain of hops through active pools.\<close>

fun pool_chain :: "pool_state list \<Rightarrow> string \<Rightarrow> swap_hop list \<Rightarrow> string \<Rightarrow> bool" where
  "pool_chain pools a [] b = (a = b)"
| "pool_chain pools a (h # hs) b =
     ((\<exists>pool \<in> set pools. hop_of_pool pool h) \<and> h_input_token h = a \<and> pool_chain pools (h_output_token h) hs b)"

lemma hop_chain_build: "hop_chain (build_from_pools g pools) a hs b \<longleftrightarrow> pool_chain pools a hs b"
  by (induction hs arbitrary: a) (simp_all add: hops_of_build)

text \<open>
  C1.  On a graph built from a pool list, the depth-first search returns exactly the simple paths of
  at least one and at most \<open>max_hops\<close> hops from the source token to the target token whose every hop
  trades through an active pool of the list, in the direction the hop names and at the fee of the pool.
\<close>

theorem find_all_paths_dfs_exact:
  "p \<in> set (find_all_paths_dfs (build_from_pools g pools) from to k) \<longleftrightarrow>
   hops p \<noteq> [] \<and> length (hops p) \<le> k \<and> distinct (from # map h_output_token (hops p)) \<and>
   pool_chain pools from (hops p) to"
  by (auto simp: dfs_paths_iff hop_chain_build path_tokens_def)

text \<open>
  C2.  Dijkstra's search ends on every pool list whose fees cannot overflow the 64-bit cost, whatever
  order the heap pops equal costs in.  It answers \<open>None\<close> exactly when no chain of active pools leads to
  the target, and otherwise a chain whose total cost (fee plus 100 per hop) no other chain beats.
\<close>

theorem dijkstra_cheapest:
  assumes "binary_heap pop" and "fees_fit pools F"
  shows "\<exists>r. find_shortest_path_dijkstra pop (build_from_pools g pools) from to = Some r \<and>
    (case r of
       None \<Rightarrow> \<not> (\<exists>hs. pool_chain pools from hs to)
     | Some p \<Rightarrow> pool_chain pools from (hops p) to \<and>
         (\<forall>hs. pool_chain pools from hs to \<longrightarrow> path_cost (hops p) \<le> path_cost hs))"
  using binary_heap.dijkstra_correct [OF assms(1) pools_cost_bounded [OF assms(2), of g "from"], of to]
  unfolding cheapest_route_def hop_chain_build .

definition sample_pools :: "pool_state list" where
  "sample_pools =
     [\<lparr>pool_id = ''p1'', dex_name = ''cetus'', coin_type_a = ''SUI'', coin_type_b = ''USDC'', sqrt_price = 1,
       liquidity = 1, fee_rate = 2500, is_paused = False\<rparr>,
      \<lparr>pool_id = ''p2'', dex_name = ''turbos'', coin_type_a = ''DEEP'', coin_type_b = ''SUI'', sqrt_price = 1,
       liquidity = 1, fee_rate = 500, is_paused = False\<rparr>,
      \<lparr>pool_id = ''p3'', dex_name = ''magma'', coin_type_a = ''DEEP'', coin_type_b = ''USDC'', sqrt_price = 1,
       liquidity = 1, fee_rate = 500, is_paused = False\<rparr>,
      \<lparr>pool_id = ''p4'', dex_name = ''cetus'', coin_type_a = ''SUI'', coin_type_b = ''USDC'', sqrt_price = 1,
       liquidity = 1, fee_rate = 1, is_paused = True\<rparr>]"

lemma sample_fees_fit: "fees_fit sample_pools 2500"
  by (simp add: fees_fit_def sample_pools_def)

theorem dijkstra_cheapest_witness:
  "\<exists>r. find_shortest_path_dijkstra pop_min (build_from_pools graph_new sample_pools) ''SUI'' ''USDC'' = Some r \<and>
    (case r of
       None \<Rightarrow> \<not> (\<exists>hs. pool_chain sample_pools ''SUI'' hs ''USDC'')
     | Some p \<Rightarrow> pool_chain sample_pools ''SUI'' (hops p) ''USDC'' \<and>
         (\<forall>hs. pool_chain sample_pools ''SUI'' hs ''USDC'' \<longrightarrow> path_cost (hops p) \<le> path_cost hs))"
  by (rule dijkstra_cheapest [OF pm.binary_heap_axioms sample_fees_fit])

text \<open>
  \<open>find_best_route\<close> always returns, and every route it returns leads from the source to the target
  through active pools only; above the small-amount threshold no route has more than the configured
  number of hops, and at or below it there is at most one route.
\<close>

theorem find_best_route_sound:
  assumes "binary_heap pop" and "fees_fit pools F"
  shows "\<exists>rs. find_best_route pop (build_from_pools g pools) from to amount config = Some rs \<and>
    (\<forall>p \<in> set rs. pool_chain pools from (hops p) to \<and>
       (small_amount_threshold config < amount \<longrightarrow> length (hops p) \<le> max_hops config)) \<and>
    (amount \<le> small_amount_threshold config \<longrightarrow> length rs \<le> 1)"
proof (cases "amount \<le> small_amount_threshold config")
  case True
  obtain r where "find_shortest_path_dijkstra pop (build_from_pools g pools) from to = Some r"
    "cheapest_route (build_from_pools g pools) from to r"
    using binary_heap.dijkstra_correct [OF assms(1) pools_cost_bounded [OF assms(2)]] by blast
  with True show ?thesis
    by (cases r) (auto simp: find_best_route_def cheapest_route_def hop_chain_build dest: leD)
next
  case False
  then show ?thesis
    by (simp add: find_best_route_def dfs_paths_iff hop_chain_build)
qed

theorem find_best_route_sound_witness:
  "\<exists>rs. find_best_route pop_min (build_from_pools graph_new sample_pools) ''SUI'' ''USDC'' 200000000 route_config_default =
      Some rs \<and>
    (\<forall>p \<in> set rs. pool_chain sample_pools ''SUI'' (hops p) ''USDC'' \<and>
       (small_amount_threshold route_config_default < 200000000 \<longrightarrow> length (hops p) \<le> max_hops route_config_default)) \<and>
    (200000000 \<le> small_amount_threshold route_config_default \<longrightarrow> length rs \<le> 1)"
  by (rule find_best_route_sound [OF pm.binary_heap_axioms sample_fees_fit])

end
