(* ===== verification/Quote_Api.thy ===== *)
theory Quote_Api
  imports Dex_Swap Router_Sim Router_Dijkstra
begin

text \<open>
  The request handlers of \<open>src/api/quote.rs\<close> and \<open>src/api/info.rs\<close>.  The services a handler awaits
  (Redis, PostgreSQL, the Sui node) are the record \<open>server_env\<close>: the answer of each call during one request.
  Writes to the cache are part of the result.  The outer \<open>option\<close> of a handler is non-termination, which only
  the path search and the pruning loop could cause.
\<close>

subsection \<open>Environment and errors\<close>

datatype status_code =
  BAD_REQUEST | NOT_FOUND | SERVICE_UNAVAILABLE | INTERNAL_SERVER_ERROR | BAD_GATEWAY

type_synonym http_error = "status_code \<times> string"

record server_env =
  env_libm :: libm
  env_pop :: "dijkstra_node list \<Rightarrow> (dijkstra_node \<times> dijkstra_node list) option"
  hm_values :: "(string \<rightharpoonup> pool_state) \<Rightarrow> pool_state list"
  redis_active_pools :: "(pool_state list option, string) outcome"
  pg_list_pools :: "(pool_state list, string) outcome"
  redis_pool_state :: "string \<Rightarrow> (pool_state option, string) outcome"
  redis_tick_data :: "string \<Rightarrow> (pool_tick_data option, string) outcome"
  pg_tick_data :: "string \<Rightarrow> (pool_tick_data option, string) outcome"
  redis_gas_price :: "(u64 option, string) outcome"
  pg_gas_price :: "(u64 option, string) outcome"
  redis_all_tokens :: "(token list option, string) outcome"
  pg_list_tokens :: "(token list, string) outcome"
  topology_ready :: bool

subsection \<open>Health, readiness and tokens\<close>

definition handle_health :: "string \<times> string" where
  "handle_health = (''ok'', ''devilray-sui'')"

text \<open>The pair is \<open>ready\<close> and \<open>topology_ready\<close>; the status is 200 exactly when ready.\<close>

definition handle_readyz :: "server_env \<Rightarrow> bool \<times> bool" where
  "handle_readyz env =
     (let pool_count = (case pg_list_pools env of Ok ps \<Rightarrow> length ps | _ \<Rightarrow> 0)
      in (topology_ready env \<and> 0 < pool_count, topology_ready env))"

text \<open>The tokens, and the list written back to the cache if any.\<close>

definition load_all_tokens :: "server_env \<Rightarrow> token list \<times> token list option" where
  "load_all_tokens env =
     (case redis_all_tokens env of
        Ok (Some toks) \<Rightarrow> (toks, None)
      | _ \<Rightarrow> (case pg_list_tokens env of Ok toks \<Rightarrow> (toks, Some toks) | _ \<Rightarrow> ([], None)))"

definition load_tokens_map :: "server_env \<Rightarrow> string \<rightharpoonup> u8" where
  "load_tokens_map env = foldl (\<lambda>m t. m(address t \<mapsto> decimals t)) Map.empty (fst (load_all_tokens env))"

subsection \<open>Loading the market\<close>

text \<open>The active pools, and the list written back to the cache if any.\<close>

definition load_active_pools :: "server_env \<Rightarrow> (pool_state list \<times> pool_state list option, http_error) outcome" where
  "load_active_pools env =
     (case redis_active_pools env of
        Ok (Some pools) \<Rightarrow> Ok (pools, None)
      | _ \<Rightarrow>
          bind_outcome
            (map_err (\<lambda>e. (INTERNAL_SERVER_ERROR, ''Failed to query pools from database: '' @ e)) (pg_list_pools env))
            (\<lambda>pools. let active = filter (\<lambda>p. \<not> is_paused p) pools in Ok (active, Some active)))"

definition hot_pool :: "server_env \<Rightarrow> pool_state \<Rightarrow> pool_state" where
  "hot_pool env pool = (case redis_pool_state env (pool_id pool) of Ok (Some hot_state) \<Rightarrow> hot_state | _ \<Rightarrow> pool)"

definition compile_pools :: "server_env \<Rightarrow> pool_state list \<Rightarrow> pool_state list" where
  "compile_pools env baseline = filter (\<lambda>p. \<not> is_paused p) (map (hot_pool env) baseline)"

definition pools_by_id :: "pool_state list \<Rightarrow> string \<rightharpoonup> pool_state" where
  "pools_by_id ps = foldl (\<lambda>m p. m(pool_id p \<mapsto> p)) Map.empty ps"

definition or_insert :: "('k \<rightharpoonup> 'v) \<Rightarrow> 'k \<Rightarrow> 'v \<Rightarrow> ('k \<rightharpoonup> 'v)" where
  "or_insert m k v = (case m k of None \<Rightarrow> m(k \<mapsto> v) | Some w \<Rightarrow> m)"

definition decimals_for :: "server_env \<Rightarrow> pool_state list \<Rightarrow> string \<rightharpoonup> u8" where
  "decimals_for env pool_values =
     foldl (\<lambda>m p. or_insert (or_insert m (coin_type_a p) 9) (coin_type_b p) 9) (load_tokens_map env) pool_values"

definition load_ticks_map :: "server_env \<Rightarrow> (string \<rightharpoonup> pool_state) \<Rightarrow> string \<rightharpoonup> pool_tick_data" where
  "load_ticks_map env pools_map pid =
     (if pools_map pid = None then None
      else case redis_tick_data env pid of
             Ok (Some td) \<Rightarrow> Some td
           | _ \<Rightarrow> (case pg_tick_data env pid of Ok (Some td) \<Rightarrow> Some td | _ \<Rightarrow> None))"

definition reference_gas_price :: "server_env \<Rightarrow> u64" where
  "reference_gas_price env =
     (case redis_gas_price env of
        Ok (Some price) \<Rightarrow> price
      | _ \<Rightarrow> (case pg_gas_price env of Ok (Some price) \<Rightarrow> price | _ \<Rightarrow> 1000))"

definition find_routes :: "server_env \<Rightarrow> pool_state list \<Rightarrow> string \<Rightarrow> string \<Rightarrow> u128 \<Rightarrow> route_path list option" where
  "find_routes env compiled from_token to_token amount_in =
     find_best_route (env_pop env) (build_from_pools graph_new compiled) from_token to_token amount_in route_config_default"

definition split_order ::
  "server_env \<Rightarrow> pool_state list \<Rightarrow> route_path list \<Rightarrow> u128 \<Rightarrow> string \<Rightarrow> (split_item list, unit) outcome option" where
  "split_order env compiled routes amount_in to_token =
     (let pools_map = pools_by_id compiled;
          values_list = hm_values env pools_map
      in optimize_order_split (env_libm env) pools_map values_list (decimals_for env values_list)
           (load_ticks_map env pools_map) routes amount_in to_token (reference_gas_price env))"

subsection \<open>Quotes\<close>

text \<open>\<open>split_order\<close> has no error value; the branch for it in the handlers is never taken.\<close>

definition hop_simulate_output ::
  "libm \<Rightarrow> (string \<rightharpoonup> pool_tick_data) \<Rightarrow> pool_state \<Rightarrow> swap_hop \<Rightarrow> f64 \<Rightarrow> f64 \<times> f64" where
  "hop_simulate_output m ticks_map pool hop amount_in =
     (case ticks_map (h_pool_id hop) of
        Some td \<Rightarrow> simulate_swap_tick_aware m pool td hop amount_in
      | None \<Rightarrow> simulate_hop_within_tick m pool hop amount_in)"

fun path_survival ::
  "libm \<Rightarrow> (string \<rightharpoonup> pool_state) \<Rightarrow> (string \<rightharpoonup> pool_tick_data) \<Rightarrow> swap_hop list \<Rightarrow> f64 \<Rightarrow> f64 \<Rightarrow> f64" where
  "path_survival m pools_map ticks_map [] survival curr_alloc_in = survival"
| "path_survival m pools_map ticks_map (hop # hs) survival curr_alloc_in =
     (case pools_map (h_pool_id hop) of
        None \<Rightarrow> path_survival m pools_map ticks_map hs survival curr_alloc_in
      | Some pool \<Rightarrow>
          let spot_m = snd (hop_simulate_output m ticks_map pool hop (lit 0));
              out_actual = fst (hop_simulate_output m ticks_map pool hop curr_alloc_in);
              ideal_out = fmul curr_alloc_in spot_m;
              hop_impact = (if flt (lit 0) ideal_out
                            then fclamp (fsub (lit 1) (fdiv out_actual ideal_out)) (lit 0) (lit 1)
                            else lit 1)
          in path_survival m pools_map ticks_map hs (fmul survival (fsub (lit 1) hop_impact)) out_actual)"

definition split_pct :: "u128 \<Rightarrow> u128 \<Rightarrow> u32" where
  "split_pct amount_in alloc_in =
     f64_as_u32 (fmul (fdiv (u128_as_f64 alloc_in) (u128_as_f64 amount_in)) (lit 100))"

fun quote_steps ::
  "libm \<Rightarrow> (string \<rightharpoonup> pool_state) \<Rightarrow> (string \<rightharpoonup> pool_tick_data) \<Rightarrow> u128 \<Rightarrow> split_item list \<Rightarrow>
   f64 \<Rightarrow> route_step list \<Rightarrow> f64 \<times> route_step list" where
  "quote_steps m pools_map ticks_map amount_in [] impact steps = (impact, steps)"
| "quote_steps m pools_map ticks_map amount_in ((r, alloc_in, alloc_out) # rest) impact steps =
     (let pct = split_pct amount_in alloc_in
      in if pct = 0 then quote_steps m pools_map ticks_map amount_in rest impact steps
         else
           let survival = path_survival m pools_map ticks_map (hops r) (lit 1) (u128_as_f64 alloc_in);
               path_impact = fsub (lit 1) survival;
               impact' = fadd impact (fmul path_impact (fdiv (u128_as_f64 alloc_in) (u128_as_f64 amount_in)));
               new_steps = map (\<lambda>h. \<lparr>rs_dex_name = h_dex_name h, rs_pool_address = h_pool_id h, rs_weight = pct\<rparr>) (hops r)
           in quote_steps m pools_map ticks_map amount_in rest impact' (steps @ new_steps))"

definition fail :: "status_code \<Rightarrow> string \<Rightarrow> ('a, http_error) outcome" where
  "fail code msg = Err (code, msg)"

definition quote_response_of ::
  "server_env \<Rightarrow> quote_request \<Rightarrow> u128 \<Rightarrow> pool_state list \<Rightarrow> split_item list \<Rightarrow> quote_response" where
  "quote_response_of env payload amount_in compiled splits =
     (let pools_map = pools_by_id compiled;
          out = sum_list (map (snd \<circ> snd) splits);
          is = quote_steps (env_libm env) pools_map (load_ticks_map env pools_map) amount_in splits (lit 0) []
      in \<lparr>qs_from_token = qr_from_token payload, qs_to_token = qr_to_token payload, qs_amount_in = qr_amount payload,
          qs_amount_out = show_word out, qs_price_impact = fst is, qs_route = snd is\<rparr>)"

definition handle_quote_inner ::
  "server_env \<Rightarrow> quote_request \<Rightarrow> (quote_response \<times> nat, http_error) outcome option" where
  "handle_quote_inner env payload =
     (case load_active_pools env of
        Err e \<Rightarrow> Some (Err e)
      | Panic msg \<Rightarrow> Some (Panic msg)
      | Ok loaded \<Rightarrow>
          let baseline = fst loaded
          in if baseline = [] \<and> \<not> topology_ready env then
               Some (fail SERVICE_UNAVAILABLE ''topology not ready: pool discovery bootstrap incomplete'')
             else
               let compiled = compile_pools env baseline
               in case parse_u128 (qr_amount payload) of
                    None \<Rightarrow> Some (fail BAD_REQUEST ''Invalid amount: must be a valid u128 integer'')
                  | Some amount_in \<Rightarrow>
                      (case find_routes env compiled (qr_from_token payload) (qr_to_token payload) amount_in of
                         None \<Rightarrow> None
                       | Some routes \<Rightarrow>
                           if routes = [] then Some (fail NOT_FOUND ''No route found between the specified tokens'')
                           else
                             (case split_order env compiled routes amount_in (qr_to_token payload) of
                                None \<Rightarrow> None
                              | Some (Panic msg) \<Rightarrow> Some (Panic msg)
                              | Some (Err u) \<Rightarrow> Some (fail BAD_REQUEST ''Failed to optimize route split'')
                              | Some (Ok splits) \<Rightarrow>
                                  if splits = [] then Some (fail BAD_REQUEST ''Failed to optimize route split'')
                                  else Some (Ok (quote_response_of env payload amount_in compiled splits,
                                                 length baseline)))))"

subsection \<open>Building a transaction\<close>

definition split_amounts :: "split_item list \<Rightarrow> (ptb_argument list, http_error) outcome" where
  "split_amounts splits =
     try_collect (\<lambda>item. if unat (alloc_of item) < 2 ^ 64 then Ok (U64 (ucast (alloc_of item)))
                         else fail BAD_REQUEST ''Split amount does not fit in u64'') splits"

text \<open>The commands that make one coin per split, and the index of the split command.\<close>

definition coin_setup ::
  "build_tx_request \<Rightarrow> bool \<Rightarrow> ptb_argument list \<Rightarrow> (ptb_command list \<times> u16, http_error) outcome" where
  "coin_setup payload is_from_sui amounts =
     (if is_from_sui then Ok ([SplitCoins GasCoin amounts], 0)
      else
        case (case br_coin_ids payload of None \<Rightarrow> [] | Some ids \<Rightarrow> ids) of
          [] \<Rightarrow> fail BAD_REQUEST ''coin_ids required for non-SUI input swaps''
        | [cid] \<Rightarrow> Ok ([SplitCoins (Object cid) amounts], 0)
        | cid # cids \<Rightarrow> Ok ([MergeCoins (Object cid) (map Object cids), SplitCoins (Object cid) amounts], 1))"

text \<open>The variables of the loop over the hops of one route.\<close>

record hop_walk =
  commands :: "ptb_command list"
  held_coin :: "ptb_argument option"
  expected_current_amount :: u128

definition hop_simulation ::
  "libm \<Rightarrow> (string \<rightharpoonup> pool_tick_data) \<Rightarrow> pool_state \<Rightarrow> swap_hop \<Rightarrow> u128 \<Rightarrow> swap_simulation_result" where
  "hop_simulation m ticks_map pool hop amount =
     (case ticks_map (h_pool_id hop) of
        Some td \<Rightarrow> simulate_swap_tick_aware_detailed m pool td hop (u128_as_f64 amount)
      | None \<Rightarrow> simulate_hop_within_tick_detailed m pool hop (u128_as_f64 amount))"

definition build_hop ::
  "libm \<Rightarrow> (string \<rightharpoonup> pool_state) \<Rightarrow> (string \<rightharpoonup> pool_tick_data) \<Rightarrow> slippage_bps \<Rightarrow> string \<Rightarrow> u128 \<Rightarrow> nat \<Rightarrow>
   nat \<Rightarrow> swap_hop \<Rightarrow> hop_walk \<Rightarrow> (hop_walk, http_error) outcome" where
  "build_hop m pools_map ticks_map slippage user_address path_min_out total_hops hop_idx hop st =
     (case pools_map (h_pool_id hop) of
        None \<Rightarrow> Panic ''called Option::unwrap() on a None value''
      | Some pool \<Rightarrow>
          let is_a_to_b = (h_input_token hop = coin_type_a pool);
              sim = hop_simulation m ticks_map pool hop (expected_current_amount st);
              next_expected_amount_u = f64_as_u128 (fmax (amount_out sim) (lit 0));
              hop_min_out = (if hop_idx + 1 = total_hops then path_min_out
                             else intermediate_hop_min_out m next_expected_amount_u slippage (of_nat total_hops));
              adverse_bps = hop_adverse_bps m slippage hop_idx total_hops;
              sqrt_limit = dynamic_sqrt_price_limit_raw m (final_sqrt_price_internal sim) (pool_sqrt_factor_bits pool)
                             is_a_to_b adverse_bps;
              start_cmd_idx = of_nat (length (commands st));
              is_final_hop = (hop_idx + 1 = total_hops)
          in bind_outcome (ok_or (held_coin st) (BAD_REQUEST, ''route hop missing input coin'')) (\<lambda>current_coin.
             bind_outcome
               (map_err (\<lambda>msg. (BAD_REQUEST, msg))
                 (build_hop_commands pool hop current_coin (expected_current_amount st) hop_min_out sqrt_limit
                    start_cmd_idx user_address)) (\<lambda>(hop_cmds, new_coin).
             if new_coin = None \<and> \<not> is_final_hop then
               fail BAD_REQUEST ''route hop produced no transferable coin mid-path''
             else Ok \<lparr>commands = commands st @ hop_cmds, held_coin = new_coin,
                      expected_current_amount = next_expected_amount_u\<rparr>)))"

fun build_hops ::
  "libm \<Rightarrow> (string \<rightharpoonup> pool_state) \<Rightarrow> (string \<rightharpoonup> pool_tick_data) \<Rightarrow> slippage_bps \<Rightarrow> string \<Rightarrow> u128 \<Rightarrow> nat \<Rightarrow>
   nat \<Rightarrow> swap_hop list \<Rightarrow> hop_walk \<Rightarrow> (hop_walk, http_error) outcome" where
  "build_hops m pools_map ticks_map slippage user path_min_out total_hops hop_idx [] st = Ok st"
| "build_hops m pools_map ticks_map slippage user path_min_out total_hops hop_idx (hop # hs) st =
     bind_outcome (build_hop m pools_map ticks_map slippage user path_min_out total_hops hop_idx hop st)
       (build_hops m pools_map ticks_map slippage user path_min_out total_hops (Suc hop_idx) hs)"

fun build_routes ::
  "libm \<Rightarrow> (string \<rightharpoonup> pool_state) \<Rightarrow> (string \<rightharpoonup> pool_tick_data) \<Rightarrow> slippage_bps \<Rightarrow> string \<Rightarrow> u16 \<Rightarrow> nat \<Rightarrow>
   split_item list \<Rightarrow> ptb_command list \<Rightarrow> ptb_argument list \<Rightarrow> (ptb_command list \<times> ptb_argument list, http_error) outcome" where
  "build_routes m pools_map ticks_map slippage user split_cmd_idx i [] cmds outs = Ok (cmds, outs)"
| "build_routes m pools_map ticks_map slippage user split_cmd_idx i ((r, alloc_in, alloc_out) # rest) cmds outs =
     bind_outcome
       (build_hops m pools_map ticks_map slippage user (apply_to_amount slippage alloc_out) (length (hops r)) 0 (hops r)
          \<lparr>commands = cmds, held_coin = Some (NestedResult split_cmd_idx (of_nat i)),
           expected_current_amount = alloc_in\<rparr>)
       (\<lambda>st. build_routes m pools_map ticks_map slippage user split_cmd_idx (Suc i) rest (commands st)
          (case held_coin st of Some coin \<Rightarrow> outs @ [coin] | None \<Rightarrow> outs))"

definition is_from_sui :: "string \<Rightarrow> bool" where
  "is_from_sui from_token = is_sui (to_lowercase from_token)"

text \<open>From the split order to the symbolic transaction.\<close>

definition build_plan ::
  "libm \<Rightarrow> (string \<rightharpoonup> pool_state) \<Rightarrow> (string \<rightharpoonup> pool_tick_data) \<Rightarrow> build_tx_request \<Rightarrow> slippage_bps \<Rightarrow>
   split_item list \<Rightarrow> (ptb_transaction, http_error) outcome" where
  "build_plan m pools_map ticks_map payload slippage splits =
     bind_outcome (split_amounts splits) (\<lambda>amounts.
     bind_outcome (coin_setup payload (is_from_sui (br_from_token payload)) amounts) (\<lambda>setup.
     bind_outcome
       (build_routes m pools_map ticks_map slippage (br_user_address payload) (snd setup) 0 splits (fst setup) [])
       (\<lambda>co. let all_commands = (if snd co = [] then fst co
                 else fst co @ [TransferObjects (snd co) (Address (br_user_address payload))])
             in Ok \<lparr>tx_sender = br_user_address payload, tx_commands = all_commands\<rparr>)))"

definition slippage_message :: "slippage_error \<Rightarrow> string" where
  "slippage_message e =
     (case e of
        NotFinite \<Rightarrow> ''slippage_tolerance must be finite''
      | OutOfRange \<Rightarrow> ''slippage_tolerance must satisfy 0 <= value < 1'')"

record build_plan_result =
  pr_transaction :: ptb_transaction
  pr_gas_price :: u64
  pr_amount_in :: u128
  pr_estimated_amount_out :: string
  pr_min_amount_out :: string

text \<open>\<open>handle_build_tx\<close> up to the call of \<open>finalize_canonical_build\<close>.\<close>

definition handle_build_tx_plan ::
  "server_env \<Rightarrow> build_tx_request \<Rightarrow> (build_plan_result, http_error) outcome option" where
  "handle_build_tx_plan env payload =
     (case parse_u128 (br_amount payload) of
        None \<Rightarrow> Some (fail BAD_REQUEST ''Invalid input amount format'')
      | Some amount_in \<Rightarrow>
          (case load_active_pools env of
             Err e \<Rightarrow> Some (Err e)
           | Panic msg \<Rightarrow> Some (Panic msg)
           | Ok loaded \<Rightarrow>
               let compiled = compile_pools env (fst loaded)
               in case find_routes env compiled (br_from_token payload) (br_to_token payload) amount_in of
                    None \<Rightarrow> None
                  | Some routes \<Rightarrow>
                      if routes = [] then Some (fail BAD_REQUEST ''No routes found for the requested swap'')
                      else
                        (case split_order env compiled routes amount_in (br_to_token payload) of
                           None \<Rightarrow> None
                         | Some (Panic msg) \<Rightarrow> Some (Panic msg)
                         | Some (Err u) \<Rightarrow> Some (fail BAD_REQUEST ''Failed to optimize route split'')
                         | Some (Ok splits) \<Rightarrow>
                             if splits = [] then Some (fail BAD_REQUEST ''Failed to optimize route split'')
                             else Some
                               (bind_outcome
                                  (map_err (\<lambda>e. (BAD_REQUEST, slippage_message e))
                                     (try_from_tolerance (br_slippage_tolerance payload))) (\<lambda>slippage.
                                let total_amount_out = sum_list (map (snd \<circ> snd) splits);
                                    min_amount_out = path_min_amount_out total_amount_out slippage;
                                    pools_map = pools_by_id compiled
                                in bind_outcome
                                     (build_plan (env_libm env) pools_map (load_ticks_map env pools_map) payload slippage splits)
                                     (\<lambda>tx. Ok \<lparr>pr_transaction = tx,
                                        pr_gas_price = (if reference_gas_price env = 0 then 1000 else reference_gas_price env),
                                        pr_amount_in = amount_in,
                                        pr_estimated_amount_out = show_word total_amount_out,
                                        pr_min_amount_out = show_word min_amount_out\<rparr>))))))"

subsection \<open>The transaction plan uses every coin exactly once\<close>

lemma room_of_nat: "n + 6 < 2 ^ 16 \<Longrightarrow> room (of_nat n)"
  by (simp add: room_def unat_of_nat)

lemma of_nat_le_u16: "a \<le> b \<Longrightarrow> b < 2 ^ 16 \<Longrightarrow> (of_nat a :: u16) \<le> of_nat b"
  by (simp add: word_le_nat_alt unat_of_nat)

lemma coin_before_later:
  "coin_before (of_nat a) x \<Longrightarrow> a \<le> b \<Longrightarrow> b < 2 ^ 16 \<Longrightarrow> coin_before (of_nat b) x"
  using coin_before_mono of_nat_le_u16 by blast

text \<open>The state between two hops: \<open>coin\<close> is held, \<open>rest\<close> are the other coins of the plan.\<close>

definition plan_inv :: "ptb_command list \<Rightarrow> ptb_argument list \<Rightarrow> bool" where
  "plan_inv cmds av \<longleftrightarrow> runs 0 [] cmds av \<and> (\<forall>a \<in> set av. coin_before (of_nat (length cmds)) a)"

lemma plan_inv_perm: "plan_inv cmds av \<Longrightarrow> mset av = mset bv \<Longrightarrow> plan_inv cmds bv"
  by (metis plan_inv_def runs_perm set_mset_mset)

lemma build_hop_plan:
  assumes "build_hop m pm tm sl user pmo n k hop st = Ok st'" "held_coin st = Some coin"
    and "plan_inv (commands st) (coin # rest)" "length (commands st) + 12 < 2 ^ 16"
  shows "\<exists>c. held_coin st' = Some c \<and> plan_inv (commands st') (c # rest) \<and>
    length (commands st') \<le> length (commands st) + 6"
proof -
  let ?i = "of_nat (length (commands st)) :: u16"
  obtain pool min_out limit cmds out where b:
    "build_hop_commands pool hop coin (expected_current_amount st) min_out limit ?i user = Ok (cmds, out)"
    and st': "commands st' = commands st @ cmds" "held_coin st' = out"
    using assms(1,2) unfolding build_hop_def Let_def
    by (cases "pm (h_pool_id hop)") (fastforce simp: outcome_simps fail_def split: if_splits)+
  have inv: "runs 0 [] (commands st) (coin # rest)" "coin_before ?i coin" "\<forall>a \<in> set rest. coin_before ?i a"
    using assms(3) by (auto simp: plan_inv_def)
  have room: "room ?i" using assms(4) by (intro room_of_nat) simp
  from build_hop_linear [OF b room inv(2,3)] obtain c where c: "out = Some c"
    "run_linear ?i (coin # rest) cmds = Some (rest @ [c])" "length cmds \<le> 6"
    "coin_before (?i + of_nat (length cmds)) c" by blast
  have len: "length (commands st') = length (commands st) + length cmds" by (simp add: st')
  have "runs (0 + ?i) (coin # rest) cmds (c # rest)" using c by (simp add: runs_def)
  from runs_append [OF inv(1) this] have "runs 0 [] (commands st') (c # rest)" by (simp add: st')
  moreover have "coin_before (of_nat (length (commands st'))) a" if "a \<in> set rest" for a
  proof (rule coin_before_later)
    show "coin_before ?i a" using inv(3) that by blast
  qed (use len c(3) assms(4) in simp_all)
  ultimately show ?thesis using c len st' by (auto simp: plan_inv_def)
qed

lemma build_hops_plan:
  assumes "build_hops m pm tm sl user pmo n k hs st = Ok st'" "held_coin st = Some coin"
    and "plan_inv (commands st) (coin # rest)" "length (commands st) + 6 * length hs + 6 < 2 ^ 16"
  shows "\<exists>c. held_coin st' = Some c \<and> plan_inv (commands st') (c # rest) \<and>
    length (commands st') \<le> length (commands st) + 6 * length hs"
  using assms
proof (induction hs arbitrary: k st coin)
  case (Cons hop hs)
  then obtain st1 where st1: "build_hop m pm tm sl user pmo n k hop st = Ok st1"
    "build_hops m pm tm sl user pmo n (Suc k) hs st1 = Ok st'"
    by (auto simp: outcome_simps)
  obtain c where c: "held_coin st1 = Some c" "plan_inv (commands st1) (c # rest)"
    "length (commands st1) \<le> length (commands st) + 6"
    using build_hop_plan [OF st1(1) Cons.prems(2,3)] Cons.prems(4) by auto
  then show ?case using Cons.IH [OF st1(2) c(1,2)] Cons.prems(4) by auto
qed auto

lemma build_routes_plan:
  assumes "build_routes m pm tm sl user s i splits cmds outs = Ok (cmds', outs')"
    and "plan_inv cmds (map (\<lambda>k. NestedResult s (of_nat k)) [i..<i + length splits] @ outs)"
    and "\<forall>item \<in> set splits. length (hops (fst item)) \<le> 3" "length cmds + 18 * length splits + 6 < 2 ^ 16"
  shows "plan_inv cmds' outs' \<and> length cmds' \<le> length cmds + 18 * length splits"
  using assms
proof (induction splits arbitrary: i cmds outs)
  case (Cons item rest)
  obtain r a out where item: "item = (r, a, out)" by (cases item)
  define others where "others = map (\<lambda>k. NestedResult s (of_nat k)) [Suc i..<Suc i + length rest] @ outs"
  have av: "map (\<lambda>k. NestedResult s (of_nat k)) [i..<i + length (item # rest)] @ outs =
      NestedResult s (of_nat i) # others"
    by (simp add: others_def upt_rec [of i] del: upt_Suc)
  from Cons.prems(1) item obtain st where
    st: "build_hops m pm tm sl user (apply_to_amount sl out) (length (hops r)) 0 (hops r)
       \<lparr>commands = cmds, held_coin = Some (NestedResult s (of_nat i)), expected_current_amount = a\<rparr> = Ok st"
    "build_routes m pm tm sl user s (Suc i) rest (commands st)
       (case held_coin st of Some coin \<Rightarrow> outs @ [coin] | None \<Rightarrow> outs) = Ok (cmds', outs')"
    by (auto simp: outcome_simps)
  have len: "length (hops r) \<le> 3" using Cons.prems(3) item by auto
  have p: "plan_inv (commands \<lparr>commands = cmds, held_coin = Some (NestedResult s (of_nat i)), expected_current_amount = a\<rparr>)
      (NestedResult s (of_nat i) # others)"
    using Cons.prems(2) unfolding av by simp
  have "\<exists>c. held_coin st = Some c \<and> plan_inv (commands st) (c # others) \<and> length (commands st) \<le> length cmds + 6 * length (hops r)"
    using build_hops_plan [OF st(1) _ p] len Cons.prems(4) by simp
  then obtain c where c: "held_coin st = Some c" "plan_inv (commands st) (c # others)"
    "length (commands st) \<le> length cmds + 18" using len by auto
  have "plan_inv (commands st) (map (\<lambda>k. NestedResult s (of_nat k)) [Suc i..<Suc i + length rest] @ outs @ [c])"
    using c(2) by (rule plan_inv_perm) (simp add: others_def)
  then show ?case using Cons.IH [of "Suc i" "commands st" "outs @ [c]"] st(2) c Cons.prems(3,4) by auto
qed simp

lemma setup_plan:
  assumes "coin_setup payload sui amounts = Ok cs"
  shows "plan_inv (fst cs) (map (\<lambda>k. NestedResult (snd cs) (of_nat k)) [0..<length amounts]) \<and>
    length (fst cs) \<le> 2"
proof -
  have obj: "filter is_linear (map Object ids) = []" for ids by (induction ids) auto
  show ?thesis using assms
    by (auto simp: coin_setup_def fail_def plan_inv_def runs_def obj split: if_splits list.splits option.splits)
qed

lemma plan_run_linear:
  assumes "build_plan m pools_map ticks_map payload slippage splits = Ok tx"
    and "\<forall>item \<in> set splits. length (hops (fst item)) \<le> 3" and "length splits \<le> 3000"
  shows "run_linear 0 [] (tx_commands tx) = Some []" and "length (tx_commands tx) < 2 ^ 16"
proof -
  obtain amounts cs co where p: "split_amounts splits = Ok amounts"
    "coin_setup payload (is_from_sui (br_from_token payload)) amounts = Ok cs"
    "build_routes m pools_map ticks_map slippage (br_user_address payload) (snd cs) 0 splits (fst cs) [] = Ok co"
    "tx_commands tx = (if snd co = [] then fst co
       else fst co @ [TransferObjects (snd co) (Address (br_user_address payload))])"
    using assms(1) by (auto simp: build_plan_def outcome_simps Let_def)
  have len: "length amounts = length splits"
    using p(1) by (auto simp: split_amounts_def outcome_simps dest: list_all2_lengthD)
  have "plan_inv (fst co) (snd co) \<and> length (fst co) \<le> length (fst cs) + 18 * length splits"
    using build_routes_plan [of m pools_map ticks_map slippage "br_user_address payload" "snd cs" 0 splits "fst cs" "[]" "fst co" "snd co"]
      setup_plan [OF p(2)] p(3) assms(2,3) len by simp
  then have inv: "plan_inv (fst co) (snd co)" and bound: "length (fst co) \<le> 2 + 18 * length splits"
    using setup_plan [OF p(2)] by auto
  have lin: "filter is_linear (snd co) = snd co"
    using inv coin_before_linear by (auto simp: plan_inv_def filter_id_conv)
  have "runs 0 [] (tx_commands tx) []"
  proof (cases "snd co = []")
    case True
    then show ?thesis using inv p(4) by (simp add: plan_inv_def)
  next
    case False
    have "take_args as as = Some []" for as by (induction as) auto
    then have "runs (0 + of_nat (length (fst co))) (snd co)
        [TransferObjects (snd co) (Address (br_user_address payload))] []"
      by (simp add: runs_def lin)
    moreover have "runs 0 [] (fst co) (snd co)" using inv by (simp add: plan_inv_def)
    ultimately show ?thesis using False p(4) by (simp add: runs_append)
  qed
  then show "run_linear 0 [] (tx_commands tx) = Some []" by (simp add: runs_def)
  show "length (tx_commands tx) < 2 ^ 16" using bound assms(3) p(4) by simp
qed

text \<open>
  C5.  The whole programmable transaction is resource correct: each coin split off the input is consumed by
  exactly one route, each balance, receipt and intermediate coin by exactly one command, every reference
  points to an earlier command, and nothing is left over because all outputs go to the user.
\<close>

theorem build_plan_linear:
  assumes "build_plan m pools_map ticks_map payload slippage splits = Ok tx"
    and "\<forall>item \<in> set splits. length (hops (fst item)) \<le> 3" and "length splits \<le> 3000"
  shows "run_linear 0 [] (tx_commands tx) = Some []"
  using assms by (rule plan_run_linear)

definition demo_request :: build_tx_request where
  "demo_request = \<lparr>br_from_token = ''0x2::sui::SUI'', br_to_token = ''USDC'', br_amount = ''1000000'',
     br_user_address = ''0x1'', br_slippage_tolerance = lit (1 / 200), br_coin_ids = None\<rparr>"

lemma demo_from_sui: "is_from_sui ''0x2::sui::SUI''"
  by code_simp

lemma demo_plan:
  "\<exists>tx. build_plan plain_libm [''0xabc'' \<mapsto> flash_pool] Map.empty demo_request (SlippageBps 50)
      [(\<lparr>hops = [flash_hop]\<rparr>, 1000000, 990000)] = Ok tx"
  by (simp add: build_plan_def demo_request_def demo_from_sui split_amounts_def coin_setup_def build_hop_def
      flash_hop_def Let_def build_hop_commands_def flash_pool_def build_cetus_flash_hop_def
      build_config_pool_flash_hop_def amount_u64_def)

theorem build_plan_linear_witness:
  "\<exists>tx. build_plan plain_libm [''0xabc'' \<mapsto> flash_pool] Map.empty demo_request (SlippageBps 50)
      [(\<lparr>hops = [flash_hop]\<rparr>, 1000000, 990000)] = Ok tx \<and> run_linear 0 [] (tx_commands tx) = Some []"
proof -
  obtain tx where tx: "build_plan plain_libm [''0xabc'' \<mapsto> flash_pool] Map.empty demo_request (SlippageBps 50)
      [(\<lparr>hops = [flash_hop]\<rparr>, 1000000, 990000)] = Ok tx"
    using demo_plan by blast
  from build_plan_linear [OF tx] have "run_linear 0 [] (tx_commands tx) = Some []" by simp
  with tx show ?thesis by blast
qed

subsection \<open>The handlers\<close>

lemma foldl_upd_dom: "x \<in> set xs \<Longrightarrow> foldl (\<lambda>m p. m(f p \<mapsto> g p)) m0 xs (f x) \<noteq> None"
proof (induction xs arbitrary: m0)
  case (Cons y xs)
  have keep: "foldl (\<lambda>m p. m(f p \<mapsto> g p)) m1 zs k \<noteq> None" if "m1 k \<noteq> None" for m1 zs k
    using that by (induction zs arbitrary: m1) (auto simp del: fun_upd_apply, simp)
  show ?case
  proof (cases "x = y")
    case True
    have "(m0(f y \<mapsto> g y)) (f y) \<noteq> None" by simp
    from keep [of "m0(f y \<mapsto> g y)" "f y", OF this, of xs] True show ?thesis by (simp only: foldl_Cons not_False_eq_True)
  next
    case False
    with Cons.prems have "x \<in> set xs" by simp
    from Cons.IH [OF this] show ?thesis by (simp only: foldl_Cons not_False_eq_True)
  qed
qed simp

lemma pools_by_id_hop: "p \<in> set ps \<Longrightarrow> hop_of_pool p h \<Longrightarrow> pools_by_id ps (h_pool_id h) \<noteq> None"
  unfolding pools_by_id_def hop_of_pool_def using foldl_upd_dom [of p ps pool_id "\<lambda>p. p"] by simp

lemma pool_chain_hops: "pool_chain ps a hs b \<Longrightarrow> h \<in> set hs \<Longrightarrow> \<exists>p \<in> set ps. hop_of_pool p h"
  by (induction hs arbitrary: a) auto

text \<open>What a handler may rely on after the market is loaded.\<close>

definition market_ok :: "server_env \<Rightarrow> nat \<Rightarrow> bool" where
  "market_ok env F \<longleftrightarrow> binary_heap (env_pop env) \<and>
     (\<forall>baseline w. load_active_pools env = Ok (baseline, w) \<longrightarrow> fees_fit (compile_pools env baseline) F)"

lemma find_routes_sound:
  assumes "binary_heap (env_pop env)" "fees_fit compiled F"
  obtains routes where "find_routes env compiled a b amount = Some routes"
    and "\<forall>p \<in> set routes. pool_chain compiled a (hops p) b"
    and "routes = [] \<longrightarrow> \<not> (\<exists>hs. hs \<noteq> [] \<and> length hs \<le> 3 \<and> distinct (a # map h_output_token hs) \<and> pool_chain compiled a hs b)"
proof (cases "amount \<le> small_amount_threshold route_config_default")
  case True
  obtain r where r: "find_shortest_path_dijkstra (env_pop env) (build_from_pools graph_new compiled) a b = Some r"
    "cheapest_route (build_from_pools graph_new compiled) a b r"
    using binary_heap.dijkstra_correct [OF assms(1) pools_cost_bounded [OF assms(2), of graph_new a], of b] by blast
  with True have "find_routes env compiled a b amount = Some (case r of None \<Rightarrow> [] | Some p \<Rightarrow> [p])"
    by (simp add: find_routes_def find_best_route_def split: option.splits)
  then show thesis
    by (rule that) (use r(2) in \<open>auto simp: cheapest_route_def hop_chain_build split: option.splits\<close>)
next
  case False
  let ?rs = "find_all_paths_dfs (build_from_pools graph_new compiled) a b 3"
  have "find_routes env compiled a b amount = Some ?rs"
    using False by (simp add: find_routes_def find_best_route_def route_config_default_def)
  then show thesis
  proof (rule that)
    show "\<forall>p \<in> set ?rs. pool_chain compiled a (hops p) b" by (simp add: dfs_paths_iff hop_chain_build)
  next
    have "\<lparr>hops = hs\<rparr> \<in> set ?rs"
      if "hs \<noteq> []" "length hs \<le> 3" "distinct (a # map h_output_token hs)" "pool_chain compiled a hs b" for hs
      using that by (simp add: dfs_paths_iff hop_chain_build path_tokens_def)
    then show "?rs = [] \<longrightarrow>
        \<not> (\<exists>hs. hs \<noteq> [] \<and> length hs \<le> 3 \<and> distinct (a # map h_output_token hs) \<and> pool_chain compiled a hs b)"
      by (metis empty_iff empty_set)
  qed
qed

lemma split_order_ok:
  "\<exists>res. split_order env compiled routes amount to = Some res \<and> split_ok routes amount res"
  unfolding split_order_def optimize_order_split_def Let_def by (rule optimize_with_ok)






text \<open>A split of the whole amount over routes of at most three hops through active pools of the market.\<close>

definition covering_split :: "pool_state list \<Rightarrow> string \<Rightarrow> string \<Rightarrow> u128 \<Rightarrow> split_item list \<Rightarrow> bool" where
  "covering_split compiled a b amount splits \<longleftrightarrow> splits \<noteq> [] \<and> 0 < amount \<and>
     (\<forall>item \<in> set splits. pool_chain compiled a (hops (fst item)) b \<and> length (hops (fst item)) \<le> 3) \<and>
     amount \<le> sum_list (map alloc_of splits)"

lemma split_ok_covering:
  assumes "split_ok routes amount (Ok splits)" "splits \<noteq> []" "\<forall>p \<in> set routes. pool_chain compiled a (hops p) b"
  shows "covering_split compiled a b amount splits"
  using assms by (auto simp: split_ok_def covering_split_def word_neq_0_conv [symmetric])





lemma panic_same_token:
  "split_ok routes amount (Panic msg) \<Longrightarrow> \<forall>p \<in> set routes. pool_chain compiled a (hops p) b \<Longrightarrow> a = b"
  by (fastforce simp: split_ok_def)

lemma load_active_pools_errors: "load_active_pools env = Err e \<Longrightarrow> fst e = INTERNAL_SERVER_ERROR"
  by (cases "pg_list_pools env") (auto simp: load_active_pools_def Let_def split: outcome.splits option.splits)










subsection \<open>The plan of a swap\<close>

lemma build_hop_outcomes:
  assumes "pm (h_pool_id hop) \<noteq> None"
  shows "build_hop m pm tm sl user pmo n k hop st = Err e \<Longrightarrow> fst e = BAD_REQUEST"
    and "build_hop m pm tm sl user pmo n k hop st = Panic msg \<Longrightarrow> msg = ''swap amount must fit in u64''"
proof -
  have panic: "build_hop_commands p h c a mo l i u = Panic msg \<Longrightarrow> msg = ''swap amount must fit in u64''" for p h c a mo l i u msg
    by (auto simp: build_hop_commands_def build_cetus_flash_hop_def build_magma_flash_hop_def build_turbos_hop_def
        build_momentum_flash_hop_def build_config_pool_flash_hop_def turbos_fee_type_arg_def outcome_simps Let_def
        amount_u64_def split: dex_swap_kind.splits if_splits)
  obtain pool where "pm (h_pool_id hop) = Some pool" using assms by blast
  then show "build_hop m pm tm sl user pmo n k hop st = Err e \<Longrightarrow> fst e = BAD_REQUEST"
    "build_hop m pm tm sl user pmo n k hop st = Panic msg \<Longrightarrow> msg = ''swap amount must fit in u64''"
    by (auto simp: build_hop_def Let_def outcome_simps fail_def split: if_splits dest!: panic)
qed

lemma build_hops_outcomes:
  assumes "\<forall>h \<in> set hs. pm (h_pool_id h) \<noteq> None"
  shows "(case build_hops m pm tm sl user pmo n k hs st of
      Ok st' \<Rightarrow> True | Err e \<Rightarrow> fst e = BAD_REQUEST | Panic msg \<Rightarrow> msg = ''swap amount must fit in u64'')"
  using assms
proof (induction hs arbitrary: k st)
  case (Cons h hs)
  then show ?case using build_hop_outcomes [of pm h m tm sl user pmo n k st]
    by (cases "build_hop m pm tm sl user pmo n k h st") auto
qed simp

lemma build_routes_outcomes:
  assumes "\<forall>item \<in> set splits. \<forall>h \<in> set (hops (fst item)). pm (h_pool_id h) \<noteq> None"
  shows "(case build_routes m pm tm sl user s i splits cmds outs of
      Ok co \<Rightarrow> True | Err e \<Rightarrow> fst e = BAD_REQUEST | Panic msg \<Rightarrow> msg = ''swap amount must fit in u64'')"
  using assms
proof (induction splits arbitrary: i cmds outs)
  case (Cons item rest)
  obtain r a out where item: "item = (r, a, out)" by (cases item)
  let ?st = "\<lparr>commands = cmds, held_coin = Some (NestedResult s (of_nat i)), expected_current_amount = a\<rparr>"
  from Cons.prems item have "\<forall>h \<in> set (hops r). pm (h_pool_id h) \<noteq> None" by auto
  from build_hops_outcomes [OF this, of m tm sl user "apply_to_amount sl out" "length (hops r)" 0 ?st] Cons item
  show ?case
    by (cases "build_hops m pm tm sl user (apply_to_amount sl out) (length (hops r)) 0 (hops r) ?st") auto
qed simp

lemma build_plan_outcomes:
  assumes "\<forall>item \<in> set splits. \<forall>h \<in> set (hops (fst item)). pm (h_pool_id h) \<noteq> None"
  shows "(case build_plan m pm tm payload sl splits of
      Ok tx \<Rightarrow> tx_sender tx = br_user_address payload
    | Err e \<Rightarrow> fst e = BAD_REQUEST | Panic msg \<Rightarrow> msg = ''swap amount must fit in u64'')"
proof -
  have amounts: "(case split_amounts splits of Ok as \<Rightarrow> True | Err e \<Rightarrow> fst e = BAD_REQUEST | Panic msg \<Rightarrow> False)"
    by (cases "split_amounts splits")
      (auto simp: split_amounts_def fail_def dest!: try_collect_Err try_collect_Panic split: if_splits)
  have coins: "(case coin_setup payload b as of Ok cs \<Rightarrow> True | Err e \<Rightarrow> fst e = BAD_REQUEST | Panic msg \<Rightarrow> False)" for b as
    by (auto simp: coin_setup_def fail_def split: list.splits option.splits)
  show ?thesis
  proof (cases "split_amounts splits")
    case am: (Ok as)
    show ?thesis
    proof (cases "coin_setup payload (is_from_sui (br_from_token payload)) as")
      case (Ok cs)
      with build_routes_outcomes [OF assms, of m tm sl "br_user_address payload" "snd cs" 0 "fst cs" "[]"]
        am
      show ?thesis
        by (cases "build_routes m pm tm sl (br_user_address payload) (snd cs) 0 splits (fst cs) []")
          (auto simp: build_plan_def Let_def)
    qed (use am coins [of "is_from_sui (br_from_token payload)" as] in \<open>auto simp: build_plan_def\<close>)
  qed (use amounts in \<open>auto simp: build_plan_def\<close>)
qed

text \<open>The handler after all lookups have succeeded.\<close>

lemma handle_build_tx_eq:
  assumes "parse_u128 (br_amount payload) = Some amount" "load_active_pools env = Ok (baseline, w)"
    and "find_routes env (compile_pools env baseline) (br_from_token payload) (br_to_token payload) amount = Some routes"
    and "split_order env (compile_pools env baseline) routes amount (br_to_token payload) = Some sres"
  shows "handle_build_tx_plan env payload =
    (if routes = [] then Some (fail BAD_REQUEST ''No routes found for the requested swap'')
     else case sres of
         Panic msg \<Rightarrow> Some (Panic msg)
       | Err u \<Rightarrow> Some (fail BAD_REQUEST ''Failed to optimize route split'')
       | Ok splits \<Rightarrow>
           if splits = [] then Some (fail BAD_REQUEST ''Failed to optimize route split'')
           else Some (bind_outcome
             (map_err (\<lambda>e. (BAD_REQUEST, slippage_message e)) (try_from_tolerance (br_slippage_tolerance payload)))
             (\<lambda>slippage.
                let total_amount_out = sum_list (map (snd \<circ> snd) splits);
                    min_amount_out = path_min_amount_out total_amount_out slippage;
                    pools_map = pools_by_id (compile_pools env baseline)
                in bind_outcome
                     (build_plan (env_libm env) pools_map (load_ticks_map env pools_map) payload slippage splits)
                     (\<lambda>tx. Ok \<lparr>pr_transaction = tx,
                        pr_gas_price = (if reference_gas_price env = 0 then 1000 else reference_gas_price env),
                        pr_amount_in = amount, pr_estimated_amount_out = show_word total_amount_out,
                        pr_min_amount_out = show_word min_amount_out\<rparr>))))"
  using assms by (cases sres) (auto simp: handle_build_tx_plan_def Let_def)

text \<open>
  What a swap plan promises: it carries out a covering split of the amount with a linear transaction sent by
  the user; the estimate is the simulated output of the split, the minimum is the estimate reduced by the
  accepted slippage, rounded down.
\<close>

definition swap_planned :: "server_env \<Rightarrow> build_tx_request \<Rightarrow> u128 \<Rightarrow> ptb_transaction \<Rightarrow> string \<Rightarrow> string \<Rightarrow> bool" where
  "swap_planned env payload amount tx estimated minimum \<longleftrightarrow>
     parse_u128 (br_amount payload) = Some amount \<and> tx_sender tx = br_user_address payload \<and>
     (\<exists>baseline w splits est mn s.
        load_active_pools env = Ok (baseline, w) \<and>
        covering_split (compile_pools env baseline) (br_from_token payload) (br_to_token payload) amount splits \<and>
        est = sum_list (map (snd \<circ> snd) splits) \<and> parse_u128 estimated = Some est \<and> parse_u128 minimum = Some mn \<and>
        try_from_tolerance (br_slippage_tolerance payload) = Ok s \<and>
        unat mn = unat est * (10000 - unat (bps s)) div 10000 \<and>
        (length splits \<le> 3000 \<longrightarrow> run_linear 0 [] (tx_commands tx) = Some []))"

definition plan_result_ok :: "server_env \<Rightarrow> build_tx_request \<Rightarrow> (build_plan_result, http_error) outcome \<Rightarrow> bool" where
  "plan_result_ok env payload res =
     (case res of
        Ok pr \<Rightarrow>
          swap_planned env payload (pr_amount_in pr) (pr_transaction pr) (pr_estimated_amount_out pr) (pr_min_amount_out pr) \<and>
          pr_gas_price pr = (if reference_gas_price env = 0 then 1000 else reference_gas_price env)
      | Err e \<Rightarrow> fst e = BAD_REQUEST \<or> fst e = INTERNAL_SERVER_ERROR \<and> load_active_pools env = Err e
      | Panic msg \<Rightarrow> br_from_token payload = br_to_token payload \<or> msg = ''swap amount must fit in u64'')"

lemma plan_tail_ok:
  assumes "parse_u128 (br_amount payload) = Some amount" "wf_f64 (br_slippage_tolerance payload)"
    and "load_active_pools env = Ok (baseline, w)"
    and "covering_split (compile_pools env baseline) (br_from_token payload) (br_to_token payload) amount splits"
    and "\<forall>item \<in> set splits. \<forall>h \<in> set (hops (fst item)). pm (h_pool_id h) \<noteq> None"
  shows "plan_result_ok env payload (bind_outcome
             (map_err (\<lambda>e. (BAD_REQUEST, slippage_message e)) (try_from_tolerance (br_slippage_tolerance payload)))
             (\<lambda>slippage.
                let total_amount_out = sum_list (map (snd \<circ> snd) splits);
                    min_amount_out = path_min_amount_out total_amount_out slippage
                in bind_outcome
                     (build_plan m pm tm payload slippage splits)
                     (\<lambda>tx. Ok \<lparr>pr_transaction = tx,
                        pr_gas_price = (if reference_gas_price env = 0 then 1000 else reference_gas_price env),
                        pr_amount_in = amount, pr_estimated_amount_out = show_word total_amount_out,
                        pr_min_amount_out = show_word min_amount_out\<rparr>)))"
proof (cases "try_from_tolerance (br_slippage_tolerance payload)")
  case (Ok s)
  note outcomes = build_plan_outcomes [OF assms(5), where m = m and tm = tm and payload = payload and sl = s]
  show ?thesis
  proof (cases "build_plan m pm tm payload s splits")
    case plan: (Ok tx)
    let ?est = "sum_list (map (snd \<circ> snd) splits)"
    have "valid_bps s" using assms(2) Ok by (rule tolerance_valid_bps)
    then have mn: "unat (path_min_amount_out ?est s) = unat ?est * (10000 - unat (bps s)) div 10000"
      using unat_apply_retain_bps [of "retain_bps s" ?est] by (simp add: path_min_amount_out_def apply_to_amount_def unat_retain)
    have lin: "length splits \<le> 3000 \<Longrightarrow> run_linear 0 [] (tx_commands tx) = Some []"
      using plan_run_linear(1) [OF plan] assms(4) by (simp add: covering_split_def)
    have "swap_planned env payload amount tx (show_word ?est) (show_word (path_min_amount_out ?est s))"
      unfolding swap_planned_def
      using assms(1,3,4) outcomes plan Ok mn lin parse_u128_show [of ?est] parse_u128_show [of "path_min_amount_out ?est s"]
      by auto
    then show ?thesis by (simp add: plan_result_ok_def Ok plan Let_def)
  qed (use outcomes Ok in \<open>auto simp: plan_result_ok_def Let_def\<close>)
qed (auto simp: plan_result_ok_def try_from_tolerance_def Let_def split: if_splits)

lemma split_pools_known:
  assumes "split_ok routes amount (Ok splits)" "\<forall>p \<in> set routes. pool_chain compiled a (hops p) b"
  shows "\<forall>item \<in> set splits. \<forall>h \<in> set (hops (fst item)). pools_by_id compiled (h_pool_id h) \<noteq> None"
proof (intro ballI)
  fix item h
  assume "item \<in> set splits" "h \<in> set (hops (fst item))"
  moreover from this assms(1) have "fst item \<in> set routes" by (auto simp: split_ok_def)
  ultimately obtain p where "p \<in> set compiled" "hop_of_pool p h" using assms(2) pool_chain_hops by blast
  then show "pools_by_id compiled (h_pool_id h) \<noteq> None" by (rule pools_by_id_hop)
qed

text \<open>The plan stage of the handler always gets an answer, and looking up a pool never panics.\<close>

lemma build_tx_plan_sound:
  assumes "market_ok env F" and "wf_f64 (br_slippage_tolerance payload)" and "\<forall>msg. pg_list_pools env \<noteq> Panic msg"
  shows "\<exists>res. handle_build_tx_plan env payload = Some res \<and> plan_result_ok env payload res"
proof (cases "parse_u128 (br_amount payload)")
  case None
  then show ?thesis by (simp add: handle_build_tx_plan_def plan_result_ok_def fail_def)
next
  case amt: (Some amount)
  show ?thesis
  proof (cases "load_active_pools env")
    case (Ok loaded)
    obtain baseline w where bw: "load_active_pools env = Ok (baseline, w)" using Ok by (cases loaded) simp
    have mk: "binary_heap (env_pop env)" "fees_fit (compile_pools env baseline) F"
      using assms bw by (auto simp: market_ok_def)
    obtain routes where routes:
      "find_routes env (compile_pools env baseline) (br_from_token payload) (br_to_token payload) amount = Some routes"
      "\<forall>p \<in> set routes. pool_chain (compile_pools env baseline) (br_from_token payload) (hops p) (br_to_token payload)"
      by (rule find_routes_sound [OF mk])
    obtain sres where sres:
      "split_order env (compile_pools env baseline) routes amount (br_to_token payload) = Some sres"
      "split_ok routes amount sres" using split_order_ok by blast
    have pools: "\<forall>item \<in> set splits. \<forall>h \<in> set (hops (fst item)). pools_by_id (compile_pools env baseline) (h_pool_id h) \<noteq> None"
      if "sres = Ok splits" for splits
      using split_pools_known [OF _ routes(2)] sres(2) that by simp
    have tail: "splits \<noteq> [] \<Longrightarrow> sres = Ok splits \<Longrightarrow> covering_split (compile_pools env baseline) (br_from_token payload) (br_to_token payload) amount splits" for splits
      using split_ok_covering [OF _ _ routes(2)] sres(2) by simp
    show ?thesis
      unfolding handle_build_tx_eq [OF amt bw routes(1) sres(1)]
      using sres(2) plan_tail_ok [OF amt assms(2) bw tail pools] panic_same_token [OF _ routes(2)]
      by (cases sres) (auto simp: Let_def fail_def split_ok_def plan_result_ok_def)
  next
    case (Err e)
    with amt load_active_pools_errors [OF Err] show ?thesis
      by (simp add: handle_build_tx_plan_def plan_result_ok_def)
  next
    case (Panic msg)
    with assms(3) have False by (auto simp: load_active_pools_def Let_def outcome_simps split: outcome.splits option.splits)
    then show ?thesis ..
  qed
qed

subsection \<open>What both handlers compute alike\<close>

lemma handle_quote_Ok:
  assumes "handle_quote_inner env q = Some (Ok rn)"
  obtains baseline w amount routes splits where
    "load_active_pools env = Ok (baseline, w)" "parse_u128 (qr_amount q) = Some amount"
    "find_routes env (compile_pools env baseline) (qr_from_token q) (qr_to_token q) amount = Some routes"
    "split_order env (compile_pools env baseline) routes amount (qr_to_token q) = Some (Ok splits)"
    "qs_amount_out (fst rn) = show_word (sum_list (map (snd \<circ> snd) splits))"
proof -
  obtain baseline w where load: "load_active_pools env = Ok (baseline, w)"
    using assms by (cases "load_active_pools env") (auto simp: handle_quote_inner_def)
  obtain amount where amount: "parse_u128 (qr_amount q) = Some amount"
    using assms load by (auto simp: handle_quote_inner_def fail_def Let_def split: if_splits option.splits)
  obtain routes where routes: "find_routes env (compile_pools env baseline) (qr_from_token q) (qr_to_token q) amount = Some routes"
    using assms load amount by (auto simp: handle_quote_inner_def fail_def Let_def split: if_splits option.splits)
  obtain splits where "split_order env (compile_pools env baseline) routes amount (qr_to_token q) = Some (Ok splits)"
    "fst rn = quote_response_of env q amount (compile_pools env baseline) splits"
    using assms load amount routes
    by (auto simp: handle_quote_inner_def fail_def Let_def split: if_splits option.splits outcome.splits)
  with that load amount routes show thesis by (simp add: quote_response_of_def Let_def)
qed

lemma handle_build_tx_plan_Ok:
  assumes "handle_build_tx_plan env payload = Some (Ok plan)" "load_active_pools env = Ok (baseline, w)"
    and "parse_u128 (br_amount payload) = Some amount"
    and "find_routes env (compile_pools env baseline) (br_from_token payload) (br_to_token payload) amount = Some routes"
    and "split_order env (compile_pools env baseline) routes amount (br_to_token payload) = Some (Ok splits)"
  shows "pr_estimated_amount_out plan = show_word (sum_list (map (snd \<circ> snd) splits))"
  using assms(1) unfolding handle_build_tx_eq [OF assms(3,2,4,5)]
  by (auto simp: fail_def Let_def outcome_simps split: if_splits)

end
