(* ===== verification/Tx_Builder.thy ===== *)
theory Tx_Builder
  imports Dex_Swap
begin

text \<open>
  \<open>src/transaction_builder.rs\<close>: the translation of a symbolic programmable transaction into calls of the
  Sui transaction builder.  The builder and the parsers of the Sui SDK are third-party code; they are the
  fields of the record \<open>sdk\<close> that the definitions take as an argument.  The builder state has type \<open>'b\<close>, its
  argument handles type \<open>'arg\<close>.
\<close>

subsection \<open>Types\<close>

datatype tx_build_error =
    InvalidAddress string
  | InvalidDigest string
  | InvalidIdentifier string
  | InvalidTypeTag string
  | MissingObjectMeta string
  | MissingSharedVersion string
  | UnresolvedInputCoin
  | InvalidPureValue string
  | MissingCommandResult u16 nat
  | CommandHasNoResult u16
  | InvalidSplitAmount
  | EmptyGasCoins
  | Builder string
  | Bcs string

datatype owner_kind = Owned | Shared | Immutable

record object_meta =
  om_object_id :: string
  om_version :: u64
  om_digest :: string
  om_owner_kind :: owner_kind
  initial_shared_version :: "u64 option"
  om_mutable :: bool

record resolved_coin =
  rc_object_id :: string
  rc_version :: u64
  rc_digest :: string
  rc_balance :: u64
  rc_coin_type :: string

record canonical_build_input =
  ci_symbolic :: ptb_transaction
  ci_sender :: string
  ci_gas_price :: u64
  ci_gas_budget :: u64
  ci_gas_coins :: "resolved_coin list"
  ci_object_meta :: "string \<rightharpoonup> object_meta"

datatype 'addr pure_value = PBool bool | PU64 u64 | PU128 u128 | PAddr 'addr

text \<open>The parts of the Sui SDK that the module calls.\<close>

record ('b, 'arg, 'addr, 'dig, 'ident, 'ty, 'obj, 'tx) sdk =
  address_from_str :: "string \<Rightarrow> 'addr option"
  digest_from_base58 :: "string \<Rightarrow> 'dig option"
  digest_from_str :: "string \<Rightarrow> 'dig option"
  identifier_new :: "string \<Rightarrow> 'ident option"
  type_tag_from_str :: "string \<Rightarrow> 'ty option"
  obj_owned :: "'addr \<Rightarrow> u64 \<Rightarrow> 'dig \<Rightarrow> 'obj"
  obj_immutable :: "'addr \<Rightarrow> u64 \<Rightarrow> 'dig \<Rightarrow> 'obj"
  obj_shared :: "'addr \<Rightarrow> u64 \<Rightarrow> bool \<Rightarrow> 'obj"
  b_new :: "'addr \<Rightarrow> u64 \<Rightarrow> u64 \<Rightarrow> 'obj list \<Rightarrow> 'b"
  b_gas :: "'b \<Rightarrow> 'arg \<times> 'b"
  b_pure :: "'b \<Rightarrow> 'addr pure_value \<Rightarrow> 'arg \<times> 'b"
  b_object :: "'b \<Rightarrow> 'obj \<Rightarrow> 'arg \<times> 'b"
  b_split_coins :: "'b \<Rightarrow> 'arg \<Rightarrow> 'arg list \<Rightarrow> 'arg list \<times> 'b"
  b_merge_coins :: "'b \<Rightarrow> 'arg \<Rightarrow> 'arg list \<Rightarrow> 'b"
  b_transfer_objects :: "'b \<Rightarrow> 'arg list \<Rightarrow> 'arg \<Rightarrow> 'b"
  b_move_call :: "'b \<Rightarrow> 'addr \<Rightarrow> 'ident \<Rightarrow> 'ident \<Rightarrow> 'ty list \<Rightarrow> 'arg list \<Rightarrow> 'arg \<times> 'b"
  b_make_move_vec :: "'b \<Rightarrow> 'ty option \<Rightarrow> 'arg list \<Rightarrow> 'arg \<times> 'b"
  to_nested :: "'arg \<Rightarrow> nat \<Rightarrow> 'arg list"
  try_build :: "'b \<Rightarrow> ('tx, string) outcome"
  to_bcs_base64 :: "'tx \<Rightarrow> (string, string) outcome"
  digest_base58 :: "'tx \<Rightarrow> string"

record 'tx canonical_build_output =
  co_transaction :: 'tx
  co_transaction_data_bcs_base64 :: string
  co_transaction_digest :: string
  co_gas_budget :: u64
  co_gas_price :: u64
  co_object_refs :: "object_ref_summary list"

subsection \<open>Results of earlier commands\<close>

text \<open>\<open>ResultTracker\<close>: the root argument of each command, \<open>None\<close> when it yields no result.\<close>

type_synonym 'arg result_tracker = "'arg option list"

definition tracker_result :: "'arg result_tracker \<Rightarrow> u16 \<Rightarrow> ('arg, tx_build_error) outcome" where
  "tracker_result roots cmd =
     (if unat cmd < length roots then ok_or (roots ! unat cmd) (CommandHasNoResult cmd)
      else Err (MissingCommandResult cmd (length roots)))"

definition tracker_nested ::
  "('b, 'arg, 'addr, 'dig, 'ident, 'ty, 'obj, 'tx) sdk \<Rightarrow> 'arg result_tracker \<Rightarrow> u16 \<Rightarrow> u16 \<Rightarrow> ('arg, tx_build_error) outcome" where
  "tracker_nested s roots cmd idx =
     bind_outcome (tracker_result roots cmd) (\<lambda>root.
       let nested = to_nested s root (unat idx + 1)
       in if unat idx < length nested then Ok (nested ! unat idx) else Panic ''index out of bounds'')"

subsection \<open>Arguments\<close>

definition parse_address ::
  "('b, 'arg, 'addr, 'dig, 'ident, 'ty, 'obj, 'tx) sdk \<Rightarrow> string \<Rightarrow> ('addr, tx_build_error) outcome" where
  "parse_address s v = ok_or (address_from_str s v) (InvalidAddress v)"

definition parse_digest ::
  "('b, 'arg, 'addr, 'dig, 'ident, 'ty, 'obj, 'tx) sdk \<Rightarrow> string \<Rightarrow> ('dig, tx_build_error) outcome" where
  "parse_digest s v =
     ok_or (case digest_from_base58 s v of Some d \<Rightarrow> Some d | None \<Rightarrow> digest_from_str s v) (InvalidDigest v)"

definition parse_identifier ::
  "('b, 'arg, 'addr, 'dig, 'ident, 'ty, 'obj, 'tx) sdk \<Rightarrow> string \<Rightarrow> ('ident, tx_build_error) outcome" where
  "parse_identifier s v = ok_or (identifier_new s v) (InvalidIdentifier v)"

definition parse_type_tag ::
  "('b, 'arg, 'addr, 'dig, 'ident, 'ty, 'obj, 'tx) sdk \<Rightarrow> string \<Rightarrow> ('ty, tx_build_error) outcome" where
  "parse_type_tag s v = ok_or (type_tag_from_str s v) (InvalidTypeTag v)"

definition object_input_from_meta ::
  "('b, 'arg, 'addr, 'dig, 'ident, 'ty, 'obj, 'tx) sdk \<Rightarrow> object_meta \<Rightarrow> ('obj, tx_build_error) outcome" where
  "object_input_from_meta s meta =
     bind_outcome (parse_address s (om_object_id meta)) (\<lambda>object_id.
       case om_owner_kind meta of
         Owned \<Rightarrow> bind_outcome (parse_digest s (om_digest meta)) (\<lambda>d. Ok (obj_owned s object_id (om_version meta) d))
       | Immutable \<Rightarrow> bind_outcome (parse_digest s (om_digest meta)) (\<lambda>d. Ok (obj_immutable s object_id (om_version meta) d))
       | Shared \<Rightarrow> bind_outcome (ok_or (initial_shared_version meta) (MissingSharedVersion (om_object_id meta)))
           (\<lambda>initial. Ok (obj_shared s object_id initial (om_mutable meta))))"

definition parse_bool :: "string \<Rightarrow> bool option" where
  "parse_bool v = (if v = ''true'' then Some True else if v = ''false'' then Some False else None)"

definition map_pure_string ::
  "('b, 'arg, 'addr, 'dig, 'ident, 'ty, 'obj, 'tx) sdk \<Rightarrow> 'b \<Rightarrow> string \<Rightarrow> ('arg \<times> 'b, tx_build_error) outcome" where
  "map_pure_string s b v =
     (case parse_bool v of Some x \<Rightarrow> Ok (b_pure s b (PBool x))
      | None \<Rightarrow> (case parse_u64 v of Some x \<Rightarrow> Ok (b_pure s b (PU64 x))
      | None \<Rightarrow> (case parse_u128 v of Some x \<Rightarrow> Ok (b_pure s b (PU128 x))
      | None \<Rightarrow> (case address_from_str s v of Some x \<Rightarrow> Ok (b_pure s b (PAddr x))
      | None \<Rightarrow> Err (InvalidPureValue v)))))"

fun map_argument ::
  "('b, 'arg, 'addr, 'dig, 'ident, 'ty, 'obj, 'tx) sdk \<Rightarrow> (string \<rightharpoonup> object_meta) \<Rightarrow> 'arg result_tracker \<Rightarrow> 'b \<Rightarrow>
   ptb_argument \<Rightarrow> ('arg \<times> 'b, tx_build_error) outcome" where
  "map_argument s metas roots b GasCoin = Ok (b_gas s b)"
| "map_argument s metas roots b InputCoin = Err UnresolvedInputCoin"
| "map_argument s metas roots b (Result i) = bind_outcome (tracker_result roots i) (\<lambda>a. Ok (a, b))"
| "map_argument s metas roots b (NestedResult i j) = bind_outcome (tracker_nested s roots i j) (\<lambda>a. Ok (a, b))"
| "map_argument s metas roots b (Object oid) =
     bind_outcome (ok_or (metas oid) (MissingObjectMeta oid)) (\<lambda>meta.
     bind_outcome (object_input_from_meta s meta) (\<lambda>obj. Ok (b_object s b obj)))"
| "map_argument s metas roots b (ArgBool v) = Ok (b_pure s b (PBool v))"
| "map_argument s metas roots b (U64 v) = Ok (b_pure s b (PU64 v))"
| "map_argument s metas roots b (U128 v) = Ok (b_pure s b (PU128 v))"
| "map_argument s metas roots b (Address a) = bind_outcome (parse_address s a) (\<lambda>addr. Ok (b_pure s b (PAddr addr)))"
| "map_argument s metas roots b (Pure v) = map_pure_string s b v"

fun map_split_amount ::
  "('b, 'arg, 'addr, 'dig, 'ident, 'ty, 'obj, 'tx) sdk \<Rightarrow> (string \<rightharpoonup> object_meta) \<Rightarrow> 'arg result_tracker \<Rightarrow> 'b \<Rightarrow>
   ptb_argument \<Rightarrow> ('arg \<times> 'b, tx_build_error) outcome" where
  "map_split_amount s metas roots b (U64 v) = Ok (b_pure s b (PU64 v))"
| "map_split_amount s metas roots b (Pure v) = bind_outcome (ok_or (parse_u64 v) InvalidSplitAmount) (\<lambda>x. Ok (b_pure s b (PU64 x)))"
| "map_split_amount s metas roots b (Result i) = map_argument s metas roots b (Result i)"
| "map_split_amount s metas roots b (NestedResult i j) = map_argument s metas roots b (NestedResult i j)"
| "map_split_amount s metas roots b other = Err InvalidSplitAmount"

text \<open>Arguments are mapped from left to right, threading the builder; the first error ends the traversal.\<close>

fun map_args :: "('b \<Rightarrow> ptb_argument \<Rightarrow> ('arg \<times> 'b, tx_build_error) outcome) \<Rightarrow> 'b \<Rightarrow> ptb_argument list \<Rightarrow>
   ('arg list \<times> 'b, tx_build_error) outcome" where
  "map_args f b [] = Ok ([], b)"
| "map_args f b (a # as) =
     bind_outcome (f b a) (\<lambda>(x, b1). bind_outcome (map_args f b1 as) (\<lambda>(xs, b2). Ok (x # xs, b2)))"

subsection \<open>Commands\<close>

fun apply_command ::
  "('b, 'arg, 'addr, 'dig, 'ident, 'ty, 'obj, 'tx) sdk \<Rightarrow> (string \<rightharpoonup> object_meta) \<Rightarrow> ptb_command \<Rightarrow>
   'b \<times> 'arg result_tracker \<Rightarrow> ('b \<times> 'arg result_tracker, tx_build_error) outcome" where
  "apply_command s metas (SplitCoins coin amounts) (b, roots) =
     bind_outcome (map_argument s metas roots b coin) (\<lambda>(coin_arg, b1).
     bind_outcome (map_args (map_split_amount s metas roots) b1 amounts) (\<lambda>(amount_args, b2).
     let (nested, b3) = b_split_coins s b2 coin_arg amount_args
     in Ok (b3, roots @ [case nested of [] \<Rightarrow> None | x # xs \<Rightarrow> Some x])))"
| "apply_command s metas (MergeCoins destination sources) (b, roots) =
     bind_outcome (map_argument s metas roots b destination) (\<lambda>(dest, b1).
     bind_outcome (map_args (map_argument s metas roots) b1 sources) (\<lambda>(source_args, b2).
     Ok (b_merge_coins s b2 dest source_args, roots @ [None])))"
| "apply_command s metas (TransferObjects objects addr) (b, roots) =
     (let objs = map_args (map_argument s metas roots) b objects;
          b1 = (case objs of Ok ob \<Rightarrow> snd ob | _ \<Rightarrow> b)
      in bind_outcome (map_argument s metas roots b1 addr) (\<lambda>(recipient, b2).
         bind_outcome objs (\<lambda>(object_args, b').
         Ok (b_transfer_objects s b2 object_args recipient, roots @ [None]))))"
| "apply_command s metas (MoveCall package m f type_arguments arguments) (b, roots) =
     bind_outcome (parse_address s package) (\<lambda>package_addr.
     bind_outcome (parse_identifier s m) (\<lambda>module_id.
     bind_outcome (parse_identifier s f) (\<lambda>function_id.
     bind_outcome (try_collect (parse_type_tag s) type_arguments) (\<lambda>type_args.
     bind_outcome (map_args (map_argument s metas roots) b arguments) (\<lambda>(args, b1).
     let (result, b2) = b_move_call s b1 package_addr module_id function_id type_args args
     in Ok (b2, roots @ [Some result]))))))"
| "apply_command s metas (MakeMoveVec type_tag elements) (b, roots) =
     bind_outcome (case type_tag of
         Some t \<Rightarrow> bind_outcome (parse_type_tag s t) (\<lambda>ty. Ok (Some ty))
       | None \<Rightarrow> Ok None) (\<lambda>type_opt.
     bind_outcome (map_args (map_argument s metas roots) b elements) (\<lambda>(elems, b1).
     let (result, b2) = b_make_move_vec s b1 type_opt elems
     in Ok (b2, roots @ [Some result])))"

fun apply_commands ::
  "('b, 'arg, 'addr, 'dig, 'ident, 'ty, 'obj, 'tx) sdk \<Rightarrow> (string \<rightharpoonup> object_meta) \<Rightarrow> ptb_command list \<Rightarrow>
   'b \<times> 'arg result_tracker \<Rightarrow> ('b \<times> 'arg result_tracker, tx_build_error) outcome" where
  "apply_commands s metas [] st = Ok st"
| "apply_commands s metas (c # cs) st = bind_outcome (apply_command s metas c st) (apply_commands s metas cs)"

definition owner_kind_name :: "owner_kind \<Rightarrow> string" where
  "owner_kind_name k = (case k of Owned \<Rightarrow> ''Owned'' | Shared \<Rightarrow> ''Shared'' | Immutable \<Rightarrow> ''Immutable'')"

text \<open>\<open>meta_values\<close> is the order in which the metadata map yields its values.\<close>

definition collect_object_refs :: "canonical_build_input \<Rightarrow> object_meta list \<Rightarrow> object_ref_summary list" where
  "collect_object_refs input meta_values =
     map (\<lambda>c. \<lparr>or_object_id = rc_object_id c, or_version = rc_version c, or_digest = rc_digest c,
               or_owner_kind = ''Owned''\<rparr>) (ci_gas_coins input) @
     map (\<lambda>m. \<lparr>or_object_id = om_object_id m, or_version = om_version m, or_digest = om_digest m,
               or_owner_kind = owner_kind_name (om_owner_kind m)\<rparr>) meta_values"

definition gas_objects ::
  "('b, 'arg, 'addr, 'dig, 'ident, 'ty, 'obj, 'tx) sdk \<Rightarrow> resolved_coin list \<Rightarrow> ('obj list, tx_build_error) outcome" where
  "gas_objects s coins =
     try_collect (\<lambda>c. bind_outcome (parse_address s (rc_object_id c)) (\<lambda>a.
        bind_outcome (parse_digest s (rc_digest c)) (\<lambda>d. Ok (obj_owned s a (rc_version c) d)))) coins"

definition build_canonical_transaction ::
  "('b, 'arg, 'addr, 'dig, 'ident, 'ty, 'obj, 'tx) sdk \<Rightarrow> object_meta list \<Rightarrow> canonical_build_input \<Rightarrow>
   ('tx canonical_build_output, tx_build_error) outcome" where
  "build_canonical_transaction s meta_values input =
     (if ci_gas_coins input = [] then Err EmptyGasCoins
      else
        bind_outcome (parse_address s (ci_sender input)) (\<lambda>sender.
        bind_outcome (gas_objects s (ci_gas_coins input)) (\<lambda>gas.
        bind_outcome
          (apply_commands s (ci_object_meta input) (tx_commands (ci_symbolic input))
             (b_new s sender (ci_gas_budget input) (ci_gas_price input) gas, [])) (\<lambda>st.
        bind_outcome (map_err Builder (try_build s (fst st))) (\<lambda>tx.
        bind_outcome (map_err Bcs (to_bcs_base64 s tx)) (\<lambda>bcs.
        Ok \<lparr>co_transaction = tx, co_transaction_data_bcs_base64 = bcs, co_transaction_digest = digest_base58 s tx,
            co_gas_budget = ci_gas_budget input, co_gas_price = ci_gas_price input,
            co_object_refs = collect_object_refs input meta_values\<rparr>))))))"

end
