(* ===== verification/Build_Tx.thy ===== *)
theory Build_Tx
  imports Quote_Api Tx_Builder
begin

text \<open>
  The last stage of \<open>handle_build_tx\<close> (\<open>src/api/quote.rs\<close>): object resolution, the choice of gas coins, the
  balance checks and the call of the canonical builder.  The Sui node is the record \<open>sui_node\<close>.  The
  second half connects the plan of \<open>Quote_Api\<close> with the builder of \<open>Tx_Builder\<close> and states what the whole handler
  promises (\<open>build_result_ok\<close>).
\<close>

subsection \<open>Object resolution\<close>




text \<open>The answers of the node; \<open>hs_iter\<close> is the order in which a hash set yields its elements.\<close>

record sui_node =
  get_object_meta :: "string \<Rightarrow> (object_meta, string) outcome"
  get_sui_coins :: "string \<Rightarrow> (resolved_coin list, string) outcome"
  get_all_coins :: "string \<Rightarrow> (resolved_coin list, string) outcome"
  hs_iter :: "string set \<Rightarrow> string list"


subsection \<open>Coins\<close>

text \<open>\<open>saturating_add\<close> of \<open>u128\<close>.\<close>

definition saturating_add :: "u128 \<Rightarrow> u128 \<Rightarrow> u128" where
  "saturating_add a b = (if unat a + unat b < 2 ^ 128 then a + b else - 1)"

definition needed_balance :: "u128 \<Rightarrow> u64 \<Rightarrow> u64" where
  "needed_balance amount_in gas_budget =
     ucast (min (saturating_add amount_in (ucast gas_budget)) (ucast (- 1 :: u64)))"

text \<open>\<open>sort_by_key(|c| Reverse(c.balance))\<close> is a stable sort by descending balance.\<close>

definition sort_desc :: "resolved_coin list \<Rightarrow> resolved_coin list" where
  "sort_desc coins = sort_key (\<lambda>c. - int (unat (rc_balance c))) coins"

definition choose_sui_coin :: "resolved_coin list \<Rightarrow> u128 \<Rightarrow> u64 \<Rightarrow> (resolved_coin, http_error) outcome" where
  "choose_sui_coin sui_coins amount_in gas_budget =
     (let sorted_coins = sort_desc sui_coins;
          needed = needed_balance amount_in gas_budget
      in bind_outcome
           (ok_or (case find (\<lambda>c. needed \<le> rc_balance c) sorted_coins of
                     Some c \<Rightarrow> Some c
                   | None \<Rightarrow> (case sorted_coins of [] \<Rightarrow> None | c # cs \<Rightarrow> Some c))
              (BAD_REQUEST, ''sender has no SUI coins for gas/payment''))
           (\<lambda>chosen.
             if unat (rc_balance chosen) < unat amount_in then
               Err (BAD_REQUEST, ''insufficient SUI balance: have '' @ show_word (rc_balance chosen) @ '', need '' @ show_word amount_in)
             else Ok chosen))"



text \<open>The loop over the caller's coin ids: the metadata map and the total balance.\<close>

fun sum_input_coins ::
  "sui_node \<Rightarrow> string \<Rightarrow> string list \<Rightarrow> (string \<rightharpoonup> object_meta) \<Rightarrow> u128 \<Rightarrow>
   ((string \<rightharpoonup> object_meta) \<times> u128, http_error) outcome" where
  "sum_input_coins node user [] metas input_total = Ok (metas, input_total)"
| "sum_input_coins node user (cid # cids) metas input_total =
     bind_outcome
       (case metas cid of
          Some m \<Rightarrow> Ok metas
        | None \<Rightarrow> bind_outcome
            (map_err (\<lambda>e. (BAD_GATEWAY, ''failed to resolve input coin '' @ cid @ '': '' @ e)) (get_object_meta node cid))
            (\<lambda>m. Ok (metas(cid \<mapsto> m)))) (\<lambda>metas1.
     bind_outcome (map_err (\<lambda>e. (BAD_GATEWAY, ''failed to list sender coins: '' @ e)) (get_all_coins node user)) (\<lambda>owned.
     bind_outcome
       (ok_or (find (\<lambda>c. rc_object_id c = cid) owned) (BAD_REQUEST, ''coin_id '' @ cid @ '' not owned by sender'')) (\<lambda>coin.
     sum_input_coins node user cids metas1 (saturating_add input_total (ucast (rc_balance coin))))))"






subsection \<open>The chosen coins suffice\<close>

lemma sort_desc_head:
  assumes "sort_desc coins = c # cs" "d \<in> set coins"
  shows "rc_balance d \<le> rc_balance c"
proof -
  have "sorted (map (\<lambda>c. - int (unat (rc_balance c))) (c # cs))"
    using assms(1) sorted_sort_key [of "\<lambda>c. - int (unat (rc_balance c))" coins] by (simp add: sort_desc_def)
  moreover have "d \<in> set (c # cs)"
    using assms by (metis set_sort sort_desc_def)
  ultimately show ?thesis by (auto simp: word_le_def)
qed


lemma choose_sui_coin_cases:
  "case choose_sui_coin coins amount_in gas_budget of
     Ok c \<Rightarrow> c \<in> set coins \<and> unat amount_in \<le> unat (rc_balance c) \<and>
       (\<forall>d \<in> set coins. rc_balance d \<le> rc_balance c) \<and>
       ((\<exists>d \<in> set coins. needed_balance amount_in gas_budget \<le> rc_balance d) \<longrightarrow>
          needed_balance amount_in gas_budget \<le> rc_balance c)
   | Err e \<Rightarrow> fst e = BAD_REQUEST \<and> (\<forall>d \<in> set coins. unat (rc_balance d) < unat amount_in)
   | Panic msg \<Rightarrow> False"
proof (cases "sort_desc coins")
  case Nil
  then have "coins = []" by (metis set_empty set_sort sort_desc_def)
  with Nil show ?thesis by (simp add: choose_sui_coin_def Let_def)
next
  case (Cons c cs)
  have head: "c \<in> set coins" "\<And>d. d \<in> set coins \<Longrightarrow> rc_balance d \<le> rc_balance c"
    using Cons sort_desc_head [OF Cons] by (metis list.set_intros(1) set_sort sort_desc_def, blast)
  have "(case find (\<lambda>c. needed_balance amount_in gas_budget \<le> rc_balance c) (c # cs) of
      Some d \<Rightarrow> Some d | None \<Rightarrow> Some c) = Some c"
  proof (cases "needed_balance amount_in gas_budget \<le> rc_balance c")
    case False
    have "find (\<lambda>c. needed_balance amount_in gas_budget \<le> rc_balance c) (c # cs) = None"
      using False head(2) Cons set_sort [of "\<lambda>c. - int (unat (rc_balance c))" coins]
      by (auto simp: find_None_iff sort_desc_def dest: order_trans)
    then show ?thesis by simp
  qed simp
  then have eq: "choose_sui_coin coins amount_in gas_budget =
      (if unat (rc_balance c) < unat amount_in then
         Err (BAD_REQUEST, ''insufficient SUI balance: have '' @ show_word (rc_balance c) @ '', need '' @ show_word amount_in)
       else Ok c)"
    by (simp add: choose_sui_coin_def Let_def Cons split: option.splits if_splits)
  show ?thesis unfolding eq using head
    by (auto simp: word_le_nat_alt not_less intro: order_trans le_less_trans)
qed

text \<open>
  For a swap out of SUI the gas coin is the sender's coin of largest balance and its balance covers
  the input amount; if any coin covers amount and gas budget together, the chosen one does.  The only errors
  are an empty wallet and a largest coin below the amount.
\<close>

theorem choose_sui_coin_sound:
  "case choose_sui_coin coins amount_in gas_budget of
     Ok c \<Rightarrow> c \<in> set coins \<and> unat amount_in \<le> unat (rc_balance c) \<and>
       (\<forall>d \<in> set coins. rc_balance d \<le> rc_balance c) \<and>
       ((\<exists>d \<in> set coins. needed_balance amount_in gas_budget \<le> rc_balance d) \<longrightarrow>
          needed_balance amount_in gas_budget \<le> rc_balance c)
   | Err e \<Rightarrow> fst e = BAD_REQUEST \<and> (\<forall>d \<in> set coins. unat (rc_balance d) < unat amount_in)
   | Panic msg \<Rightarrow> False"
  by (rule choose_sui_coin_cases)

text \<open>
  The input check adds up the balance of every listed coin id, also of an id listed twice: a request that
  names one coin of half the required balance twice passes the check.
\<close>

theorem duplicate_input_coin_counted_twice:
  assumes "get_all_coins node user = Ok owned" and "find (\<lambda>c. rc_object_id c = cid) owned = Some coin"
    and "metas cid \<noteq> None"
  shows "sum_input_coins node user [cid, cid] metas 0 =
    Ok (metas, ucast (rc_balance coin) + ucast (rc_balance coin))"
proof -
  have b: "unat (rc_balance coin) < 2 ^ 64" using unsigned_less [of "rc_balance coin", where 'a = nat] by simp
  then have "unat (ucast (rc_balance coin) :: u128) = unat (rc_balance coin)"
    by (simp add: unsigned_ucast_eq take_bit_nat_eq_self)
  with b have "unat (ucast (rc_balance coin) :: u128) + unat (ucast (rc_balance coin) :: u128) < 2 ^ 128" by simp
  with assms show ?thesis by (auto simp: saturating_add_def)
qed

definition demo_coin :: resolved_coin where
  "demo_coin = \<lparr>rc_object_id = ''0xc'', rc_version = 1, rc_digest = ''d'', rc_balance = 500, rc_coin_type = ''USDC''\<rparr>"

definition demo_meta :: object_meta where
  "demo_meta = \<lparr>om_object_id = ''0xc'', om_version = 1, om_digest = ''d'', om_owner_kind = Owned,
     initial_shared_version = None, om_mutable = True\<rparr>"

definition demo_node :: sui_node where
  "demo_node = \<lparr>get_object_meta = (\<lambda>_. Ok demo_meta), get_sui_coins = (\<lambda>_. Ok [demo_coin]),
     get_all_coins = (\<lambda>_. Ok [demo_coin]), hs_iter = (\<lambda>_. [])\<rparr>"

theorem choose_sui_coin_sound_witness:
  "\<exists>c. choose_sui_coin [demo_coin] 100 50 = Ok c \<and> unat (100 :: u128) \<le> unat (rc_balance c) \<and> c = demo_coin"
  using choose_sui_coin_sound [of "[demo_coin]" 100 50] by (auto simp: demo_coin_def split: outcome.splits)

theorem duplicate_input_coin_witness:
  "sum_input_coins demo_node ''0x1'' [''0xc'', ''0xc''] [''0xc'' \<mapsto> demo_meta] 0 =
     Ok ([''0xc'' \<mapsto> demo_meta], ucast (rc_balance demo_coin) + ucast (rc_balance demo_coin)) \<and>
   ucast (rc_balance demo_coin) + ucast (rc_balance demo_coin) = (1000 :: u128)"
  using duplicate_input_coin_counted_twice
    [of demo_node "''0x1''" "[demo_coin]" "''0xc''" demo_coin "[''0xc'' \<mapsto> demo_meta]"]
  by (simp add: demo_node_def demo_coin_def)

subsection \<open>Every reference of a plan resolves\<close>

text \<open>What the builder promises: nesting a result by \<open>n\<close> gives \<open>n\<close> handles, and a split into some amounts yields handles.\<close>

definition sdk_ok :: "('b, 'arg, 'addr, 'dig, 'ident, 'ty, 'obj, 'tx) sdk \<Rightarrow> bool" where
  "sdk_ok s \<longleftrightarrow> (\<forall>a n. length (to_nested s a n) = n) \<and> (\<forall>b c as. as \<noteq> [] \<longrightarrow> fst (b_split_coins s b c as) \<noteq> [])"

text \<open>Errors that concern parsing or chain metadata, not the references between commands.\<close>

fun external_error :: "tx_build_error \<Rightarrow> bool" where
  "external_error (InvalidAddress v) = True"
| "external_error (InvalidDigest v) = True"
| "external_error (InvalidIdentifier v) = True"
| "external_error (InvalidTypeTag v) = True"
| "external_error (MissingObjectMeta v) = True"
| "external_error (MissingSharedVersion v) = True"
| "external_error (InvalidPureValue v) = True"
| "external_error e = False"

definition only_external :: "('a, tx_build_error) outcome \<Rightarrow> bool" where
  "only_external r = (case r of Ok x \<Rightarrow> True | Err e \<Rightarrow> external_error e | Panic msg \<Rightarrow> False)"

lemma only_external_simps [simp]:
  "only_external (Ok x)" "only_external (Err e) = external_error e" "\<not> only_external (Panic msg)"
  by (simp_all add: only_external_def)

lemma only_external_bind:
  "only_external m \<Longrightarrow> (\<And>x. m = Ok x \<Longrightarrow> only_external (f x)) \<Longrightarrow> only_external (bind_outcome m f)"
  by (cases m) auto

lemma only_external_ok_or [simp]: "only_external (ok_or x e) \<longleftrightarrow> x \<noteq> None \<or> external_error e"
  by (cases x) auto

lemma only_external_parsers [simp]:
  "only_external (parse_address s v)" "only_external (parse_digest s v)"
  "only_external (parse_identifier s v)" "only_external (parse_type_tag s v)"
  by (simp_all add: parse_address_def parse_digest_def parse_identifier_def parse_type_tag_def)

lemma only_external_meta [simp]: "only_external (object_input_from_meta s meta)"
  by (auto simp: object_input_from_meta_def intro!: only_external_bind split: owner_kind.splits)

lemma only_external_pure [simp]: "only_external (map_pure_string s b v)"
  by (simp add: map_pure_string_def split: option.splits)

text \<open>An argument that is not a reference, or refers to a command with a result.\<close>

fun arg_ok :: "bool list \<Rightarrow> ptb_argument \<Rightarrow> bool" where
  "arg_ok ys (Result i) = (unat i < length ys \<and> ys ! unat i)"
| "arg_ok ys (NestedResult i j) = (unat i < length ys \<and> ys ! unat i)"
| "arg_ok ys InputCoin = False"
| "arg_ok ys a = True"

definition roots_ok :: "bool list \<Rightarrow> 'arg result_tracker \<Rightarrow> bool" where
  "roots_ok ys roots \<longleftrightarrow> length roots = length ys \<and> (\<forall>i < length ys. ys ! i \<longrightarrow> roots ! i \<noteq> None)"

lemma map_argument_ok:
  assumes "sdk_ok s" "roots_ok ys roots" "arg_ok ys a"
  shows "only_external (map_argument s metas roots b a)"
  using assms
  by (cases a)
    (auto simp: roots_ok_def tracker_result_def tracker_nested_def sdk_ok_def Let_def intro!: only_external_bind)

lemma map_args_ok: "(\<And>b a. a \<in> set as \<Longrightarrow> only_external (f b a)) \<Longrightarrow> only_external (map_args f b as)"
proof (induction as arbitrary: b)
  case (Cons a as)
  show ?case
    using Cons by (auto intro!: only_external_bind split: prod.splits)
qed simp

fun yields :: "ptb_command \<Rightarrow> bool" where
  "yields (SplitCoins coin amounts) = (amounts \<noteq> [])"
| "yields (MoveCall p m f tys args) = True"
| "yields (MakeMoveVec ty elements) = True"
| "yields c = False"

fun is_u64 :: "ptb_argument \<Rightarrow> bool" where
  "is_u64 (U64 v) = True"
| "is_u64 a = False"

text \<open>Arguments that the resource check does not see: coins taken by reference and addresses.\<close>

fun plain_command :: "ptb_command \<Rightarrow> bool" where
  "plain_command (SplitCoins coin amounts) = (\<not> is_linear coin \<and> list_all is_u64 amounts)"
| "plain_command (MergeCoins dest srcs) = (\<not> is_linear dest)"
| "plain_command (TransferObjects objects addr) = (\<not> is_linear addr)"
| "plain_command c = True"

lemma arg_ok_not_linear: "\<not> is_linear a \<Longrightarrow> arg_ok ys a"
  by (cases a) auto

lemma linear_or_ok: "\<forall>a \<in> set (filter is_linear as). arg_ok ys a \<Longrightarrow> a \<in> set as \<Longrightarrow> arg_ok ys a"
  using arg_ok_not_linear by (cases "is_linear a") auto

lemma map_split_amount_u64: "is_u64 a \<Longrightarrow> only_external (map_split_amount s metas roots b a)"
  by (cases a) auto

lemma map_args_length: "map_args f b as = Ok (xs, b') \<Longrightarrow> length xs = length as"
  by (induction as arbitrary: b xs b') (auto simp: outcome_simps)

lemma apply_command_ok:
  assumes "sdk_ok s" "roots_ok ys roots" "plain_command c" "\<forall>a \<in> set (linear_args c). arg_ok ys a"
  shows "only_external (apply_command s metas c (b, roots))"
    and "apply_command s metas c (b, roots) = Ok st \<Longrightarrow> roots_ok (ys @ [yields c]) (snd st)"
proof -
  have arg: "only_external (map_argument s metas roots b' a)" if "arg_ok ys a" for b' a
    using assms(1,2) that by (rule map_argument_ok)
  have args: "only_external (map_args (map_argument s metas roots) b' as)" if "\<forall>a \<in> set as. arg_ok ys a" for b' as
    using that arg by (intro map_args_ok) blast
  have args': "only_external (map_args (map_argument s metas roots) b' as)" if "set (filter is_linear as) \<subseteq> set (linear_args c)" for b' as
  proof (rule args)
    have l: "\<forall>a \<in> set (filter is_linear as). arg_ok ys a" using that assms(4) by blast
    show "\<forall>a \<in> set as. arg_ok ys a" using linear_or_ok [OF l] by blast
  qed
  have tags: "only_external (try_collect (parse_type_tag s) tys)" for tys
    by (induction tys) (auto intro!: only_external_bind)
  show "only_external (apply_command s metas c (b, roots))"
  proof (cases c)
    case (SplitCoins coin amounts)
    with assms(3) show ?thesis
      by (auto intro!: only_external_bind arg arg_ok_not_linear map_args_ok map_split_amount_u64
          simp: list_all_iff split: prod.splits)
  next
    case (TransferObjects objects addr)
    with assms(3) have "arg_ok ys addr" by (simp add: arg_ok_not_linear)
    with TransferObjects args' [of objects] show ?thesis
      by (auto simp: Let_def intro!: only_external_bind arg split: prod.splits)
  next
    case (MergeCoins dest srcs)
    with assms(3) have "arg_ok ys dest" by (simp add: arg_ok_not_linear)
    with MergeCoins args' [of srcs] show ?thesis
      by (auto intro!: only_external_bind arg split: prod.splits)
  next
    case (MakeMoveVec ty elements)
    with args' [of elements] show ?thesis
      by (auto intro!: only_external_bind split: prod.splits option.splits)
  next
    case (MoveCall p m f tys as)
    with args' [of as] show ?thesis
      by (auto intro!: only_external_bind tags split: prod.splits)
  qed
  have grow: "roots_ok (ys @ [y]) (roots @ [r])" if "y \<longrightarrow> r \<noteq> None" for y r
    using assms(2) that by (auto simp: roots_ok_def nth_append less_Suc_eq)
  assume ok: "apply_command s metas c (b, roots) = Ok st"
  show "roots_ok (ys @ [yields c]) (snd st)"
  proof (cases c)
    case (SplitCoins coin amounts)
    with ok obtain coin_arg b1 amount_args b2 where
      "map_args (map_split_amount s metas roots) b1 amounts = Ok (amount_args, b2)"
      and st: "snd st = roots @ [case fst (b_split_coins s b2 coin_arg amount_args) of [] \<Rightarrow> None | x # xs \<Rightarrow> Some x]"
      by (auto simp: outcome_simps case_prod_beta Let_def)
    then have "amounts \<noteq> [] \<longrightarrow> fst (b_split_coins s b2 coin_arg amount_args) \<noteq> []"
      using assms(1) map_args_length by (metis length_0_conv sdk_ok_def)
    then show ?thesis unfolding st SplitCoins by (intro grow) (auto split: list.splits)
  qed (use ok in \<open>auto simp: outcome_simps Let_def case_prod_beta intro!: grow\<close>)
qed

lemma if_both: "P x \<Longrightarrow> P y \<Longrightarrow> P (if c then x else y)"
  by simp

lemma linear_results_index:
  assumes "a \<in> set (linear_results i c)"
  shows "yields c" and "a = Result i \<or> (\<exists>k. a = NestedResult i k)"
proof -
  have "set (call_results i f) \<subseteq> {Result i} \<union> range (NestedResult i)" for f
    unfolding call_results_def
    by (rule if_both [where P = "\<lambda>l. set l \<subseteq> {Result i} \<union> range (NestedResult i)"], simp)+ simp
  with assms show "a = Result i \<or> (\<exists>k. a = NestedResult i k)" by (cases c) auto
  show "yields c" using assms by (cases c) auto
qed

lemma apply_commands_ok:
  assumes "sdk_ok s"
  shows "roots_ok ys roots \<Longrightarrow> list_all plain_command cs \<Longrightarrow> run_linear i av cs = Some r \<Longrightarrow> unat i = length ys \<Longrightarrow>
    unat i + length cs < 2 ^ 16 \<Longrightarrow> \<forall>a \<in> set av. arg_ok ys a \<Longrightarrow>
    only_external (apply_commands s metas cs (b, roots))"
proof (induction cs arbitrary: ys roots i av b)
  case (Cons c cs)
  from Cons.prems(3) obtain rest where rest: "take_args (linear_args c) av = Some rest"
    "run_linear (i + 1) (rest @ linear_results i c) cs = Some r"
    by (auto split: option.splits)
  have sub: "mset (linear_args c) \<subseteq># mset av" using rest(1) take_args_iff(1) by blast
  then have la: "\<forall>a \<in> set (linear_args c). arg_ok ys a"
    using Cons.prems(6) by (meson in_multiset_in_set mset_subset_eqD)
  have restsub: "set rest \<subseteq> set av"
    using take_args_iff(2) [OF rest(1)] by (metis in_diffD set_mset_mset subsetI)
  have i1: "unat (i + 1) = length (ys @ [yields c])"
    using Cons.prems(4,5) by (simp add: unat_word_ariths)
  have mono: "arg_ok ys a \<Longrightarrow> arg_ok (ys @ [y]) a" for a y
    by (cases a) (auto simp: nth_append)
  have new: "arg_ok (ys @ [yields c]) a" if "a \<in> set (linear_results i c)" for a
    using linear_results_index [OF that] Cons.prems(4) by auto
  note step = apply_command_ok [OF assms Cons.prems(1) _ la, of metas b]
  show ?case
  proof (cases "apply_command s metas c (b, roots)")
    case (Ok st)
    obtain b1 roots1 where st: "st = (b1, roots1)" by (cases st)
    have "only_external (apply_commands s metas cs (b1, roots1))"
    proof (rule Cons.IH [OF _ _ rest(2) i1])
      show "roots_ok (ys @ [yields c]) roots1" using step(2) [OF _ Ok] Cons.prems(2) st by simp
      show "unat (i + 1) + length cs < 2 ^ 16" using i1 Cons.prems(4,5) by simp
      show "\<forall>a \<in> set (rest @ linear_results i c). arg_ok (ys @ [yields c]) a"
        using restsub Cons.prems(6) mono new by auto
    qed (use Cons.prems(2) in simp)
    then show ?thesis by (simp add: Ok st)
  qed (use step(1) Cons.prems(2) in auto)
qed simp

lemma hop_commands_plain:
  "build_hop_commands pool hop coin amount min_out limit i recipient = Ok (cmds, out) \<Longrightarrow> list_all plain_command cmds"
  by (auto simp: build_hop_commands_def build_cetus_flash_hop_def build_magma_flash_hop_def build_turbos_hop_def
      build_momentum_flash_hop_def build_config_pool_flash_hop_def outcome_simps Let_def
      split: dex_swap_kind.splits if_splits)

lemma build_hop_plain:
  assumes "build_hop m pm tm sl user pmo n k hop st = Ok st'" "list_all plain_command (commands st)"
  shows "list_all plain_command (commands st')"
proof -
  obtain pool coin amount min_out limit i cmds out where
    "build_hop_commands pool hop coin amount min_out limit i user = Ok (cmds, out)"
    "commands st' = commands st @ cmds"
    using assms(1) unfolding build_hop_def Let_def
    by (cases "pm (h_pool_id hop)") (fastforce simp: outcome_simps fail_def split: if_splits)+
  then show ?thesis using hop_commands_plain assms(2) by simp
qed

lemma build_hops_plain:
  "build_hops m pm tm sl user pmo n k hs st = Ok st' \<Longrightarrow> list_all plain_command (commands st) \<Longrightarrow>
   list_all plain_command (commands st')"
  by (induction hs arbitrary: k st) (auto simp: outcome_simps dest: build_hop_plain)

lemma build_routes_plain:
  "build_routes m pm tm sl user s i splits cmds outs = Ok (cmds', outs') \<Longrightarrow> list_all plain_command cmds \<Longrightarrow>
   list_all plain_command cmds'"
proof (induction splits arbitrary: i cmds outs)
  case (Cons item rest)
  then show ?case by (cases item) (auto simp: outcome_simps dest!: build_hops_plain)
qed simp

lemma split_amounts_u64: "split_amounts splits = Ok as \<Longrightarrow> list_all is_u64 as"
  unfolding split_amounts_def
proof (induction splits arbitrary: as)
  case (Cons item splits)
  then show ?case by (auto simp: bind_outcome_Ok_iff fail_def split: if_splits)
qed simp

lemma coin_setup_plain:
  "coin_setup payload sui as = Ok cs \<Longrightarrow> list_all is_u64 as \<Longrightarrow> list_all plain_command (fst cs)"
  by (auto simp: coin_setup_def fail_def split: if_splits list.splits option.splits)

text \<open>
  C8.  Whatever the chain metadata, mapping a swap plan onto the Sui builder never fails because of the plan
  itself: no argument refers to a missing command or one without result, no symbolic input coin is left, and
  every split amount is a 64-bit number.  Only unparsable names, digests or addresses and missing metadata can
  make it fail, and it never panics.
\<close>

theorem plan_references_resolve:
  assumes "build_plan m pools_map ticks_map payload slippage splits = Ok tx"
    and "\<forall>item \<in> set splits. length (hops (fst item)) \<le> 3" and "length splits \<le> 3000"
    and "sdk_ok s"
  shows "only_external (apply_commands s metas (tx_commands tx) (b, []))"
proof -
  obtain amounts cs co where p: "split_amounts splits = Ok amounts"
    "coin_setup payload (is_from_sui (br_from_token payload)) amounts = Ok cs"
    "build_routes m pools_map ticks_map slippage (br_user_address payload) (snd cs) 0 splits (fst cs) [] = Ok co"
    "tx_commands tx = (if snd co = [] then fst co
       else fst co @ [TransferObjects (snd co) (Address (br_user_address payload))])"
    using assms(1) by (auto simp: build_plan_def outcome_simps Let_def)
  have "list_all plain_command (fst cs)"
    using p(1,2) split_amounts_u64 coin_setup_plain by blast
  then have "list_all plain_command (fst co)"
    using p(3) build_routes_plain by (metis prod.collapse)
  then have plain: "list_all plain_command (tx_commands tx)" using p(4) by simp
  have "run_linear 0 [] (tx_commands tx) = Some []" "length (tx_commands tx) < 2 ^ 16"
    using plan_run_linear [OF assms(1-3)] by auto
  then show ?thesis
    using apply_commands_ok [OF assms(4) _ plain, of "[]" "[]" 0 "[]" "[]"] by (simp add: roots_ok_def)
qed

definition demo_sdk :: "(nat, nat, string, string, string, string, string, unit) sdk" where
  "demo_sdk = \<lparr>address_from_str = Some, digest_from_base58 = Some, digest_from_str = Some, identifier_new = Some,
     type_tag_from_str = Some, obj_owned = (\<lambda>a v d. a), obj_immutable = (\<lambda>a v d. a), obj_shared = (\<lambda>a v d. a),
     b_new = (\<lambda>a g p os. 0), b_gas = (\<lambda>b. (b, Suc b)), b_pure = (\<lambda>b v. (b, Suc b)), b_object = (\<lambda>b v. (b, Suc b)),
     b_split_coins = (\<lambda>b c as. (as, Suc b)), b_merge_coins = (\<lambda>b d ss. Suc b), b_transfer_objects = (\<lambda>b os a. Suc b),
     b_move_call = (\<lambda>b p m f tys as. (b, Suc b)), b_make_move_vec = (\<lambda>b ty es. (b, Suc b)),
     to_nested = (\<lambda>a n. replicate n a), try_build = (\<lambda>b. Ok ()), to_bcs_base64 = (\<lambda>tx. Ok []), digest_base58 = (\<lambda>tx. [])\<rparr>"

theorem plan_references_resolve_witness:
  "\<exists>tx. build_plan plain_libm [''0xabc'' \<mapsto> flash_pool] Map.empty demo_request (SlippageBps 50)
      [(\<lparr>hops = [flash_hop]\<rparr>, 1000000, 990000)] = Ok tx \<and>
     only_external (apply_commands demo_sdk Map.empty (tx_commands tx) (0, []))"
proof -
  obtain tx where tx: "build_plan plain_libm [''0xabc'' \<mapsto> flash_pool] Map.empty demo_request (SlippageBps 50)
      [(\<lparr>hops = [flash_hop]\<rparr>, 1000000, 990000)] = Ok tx"
    using demo_plan by blast
  have "sdk_ok demo_sdk" by (simp add: sdk_ok_def demo_sdk_def)
  from plan_references_resolve [OF tx _ _ this] have
    "only_external (apply_commands demo_sdk Map.empty (tx_commands tx) (0, []))" by simp
  with tx show ?thesis by blast
qed

subsection \<open>The whole handler\<close>











definition no_panic :: "('a, 'e) outcome \<Rightarrow> bool" where
  "no_panic r \<longleftrightarrow> (\<forall>msg. r \<noteq> Panic msg)"

lemma no_panic_simps [simp]: "no_panic (Ok x)" "no_panic (Err e)" "\<not> no_panic (Panic msg)"
  by (simp_all add: no_panic_def)

lemma no_panic_ok_or [simp]: "no_panic (ok_or x e)"
  by (cases x) simp_all

lemma no_panic_map_err [simp]: "no_panic (map_err f r) \<longleftrightarrow> no_panic r"
  by (cases r) simp_all


lemma no_panic_external: "only_external r \<Longrightarrow> no_panic r"
  by (cases r) auto





lemma no_panic_parsers [simp]:
  "no_panic (parse_address s v)" "no_panic (parse_digest s v)" "no_panic (parse_identifier s v)" "no_panic (parse_type_tag s v)"
  by (simp_all add: no_panic_external)






















end
