(* ===== verification/Services.thy ===== *)
theory Services
  imports Models
begin

text \<open>
  What the program's components share of the services they call: the faults of a remote command, SQL
  transactions as lists of statements, serialisation as a codec, and the contract of a keyed store.

  A remote command may be refused (no effect) or its reply may be lost after it took effect; the caller sees
  an error in both cases.
\<close>

datatype fault = NoFault | Refused string | LostReply string

definition exec_stmt :: "fault \<Rightarrow> ('s, string) outcome \<Rightarrow> 's \<Rightarrow> (unit, string) outcome \<times> 's" where
  "exec_stmt fa effect s =
     (case fa of
        Refused e \<Rightarrow> (Err e, s)
      | NoFault \<Rightarrow> (case effect of Ok s' \<Rightarrow> (Ok (), s') | Err e \<Rightarrow> (Err e, s) | Panic m \<Rightarrow> (Panic m, s))
      | LostReply e \<Rightarrow> (Err e, case effect of Ok s' \<Rightarrow> s' | _ \<Rightarrow> s))"

definition read_stmt :: "fault \<Rightarrow> ('a, string) outcome \<Rightarrow> ('a, string) outcome" where
  "read_stmt fa r = (case fa of NoFault \<Rightarrow> r | Refused e \<Rightarrow> Err e | LostReply e \<Rightarrow> Err e)"

lemma exec_stmt_NoFault [simp]: "exec_stmt NoFault (Ok s') s = (Ok (), s')"
  by (simp add: exec_stmt_def)

lemma read_stmt_NoFault [simp]: "read_stmt NoFault r = r"
  by (simp add: read_stmt_def)

lemma exec_stmt_cases:
  "exec_stmt fa effect s = (r, s') \<Longrightarrow> s' = s \<or> effect = Ok s'"
  "exec_stmt fa effect s = (Ok u, s') \<Longrightarrow> fa = NoFault \<and> effect = Ok s'"
  by (auto simp: exec_stmt_def split: fault.splits outcome.splits)

subsection \<open>Transactions\<close>

text \<open>
  The statements of an open transaction run one after the other; a failing one aborts it.  Statement \<open>0\<close> of a
  call is \<open>begin\<close>, the last one \<open>commit\<close>.  Dropping an uncommitted transaction rolls it back.
\<close>

fun run_stmts :: "(nat \<Rightarrow> fault) \<Rightarrow> nat \<Rightarrow> ('s \<Rightarrow> ('s, string) outcome) list \<Rightarrow> 's \<Rightarrow> ('s, string) outcome" where
  "run_stmts fa i [] s = Ok s"
| "run_stmts fa i (st # sts) s =
     bind_outcome (read_stmt (fa i) (st s)) (run_stmts fa (Suc i) sts)"

definition transaction ::
  "(nat \<Rightarrow> fault) \<Rightarrow> ('s \<Rightarrow> ('s, string) outcome) list \<Rightarrow> 's \<Rightarrow> (unit, string) outcome \<times> 's" where
  "transaction fa sts s =
     (case bind_outcome (read_stmt (fa 0) (Ok ())) (\<lambda>_. run_stmts fa 1 sts s) of
        Ok s' \<Rightarrow> exec_stmt (fa (Suc (length sts))) (Ok s') s
      | Err e \<Rightarrow> (Err e, s)
      | Panic m \<Rightarrow> (Panic m, s))"

text \<open>The effect of all statements without faults of the connection.\<close>

fun all_stmts :: "('s \<Rightarrow> ('s, string) outcome) list \<Rightarrow> 's \<Rightarrow> ('s, string) outcome" where
  "all_stmts [] s = Ok s"
| "all_stmts (st # sts) s = bind_outcome (st s) (all_stmts sts)"

lemma run_stmts_no_fault: "run_stmts (\<lambda>_. NoFault) i sts = all_stmts sts"
proof (induction sts arbitrary: i)
  case (Cons st sts)
  show ?case by (rule ext) (simp add: Cons.IH)
qed (simp add: fun_eq_iff)

lemma all_stmts_append: "all_stmts (xs @ ys) s = bind_outcome (all_stmts xs s) (all_stmts ys)"
proof (induction xs arbitrary: s)
  case (Cons x xs)
  show ?case by (cases "x s") (simp_all add: Cons.IH)
qed simp

lemma run_stmts_Ok: "run_stmts fa i sts s = Ok s' \<Longrightarrow> all_stmts sts s = Ok s'"
  by (induction sts arbitrary: i s) (auto simp: outcome_simps read_stmt_def split: fault.splits)

text \<open>A transaction leaves the database as it was or with the effect of all its statements; success means the latter.\<close>

lemma transaction_atomic:
  assumes "transaction fa sts s = (r, s')"
  shows "s' = s \<or> all_stmts sts s = Ok s'" and "r = Ok u \<Longrightarrow> all_stmts sts s = Ok s'"
  using assms by (auto simp: transaction_def read_stmt_def split: outcome.splits fault.splits
      dest: exec_stmt_cases run_stmts_Ok)

lemma transaction_no_fault:
  "transaction (\<lambda>_. NoFault) sts s =
     (case all_stmts sts s of Ok s' \<Rightarrow> (Ok (), s') | Err e \<Rightarrow> (Err e, s) | Panic m \<Rightarrow> (Panic m, s))"
  by (simp add: transaction_def run_stmts_no_fault split: outcome.splits)

text \<open>A loop that runs one statement per list element, each of them total on accepted elements.\<close>

lemma all_stmts_map_Ok:
  assumes "\<And>x s. x \<in> set xs \<Longrightarrow> f x s = Ok (g x s)"
  shows "all_stmts (map f xs) s = Ok (fold g xs s)"
  using assms by (induction xs arbitrary: s) simp_all

subsection \<open>Keyed stores\<close>

text \<open>
  Every table and cache family of the program is written by key and read back by key.  \<open>norm\<close> is the value
  as the storage format gives it back, \<open>accepts\<close> whether the format holds the value at all, \<open>inv\<close> what the
  store relies on.
\<close>

locale keyed_store =
  fixes inv :: "'s \<Rightarrow> bool"
    and put :: "'v \<Rightarrow> 's \<Rightarrow> 's"
    and look :: "'s \<Rightarrow> 'k \<Rightarrow> 'w option"
    and key :: "'v \<Rightarrow> 'k"
    and norm :: "'v \<Rightarrow> 'w"
    and accepts :: "'v \<Rightarrow> bool"
  assumes look_put: "accepts v \<Longrightarrow> inv s \<Longrightarrow> look (put v s) (key v) = Some (norm v)"
    and look_put_other: "k \<noteq> key v \<Longrightarrow> inv s \<Longrightarrow> look (put v s) k = look s k"
    and inv_put: "inv s \<Longrightarrow> inv (put v s)"
begin

lemma look_put_if: "accepts v \<Longrightarrow> inv s \<Longrightarrow> look (put v s) k = (if k = key v then Some (norm v) else look s k)"
  by (simp add: look_put look_put_other)

lemma inv_fold: "inv s \<Longrightarrow> inv (fold put vs s)"
  by (induction vs arbitrary: s) (simp_all add: inv_put)

lemma look_fold:
  "list_all accepts vs \<Longrightarrow> inv s \<Longrightarrow>
   look (fold put vs s) k =
     (case filter (\<lambda>v. key v = k) vs of [] \<Rightarrow> look s k | w # ws \<Rightarrow> Some (norm (last (w # ws))))"
proof (induction vs rule: rev_induct)
  case (snoc v vs)
  then show ?case by (auto simp: look_put_if inv_fold split: list.splits)
qed simp

lemma put_put: "accepts v \<Longrightarrow> inv s \<Longrightarrow> look (put v (put v s)) = look (put v s)"
  by (rule ext) (simp add: look_put_if inv_put)

end

end
