(* ===== verification/Websocket.thy ===== *)
theory Websocket
  imports Services
begin

text \<open>
  The live-update socket of \<open>src/api/websocket.rs\<close>.  \<open>handle_socket\<close> selects between client frames and the broadcast
  channel; its loop body is a function of the next event and of whether the frame it sends is accepted.  Parsing a
  client message and serialising a server message are \<open>serde_json\<close>, the parameter \<open>ws_env\<close>.
\<close>

record client_message =
  action :: string
  cm_pool_id :: string

record server_message =
  message_type :: string
  sm_pool_id :: "string option"
  sm_state :: "pool_state option"
  sm_message :: "string option"

definition msg_subscribed :: "string \<Rightarrow> server_message" where
  "msg_subscribed pid = \<lparr>message_type = ''subscribed'', sm_pool_id = Some pid, sm_state = None, sm_message = None\<rparr>"

definition msg_unsubscribed :: "string \<Rightarrow> server_message" where
  "msg_unsubscribed pid = \<lparr>message_type = ''unsubscribed'', sm_pool_id = Some pid, sm_state = None, sm_message = None\<rparr>"

definition msg_pool_update :: "pool_state \<Rightarrow> server_message" where
  "msg_pool_update p = \<lparr>message_type = ''pool_update'', sm_pool_id = None, sm_state = Some p, sm_message = None\<rparr>"

definition msg_error :: "string \<Rightarrow> server_message" where
  "msg_error m = \<lparr>message_type = ''error'', sm_pool_id = None, sm_state = None, sm_message = Some m\<rparr>"

record ws_env =
  parse_client :: "string \<Rightarrow> (client_message, string) outcome"
  serializes :: "server_message \<Rightarrow> bool"

datatype ws_event =
    Text string
  | OtherFrame
  | Close
  | StreamEnd
  | StreamError
  | Update pool_state
  | Lagged
  | ChannelClosed

record socket =
  subscriptions :: "string set"
  sent :: "server_message list"
  running :: bool

definition socket_init :: socket where
  "socket_init = \<lparr>subscriptions = {}, sent = [], running = True\<rparr>"

text \<open>\<open>accepted\<close> says whether \<open>sender.send\<close> succeeds; a reply's failure is ignored.\<close>

definition reply :: "ws_env \<Rightarrow> bool \<Rightarrow> server_message \<Rightarrow> socket \<Rightarrow> socket" where
  "reply env accepted m s = (if serializes env m \<and> accepted then s\<lparr>sent := sent s @ [m]\<rparr> else s)"

definition handle_text :: "ws_env \<Rightarrow> bool \<Rightarrow> string \<Rightarrow> socket \<Rightarrow> socket" where
  "handle_text env accepted text s =
     (case parse_client env text of
        Ok msg \<Rightarrow>
          if action msg = ''subscribe'' then
            reply env accepted (msg_subscribed (cm_pool_id msg)) (s\<lparr>subscriptions := insert (cm_pool_id msg) (subscriptions s)\<rparr>)
          else if action msg = ''unsubscribe'' then
            reply env accepted (msg_unsubscribed (cm_pool_id msg)) (s\<lparr>subscriptions := subscriptions s - {cm_pool_id msg}\<rparr>)
          else reply env accepted (msg_error (''Unknown action: '' @ action msg)) s
      | Err e \<Rightarrow> reply env accepted (msg_error (''Invalid message format: '' @ e)) s
      | Panic m \<Rightarrow> s)"

definition handle_update :: "ws_env \<Rightarrow> bool \<Rightarrow> pool_state \<Rightarrow> socket \<Rightarrow> socket" where
  "handle_update env accepted p s =
     (if pool_id p \<in> subscriptions s then
        (if serializes env (msg_pool_update p) then
           (if accepted then s\<lparr>sent := sent s @ [msg_pool_update p]\<rparr> else s\<lparr>running := False\<rparr>)
         else s)
      else s)"

fun socket_event :: "ws_env \<Rightarrow> bool \<times> ws_event \<Rightarrow> socket \<Rightarrow> socket" where
  "socket_event env (accepted, Text t) s = handle_text env accepted t s"
| "socket_event env (accepted, OtherFrame) s = s"
| "socket_event env (accepted, Close) s = s\<lparr>running := False\<rparr>"
| "socket_event env (accepted, StreamEnd) s = s\<lparr>running := False\<rparr>"
| "socket_event env (accepted, StreamError) s = s\<lparr>running := False\<rparr>"
| "socket_event env (accepted, Update p) s = handle_update env accepted p s"
| "socket_event env (accepted, Lagged) s = s"
| "socket_event env (accepted, ChannelClosed) s = s\<lparr>running := False\<rparr>"

text \<open>\<open>handle_socket\<close> as a transition system: \<open>select!\<close> may deliver any event while the loop runs.\<close>

inductive socket_run :: "ws_env \<Rightarrow> (bool \<times> ws_event) list \<Rightarrow> socket \<Rightarrow> bool" for env where
  start: "socket_run env [] socket_init"
| step: "socket_run env evs s \<Longrightarrow> running s \<Longrightarrow> socket_run env (evs @ [ev]) (socket_event env ev s)"

inductive_cases socket_run_snocE: "socket_run env (evs @ [ev]) s"

subsection \<open>Specification: a client gets the updates it asked for\<close>

text \<open>The last request of the client about a pool, over a history of events.\<close>

definition asks :: "ws_env \<Rightarrow> string \<Rightarrow> bool \<times> ws_event \<Rightarrow> bool \<Rightarrow> bool" where
  "asks env pid ev b =
     (case snd ev of
        Text t \<Rightarrow>
          (case parse_client env t of
             Ok msg \<Rightarrow>
               if cm_pool_id msg = pid \<and> action msg = ''subscribe'' then True
               else if cm_pool_id msg = pid \<and> action msg = ''unsubscribe'' then False else b
           | _ \<Rightarrow> b)
      | _ \<Rightarrow> b)"

definition wants :: "ws_env \<Rightarrow> (bool \<times> ws_event) list \<Rightarrow> string \<Rightarrow> bool" where
  "wants env evs pid = fold (asks env pid) evs False"

definition due :: "ws_env \<Rightarrow> (bool \<times> ws_event) list \<Rightarrow> bool \<times> ws_event \<Rightarrow> pool_state list" where
  "due env evs ev = (case ev of (True, Update p) \<Rightarrow> if wants env evs (pool_id p) then [p] else [] | _ \<Rightarrow> [])"

fun due_updates :: "ws_env \<Rightarrow> (bool \<times> ws_event) list \<Rightarrow> (bool \<times> ws_event) list \<Rightarrow> pool_state list" where
  "due_updates env past [] = []"
| "due_updates env past (ev # evs) = due env past ev @ due_updates env (past @ [ev]) evs"

definition updates_sent :: "socket \<Rightarrow> pool_state list" where
  "updates_sent s = List.map_filter sm_state (sent s)"

lemma due_updates_snoc: "due_updates env past (evs @ [ev]) = due_updates env past evs @ due env (past @ evs) ev"
  by (induction evs arbitrary: past) simp_all

lemma msgs_without_state [simp]:
  "sm_state (msg_subscribed pid) = None" "sm_state (msg_unsubscribed pid) = None" "sm_state (msg_error m) = None"
  "sm_state (msg_pool_update p) = Some p"
  by (simp_all add: msg_subscribed_def msg_unsubscribed_def msg_error_def msg_pool_update_def)

lemma updates_sent_frame [simp]:
  "updates_sent (s\<lparr>subscriptions := X\<rparr>) = updates_sent s" "updates_sent (s\<lparr>running := b\<rparr>) = updates_sent s"
  by (simp_all add: updates_sent_def)

lemma reply_frame [simp]:
  "subscriptions (reply env b m s) = subscriptions s" "running (reply env b m s) = running s"
  "sm_state m = None \<Longrightarrow> updates_sent (reply env b m s) = updates_sent s"
  by (simp_all add: reply_def updates_sent_def map_filter_def)

lemma text_step:
  "updates_sent (handle_text env b t s) = updates_sent s"
  "running (handle_text env b t s) = running s"
  "pid \<in> subscriptions (handle_text env b t s) \<longleftrightarrow> asks env pid (b, Text t) (pid \<in> subscriptions s)"
  by (auto simp: handle_text_def asks_def split: outcome.splits)

lemma update_step:
  "subscriptions (handle_update env b p s) = subscriptions s"
  "serializes env (msg_pool_update p) \<Longrightarrow>
   updates_sent (handle_update env b p s) = updates_sent s @ (if b \<and> pool_id p \<in> subscriptions s then [p] else [])"
  by (auto simp: handle_update_def updates_sent_def map_filter_def)

lemma wants_snoc: "wants env (evs @ [ev]) pid = asks env pid ev (wants env evs pid)"
  by (simp add: wants_def)

lemma socket_run_inv:
  assumes "socket_run env evs s" and ser: "\<And>m. serializes env m"
  shows "(\<forall>pid. pid \<in> subscriptions s \<longleftrightarrow> wants env evs pid) \<and> updates_sent s = due_updates env [] evs"
  using assms(1)
proof induction
  case start
  then show ?case by (simp add: socket_init_def wants_def updates_sent_def map_filter_def)
next
  case (step evs s ev)
  obtain b e where ev: "ev = (b, e)" by fastforce
  show ?case
  proof (cases e)
    case (Text t)
    then show ?thesis
      using step.IH by (simp add: ev wants_snoc due_updates_snoc text_step due_def split: bool.split)
  next
    case (Update p)
    then show ?thesis
      using step.IH ser
      by (simp add: ev wants_snoc due_updates_snoc update_step due_def asks_def split: bool.split)
  qed (use step.IH in \<open>auto simp: ev wants_snoc due_updates_snoc due_def asks_def split: bool.split\<close>)
qed

text \<open>
  C19.  In every run of the socket, whatever the interleaving of client frames and broadcasts, the subscription set is
  exactly the pools whose last request was a subscription, and the updates sent are exactly the accepted broadcasts of
  pools subscribed at that moment, in order.
\<close>

theorem socket_sends_subscribed_updates:
  assumes "socket_run env evs s" and "\<And>m. serializes env m"
  shows "(\<forall>pid. pid \<in> subscriptions s \<longleftrightarrow> wants env evs pid) \<and> updates_sent s = due_updates env [] evs"
  using socket_run_inv assms by blast

text \<open>
  Once the client closes, its stream ends or fails, the channel closes, or an update cannot be delivered, the
  loop is over: the socket takes no further event, so nothing is sent afterwards.
\<close>

theorem socket_stops:
  assumes "socket_run env (evs @ [ev]) s"
    and "snd ev \<in> {Close, StreamEnd, StreamError, ChannelClosed} \<or>
      (\<exists>p. ev = (False, Update p) \<and> wants env evs (pool_id p))"
    and "\<And>m. serializes env m"
  shows "\<not> running s \<and> (\<nexists>s' more. more \<noteq> [] \<and> socket_run env (evs @ [ev] @ more) s')"
proof -
  obtain s0 where s0: "socket_run env evs s0" "s = socket_event env ev s0"
    using assms(1) by (rule socket_run_snocE) auto
  have stop: "\<not> running (socket_event env ev t)" if "socket_run env evs t" for t
    using assms(2) socket_run_inv [OF that assms(3)] assms(3)
    by (cases ev; cases "snd ev") (auto simp: handle_update_def)
  have none: "\<not> socket_run env (evs @ [ev] @ more) s'" if "more \<noteq> []" for more s'
    using that
  proof (induction more arbitrary: s' rule: rev_induct)
    case (snoc x xs)
    show ?case
    proof
      assume "socket_run env (evs @ [ev] @ xs @ [x]) s'"
      then have "socket_run env ((evs @ [ev] @ xs) @ [x]) s'" by simp
      then obtain t where t: "socket_run env (evs @ [ev] @ xs) t" "running t" by (rule socket_run_snocE) auto
      show False
      proof (cases "xs = []")
        case True
        then have "socket_run env (evs @ [ev]) t" using t by simp
        then obtain t0 where "socket_run env evs t0" "t = socket_event env ev t0" by (rule socket_run_snocE) auto
        then show False using stop t(2) by simp
      qed (use snoc.IH t in auto)
    qed
  qed simp
  show ?thesis using none stop [OF s0(1)] s0(2) by blast
qed

definition demo_ws :: ws_env where
  "demo_ws = \<lparr>parse_client = (\<lambda>t. if t = ''sub'' then Ok \<lparr>action = ''subscribe'', cm_pool_id = ''0xp''\<rparr> else Err ''text''),
     serializes = (\<lambda>_. True)\<rparr>"

definition ws_pool :: pool_state where
  "ws_pool = \<lparr>pool_id = ''0xp'', dex_name = ''Cetus'', coin_type_a = ''A'', coin_type_b = ''B'',
     sqrt_price = 1, liquidity = 2, fee_rate = 3, is_paused = False\<rparr>"

lemma demo_ws_run:
  "socket_run demo_ws [(True, Text ''sub''), (True, Update ws_pool)]
     (socket_event demo_ws (True, Update ws_pool) (socket_event demo_ws (True, Text ''sub'') socket_init))"
proof -
  have 1: "socket_run demo_ws [(True, Text ''sub'')] (socket_event demo_ws (True, Text ''sub'') socket_init)"
    using socket_run.step [OF socket_run.start, of demo_ws "(True, Text ''sub'')"] by (simp add: socket_init_def)
  show ?thesis
    using socket_run.step [OF 1, of "(True, Update ws_pool)"] by (simp add: text_step socket_init_def)
qed

theorem socket_sends_subscribed_updates_witness:
  "updates_sent (socket_event demo_ws (True, Update ws_pool) (socket_event demo_ws (True, Text ''sub'') socket_init)) =
     [ws_pool]"
  using socket_sends_subscribed_updates [OF demo_ws_run]
  by (simp add: demo_ws_def due_def wants_def asks_def ws_pool_def)

theorem socket_stops_witness:
  "\<not> running (socket_event demo_ws (True, Close) socket_init)"
proof -
  have r: "socket_run demo_ws ([] @ [(True, Close)]) (socket_event demo_ws (True, Close) socket_init)"
    using socket_run.step [OF socket_run.start, of demo_ws "(True, Close)"] by (simp add: socket_init_def)
  show ?thesis using socket_stops [OF r] by (simp add: demo_ws_def)
qed

end
