(* ===== verification/Progress.thy ===== *)
theory Progress
  imports Services Registry
begin

text \<open>The discovery checkpoints, failures and page commits of \<open>src/discovery/progress.rs\<close>.\<close>

datatype discovery_source = ObjectBootstrap | EventIncremental

fun source_as_str :: "discovery_source \<Rightarrow> string" where
  "source_as_str ObjectBootstrap = ''object_bootstrap''"
| "source_as_str EventIncremental = ''event_incremental''"

record pool_discovery_progress =
  dp_dex_name :: string
  source_key :: string
  discovery_source :: discovery_source
  last_checkpoint :: "u64 option"
  page_cursor :: "string option"
  backfill_complete :: bool
  bootstrap_complete :: bool
  retention_limited :: bool
  generation :: u64
  pools_discovered :: u64

record pool_discovery_failure =
  df_dex_name :: string
  event_id :: string
  df_pool_id :: "string option"
  reason :: string
  attempts :: u32

definition new_object_bootstrap :: "string \<Rightarrow> pool_discovery_progress" where
  "new_object_bootstrap dex =
     \<lparr>dp_dex_name = dex, source_key = OBJECT_BOOTSTRAP_SOURCE_KEY, discovery_source = ObjectBootstrap,
      last_checkpoint = None, page_cursor = None, backfill_complete = False, bootstrap_complete = False,
      retention_limited = False, generation = 0, pools_discovered = 0\<rparr>"

definition new_event_incremental :: "string \<Rightarrow> string \<Rightarrow> pool_discovery_progress" where
  "new_event_incremental dex event_type =
     \<lparr>dp_dex_name = dex, source_key = event_type, discovery_source = EventIncremental,
      last_checkpoint = None, page_cursor = None, backfill_complete = False, bootstrap_complete = False,
      retention_limited = False, generation = 0, pools_discovered = 0\<rparr>"

record discovery_page_commit =
  dc_progress :: pool_discovery_progress
  dc_pools :: "pool_state list"
  dc_tokens :: "token list"
  dc_failures :: "pool_discovery_failure list"
  resolved_failure_ids :: "string list"

definition commit_default :: discovery_page_commit where
  "commit_default =
     \<lparr>dc_progress = new_object_bootstrap ''unknown'', dc_pools = [], dc_tokens = [], dc_failures = [],
      resolved_failure_ids = []\<rparr>"

end
