(* ===== verification/Metrics.thy ===== *)
theory Metrics
  imports Quote_Api Progress
begin

text \<open>
  The Prometheus metrics of \<open>src/api/metrics.rs\<close> and \<open>handle_quote\<close> of \<open>src/api/quote.rs\<close>, which records them.

  The registry is the \<open>prometheus\<close> crate's: the record \<open>prometheus\<close> has its operations as parameters, and
  \<open>prometheus_ok\<close> is their documented behaviour.  A child of a family exists from its first use and starts at zero;
  \<open>None\<close> is a child that does not exist yet.  Counters are \<open>u64\<close> and wrap.
\<close>

subsection \<open>The registry\<close>

record 'r prometheus =
  counter_value :: "'r \<Rightarrow> string \<Rightarrow> string list \<Rightarrow> u64 option"
  gauge_value :: "'r \<Rightarrow> string \<Rightarrow> string list \<Rightarrow> int option"
  sample_count :: "'r \<Rightarrow> string \<Rightarrow> u64"
  counter_child :: "string \<Rightarrow> string list \<Rightarrow> 'r \<Rightarrow> 'r"
  counter_inc :: "string \<Rightarrow> string list \<Rightarrow> 'r \<Rightarrow> 'r"
  gauge_set :: "string \<Rightarrow> string list \<Rightarrow> int \<Rightarrow> 'r \<Rightarrow> 'r"
  hist_observe :: "string \<Rightarrow> f64 \<Rightarrow> 'r \<Rightarrow> 'r"
  encode_text :: "'r \<Rightarrow> (string, string) outcome"

definition counters_ok :: "'r prometheus \<Rightarrow> bool" where
  "counters_ok P \<longleftrightarrow>
     (\<forall>f l r f' l'. counter_value P (counter_child P f l r) f' l' =
        (if f' = f \<and> l' = l then Some (unwrap_or (counter_value P r f l) 0) else counter_value P r f' l')) \<and>
     (\<forall>f l r f' l'. counter_value P (counter_inc P f l r) f' l' =
        (if f' = f \<and> l' = l then Some (unwrap_or (counter_value P r f l) 0 + 1) else counter_value P r f' l')) \<and>
     (\<forall>f l v r. counter_value P (gauge_set P f l v r) = counter_value P r) \<and>
     (\<forall>f x r. counter_value P (hist_observe P f x r) = counter_value P r)"

definition gauges_ok :: "'r prometheus \<Rightarrow> bool" where
  "gauges_ok P \<longleftrightarrow>
     (\<forall>f l v r f' l'. gauge_value P (gauge_set P f l v r) f' l' =
        (if f' = f \<and> l' = l then Some v else gauge_value P r f' l')) \<and>
     (\<forall>f l r. gauge_value P (counter_child P f l r) = gauge_value P r) \<and>
     (\<forall>f l r. gauge_value P (counter_inc P f l r) = gauge_value P r) \<and>
     (\<forall>f x r. gauge_value P (hist_observe P f x r) = gauge_value P r)"

definition histograms_ok :: "'r prometheus \<Rightarrow> bool" where
  "histograms_ok P \<longleftrightarrow>
     (\<forall>f x r f'. sample_count P (hist_observe P f x r) f' = sample_count P r f' + (if f' = f then 1 else 0)) \<and>
     (\<forall>f l r. sample_count P (counter_child P f l r) = sample_count P r) \<and>
     (\<forall>f l r. sample_count P (counter_inc P f l r) = sample_count P r) \<and>
     (\<forall>f l v r. sample_count P (gauge_set P f l v r) = sample_count P r)"

definition prometheus_ok :: "'r prometheus \<Rightarrow> bool" where
  "prometheus_ok P \<longleftrightarrow> counters_ok P \<and> gauges_ok P \<and> histograms_ok P"

subsection \<open>Recording\<close>

fun source_label :: "discovery_source \<Rightarrow> string" where
  "source_label ObjectBootstrap = ''object''"
| "source_label EventIncremental = ''event''"

text \<open>A latency is given as \<open>as_secs_f64\<close> of the elapsed time.\<close>

definition record_quote_ok :: "'r prometheus \<Rightarrow> f64 \<Rightarrow> int \<Rightarrow> 'r \<Rightarrow> 'r" where
  "record_quote_ok P latency active_pool_count r =
     gauge_set P ''active_pools_count'' [] active_pool_count
       (hist_observe P ''quote_latency_seconds'' latency (counter_inc P ''quote_requests_total'' [''ok''] r))"

definition record_quote_error :: "'r prometheus \<Rightarrow> f64 \<Rightarrow> 'r \<Rightarrow> 'r" where
  "record_quote_error P latency r =
     hist_observe P ''quote_latency_seconds'' latency (counter_inc P ''quote_requests_total'' [''error''] r)"

definition record_dlq_push :: "'r prometheus \<Rightarrow> 'r \<Rightarrow> 'r" where
  "record_dlq_push P = counter_inc P ''dlq_pushed_total'' []"

definition record_discovery_pool :: "'r prometheus \<Rightarrow> string \<Rightarrow> discovery_source \<Rightarrow> 'r \<Rightarrow> 'r" where
  "record_discovery_pool P dex source = counter_inc P ''discovery_pools_discovered_total'' [dex, source_label source]"

definition record_discovery_event_scanned :: "'r prometheus \<Rightarrow> string \<Rightarrow> 'r \<Rightarrow> 'r" where
  "record_discovery_event_scanned P dex = counter_inc P ''discovery_events_scanned_total'' [dex]"

definition record_discovery_object_scanned :: "'r prometheus \<Rightarrow> string \<Rightarrow> 'r \<Rightarrow> 'r" where
  "record_discovery_object_scanned P dex = counter_inc P ''discovery_objects_scanned_total'' [dex]"

definition record_discovery_page_scanned :: "'r prometheus \<Rightarrow> string \<Rightarrow> discovery_source \<Rightarrow> 'r \<Rightarrow> 'r" where
  "record_discovery_page_scanned P dex source = counter_inc P ''discovery_pages_scanned_total'' [dex, source_label source]"

definition record_discovery_failure :: "'r prometheus \<Rightarrow> string \<Rightarrow> string \<Rightarrow> 'r \<Rightarrow> 'r" where
  "record_discovery_failure P dex kind = counter_inc P ''discovery_scan_failures_total'' [dex, kind]"

definition set_discovery_checkpoint :: "'r prometheus \<Rightarrow> string \<Rightarrow> int \<Rightarrow> 'r \<Rightarrow> 'r" where
  "set_discovery_checkpoint P dex checkpoint = gauge_set P ''discovery_checkpoint_sequence'' [dex] checkpoint"

definition set_discovery_bootstrap_complete :: "'r prometheus \<Rightarrow> string \<Rightarrow> bool \<Rightarrow> 'r \<Rightarrow> 'r" where
  "set_discovery_bootstrap_complete P dex done_flag = gauge_set P ''discovery_bootstrap_complete'' [dex] (of_bool done_flag)"

definition set_discovery_retention_limited :: "'r prometheus \<Rightarrow> string \<Rightarrow> bool \<Rightarrow> 'r \<Rightarrow> 'r" where
  "set_discovery_retention_limited P dex limited = gauge_set P ''discovery_event_retention_limited'' [dex] (of_bool limited)"

definition set_discovery_unresolved_failures :: "'r prometheus \<Rightarrow> string \<Rightarrow> int \<Rightarrow> 'r \<Rightarrow> 'r" where
  "set_discovery_unresolved_failures P dex n = gauge_set P ''discovery_unresolved_failures'' [dex] n"

subsection \<open>The endpoint\<close>

definition ensure_metrics_registered :: "'r prometheus \<Rightarrow> 'r \<Rightarrow> 'r" where
  "ensure_metrics_registered P r =
     (let r = counter_child P ''quote_requests_total'' [''ok''] r;
          r = counter_child P ''quote_requests_total'' [''error''] r;
          r = hist_observe P ''quote_latency_seconds'' (Fin False 0) r;
          r = gauge_set P ''active_pools_count'' [] (unwrap_or (gauge_value P r ''active_pools_count'' []) 0) r;
          r = counter_child P ''dlq_pushed_total'' [] r;
          r = counter_child P ''discovery_pools_discovered_total'' [''Cetus'', ''object''] r;
          r = counter_child P ''discovery_events_scanned_total'' [''Cetus''] r;
          r = counter_child P ''discovery_objects_scanned_total'' [''Cetus''] r;
          r = counter_child P ''discovery_pages_scanned_total'' [''Cetus'', ''object''] r;
          r = counter_child P ''discovery_scan_failures_total'' [''Cetus'', ''parse''] r;
          r = gauge_set P ''discovery_checkpoint_sequence'' [''Cetus''] 0 r;
          r = gauge_set P ''discovery_bootstrap_complete'' [''Cetus''] 0 r;
          r = gauge_set P ''discovery_event_retention_limited'' [''Cetus''] 0 r
      in gauge_set P ''discovery_unresolved_failures'' [''Cetus''] 0 r)"

text \<open>A registry that cannot be encoded is a panic: the source unwraps.\<close>

definition metrics_body :: "'r prometheus \<Rightarrow> 'r \<Rightarrow> (string, unit) outcome \<times> 'r" where
  "metrics_body P r =
     (let r = ensure_metrics_registered P r
      in (case encode_text P r of Ok body \<Rightarrow> Ok body | Err e \<Rightarrow> Panic e | Panic m \<Rightarrow> Panic m, r))"

definition handle_metrics :: "'r prometheus \<Rightarrow> 'r \<Rightarrow> (string \<times> string, unit) outcome \<times> 'r" where
  "handle_metrics P r =
     (case metrics_body P r of
        (Ok body, r) \<Rightarrow> (Ok (''text/plain; version=0.0.4'', body), r)
      | (Err e, r) \<Rightarrow> (Err e, r)
      | (Panic m, r) \<Rightarrow> (Panic m, r))"

text \<open>The quote endpoint; the number of active pools is cast to \<open>i64\<close>.\<close>

definition handle_quote ::
  "'r prometheus \<Rightarrow> f64 \<Rightarrow> server_env \<Rightarrow> quote_request \<Rightarrow> 'r \<Rightarrow> ((quote_response, http_error) outcome \<times> 'r) option" where
  "handle_quote P elapsed env payload r =
     (case handle_quote_inner env payload of
        None \<Rightarrow> None
      | Some (Ok (response, active_count)) \<Rightarrow>
          Some (Ok response, record_quote_ok P elapsed (sint (word_of_nat active_count :: u64)) r)
      | Some (Err err) \<Rightarrow> Some (Err err, record_quote_error P elapsed r)
      | Some (Panic m) \<Rightarrow> Some (Panic m, r))"

subsection \<open>Histories\<close>

text \<open>Everything the service does to the registry, in the order it happens.\<close>

datatype metric_call =
    Quote_Request f64 server_env quote_request
  | Scrape
  | Dlq_Push
  | Pool_Found string discovery_source
  | Event_Scanned string
  | Object_Scanned string
  | Page_Scanned string discovery_source
  | Scan_Failure string string
  | Checkpoint_At string int
  | Bootstrap_Complete string bool
  | Retention_Limited string bool
  | Unresolved_Failures string int

fun metric_call_step :: "'r prometheus \<Rightarrow> metric_call \<Rightarrow> 'r \<Rightarrow> 'r" where
  "metric_call_step P (Quote_Request x env q) r = (case handle_quote P x env q r of Some (_, r') \<Rightarrow> r' | None \<Rightarrow> r)"
| "metric_call_step P Scrape r = snd (handle_metrics P r)"
| "metric_call_step P Dlq_Push r = record_dlq_push P r"
| "metric_call_step P (Pool_Found d s) r = record_discovery_pool P d s r"
| "metric_call_step P (Event_Scanned d) r = record_discovery_event_scanned P d r"
| "metric_call_step P (Object_Scanned d) r = record_discovery_object_scanned P d r"
| "metric_call_step P (Page_Scanned d s) r = record_discovery_page_scanned P d s r"
| "metric_call_step P (Scan_Failure d k) r = record_discovery_failure P d k r"
| "metric_call_step P (Checkpoint_At d n) r = set_discovery_checkpoint P d n r"
| "metric_call_step P (Bootstrap_Complete d b) r = set_discovery_bootstrap_complete P d b r"
| "metric_call_step P (Retention_Limited d b) r = set_discovery_retention_limited P d b r"
| "metric_call_step P (Unresolved_Failures d n) r = set_discovery_unresolved_failures P d n r"

text \<open>The specification: the counter a call adds one to, and the calls that time a request.\<close>

fun counted :: "metric_call \<Rightarrow> (string \<times> string list) option" where
  "counted (Quote_Request x env q) =
     (case handle_quote_inner env q of
        Some (Ok _) \<Rightarrow> Some (''quote_requests_total'', [''ok''])
      | Some (Err _) \<Rightarrow> Some (''quote_requests_total'', [''error''])
      | _ \<Rightarrow> None)"
| "counted Dlq_Push = Some (''dlq_pushed_total'', [])"
| "counted (Pool_Found d s) = Some (''discovery_pools_discovered_total'', [d, source_label s])"
| "counted (Event_Scanned d) = Some (''discovery_events_scanned_total'', [d])"
| "counted (Object_Scanned d) = Some (''discovery_objects_scanned_total'', [d])"
| "counted (Page_Scanned d s) = Some (''discovery_pages_scanned_total'', [d, source_label s])"
| "counted (Scan_Failure d k) = Some (''discovery_scan_failures_total'', [d, k])"
| "counted _ = None"

fun answered_quote :: "metric_call \<Rightarrow> bool" where
  "answered_quote (Quote_Request x env q) \<longleftrightarrow> (case handle_quote_inner env q of Some (Panic _) \<Rightarrow> False | None \<Rightarrow> False | _ \<Rightarrow> True)"
| "answered_quote _ \<longleftrightarrow> False"

lemmas metric_defs = record_quote_ok_def record_quote_error_def record_dlq_push_def record_discovery_pool_def
  record_discovery_event_scanned_def record_discovery_object_scanned_def record_discovery_page_scanned_def
  record_discovery_failure_def set_discovery_checkpoint_def set_discovery_bootstrap_complete_def
  set_discovery_retention_limited_def set_discovery_unresolved_failures_def

lemma counter_laws:
  assumes "prometheus_ok P"
  shows "unwrap_or (counter_value P (counter_child P f l r) f' l') 0 = unwrap_or (counter_value P r f' l') 0"
    and "unwrap_or (counter_value P (counter_inc P f l r) f' l') 0 =
      unwrap_or (counter_value P r f' l') 0 + (if Some (f, l) = Some (f', l') then 1 else 0)"
    and "counter_value P (gauge_set P f l v r) = counter_value P r"
    and "counter_value P (hist_observe P f x r) = counter_value P r"
  using assms by (auto simp: prometheus_ok_def counters_ok_def unwrap_or_def)

lemma sample_laws:
  assumes "prometheus_ok P"
  shows "sample_count P (hist_observe P f x r) f' = sample_count P r f' + (if f' = f then 1 else 0)"
    and "sample_count P (counter_child P f l r) = sample_count P r"
    and "sample_count P (counter_inc P f l r) = sample_count P r"
    and "sample_count P (gauge_set P f l v r) = sample_count P r"
  using assms by (auto simp: prometheus_ok_def histograms_ok_def)

lemma gauge_laws:
  assumes "prometheus_ok P"
  shows "gauge_value P (gauge_set P f l v r) f' l' = (if f' = f \<and> l' = l then Some v else gauge_value P r f' l')"
    and "gauge_value P (counter_child P f l r) = gauge_value P r"
    and "gauge_value P (counter_inc P f l r) = gauge_value P r"
    and "gauge_value P (hist_observe P f x r) = gauge_value P r"
  using assms by (auto simp: prometheus_ok_def gauges_ok_def)

subsection \<open>What the counters count\<close>

lemma scrape_registry: "snd (handle_metrics P r) = ensure_metrics_registered P r"
  by (simp add: handle_metrics_def metrics_body_def Let_def split: prod.split outcome.split)

lemma scrape_keeps_counters:
  assumes "prometheus_ok P"
  shows "unwrap_or (counter_value P (ensure_metrics_registered P r) f l) 0 = unwrap_or (counter_value P r f l) 0"
  by (simp add: ensure_metrics_registered_def Let_def counter_laws [OF assms])

lemma scrape_adds_sample:
  assumes "prometheus_ok P"
  shows "sample_count P (ensure_metrics_registered P r) ''quote_latency_seconds'' = sample_count P r ''quote_latency_seconds'' + 1"
  by (simp add: ensure_metrics_registered_def Let_def sample_laws [OF assms])

lemma step_counts:
  assumes "prometheus_ok P"
  shows "unwrap_or (counter_value P (metric_call_step P c r) f l) 0 =
    unwrap_or (counter_value P r f l) 0 + (if counted c = Some (f, l) then 1 else 0)"
proof (cases c)
  case (Quote_Request x env q)
  then show ?thesis
    by (auto simp: handle_quote_def metric_defs counter_laws [OF assms] split: option.split outcome.split)
qed (simp_all add: metric_defs counter_laws [OF assms] scrape_registry scrape_keeps_counters [OF assms])

lemma step_samples:
  assumes "prometheus_ok P"
  shows "sample_count P (metric_call_step P c r) ''quote_latency_seconds'' =
    sample_count P r ''quote_latency_seconds'' + (if answered_quote c \<or> c = Scrape then 1 else 0)"
proof (cases c)
  case (Quote_Request x env q)
  then show ?thesis
    by (auto simp: handle_quote_def metric_defs sample_laws [OF assms] split: option.split outcome.split)
qed (simp_all add: metric_defs sample_laws [OF assms] scrape_registry scrape_adds_sample [OF assms])

lemma history_counts:
  assumes "prometheus_ok P"
  shows "unwrap_or (counter_value P (fold (metric_call_step P) cs r) f l) 0 =
    unwrap_or (counter_value P r f l) 0 + of_nat (length (filter (\<lambda>c. counted c = Some (f, l)) cs))"
  by (induction cs arbitrary: r) (simp_all add: step_counts [OF assms])

lemma history_samples:
  assumes "prometheus_ok P"
  shows "sample_count P (fold (metric_call_step P) cs r) ''quote_latency_seconds'' =
    sample_count P r ''quote_latency_seconds'' + of_nat (length (filter (\<lambda>c. answered_quote c \<or> c = Scrape) cs))"
  by (induction cs arbitrary: r) (simp_all add: step_samples [OF assms])

text \<open>
  C35.  Over any history of calls that starts with an empty registry, every counter is the number of calls it is for,
  modulo \<open>2 ^ 64\<close>: a quote request counts under the status of its answer, and one that panics under none.  Scraping
  disturbs no counter, but each scrape adds a sample to the latency histogram, which otherwise has one per answered
  request.
\<close>

theorem metrics_count_calls:
  assumes "prometheus_ok P" "\<forall>f l. counter_value P r f l = None" "sample_count P r ''quote_latency_seconds'' = 0"
  shows "unwrap_or (counter_value P (fold (metric_call_step P) cs r) f l) 0 =
      of_nat (length (filter (\<lambda>c. counted c = Some (f, l)) cs)) \<and>
    sample_count P (fold (metric_call_step P) cs r) ''quote_latency_seconds'' =
      of_nat (length (filter answered_quote cs) + length (filter (\<lambda>c. c = Scrape) cs))"
proof -
  have "length (filter (\<lambda>c. answered_quote c \<or> c = Scrape) cs) = length (filter answered_quote cs) + length (filter (\<lambda>c. c = Scrape) cs)"
    by (induction cs) auto
  then show ?thesis
    using history_counts [OF assms(1), of cs r f l] history_samples [OF assms(1), of cs r] assms(2,3) by (simp add: unwrap_or_def)
qed

text \<open>
  Registering the families before every scrape overwrites the four discovery gauges of Cetus with zero, whatever the
  workers had set, and the zeros are what the scrape reports; the gauges of the other exchanges are left alone.
\<close>

definition discovery_gauges :: "string list" where
  "discovery_gauges = [''discovery_checkpoint_sequence'', ''discovery_bootstrap_complete'',
     ''discovery_event_retention_limited'', ''discovery_unresolved_failures'']"

theorem scrape_zeroes_cetus:
  assumes "prometheus_ok P"
  obtains r' where "snd (handle_metrics P r) = r'"
    "fst (handle_metrics P r) = (case encode_text P r' of
       Ok body \<Rightarrow> Ok (''text/plain; version=0.0.4'', body) | Err e \<Rightarrow> Panic e | Panic m \<Rightarrow> Panic m)"
    "\<And>f. f \<in> set discovery_gauges \<Longrightarrow> gauge_value P r' f [''Cetus''] = Some 0"
    "\<And>f dex. dex \<noteq> ''Cetus'' \<Longrightarrow> gauge_value P r' f [dex] = gauge_value P r f [dex]"
proof
  show "fst (handle_metrics P r) = (case encode_text P (ensure_metrics_registered P r) of
       Ok body \<Rightarrow> Ok (''text/plain; version=0.0.4'', body) | Err e \<Rightarrow> Panic e | Panic m \<Rightarrow> Panic m)"
    by (simp add: handle_metrics_def metrics_body_def Let_def split: outcome.split)
  show "gauge_value P (ensure_metrics_registered P r) f [''Cetus''] = Some 0" if "f \<in> set discovery_gauges" for f
    using that by (auto simp: discovery_gauges_def ensure_metrics_registered_def Let_def gauge_laws [OF assms])
  show "gauge_value P (ensure_metrics_registered P r) f [dex] = gauge_value P r f [dex]" if "dex \<noteq> ''Cetus''" for f dex
    using that by (simp add: ensure_metrics_registered_def Let_def gauge_laws [OF assms])
qed (rule scrape_registry)

subsection \<open>A registry\<close>

record demo_registry =
  dr_counters :: "string \<Rightarrow> string list \<Rightarrow> u64 option"
  dr_gauges :: "string \<Rightarrow> string list \<Rightarrow> int option"
  dr_samples :: "string \<Rightarrow> u64"

definition set_child :: "string \<Rightarrow> string list \<Rightarrow> 'a \<Rightarrow> (string \<Rightarrow> string list \<Rightarrow> 'a option) \<Rightarrow> string \<Rightarrow> string list \<Rightarrow> 'a option" where
  "set_child f l v g = g(f := (g f)(l := Some v))"

definition demo_prometheus :: "demo_registry prometheus" where
  "demo_prometheus =
     \<lparr>counter_value = dr_counters, gauge_value = dr_gauges, sample_count = dr_samples,
      counter_child = \<lambda>f l r. r\<lparr>dr_counters := set_child f l (unwrap_or (dr_counters r f l) 0) (dr_counters r)\<rparr>,
      counter_inc = \<lambda>f l r. r\<lparr>dr_counters := set_child f l (unwrap_or (dr_counters r f l) 0 + 1) (dr_counters r)\<rparr>,
      gauge_set = \<lambda>f l v r. r\<lparr>dr_gauges := set_child f l v (dr_gauges r)\<rparr>,
      hist_observe = \<lambda>f x r. r\<lparr>dr_samples := (dr_samples r)(f := dr_samples r f + 1)\<rparr>,
      encode_text = \<lambda>r. Ok (show_word (dr_samples r ''quote_latency_seconds''))\<rparr>"

definition demo_empty :: demo_registry where
  "demo_empty = \<lparr>dr_counters = \<lambda>f l. None, dr_gauges = \<lambda>f l. None, dr_samples = \<lambda>f. 0\<rparr>"

lemma demo_prometheus_ok: "prometheus_ok demo_prometheus"
  by (simp add: prometheus_ok_def counters_ok_def gauges_ok_def histograms_ok_def demo_prometheus_def set_child_def)

theorem metrics_count_calls_witness:
  "unwrap_or (counter_value demo_prometheus (fold (metric_call_step demo_prometheus) [Dlq_Push, Scrape, Dlq_Push, Scan_Failure ''Cetus'' ''parse''] demo_empty)
      ''dlq_pushed_total'' []) 0 = 2 \<and>
    sample_count demo_prometheus (fold (metric_call_step demo_prometheus) [Dlq_Push, Scrape, Dlq_Push, Scan_Failure ''Cetus'' ''parse''] demo_empty)
      ''quote_latency_seconds'' = 1"
proof -
  have "\<forall>f l. counter_value demo_prometheus demo_empty f l = None" "sample_count demo_prometheus demo_empty ''quote_latency_seconds'' = 0"
    by (simp_all add: demo_prometheus_def demo_empty_def)
  from metrics_count_calls [OF demo_prometheus_ok this, of "[Dlq_Push, Scrape, Dlq_Push, Scan_Failure ''Cetus'' ''parse'']" "''dlq_pushed_total''" "[]"]
  show ?thesis by (simp del: fold_simps)
qed

end
