(* ===== verification/Json.thy ===== *)
theory Json
  imports Services
begin

text \<open>
  JSON values as the program sees them through \<open>serde_json::Value\<close>, the accessors it calls, and the signed-integer
  encodings of \<open>src/sui_int.rs\<close>.  An object is a list of entries in document order; looking up a key of anything but
  an object gives nothing.  Signed 32-bit and 128-bit values are the integers they denote, with the wrap-around of
  the casts written out.
\<close>

subsection \<open>Values\<close>

datatype number = PosInt u64 | NegInt i64 | Float f64

datatype json =
    JNull
  | JBool bool
  | JNum number
  | JStr string
  | JArr "json list"
  | JObj "(string \<times> json) list"

fun jget :: "string \<Rightarrow> json \<Rightarrow> json option" where
  "jget k (JObj kvs) = map_of kvs k"
| "jget k v = None"

fun as_str :: "json \<Rightarrow> string option" where
  "as_str (JStr s) = Some s"
| "as_str v = None"

fun as_u64 :: "json \<Rightarrow> u64 option" where
  "as_u64 (JNum (PosInt n)) = Some n"
| "as_u64 v = None"

fun as_bool :: "json \<Rightarrow> bool option" where
  "as_bool (JBool b) = Some b"
| "as_bool v = None"

fun as_array :: "json \<Rightarrow> json list option" where
  "as_array (JArr vs) = Some vs"
| "as_array v = None"

definition jpath :: "string list \<Rightarrow> json \<Rightarrow> json option" where
  "jpath ks v = fold (\<lambda>k r. Option.bind r (jget k)) ks (Some v)"

definition jstr :: "string \<Rightarrow> json \<Rightarrow> string option" where
  "jstr k v = Option.bind (jget k v) as_str"

lemma jget_size: "jget k v = Some w \<Longrightarrow> size w < size v"
proof (cases v)
  case (JObj kvs)
  moreover assume "jget k v = Some w"
  ultimately have "(k, w) \<in> set kvs" by (simp add: map_of_SomeD)
  then have "size w \<le> size_list (size_prod (\<lambda>_. 0) size) kvs"
    by (induction kvs) auto
  then show ?thesis by (simp add: JObj)
qed simp_all

subsection \<open>Signed integers\<close>

definition wrap_i32 :: "int \<Rightarrow> int" where
  "wrap_i32 x = sint (word_of_int x :: 32 word)"

definition wrap_i128 :: "int \<Rightarrow> int" where
  "wrap_i128 x = sint (word_of_int x :: 128 word)"

definition is_i32 :: "int \<Rightarrow> bool" where
  "is_i32 x \<longleftrightarrow> - (2 ^ 31) \<le> x \<and> x < 2 ^ 31"

definition is_i128 :: "int \<Rightarrow> bool" where
  "is_i128 x \<longleftrightarrow> - (2 ^ 127) \<le> x \<and> x < 2 ^ 127"

lemma wrap_i32_id [simp]: "is_i32 x \<Longrightarrow> wrap_i32 x = x"
  by (simp add: wrap_i32_def is_i32_def signed_of_int signed_take_bit_int_eq_self_iff)

lemma wrap_i128_id [simp]: "is_i128 x \<Longrightarrow> wrap_i128 x = x"
  by (simp add: wrap_i128_def is_i128_def signed_of_int signed_take_bit_int_eq_self_iff)

lemma is_i32_wrap [simp]: "is_i32 (wrap_i32 x)"
  using sint_lt [of "word_of_int x :: 32 word"] sint_ge [of "word_of_int x :: 32 word"]
  by (simp add: wrap_i32_def is_i32_def)

text \<open>The layout of \<open>integer_mate\<close> values: the magnitude above two bits, sign code \<open>0b01\<close>.\<close>

definition decode_sui_i32 :: "u32 \<Rightarrow> int" where
  "decode_sui_i32 bits = (let mag = uint (drop_bit 2 bits) in if take_bit 2 bits = 1 then - mag else mag)"

definition decode_sui_i128 :: "u128 \<Rightarrow> int" where
  "decode_sui_i128 bits = (let mag = uint (drop_bit 2 bits) in if take_bit 2 bits = 1 then - mag else mag)"

definition decode_raw_i32 :: "u32 \<Rightarrow> int" where
  "decode_raw_i32 bits = sint bits"

definition encode_raw_i32 :: "int \<Rightarrow> u32" where
  "encode_raw_i32 val = word_of_int val"

function parse_i32_bits_from_json :: "json \<Rightarrow> u32 option" where
  "parse_i32_bits_from_json val =
     (case as_str val of
        Some s \<Rightarrow> parse_u32 s
      | None \<Rightarrow>
          (case as_u64 val of
             Some n \<Rightarrow> Some (ucast n)
           | None \<Rightarrow>
               (case Option.bind (jget ''fields'' val) (jget ''bits'') of
                  Some bits \<Rightarrow> parse_i32_bits_from_json bits
                | None \<Rightarrow> (case jget ''bits'' val of Some bits \<Rightarrow> parse_i32_bits_from_json bits | None \<Rightarrow> None))))"
  by pat_completeness auto
termination
  by (relation "measure size") (auto simp: bind_eq_Some_conv dest!: jget_size)

function parse_i128_bits_from_json :: "json \<Rightarrow> u128 option" where
  "parse_i128_bits_from_json val =
     (case as_str val of
        Some s \<Rightarrow> parse_u128 s
      | None \<Rightarrow>
          (case Option.bind (jget ''fields'' val) (jget ''bits'') of
             Some bits \<Rightarrow> parse_i128_bits_from_json bits
           | None \<Rightarrow> (case jget ''bits'' val of Some bits \<Rightarrow> parse_i128_bits_from_json bits | None \<Rightarrow> None)))"
  by pat_completeness auto
termination
  by (relation "measure size") (auto simp: bind_eq_Some_conv dest!: jget_size)

declare parse_i32_bits_from_json.simps [simp del] parse_i128_bits_from_json.simps [simp del]

subsection \<open>Encodings\<close>

lemma raw_i32_decode_encode: "is_i32 x \<Longrightarrow> decode_raw_i32 (encode_raw_i32 x) = x"
  using wrap_i32_id by (simp add: decode_raw_i32_def encode_raw_i32_def wrap_i32_def)

lemma raw_i32_encode_decode: "encode_raw_i32 (decode_raw_i32 w) = w"
  by (simp add: decode_raw_i32_def encode_raw_i32_def)

lemma raw_i32_range: "is_i32 (decode_raw_i32 w)"
  using sint_lt [of w] sint_ge [of w] by (simp add: decode_raw_i32_def is_i32_def)

text \<open>The \<open>bits\<close> field of a tick index, as the dynamic-field name of Turbos carries it.\<close>

definition i32_name :: "string \<Rightarrow> int \<Rightarrow> json" where
  "i32_name ty x = JObj [(''type'', JStr ty), (''value'', JObj [(''bits'', JNum (PosInt (ucast (encode_raw_i32 x))))])]"

lemma parse_bits_of_name:
  "Option.bind (jget ''value'' (i32_name ty x)) parse_i32_bits_from_json = Some (encode_raw_i32 x)"
proof -
  have "ucast (ucast (encode_raw_i32 x) :: u64) = encode_raw_i32 x"
    by (rule bit_word_eqI) (simp add: bit_simps)
  then show ?thesis
    by (simp add: i32_name_def parse_i32_bits_from_json.simps)
qed

lemma drop_bit_bound: "uint (drop_bit 2 (w :: 'a::len word)) < 2 ^ (LENGTH('a) - 2)" if "2 < LENGTH('a)"
proof -
  have "unat (drop_bit 2 w) = unat w div 4"
    using unat_drop_bit_eq [of 2 w] drop_bit_eq_div [of 2 "unat w"] by simp
  then have "uint (drop_bit 2 w) = uint w div 4" by (metis of_nat_unat of_nat_numeral zdiv_int)
  moreover have "uint w < 4 * 2 ^ (LENGTH('a) - 2)"
  proof -
    have "(2 :: int) ^ LENGTH('a) = 2 ^ 2 * 2 ^ (LENGTH('a) - 2)" using that by (metis le_add_diff_inverse less_imp_le power_add)
    then show ?thesis using uint_lt2p [of w] by simp
  qed
  ultimately show ?thesis by linarith
qed

text \<open>
  The raw tick encoding is a bijection between the 32-bit words and the range of \<open>i32\<close>, the name sent to the node
  parses back to the index it was built from, and an \<open>integer_mate\<close> value decodes to a magnitude below \<open>2 ^ 30\<close>.
\<close>

theorem tick_encoding_roundtrip:
  assumes "is_i32 x"
  shows "decode_raw_i32 (encode_raw_i32 x) = x \<and> encode_raw_i32 (decode_raw_i32 w) = w \<and> is_i32 (decode_raw_i32 w) \<and>
    map_option decode_raw_i32 (Option.bind (jget ''value'' (i32_name ty x)) parse_i32_bits_from_json) = Some x \<and>
    \<bar>decode_sui_i32 w\<bar> < 2 ^ 30"
  using assms drop_bit_bound [of w]
  by (auto simp: raw_i32_decode_encode raw_i32_encode_decode raw_i32_range parse_bits_of_name decode_sui_i32_def Let_def)

theorem tick_encoding_roundtrip_witness:
  "decode_raw_i32 (encode_raw_i32 (- 443636)) = - 443636"
  using tick_encoding_roundtrip [of "- 443636"] by (simp add: is_i32_def)

end
