(* ===== verification/Sui_Client.thy ===== *)
theory Sui_Client
  imports Json Tx_Builder
begin

text \<open>
  \<open>src/sui_client.rs\<close>: the JSON-RPC and GraphQL client with endpoint fail-over, the parsers of object metadata
  and coins, coin pagination, and the in-memory client of the canonical tests.

  The network is a parameter of type \<open>http\<close>: what a POST of a payload to an endpoint yields.  A request also
  reports the milliseconds it slept between endpoints.  Error texts leave out the debug rendering of the
  reply.  The trait \<open>SuiClientTrait\<close>, as far as the collectors and workers use it, is the record \<open>sui_api\<close>.
\<close>

subsection \<open>The network\<close>

datatype http_reply =
    ConnectionFailed
  | Response (status: nat) (retry_after_header: "string option") (body: "json option")

type_synonym http = "string \<Rightarrow> json \<Rightarrow> http_reply"

record sui_client =
  rpc_urls :: "string list"
  graphql_urls :: "string list"

fun split_on :: "char \<Rightarrow> string \<Rightarrow> string list" where
  "split_on sep [] = [[]]"
| "split_on sep (c # s) =
     (if c = sep then [] # split_on sep s
      else case split_on sep s of [] \<Rightarrow> [[c]] | w # ws \<Rightarrow> (c # w) # ws)"

definition url_list :: "string \<Rightarrow> string list" where
  "url_list s = filter (\<lambda>u. u \<noteq> []) (map trim (split_on (CHR '','') s))"

definition client_new :: "string \<Rightarrow> string \<Rightarrow> sui_client" where
  "client_new rpc_url graphql_url = \<lparr>rpc_urls = url_list rpc_url, graphql_urls = url_list graphql_url\<rparr>"

subsection \<open>Fail-over\<close>

text \<open>
  What one endpoint's reply means: the value under the result key, or the error that becomes \<open>last_error\<close>.
  \<open>kind\<close> is \<open>RPC\<close> or \<open>GraphQL\<close>, \<open>err_key\<close> and \<open>ok_key\<close> the keys of the body.
\<close>

record rpc_kind =
  kind_name :: string
  err_key :: string
  ok_key :: string

definition reply_value :: "rpc_kind \<Rightarrow> string \<Rightarrow> http_reply \<Rightarrow> (json, string) outcome" where
  "reply_value k url reply =
     (case reply of
        ConnectionFailed \<Rightarrow> Err (''Connection failed to '' @ kind_name k @ '' endpoint '' @ url)
      | Response st ra b \<Rightarrow>
          if st = 429 then Err (kind_name k @ '' endpoint '' @ url @ '' rate limited (429)'')
          else if \<not> (200 \<le> st \<and> st < 300) then Err (kind_name k @ '' endpoint '' @ url @ '' failed with status'')
          else case b of
                 None \<Rightarrow> Err (''Failed to parse JSON response from '' @ kind_name k @ '' endpoint '' @ url)
               | Some v \<Rightarrow>
                   (case jget (err_key k) v of
                      Some e \<Rightarrow> Err (kind_name k @ '' endpoint '' @ url @ '' returned '' @ err_key k)
                    | None \<Rightarrow> ok_or (jget (ok_key k) v)
                        (kind_name k @ '' endpoint '' @ url @ '' response missing '' @ ok_key k @ '' field'')))"

text \<open>The milliseconds slept before the next endpoint is tried.\<close>

definition reply_delay :: "nat \<Rightarrow> nat \<Rightarrow> http_reply \<Rightarrow> u64 list" where
  "reply_delay n index reply =
     (case reply of
        ConnectionFailed \<Rightarrow> if index + 1 < n then [100 * of_nat (index + 1)] else []
      | Response st ra b \<Rightarrow>
          if st = 429 then [case Option.bind ra parse_u64 of Some ms \<Rightarrow> ms | None \<Rightarrow> 500] else [])"

fun failover ::
  "rpc_kind \<Rightarrow> http \<Rightarrow> json \<Rightarrow> nat \<Rightarrow> nat \<Rightarrow> string list \<Rightarrow> string option \<Rightarrow> u64 list \<Rightarrow>
   (json, string) outcome \<times> u64 list" where
  "failover k net payload n index [] last_error slept =
     (Err (case last_error of Some e \<Rightarrow> e | None \<Rightarrow> ''All '' @ kind_name k @ '' failover attempts failed''), slept)"
| "failover k net payload n index (url # urls) last_error slept =
     (case reply_value k url (net url payload) of
        Ok v \<Rightarrow> (Ok v, slept)
      | Err e \<Rightarrow> failover k net payload n (index + 1) urls (Some e) (slept @ reply_delay n index (net url payload))
      | Panic m \<Rightarrow> (Panic m, slept))"

definition rpc_call :: "rpc_kind \<Rightarrow> http \<Rightarrow> string list \<Rightarrow> json \<Rightarrow> (json, string) outcome \<times> u64 list" where
  "rpc_call k net urls payload =
     (if urls = [] then (Err (''No Sui '' @ kind_name k @ '' URLs configured''), [])
      else failover k net payload (length urls) 0 urls None [])"

definition json_rpc :: rpc_kind where
  "json_rpc = \<lparr>kind_name = ''RPC'', err_key = ''error'', ok_key = ''result''\<rparr>"

definition graph_ql :: rpc_kind where
  "graph_ql = \<lparr>kind_name = ''GraphQL'', err_key = ''errors'', ok_key = ''data''\<rparr>"

definition post_rpc :: "http \<Rightarrow> sui_client \<Rightarrow> json \<Rightarrow> (json, string) outcome" where
  "post_rpc net c payload = fst (rpc_call json_rpc net (rpc_urls c) payload)"

definition query_graphql_with_variables :: "http \<Rightarrow> sui_client \<Rightarrow> string \<Rightarrow> json \<Rightarrow> (json, string) outcome" where
  "query_graphql_with_variables net c query vars =
     fst (rpc_call graph_ql net (graphql_urls c) (JObj [(''query'', JStr query), (''variables'', vars)]))"

subsection \<open>Requests\<close>

definition rpc_payload :: "string \<Rightarrow> json list \<Rightarrow> json" where
  "rpc_payload method params =
     JObj [(''jsonrpc'', JStr ''2.0''), (''id'', JNum (PosInt 1)), (''method'', JStr method), (''params'', JArr params)]"

definition show_options :: "bool \<Rightarrow> bool \<Rightarrow> json" where
  "show_options content owner =
     JObj [(''showContent'', JBool content), (''showType'', JBool True), (''showOwner'', JBool owner),
       (''showPreviousTransaction'', JBool False), (''showStorageRebate'', JBool False), (''showDisplay'', JBool False)]"

definition opt_str :: "string option \<Rightarrow> json" where
  "opt_str s = (case s of None \<Rightarrow> JNull | Some x \<Rightarrow> JStr x)"

definition page_limit :: "u32 option \<Rightarrow> json" where
  "page_limit limit = JNum (PosInt (ucast (case limit of None \<Rightarrow> 50 | Some n \<Rightarrow> n)))"

definition rpc_get_object :: "http \<Rightarrow> sui_client \<Rightarrow> string \<Rightarrow> (json, string) outcome" where
  "rpc_get_object net c oid = post_rpc net c (rpc_payload ''sui_getObject'' [JStr oid, show_options True False])"

definition rpc_get_reference_gas_price :: "http \<Rightarrow> sui_client \<Rightarrow> (u64, string) outcome" where
  "rpc_get_reference_gas_price net c =
     bind_outcome (post_rpc net c (rpc_payload ''suix_getReferenceGasPrice'' [])) (\<lambda>res.
     bind_outcome (ok_or (as_str res) ''Reference gas price result is not a string'') (\<lambda>s.
       ok_or (parse_u64 s) ''invalid digit found in string''))"

definition rpc_get_coin_metadata :: "http \<Rightarrow> sui_client \<Rightarrow> string \<Rightarrow> (json, string) outcome" where
  "rpc_get_coin_metadata net c coin_type = post_rpc net c (rpc_payload ''suix_getCoinMetadata'' [JStr coin_type])"

definition rpc_get_dynamic_fields ::
  "http \<Rightarrow> sui_client \<Rightarrow> string \<Rightarrow> string option \<Rightarrow> u32 option \<Rightarrow> (json, string) outcome" where
  "rpc_get_dynamic_fields net c parent_id cursor limit =
     post_rpc net c (rpc_payload ''suix_getDynamicFields'' [JStr parent_id, opt_str cursor, page_limit limit])"

definition rpc_get_dynamic_field_object :: "http \<Rightarrow> sui_client \<Rightarrow> string \<Rightarrow> json \<Rightarrow> (json, string) outcome" where
  "rpc_get_dynamic_field_object net c parent_id nm =
     post_rpc net c (rpc_payload ''suix_getDynamicFieldObject'' [JStr parent_id, nm, JObj [(''showContent'', JBool True)]])"

definition rpc_get_normalized_move_modules :: "http \<Rightarrow> sui_client \<Rightarrow> string \<Rightarrow> (json, string) outcome" where
  "rpc_get_normalized_move_modules net c package =
     post_rpc net c (rpc_payload ''sui_getNormalizedMoveModulesByPackage'' [JStr package])"

definition rpc_execute_transaction_block :: "http \<Rightarrow> sui_client \<Rightarrow> string \<Rightarrow> string list \<Rightarrow> (json, string) outcome" where
  "rpc_execute_transaction_block net c tx_bytes signatures =
     post_rpc net c (rpc_payload ''sui_executeTransactionBlock''
       [JStr tx_bytes, JArr (map JStr signatures),
        JObj [(''showInput'', JBool False), (''showRawInput'', JBool False), (''showEffects'', JBool True),
          (''showEvents'', JBool True), (''showObjectChanges'', JBool True), (''showBalanceChanges'', JBool True),
          (''showRawEffects'', JBool False)],
        JStr ''WaitForLocalExecution''])"

subsection \<open>Parsers\<close>

definition parse_u64_flexible :: "json \<Rightarrow> (u64, string) outcome" where
  "parse_u64_flexible v =
     (case as_u64 v of
        Some n \<Rightarrow> Ok n
      | None \<Rightarrow> (case as_str v of
                   Some s \<Rightarrow> ok_or (parse_u64 s) (''invalid u64 string '' @ s)
                 | None \<Rightarrow> Err ''expected u64-compatible value''))"

definition parse_owner :: "string \<Rightarrow> json \<Rightarrow> (owner_kind \<times> u64 option \<times> bool, string) outcome" where
  "parse_owner oid owner =
     (if jget ''AddressOwner'' owner \<noteq> None \<or> jget ''ObjectOwner'' owner \<noteq> None then Ok (Owned, None, False)
      else case jget ''Shared'' owner of
        Some shared \<Rightarrow>
          bind_outcome (ok_or (jget ''initial_shared_version'' shared)
              (''shared object '' @ oid @ '' missing initial_shared_version'')) (\<lambda>v.
          bind_outcome (parse_u64_flexible v) (\<lambda>initial.
            Ok (Shared, Some initial, shared_object_is_mutable oid)))
      | None \<Rightarrow>
          if as_str owner = Some ''Immutable'' \<or> jget ''Immutable'' owner \<noteq> None then Ok (Immutable, None, False)
          else Err (''unsupported owner shape for '' @ oid))"

definition parse_object_meta :: "string \<Rightarrow> json \<Rightarrow> (object_meta, string) outcome" where
  "parse_object_meta oid res =
     bind_outcome (ok_or (jget ''data'' res) (''sui_getObject missing data for '' @ oid)) (\<lambda>data.
     bind_outcome (bind_outcome (ok_or (jget ''version'' data) (''object '' @ oid @ '' missing version'')) parse_u64_flexible) (\<lambda>version.
     bind_outcome (ok_or (jstr ''digest'' data) (''object '' @ oid @ '' missing digest'')) (\<lambda>digest.
     bind_outcome (ok_or (jget ''owner'' data) (''object '' @ oid @ '' missing owner'')) (\<lambda>owner.
     bind_outcome (parse_owner oid owner) (\<lambda>(kind, initial, mutable).
       Ok \<lparr>om_object_id = (case jstr ''objectId'' data of Some i \<Rightarrow> i | None \<Rightarrow> oid),
           om_version = version, om_digest = digest, om_owner_kind = kind,
           initial_shared_version = initial, om_mutable = mutable\<rparr>)))))"

definition parse_resolved_coin :: "json \<Rightarrow> (resolved_coin, string) outcome" where
  "parse_resolved_coin coin =
     bind_outcome (ok_or (jstr ''coinObjectId'' coin) ''coin missing coinObjectId'') (\<lambda>oid.
     bind_outcome (bind_outcome (ok_or (jget ''version'' coin) (''coin '' @ oid @ '' missing version'')) parse_u64_flexible) (\<lambda>version.
     bind_outcome (ok_or (jstr ''digest'' coin) (''coin '' @ oid @ '' missing digest'')) (\<lambda>digest.
     bind_outcome (bind_outcome (ok_or (jget ''balance'' coin) (''coin '' @ oid @ '' missing balance'')) parse_u64_flexible) (\<lambda>balance.
       Ok \<lparr>rc_object_id = oid, rc_version = version, rc_digest = digest, rc_balance = balance,
           rc_coin_type = (case jstr ''coinType'' coin of Some t \<Rightarrow> t | None \<Rightarrow> ''0x2::sui::SUI'')\<rparr>))))"

definition rpc_get_object_meta :: "http \<Rightarrow> sui_client \<Rightarrow> string \<Rightarrow> (object_meta, string) outcome" where
  "rpc_get_object_meta net c oid =
     bind_outcome (post_rpc net c (rpc_payload ''sui_getObject'' [JStr oid, show_options False True])) (parse_object_meta oid)"

subsection \<open>Coins, page by page\<close>

text \<open>
  The loop follows cursors until the node says there is no next page or names no cursor; nothing bounds it, so a
  call that never returns is \<open>None\<close>.
\<close>

definition next_coin_cursor :: "json \<Rightarrow> string option" where
  "next_coin_cursor res =
     (if (case Option.bind (jget ''hasNextPage'' res) as_bool of Some b \<Rightarrow> b | None \<Rightarrow> False)
      then jstr ''nextCursor'' res else None)"

definition coin_page :: "json \<Rightarrow> (resolved_coin list, string) outcome" where
  "coin_page res =
     bind_outcome (ok_or (Option.bind (jget ''data'' res) as_array) ''suix_getCoins missing data array'')
       (try_collect parse_resolved_coin)"

definition coin_request :: "http \<Rightarrow> sui_client \<Rightarrow> string \<Rightarrow> string option \<Rightarrow> u32 option \<Rightarrow> string option \<Rightarrow> (json, string) outcome" where
  "coin_request net c owner coin_type limit cursor =
     post_rpc net c (rpc_payload ''suix_getCoins'' [JStr owner, opt_str coin_type, opt_str cursor, page_limit limit])"

partial_function (option) get_coins_loop ::
  "(string option \<Rightarrow> (json, string) outcome) \<Rightarrow> resolved_coin list \<Rightarrow> string option \<Rightarrow>
   (resolved_coin list, string) outcome option" where
  "get_coins_loop request out cursor =
     (case request cursor of
        Ok res \<Rightarrow>
          (case coin_page res of
             Ok page \<Rightarrow>
               (case next_coin_cursor res of
                  None \<Rightarrow> Some (Ok (out @ page))
                | Some nc \<Rightarrow> get_coins_loop request (out @ page) (Some nc))
           | Err e \<Rightarrow> Some (Err e)
           | Panic m \<Rightarrow> Some (Panic m))
      | Err e \<Rightarrow> Some (Err e)
      | Panic m \<Rightarrow> Some (Panic m))"

definition rpc_get_coins ::
  "http \<Rightarrow> sui_client \<Rightarrow> string \<Rightarrow> string option \<Rightarrow> string option \<Rightarrow> u32 option \<Rightarrow>
   (resolved_coin list, string) outcome option" where
  "rpc_get_coins net c owner coin_type cursor limit =
     get_coins_loop (coin_request net c owner coin_type limit) [] cursor"

subsection \<open>The interface of collectors and workers\<close>

record sui_api =
  api_get_object :: "string \<Rightarrow> (json, string) outcome"
  api_get_dynamic_fields :: "string \<Rightarrow> string option \<Rightarrow> u32 option \<Rightarrow> (json, string) outcome"
  api_get_dynamic_field_object :: "string \<Rightarrow> json \<Rightarrow> (json, string) outcome"
  api_get_coin_metadata :: "string \<Rightarrow> (json, string) outcome"
  api_get_reference_gas_price :: "(u64, string) outcome"
  api_graphql :: "string \<Rightarrow> json \<Rightarrow> (json, string) outcome"

definition rpc_api :: "http \<Rightarrow> sui_client \<Rightarrow> sui_api" where
  "rpc_api net c =
     \<lparr>api_get_object = rpc_get_object net c, api_get_dynamic_fields = rpc_get_dynamic_fields net c,
      api_get_dynamic_field_object = rpc_get_dynamic_field_object net c,
      api_get_coin_metadata = rpc_get_coin_metadata net c,
      api_get_reference_gas_price = rpc_get_reference_gas_price net c,
      api_graphql = query_graphql_with_variables net c\<rparr>"

subsection \<open>The in-memory client\<close>

record in_memory_client =
  im_object_meta :: "string \<rightharpoonup> object_meta"
  im_coins :: "resolved_coin list"
  im_reference_gas_price :: u64

definition im_new :: "u64 \<Rightarrow> in_memory_client" where
  "im_new gas_price = \<lparr>im_object_meta = Map.empty, im_coins = [], im_reference_gas_price = gas_price\<rparr>"

definition im_insert_object_meta :: "object_meta \<Rightarrow> in_memory_client \<Rightarrow> in_memory_client" where
  "im_insert_object_meta meta c = c\<lparr>im_object_meta := (im_object_meta c)(om_object_id meta \<mapsto> meta)\<rparr>"

definition im_insert_coin :: "resolved_coin \<Rightarrow> in_memory_client \<Rightarrow> in_memory_client" where
  "im_insert_coin coin c = c\<lparr>im_coins := im_coins c @ [coin]\<rparr>"

definition im_get_object_meta :: "in_memory_client \<Rightarrow> string \<Rightarrow> (object_meta, string) outcome" where
  "im_get_object_meta c oid = ok_or (im_object_meta c oid) (''in-memory object metadata missing for '' @ oid)"

definition im_get_object :: "in_memory_client \<Rightarrow> string \<Rightarrow> (json, string) outcome" where
  "im_get_object c oid =
     bind_outcome (im_get_object_meta c oid) (\<lambda>meta.
       Ok (JObj [(''data'', JObj [(''objectId'', JStr (om_object_id meta)),
             (''version'', JNum (PosInt (om_version meta))), (''digest'', JStr (om_digest meta))])]))"

definition im_get_coins :: "in_memory_client \<Rightarrow> string option \<Rightarrow> u32 option \<Rightarrow> (resolved_coin list, string) outcome" where
  "im_get_coins c coin_type limit =
     (let coins = filter (\<lambda>coin. case coin_type of None \<Rightarrow> True | Some t \<Rightarrow> rc_coin_type coin = t) (im_coins c)
      in Ok (case limit of None \<Rightarrow> coins | Some n \<Rightarrow> take (unat n) coins))"


subsection \<open>Fail-over takes the first usable answer\<close>

lemma reply_value_no_panic: "reply_value k url reply \<noteq> Panic m"
  by (cases reply) (auto simp: reply_value_def outcome_simps split: option.splits)

definition answers :: "rpc_kind \<Rightarrow> http \<Rightarrow> string list \<Rightarrow> json \<Rightarrow> (json, string) outcome list" where
  "answers k net urls payload = map (\<lambda>u. reply_value k u (net u payload)) urls"

lemma failover_result:
  "fst (failover k net payload n i urls le slept) =
     (case dropWhile (\<lambda>a. \<not> is_ok a) (answers k net urls payload) of
        a # as \<Rightarrow> a
      | [] \<Rightarrow> if urls = [] then Err (case le of Some e \<Rightarrow> e | None \<Rightarrow> ''All '' @ kind_name k @ '' failover attempts failed'')
             else last (answers k net urls payload))"
proof (induction urls arbitrary: i le slept)
  case (Cons u us)
  show ?case
  proof (cases "reply_value k u (net u payload)")
    case (Err e)
    then have step: "fst (failover k net payload n i (u # us) le slept) =
        fst (failover k net payload n (i + 1) us (Some e) (slept @ reply_delay n i (net u payload)))" by simp
    show ?thesis unfolding step Cons.IH using Err by (simp add: answers_def del: dropWhile_eq_Nil_conv split: list.splits)
  qed (simp_all add: answers_def reply_value_no_panic)
qed (simp add: answers_def)

lemma failover_delays:
  "length (snd (failover k net payload n i urls le slept)) \<le> length slept + length urls"
proof (induction urls arbitrary: i le slept)
  case (Cons u us)
  have "length (reply_delay n i (net u payload)) \<le> 1"
    by (simp add: reply_delay_def split: http_reply.splits)
  moreover note Cons.IH [of "i + 1" "Some e" "slept @ reply_delay n i (net u payload)" for e]
  ultimately show ?case
    by (fastforce split: outcome.splits intro: order_trans)
qed simp

text \<open>
  C22.  A request returns the first usable answer in the configured order of endpoints, and when no endpoint gives
  one the error of the last endpoint; it sleeps at most once per endpoint.
\<close>

theorem rpc_call_first_usable:
  "fst (rpc_call k net urls payload) =
     (case dropWhile (\<lambda>a. \<not> is_ok a) (answers k net urls payload) of
        a # as \<Rightarrow> a
      | [] \<Rightarrow> if urls = [] then Err (''No Sui '' @ kind_name k @ '' URLs configured'')
             else last (answers k net urls payload)) \<and>
   length (snd (rpc_call k net urls payload)) \<le> length urls"
  using failover_result failover_delays [of k net payload "length urls" 0 urls None "[]"]
  by (simp add: rpc_call_def answers_def)

subsection \<open>Object metadata is usable by the transaction builder\<close>

lemma parse_owner_Ok:
  "parse_owner oid owner = Ok (kind, initial, mut) \<Longrightarrow>
     (kind = Shared \<longleftrightarrow> initial \<noteq> None) \<and> (mut \<longrightarrow> kind = Shared) \<and> (kind = Shared \<longrightarrow> mut = shared_object_is_mutable oid)"
  by (auto simp: parse_owner_def outcome_simps split: if_splits option.splits)

text \<open>
  Metadata obtained from the node always suits the transaction builder: a shared object carries its initial
  version, so no input is rejected for a missing one, and it is mutable exactly when the registry does not list it as
  read-only; owned and immutable objects are never mutable.
\<close>

theorem object_meta_usable:
  assumes "rpc_get_object_meta net c oid = Ok meta"
  shows "(om_owner_kind meta = Shared \<longleftrightarrow> initial_shared_version meta \<noteq> None) \<and>
    (om_mutable meta \<longleftrightarrow> om_owner_kind meta = Shared \<and> shared_object_is_mutable oid) \<and>
    object_input_from_meta s meta \<noteq> Err (MissingSharedVersion i)"
proof -
  obtain res where "parse_object_meta oid res = Ok meta"
    using assms by (auto simp: rpc_get_object_meta_def outcome_simps)
  then obtain owner where "parse_owner oid owner = Ok (om_owner_kind meta, initial_shared_version meta, om_mutable meta)"
    by (auto simp: parse_object_meta_def outcome_simps)
  from parse_owner_Ok [OF this] show ?thesis
    by (auto simp: object_input_from_meta_def parse_address_def parse_digest_def outcome_simps split: owner_kind.splits option.splits)
qed

subsection \<open>Following the cursors\<close>

text \<open>A finite chain of pages from a cursor on, and the coins on them.\<close>

inductive coin_chain :: "(string option \<Rightarrow> (json, string) outcome) \<Rightarrow> string option \<Rightarrow> resolved_coin list list \<Rightarrow> bool"
  for request where
  last_page: "request cursor = Ok res \<Longrightarrow> coin_page res = Ok page \<Longrightarrow> next_coin_cursor res = None \<Longrightarrow>
    coin_chain request cursor [page]"
| next_page: "request cursor = Ok res \<Longrightarrow> coin_page res = Ok page \<Longrightarrow> next_coin_cursor res = Some nc \<Longrightarrow>
    coin_chain request (Some nc) pages \<Longrightarrow> coin_chain request cursor (page # pages)"

lemma get_coins_loop_chain:
  "coin_chain request cursor pages \<Longrightarrow> get_coins_loop request out cursor = Some (Ok (out @ concat pages))"
proof (induction arbitrary: out rule: coin_chain.induct)
  case (last_page cursor res page)
  then show ?case by (subst get_coins_loop.simps) simp
next
  case (next_page cursor res page nc pages)
  then show ?case by (subst get_coins_loop.simps) simp
qed

text \<open>A set of cursors from which the node always names another cursor of the set.\<close>

definition endless :: "(string option \<Rightarrow> (json, string) outcome) \<Rightarrow> string option set \<Rightarrow> bool" where
  "endless request C \<longleftrightarrow>
     (\<forall>cursor \<in> C. \<exists>res page nc. request cursor = Ok res \<and> coin_page res = Ok page \<and>
        next_coin_cursor res = Some nc \<and> Some nc \<in> C)"

lemmas get_coins_loop_induct =
  get_coins_loop.raw_induct [rotated, consumes 1, case_names step]

lemma endless_no_result:
  assumes "get_coins_loop request out cursor = Some r"
  shows "endless request C \<longrightarrow> cursor \<notin> C"
  using assms
proof (induction rule: get_coins_loop_induct)
  case (step self request out cursor r)
  show ?case
  proof (intro impI notI)
    assume e: "endless request C" and c: "cursor \<in> C"
    then obtain res page nc where "request cursor = Ok res" "coin_page res = Ok page"
      "next_coin_cursor res = Some nc" and nc: "Some nc \<in> C" unfolding endless_def by blast
    with step(2) have "self request (out @ page) (Some nc) = Some r" by simp
    from step(1) [OF this] e nc show False by blast
  qed
qed

lemma get_coins_loop_endless:
  "endless request C \<Longrightarrow> cursor \<in> C \<Longrightarrow> get_coins_loop request out cursor = None"
  using endless_no_result by (cases "get_coins_loop request out cursor") auto

text \<open>
  C27.  \<open>get_coins\<close> returns all coins of all pages, in order, whenever the node's cursors lead to a last page; when they
  lead around a cycle it never returns.
\<close>

theorem get_coins_pages:
  "(coin_chain (coin_request net c owner coin_type limit) cursor pages \<longrightarrow>
      rpc_get_coins net c owner coin_type cursor limit = Some (Ok (concat pages))) \<and>
   (endless (coin_request net c owner coin_type limit) C \<longrightarrow> cursor \<in> C \<longrightarrow>
      rpc_get_coins net c owner coin_type cursor limit = None)"
  using get_coins_loop_chain [of _ cursor pages "[]"] get_coins_loop_endless [of _ C cursor "[]"]
  by (simp add: rpc_get_coins_def)

subsection \<open>Witnesses\<close>

definition const_net :: "json \<Rightarrow> http" where
  "const_net v = (\<lambda>url payload. Response 200 None (Some (JObj [(''result'', v)])))"

definition demo_client :: sui_client where
  "demo_client = client_new ''http://a, http://b'' []"

definition shared_reply :: json where
  "shared_reply = JObj [(''data'', JObj [(''version'', JNum (PosInt 7)), (''digest'', JStr ''d''),
     (''owner'', JObj [(''Shared'', JObj [(''initial_shared_version'', JNum (PosInt 3))])])])]"

definition coin_reply :: "string option \<Rightarrow> json" where
  "coin_reply nc = JObj [(''data'', JArr [JObj [(''coinObjectId'', JStr ''0xc''), (''version'', JNum (PosInt 1)),
     (''digest'', JStr ''d''), (''balance'', JNum (PosInt 5))]]),
     (''hasNextPage'', JBool (nc \<noteq> None)), (''nextCursor'', opt_str nc)]"

definition demo_resolved :: resolved_coin where
  "demo_resolved = \<lparr>rc_object_id = ''0xc'', rc_version = 1, rc_digest = ''d'', rc_balance = 5, rc_coin_type = ''0x2::sui::SUI''\<rparr>"

lemma demo_urls: "rpc_urls demo_client = [''http://a'', ''http://b'']"
  by code_simp

lemma post_rpc_const: "post_rpc (const_net v) demo_client payload = Ok v"
  by (simp add: post_rpc_def demo_urls rpc_call_def json_rpc_def reply_value_def const_net_def)

lemma coin_page_reply: "coin_page (coin_reply nc) = Ok [demo_resolved]"
proof -
  have "coin_page (coin_reply None) = Ok [demo_resolved]" by code_simp
  then show ?thesis by (simp add: coin_page_def coin_reply_def)
qed

lemma next_cursor_reply: "next_coin_cursor (coin_reply nc) = nc"
  by (cases nc) (simp_all add: next_coin_cursor_def coin_reply_def jstr_def opt_str_def)

theorem object_meta_usable_witness:
  "\<exists>meta. rpc_get_object_meta (const_net shared_reply) demo_client ''0x9'' = Ok meta \<and>
     initial_shared_version meta \<noteq> None \<and> om_owner_kind meta = Shared \<and> om_mutable meta"
proof -
  have "parse_object_meta ''0x9'' shared_reply = Ok \<lparr>om_object_id = ''0x9'', om_version = 7, om_digest = ''d'',
      om_owner_kind = Shared, initial_shared_version = Some 3, om_mutable = True\<rparr>" by code_simp
  then obtain meta where m: "rpc_get_object_meta (const_net shared_reply) demo_client ''0x9'' = Ok meta"
      and k: "om_owner_kind meta = Shared"
    by (simp add: rpc_get_object_meta_def post_rpc_const)
  have mut: "shared_object_is_mutable ''0x9''" by code_simp
  note usable = object_meta_usable [OF m]
  show ?thesis
    using m k mut usable [THEN conjunct1] usable [THEN conjunct2, THEN conjunct1] by (intro exI [of _ meta]) simp
qed

theorem get_coins_pages_witness:
  "rpc_get_coins (const_net (coin_reply None)) demo_client ''0x1'' None None None = Some (Ok [demo_resolved]) \<and>
   rpc_get_coins (const_net (coin_reply (Some ''c''))) demo_client ''0x1'' None None None = None"
proof
  have "coin_chain (coin_request (const_net (coin_reply None)) demo_client ''0x1'' None None) None [[demo_resolved]]"
    by (rule last_page [of _ _ "coin_reply None"])
      (simp_all add: coin_request_def post_rpc_const coin_page_reply next_cursor_reply)
  from get_coins_pages [THEN conjunct1, THEN mp, OF this]
  show "rpc_get_coins (const_net (coin_reply None)) demo_client ''0x1'' None None None = Some (Ok [demo_resolved])"
    by simp
  have "endless (coin_request (const_net (coin_reply (Some ''c''))) demo_client ''0x1'' None None) UNIV"
    by (simp add: endless_def coin_request_def post_rpc_const coin_page_reply next_cursor_reply)
  from get_coins_pages [THEN conjunct2, THEN mp, THEN mp, OF this UNIV_I]
  show "rpc_get_coins (const_net (coin_reply (Some ''c''))) demo_client ''0x1'' None None None = None" .
qed

end
