(* ===== verification/Tick_Fetch.thy ===== *)
theory Tick_Fetch
  imports Sui_Client "HOL-Library.Signed_Division"
begin

text \<open>
  \<open>src/collectors/tick_fetch.rs\<close>: reading Move objects, generic type arguments and tick data out of the node's JSON, and
  the four ways of collecting the ticks of a pool.  The node is the record \<open>sui_api\<close>; its answers during one call of a
  collector are functions of the request.  \<open>i32\<close> arithmetic wraps (\<open>wrap_i32\<close>).
\<close>

definition MAX_TICK_FETCH_WINDOW :: int where
  "MAX_TICK_FETCH_WINDOW = 200"

subsection \<open>Objects and fields\<close>

definition parse_move_object_response :: "json \<Rightarrow> (json \<times> string, string) outcome" where
  "parse_move_object_response val =
     (case jpath [''data'', ''content''] val of
        Some content \<Rightarrow>
          bind_outcome (ok_or (jget ''fields'' content) ''Missing 'fields' in content'') (\<lambda>flds.
          bind_outcome (ok_or (jstr ''type'' content) ''Missing 'type' in content'') (\<lambda>ty. Ok (flds, ty)))
      | None \<Rightarrow>
     (case jpath [''object'', ''asMoveObject''] val of
        Some as_move \<Rightarrow>
          bind_outcome (ok_or (jpath [''contents'', ''json''] as_move) ''Missing 'contents.json' in GraphQL response'') (\<lambda>flds.
          bind_outcome (ok_or (Option.bind (jpath [''type'', ''repr''] as_move) as_str)
              ''Missing 'type.repr' in GraphQL response'') (\<lambda>ty. Ok (flds, ty)))
      | None \<Rightarrow>
     (case (jstr ''type'' val, jget ''fields'' val) of
        (Some ty, Some flds) \<Rightarrow> Ok (flds, ty)
      | _ \<Rightarrow> Err ''Unsupported response format'')))"

fun parse_u32_field :: "json \<Rightarrow> string list \<Rightarrow> (u32, string) outcome" where
  "parse_u32_field flds [] = Err ''missing u32 field''"
| "parse_u32_field flds (key # keys) =
     (case jget key flds of
        None \<Rightarrow> parse_u32_field flds keys
      | Some val \<Rightarrow>
          (case as_str val of
             Some s \<Rightarrow> ok_or (parse_u32 s) ''invalid digit found in string''
           | None \<Rightarrow> (case as_u64 val of Some n \<Rightarrow> Ok (ucast n) | None \<Rightarrow> parse_u32_field flds keys)))"

definition parse_u128_value :: "json \<Rightarrow> (u128, string) outcome" where
  "parse_u128_value val =
     (case as_str val of
        Some s \<Rightarrow> ok_or (parse_u128 s) ''invalid digit found in string''
      | None \<Rightarrow>
     (case as_u64 val of
        Some n \<Rightarrow> Ok (ucast n)
      | None \<Rightarrow>
     (case Option.bind (jpath [''fields'', ''bits''] val) as_str of
        Some bits \<Rightarrow> ok_or (parse_u128 bits) ''invalid digit found in string''
      | None \<Rightarrow>
     (case Option.bind (jpath [''fields'', ''bits''] val) as_u64 of
        Some bits \<Rightarrow> Ok (ucast bits)
      | None \<Rightarrow> Err ''unsupported u128 encoding''))))"

fun parse_optional_u128_field :: "json \<Rightarrow> string list \<Rightarrow> (u128 option, string) outcome" where
  "parse_optional_u128_field flds [] = Ok None"
| "parse_optional_u128_field flds (key # keys) =
     (case jget key flds of
        None \<Rightarrow> parse_optional_u128_field flds keys
      | Some JNull \<Rightarrow> Ok None
      | Some val \<Rightarrow> bind_outcome (parse_u128_value val) (\<lambda>n. Ok (Some n)))"

definition parse_fee_growth_global :: "json \<Rightarrow> (u128 option \<times> u128 option, string) outcome" where
  "parse_fee_growth_global flds =
     bind_outcome (parse_optional_u128_field flds [''fee_growth_global_a'']) (\<lambda>a.
     bind_outcome (parse_optional_u128_field flds [''fee_growth_global_b'']) (\<lambda>b.
     if a \<noteq> None \<or> b \<noteq> None then Ok (a, b)
     else
       bind_outcome (parse_optional_u128_field flds [''fee_growth_global_x'']) (\<lambda>x.
       bind_outcome (parse_optional_u128_field flds [''fee_growth_global_y'']) (\<lambda>y. Ok (x, y)))))"

definition parse_cetus_tick_index :: "json \<Rightarrow> (int, string) outcome" where
  "parse_cetus_tick_index flds =
     bind_outcome (ok_or (jget ''current_tick_index'' flds) ''pool missing current_tick_index'') (\<lambda>v.
     bind_outcome (ok_or (parse_i32_bits_from_json v) ''tick index missing bits'') (\<lambda>bits. Ok (decode_sui_i32 bits)))"

fun parse_raw_tick_index :: "json \<Rightarrow> string list \<Rightarrow> (int, string) outcome" where
  "parse_raw_tick_index flds [] = Err ''pool missing raw tick index''"
| "parse_raw_tick_index flds (key # keys) =
     (case Option.bind (jget key flds) parse_i32_bits_from_json of
        Some bits \<Rightarrow> Ok (decode_raw_i32 bits)
      | None \<Rightarrow> parse_raw_tick_index flds keys)"

function extract_nested_object_id :: "json \<Rightarrow> string option" where
  "extract_nested_object_id node =
     (case as_str node of
        Some s \<Rightarrow> Some s
      | None \<Rightarrow>
     (case Option.bind (jget ''id'' node) as_str of
        Some s \<Rightarrow> Some s
      | None \<Rightarrow>
     (case Option.bind (jpath [''id'', ''id''] node) as_str of
        Some s \<Rightarrow> Some s
      | None \<Rightarrow>
     (case jget ''fields'' node of
        Some flds \<Rightarrow> extract_nested_object_id flds
      | None \<Rightarrow> None))))"
  by pat_completeness auto
termination
  by (relation "measure size") (auto dest!: jget_size)

declare extract_nested_object_id.simps [simp del]

subsection \<open>Generic type arguments\<close>

text \<open>The scan of the characters after the first \<open><\<close>: nesting depth, current argument, arguments so far.\<close>

definition push_arg :: "string list \<Rightarrow> string \<Rightarrow> string list" where
  "push_arg args current = (let trimmed = trim current in if trimmed \<noteq> [] then args @ [trimmed] else args)"

fun generic_args_loop :: "nat \<Rightarrow> string \<Rightarrow> string list \<Rightarrow> string \<Rightarrow> string list" where
  "generic_args_loop depth current args [] = args"
| "generic_args_loop depth current args (ch # rest) =
     (if ch = CHR ''<'' then generic_args_loop (depth + 1) (current @ [ch]) args rest
      else if ch = CHR ''>'' then
        (if depth = 0 then push_arg args current
         else generic_args_loop (depth - 1) (current @ [ch]) args rest)
      else if ch = CHR '','' \<and> depth = 0 then generic_args_loop depth [] (push_arg args current) rest
      else generic_args_loop depth (current @ [ch]) args rest)"

definition parse_top_level_generic_args :: "string \<Rightarrow> nat \<Rightarrow> (string list, string) outcome" where
  "parse_top_level_generic_args type_str expected =
     (case dropWhile (\<lambda>c. c \<noteq> CHR ''<'') type_str of
        [] \<Rightarrow> Err ''Invalid pool type format: missing <''
      | c # rest \<Rightarrow>
          let args = generic_args_loop 0 [] [] rest
          in if length args < expected then Err ''expected more generic parameters'' else Ok args)"

definition parse_coin_types_from_pool_type :: "string \<Rightarrow> (string \<times> string, string) outcome" where
  "parse_coin_types_from_pool_type type_str =
     bind_outcome (parse_top_level_generic_args type_str 2) (\<lambda>args. Ok (args ! 0, args ! 1))"

subsection \<open>Tick windows\<close>

definition tick_in_window :: "int \<Rightarrow> int \<Rightarrow> int \<Rightarrow> bool" where
  "tick_in_window t current window \<longleftrightarrow> wrap_i32 (current - window) \<le> t \<and> t \<le> wrap_i32 (current + window)"

definition div_floor :: "int \<Rightarrow> int \<Rightarrow> int" where
  "div_floor a b =
     (let d = a sdiv b; r = a smod b
      in if r \<noteq> 0 \<and> (0 < r) \<noteq> (0 < b) then wrap_i32 (d - 1) else d)"

text \<open>The loop of \<open>aligned_ticks_in_window\<close> runs while \<open>t \<le> high\<close> with wrapping steps, so it need not end.\<close>

partial_function (option) aligned_loop :: "int \<Rightarrow> int \<Rightarrow> int \<Rightarrow> int \<Rightarrow> int list \<Rightarrow> int list option" where
  "aligned_loop low high spacing t acc =
     (if t \<le> high then
        aligned_loop low high spacing (wrap_i32 (t + spacing)) (if low \<le> t then acc @ [t] else acc)
      else Some acc)"

definition aligned_ticks_in_window :: "int \<Rightarrow> int \<Rightarrow> int \<Rightarrow> int list option" where
  "aligned_ticks_in_window current spacing window =
     (if spacing \<le> 0 then Some []
      else let low = wrap_i32 (current - window); high = wrap_i32 (current + window);
               start = wrap_i32 (div_floor low spacing * spacing)
           in aligned_loop low high spacing start [])"

subsection \<open>Tick objects\<close>

definition parse_tick_index_from_df_name :: "json \<Rightarrow> int option" where
  "parse_tick_index_from_df_name nm =
     map_option decode_sui_i32 (parse_i32_bits_from_json (case jget ''value'' nm of Some v \<Rightarrow> v | None \<Rightarrow> nm))"

definition parse_raw_tick_index_from_df_name :: "json \<Rightarrow> int option" where
  "parse_raw_tick_index_from_df_name nm =
     map_option decode_raw_i32 (parse_i32_bits_from_json (case jget ''value'' nm of Some v \<Rightarrow> v | None \<Rightarrow> nm))"

definition parse_liquidity_net_from_fields :: "json \<Rightarrow> int option" where
  "parse_liquidity_net_from_fields flds =
     map_option decode_sui_i128 (Option.bind (jget ''liquidity_net'' flds) parse_i128_bits_from_json)"

definition parse_liquidity_net_from_tick_object :: "json \<Rightarrow> int option" where
  "parse_liquidity_net_from_tick_object obj =
     (case jpath [''data'', ''content'', ''fields''] obj of
        None \<Rightarrow> None
      | Some flds \<Rightarrow>
          (case parse_liquidity_net_from_fields flds of
             Some lnet \<Rightarrow> Some lnet
           | None \<Rightarrow>
               (case jpath [''value'', ''fields''] flds of
                  Some inner \<Rightarrow> parse_liquidity_net_from_fields inner
                | None \<Rightarrow> None)))"

definition payload_paths :: "string list list" where
  "payload_paths =
     [[''value'', ''fields'', ''value'', ''fields'', ''value'', ''fields''],
      [''value'', ''fields'', ''value'', ''fields''],
      [''value'', ''fields'']]"

fun dig_payload :: "json \<Rightarrow> string list list \<Rightarrow> json option" where
  "dig_payload flds [] = (if jget ''liquidity_net'' flds \<noteq> None then Some flds else None)"
| "dig_payload flds (path # ps) =
     (case jpath path flds of
        Some candidate \<Rightarrow>
          if jget ''liquidity_net'' candidate \<noteq> None then Some candidate else dig_payload flds ps
      | None \<Rightarrow> dig_payload flds ps)"

definition tick_payload_fields :: "json \<Rightarrow> json option" where
  "tick_payload_fields flds = dig_payload flds payload_paths"

definition parse_skip_list_tick_object :: "json \<Rightarrow> (int \<times> int) option" where
  "parse_skip_list_tick_object obj =
     Option.bind (jpath [''data'', ''content'', ''fields''] obj) (\<lambda>flds.
     Option.bind (tick_payload_fields flds) (\<lambda>tick_fields.
     Option.bind (ok_option (parse_raw_tick_index tick_fields [''index'', ''tick_index''])) (\<lambda>index.
     Option.bind (parse_liquidity_net_from_fields tick_fields) (\<lambda>lnet. Some (index, lnet)))))"

definition parse_table_tick_object :: "json \<Rightarrow> (int \<times> int) option" where
  "parse_table_tick_object obj =
     Option.bind (jpath [''data'', ''content'', ''fields''] obj) (\<lambda>flds.
     Option.bind (Option.bind (jget ''name'' flds) parse_raw_tick_index_from_df_name) (\<lambda>index.
     Option.bind (case jpath [''value'', ''fields''] flds of Some f \<Rightarrow> Some f | None \<Rightarrow> tick_payload_fields flds) (\<lambda>tick_fields.
     Option.bind (parse_liquidity_net_from_fields tick_fields) (\<lambda>lnet. Some (index, lnet)))))"

subsection \<open>Collecting\<close>

text \<open>\<open>dedup_by_key\<close> drops an element whose key equals that of the element kept before it.\<close>

fun dedup_by_key :: "('a \<Rightarrow> 'k) \<Rightarrow> 'a list \<Rightarrow> 'a list" where
  "dedup_by_key f (x # y # zs) =
     (if f x = f y then dedup_by_key f (x # zs) else x # dedup_by_key f (y # zs))"
| "dedup_by_key f xs = xs"

definition finalize_ticks :: "tick_info list \<Rightarrow> tick_info list" where
  "finalize_ticks ts = dedup_by_key tick_index (sort_key tick_index ts)"

text \<open>The object an entry of a page points to, when it names one and the node returns it.\<close>

definition entry_object :: "sui_api \<Rightarrow> json \<Rightarrow> json option" where
  "entry_object api entry =
     (let object_id = (case jstr ''objectId'' entry of Some i \<Rightarrow> i | None \<Rightarrow> [])
      in if object_id = [] then None else ok_option (api_get_object api object_id))"

definition nonzero_tick :: "int \<Rightarrow> int \<Rightarrow> tick_info option" where
  "nonzero_tick index lnet = (if lnet \<noteq> 0 then Some \<lparr>tick_index = index, liquidity_net = lnet\<rparr> else None)"

definition integer_mate_entry :: "sui_api \<Rightarrow> int \<Rightarrow> int \<Rightarrow> json \<Rightarrow> tick_info option" where
  "integer_mate_entry api current window entry =
     Option.bind (jget ''name'' entry) (\<lambda>nm.
     Option.bind (parse_tick_index_from_df_name nm) (\<lambda>index.
     if \<not> tick_in_window index current window then None
     else Option.bind (entry_object api entry) (\<lambda>obj.
          Option.bind (parse_liquidity_net_from_tick_object obj) (\<lambda>lnet. nonzero_tick index lnet))))"

definition skip_list_entry :: "sui_api \<Rightarrow> int \<Rightarrow> int \<Rightarrow> json \<Rightarrow> tick_info option" where
  "skip_list_entry api current window entry =
     Option.bind (entry_object api entry) (\<lambda>obj.
     Option.bind (parse_skip_list_tick_object obj) (\<lambda>(index, lnet).
     if \<not> tick_in_window index current window then None else nonzero_tick index lnet))"

definition raw_table_entry :: "sui_api \<Rightarrow> int \<Rightarrow> int \<Rightarrow> json \<Rightarrow> tick_info option" where
  "raw_table_entry api current window entry =
     Option.bind (jget ''name'' entry) (\<lambda>nm.
     Option.bind (parse_raw_tick_index_from_df_name nm) (\<lambda>index.
     if \<not> tick_in_window index current window then None
     else Option.bind (entry_object api entry) (\<lambda>obj.
          Option.bind (parse_table_tick_object obj) (\<lambda>(parsed_index, lnet). nonzero_tick parsed_index lnet))))"

text \<open>
  The page loop the three paginating collectors share; the counter is the number of pages still allowed (ten at the
  start).
\<close>

fun collect_pages ::
  "(string option \<Rightarrow> (json, string) outcome) \<Rightarrow> (json \<Rightarrow> tick_info option) \<Rightarrow> nat \<Rightarrow> string option \<Rightarrow>
   tick_info list \<Rightarrow> (tick_info list, string) outcome" where
  "collect_pages request entry 0 cursor ts = Ok ts"
| "collect_pages request entry (Suc remaining) cursor ts =
     bind_outcome (request cursor) (\<lambda>page.
       let data = (case Option.bind (jget ''data'' page) as_array of Some d \<Rightarrow> d | None \<Rightarrow> [])
       in if data = [] then Ok ts
          else let ts' = ts @ List.map_filter entry data
               in case jstr ''nextCursor'' page of
                    None \<Rightarrow> Ok ts'
                  | Some c \<Rightarrow> collect_pages request entry remaining (Some c) ts')"

definition collect_paged :: "sui_api \<Rightarrow> string \<Rightarrow> (json \<Rightarrow> tick_info option) \<Rightarrow> (tick_info list, string) outcome" where
  "collect_paged api parent_id entry =
     bind_outcome (collect_pages (\<lambda>cursor. api_get_dynamic_fields api parent_id cursor (Some 50)) entry 10 None [])
       (\<lambda>ts. Ok (finalize_ticks ts))"

definition collect_ticks_from_integer_mate_df :: "sui_api \<Rightarrow> string \<Rightarrow> int \<Rightarrow> int \<Rightarrow> (tick_info list, string) outcome" where
  "collect_ticks_from_integer_mate_df api parent_id current window =
     collect_paged api parent_id (integer_mate_entry api current window)"

definition collect_ticks_from_skip_list :: "sui_api \<Rightarrow> string \<Rightarrow> int \<Rightarrow> int \<Rightarrow> (tick_info list, string) outcome" where
  "collect_ticks_from_skip_list api skip_list_id current window =
     collect_paged api skip_list_id (skip_list_entry api current window)"

definition collect_ticks_from_raw_i32_table :: "sui_api \<Rightarrow> string \<Rightarrow> int \<Rightarrow> int \<Rightarrow> (tick_info list, string) outcome" where
  "collect_ticks_from_raw_i32_table api table_id current window =
     collect_paged api table_id (raw_table_entry api current window)"

definition turbos_tick :: "sui_api \<Rightarrow> string \<Rightarrow> string \<Rightarrow> int \<Rightarrow> tick_info option" where
  "turbos_tick api pid i32_type index =
     Option.bind (ok_option (api_get_dynamic_field_object api pid (i32_name i32_type index))) (\<lambda>obj.
     Option.bind (parse_liquidity_net_from_tick_object obj) (\<lambda>lnet. nonzero_tick index lnet))"

definition collect_turbos_ticks :: "sui_api \<Rightarrow> string \<Rightarrow> string \<Rightarrow> int \<Rightarrow> u32 \<Rightarrow> tick_info list option" where
  "collect_turbos_ticks api pid i32_type current spacing =
     map_option (\<lambda>indices. finalize_ticks (List.map_filter (turbos_tick api pid i32_type) indices))
       (aligned_ticks_in_window current (wrap_i32 (uint spacing)) MAX_TICK_FETCH_WINDOW)"

definition build_pool_tick_data ::
  "string \<Rightarrow> int \<Rightarrow> u32 \<Rightarrow> tick_info list \<Rightarrow> u128 option \<Rightarrow> u128 option \<Rightarrow> pool_tick_data" where
  "build_pool_tick_data pid current spacing ts fga fgb =
     \<lparr>td_pool_id = pid, current_tick_index = current, tick_spacing = spacing, ticks = ts,
      fee_growth_global_a = fga, fee_growth_global_b = fgb\<rparr>"

subsection \<open>Aligned indices\<close>

lemma div_floor_pos:
  assumes "0 < b" "is_i32 a"
  shows "div_floor a b = a div b"
proof (cases "sgn a \<noteq> sgn b \<and> \<not> b dvd a")
  case True
  then have "a < 0" using assms by (auto simp: sgn_if split: if_splits)
  then have "a \<le> a div b" "a div b \<le> 0" using assms zdiv_mono2_neg [of a 1 b] by (auto simp: div_nonpos_pos_le0)
  then have "wrap_i32 (a div b) = a div b" using assms by (intro wrap_i32_id) (simp add: is_i32_def)
  moreover have "a mod b \<noteq> b" "\<not> b < a mod b" using assms pos_mod_bound [of b a] by linarith+
  ultimately show ?thesis using True assms
    by (simp add: div_floor_def Let_def signed_divide_int_eq_divide_int signed_modulo_int_eq_modulo_int)
next
  case False
  then have "\<not> (sgn a \<noteq> 1 \<and> \<not> b dvd a)" using assms by simp
  moreover have "0 \<le> a mod b" using assms by simp
  ultimately show ?thesis using assms
    by (auto simp: div_floor_def Let_def signed_divide_int_eq_divide_int signed_modulo_int_eq_modulo_int order_less_le)
qed

lemma multiples_skip:
  fixes s :: int
  assumes "0 < s" "s dvd t" "t < a" "a \<le> t + s"
  shows "filter ((dvd) s) [a..h] = filter ((dvd) s) [t + s..h]"
proof -
  have no: "\<not> s dvd x" if "a \<le> x" "x < t + s" for x
  proof
    assume "s dvd x"
    then have "s dvd x - t" using assms(2) by (rule dvd_diff)
    moreover have "0 < x - t" "x - t < s" using that assms by auto
    ultimately show False using zdvd_imp_le by fastforce
  qed
  show ?thesis
  proof (cases "t + s \<le> h")
    case True
    then have "[a..h] = [a..t + s - 1] @ [t + s..h]" using assms upto_split1 [of a "t + s" h] by simp
    moreover have "filter ((dvd) s) [a..t + s - 1] = []" using no by (auto simp: filter_empty_conv)
    ultimately show ?thesis by simp
  next
    case False
    then have "filter ((dvd) s) [a..h] = []" using no by (auto simp: filter_empty_conv)
    with False show ?thesis by simp
  qed
qed

lemma aligned_loop_spec:
  assumes "0 < s" "s dvd t" "low - s < t" "- (2 ^ 31) \<le> t" "high + s < 2 ^ 31"
  shows "aligned_loop low high s t acc = Some (acc @ filter ((dvd) s) [max low t..high])"
  using assms
proof (induction "nat (high + 1 - t)" arbitrary: t acc rule: less_induct)
  case less
  show ?case
  proof (cases "t \<le> high")
    case True
    let ?acc = "if low \<le> t then acc @ [t] else acc"
    have "wrap_i32 (t + s) = t + s" using less.prems True by (intro wrap_i32_id) (simp add: is_i32_def)
    moreover have "aligned_loop low high s (t + s) ?acc = Some (?acc @ filter ((dvd) s) [max low (t + s)..high])"
      by (rule less.hyps) (use less.prems True in \<open>auto simp: dvd_add\<close>)
    moreover have "filter ((dvd) s) [max low t..high] =
        (if low \<le> t then [t] else []) @ filter ((dvd) s) [max low (t + s)..high]"
    proof (cases "low \<le> t")
      case True
      then show ?thesis
        using less.prems \<open>t \<le> high\<close> multiples_skip [of s t "t + 1" high] by (simp add: upto_rec1 max_def)
    next
      case False
      then show ?thesis using less.prems multiples_skip [of s t low high] by (simp add: max_def)
    qed
    ultimately show ?thesis using True by (subst aligned_loop.simps) simp
  next
    case False
    then show ?thesis by (subst aligned_loop.simps) simp
  qed
qed

lemma aligned_ticks_spec:
  assumes "0 < s" "- (2 ^ 31) \<le> current - window - s" "current + window + s < 2 ^ 31" "0 \<le> window"
  shows "aligned_ticks_in_window current s window = Some (filter ((dvd) s) [current - window..current + window])"
proof -
  let ?low = "current - window"
  have i32: "is_i32 ?low" "is_i32 (current + window)" using assms by (auto simp: is_i32_def)
  have mod: "?low div s * s = ?low - ?low mod s" by (simp add: minus_mod_eq_div_mult)
  have "0 \<le> ?low mod s" "?low mod s < s" using assms by simp_all
  with mod have start: "?low - s < ?low div s * s" "?low div s * s \<le> ?low" by auto
  then have "is_i32 (?low div s * s)" using assms i32 by (simp add: is_i32_def)
  then show ?thesis
    using assms i32 start aligned_loop_spec [of s "?low div s * s" ?low "current + window" "[]"]
    by (simp add: aligned_ticks_in_window_def div_floor_pos Let_def max_def)
qed

lemmas aligned_loop_induct = aligned_loop.raw_induct [rotated, consumes 1, case_names step]

lemma aligned_loop_top:
  assumes "aligned_loop low high s t acc = Some r" shows "high = 2 ^ 31 - 1 \<longrightarrow> \<not> is_i32 t"
  using assms
proof (induction rule: aligned_loop_induct)
  case (step self low high s t acc r)
  show ?case
  proof (intro impI notI)
    assume h: "high = 2 ^ 31 - 1" and "is_i32 t"
    then have "t \<le> high" by (simp add: is_i32_def)
    with step(2) have "self low high s (wrap_i32 (t + s)) (if low \<le> t then acc @ [t] else acc) = Some r" by simp
    from step(1) [OF this] h show False by simp
  qed
qed

lemma aligned_ticks_forever:
  assumes "0 < s" "current + window = 2 ^ 31 - 1"
  shows "aligned_ticks_in_window current s window = None"
proof -
  have "wrap_i32 (2 ^ 31 - 1) = 2 ^ 31 - 1" by (rule wrap_i32_id) (simp add: is_i32_def)
  moreover have "aligned_loop low (2 ^ 31 - 1) s (wrap_i32 x) acc = None" for low x acc
    using aligned_loop_top [of low "2 ^ 31 - 1" s "wrap_i32 x" acc] by (cases "aligned_loop low (2 ^ 31 - 1) s (wrap_i32 x) acc") auto
  ultimately show ?thesis using assms by (simp add: aligned_ticks_in_window_def Let_def del: power_numeral)
qed

text \<open>
  C32.  As long as the window and one more spacing stay inside the range of \<open>i32\<close>, the Turbos collector asks for
  exactly the multiples of the tick spacing inside the window, in ascending order; when the upper end of the window is
  the largest \<open>i32\<close> the loop never ends.
\<close>

theorem aligned_ticks_exact:
  assumes "0 < s"
  shows "(- (2 ^ 31) \<le> current - window - s \<and> current + window + s < 2 ^ 31 \<and> 0 \<le> window \<longrightarrow>
      aligned_ticks_in_window current s window = Some (filter ((dvd) s) [current - window..current + window])) \<and>
    (current + window = 2 ^ 31 - 1 \<longrightarrow> aligned_ticks_in_window current s window = None)"
  using assms aligned_ticks_spec aligned_ticks_forever by simp

theorem aligned_ticks_exact_witness:
  "aligned_ticks_in_window (- 7) 5 10 = Some [- 15, - 10, - 5, 0] \<and> aligned_ticks_in_window (2 ^ 31 - 201) 60 200 = None"
  using aligned_ticks_exact [of 5 "- 7" 10, THEN conjunct1] aligned_ticks_exact [of 60 "2 ^ 31 - 201" 200, THEN conjunct2]
  by (simp add: upto.simps)

subsection \<open>Collected ticks\<close>

lemma dedup_set: "set (dedup_by_key f xs) \<subseteq> set xs"
  by (induction f xs rule: dedup_by_key.induct) auto

lemma dedup_hd: "xs \<noteq> [] \<Longrightarrow> dedup_by_key f xs \<noteq> [] \<and> hd (dedup_by_key f xs) = hd xs"
  by (induction f xs rule: dedup_by_key.induct) auto

lemma dedup_strict:
  fixes f :: "'a \<Rightarrow> 'k::linorder"
  shows "sorted (map f xs) \<Longrightarrow> sorted_wrt (<) (map f (dedup_by_key f xs))"
proof (induction f xs rule: dedup_by_key.induct)
  case (1 f x y zs)
  show ?case
  proof (cases "f x = f y")
    case True
    then show ?thesis using 1 by simp
  next
    case False
    then have "f x < f y" using 1(3) by (simp add: order_less_le)
    moreover have "f y \<le> f z" if "z \<in> set (dedup_by_key f (y # zs))" for z
      using that dedup_set [of f "y # zs"] 1(3) by auto
    ultimately show ?thesis using False 1 by fastforce
  qed
qed simp_all

lemma dedup_id: "sorted_wrt (<) (map f xs) \<Longrightarrow> dedup_by_key (f :: 'a \<Rightarrow> 'k::linorder) xs = xs"
  by (induction f xs rule: dedup_by_key.induct) auto

lemma map_of_dedup: "map_of (map (\<lambda>x. (f x, x)) (dedup_by_key f xs)) = map_of (map (\<lambda>x. (f x, x)) xs)"
  by (induction f xs rule: dedup_by_key.induct) auto

lemma map_of_first: "map_of (map (\<lambda>x. (f x, x)) xs) k = (case filter (\<lambda>x. f x = k) xs of [] \<Rightarrow> None | x # ys \<Rightarrow> Some x)"
  by (induction xs) auto

lemma finalize_strict: "sorted_wrt (<) (map tick_index (finalize_ticks ts))"
  unfolding finalize_ticks_def by (rule dedup_strict) simp

lemma finalize_first:
  "map_of (map (\<lambda>t. (tick_index t, t)) (finalize_ticks ts)) = map_of (map (\<lambda>t. (tick_index t, t)) ts)"
  by (rule ext) (simp add: finalize_ticks_def map_of_dedup map_of_first sort_key_stable)

lemma finalize_subset: "set (finalize_ticks ts) \<subseteq> set ts"
  using dedup_set [of tick_index "sort_key tick_index ts"] by (simp add: finalize_ticks_def)

lemma finalize_id: "sorted_wrt (<) (map tick_index ts) \<Longrightarrow> finalize_ticks ts = ts"
proof -
  assume s: "sorted_wrt (<) (map tick_index ts)"
  then have "sort_key tick_index ts = ts"
    by (intro sort_key_id_if_sorted) (metis strict_sorted_imp_sorted)
  with s show ?thesis by (simp add: finalize_ticks_def dedup_id)
qed

lemma collect_pages_from:
  "collect_pages request entry n cursor ts = Ok us \<Longrightarrow> u \<in> set us \<Longrightarrow> u \<in> set ts \<or> (\<exists>e. entry e = Some u)"
proof (induction n arbitrary: cursor ts)
  case (Suc n)
  then show ?case
    by (fastforce simp: Let_def outcome_simps List.map_filter_def split: if_splits option.splits)
qed simp

lemma collect_paged_sound:
  assumes "collect_paged api parent_id entry = Ok ts" and "\<And>e t. entry e = Some t \<Longrightarrow> P t"
  shows "sorted_wrt (<) (map tick_index ts)" and "list_all P ts"
proof -
  obtain us where us: "collect_pages (\<lambda>cursor. api_get_dynamic_fields api parent_id cursor (Some 50)) entry 10 None [] = Ok us"
    and ts: "ts = finalize_ticks us" using assms(1) by (auto simp: collect_paged_def outcome_simps)
  show "sorted_wrt (<) (map tick_index ts)" by (simp only: ts finalize_strict)
  show "list_all P ts"
    using finalize_subset [of us] collect_pages_from [OF us] assms(2) by (auto simp: ts list_all_iff)
qed

text \<open>What every collected tick satisfies: its index is an \<open>i32\<close> and its net liquidity a non-zero \<open>i128\<close>.\<close>

definition tick_ok :: "tick_info \<Rightarrow> bool" where
  "tick_ok t \<longleftrightarrow> is_i32 (tick_index t) \<and> liquidity_net t \<noteq> 0 \<and> is_i128 (liquidity_net t)"

lemma sui_i32_range: "is_i32 (decode_sui_i32 w)"
proof -
  obtain m where "uint (drop_bit 2 w) = m" "0 \<le> m" "m < 2 ^ 30"
    using drop_bit_bound [of w] uint_ge_0 [of "drop_bit 2 w"] by simp
  then show ?thesis by (simp add: decode_sui_i32_def is_i32_def)
qed

lemma sui_i128_range: "is_i128 (decode_sui_i128 w)"
proof -
  obtain m where "uint (drop_bit 2 w) = m" "0 \<le> m" "m < 2 ^ 126"
    using drop_bit_bound [of w] uint_ge_0 [of "drop_bit 2 w"] by simp
  then show ?thesis by (simp add: decode_sui_i128_def is_i128_def)
qed

lemma nonzero_tick_Some: "nonzero_tick i l = Some t \<longleftrightarrow> l \<noteq> 0 \<and> t = \<lparr>tick_index = i, liquidity_net = l\<rparr>"
  by (auto simp: nonzero_tick_def)

lemma df_name_range:
  "parse_tick_index_from_df_name nm = Some i \<Longrightarrow> is_i32 i"
  "parse_raw_tick_index_from_df_name nm = Some i \<Longrightarrow> is_i32 i"
  by (auto simp: parse_tick_index_from_df_name_def parse_raw_tick_index_from_df_name_def sui_i32_range raw_i32_range)

lemma liquidity_range:
  "parse_liquidity_net_from_fields f = Some l \<Longrightarrow> is_i128 l"
  by (auto simp: parse_liquidity_net_from_fields_def sui_i128_range)

lemma tick_object_range: "parse_liquidity_net_from_tick_object obj = Some l \<Longrightarrow> is_i128 l"
  by (auto simp: parse_liquidity_net_from_tick_object_def liquidity_range split: option.splits)

lemma raw_tick_index_range: "parse_raw_tick_index f ks = Ok i \<Longrightarrow> is_i32 i"
  by (induction f ks rule: parse_raw_tick_index.induct) (auto simp: raw_i32_range split: option.splits)

lemma skip_list_object_range: "parse_skip_list_tick_object obj = Some (i, l) \<Longrightarrow> is_i32 i \<and> is_i128 l"
  by (auto simp: parse_skip_list_tick_object_def bind_eq_Some_conv outcome_simps raw_tick_index_range liquidity_range
      simp del: parse_raw_tick_index.simps)

lemma table_object_range: "parse_table_tick_object obj = Some (i, l) \<Longrightarrow> is_i32 i \<and> is_i128 l"
  by (auto simp: parse_table_tick_object_def bind_eq_Some_conv df_name_range liquidity_range)

lemmas entry_defs = integer_mate_entry_def skip_list_entry_def raw_table_entry_def turbos_tick_def
lemmas entry_ranges = df_name_range tick_object_range skip_list_object_range table_object_range

lemma integer_mate_entry_ok:
  "integer_mate_entry api c w e = Some t \<Longrightarrow> tick_ok t \<and> tick_in_window (tick_index t) c w"
  by (auto simp: entry_defs bind_eq_Some_conv nonzero_tick_Some tick_ok_def entry_ranges split: if_splits)

lemma skip_list_entry_ok:
  "skip_list_entry api c w e = Some t \<Longrightarrow> tick_ok t \<and> tick_in_window (tick_index t) c w"
  by (auto simp: entry_defs bind_eq_Some_conv nonzero_tick_Some tick_ok_def split: if_splits dest: entry_ranges)

lemma raw_table_entry_ok: "raw_table_entry api c w e = Some t \<Longrightarrow> tick_ok t"
  by (auto simp: entry_defs bind_eq_Some_conv nonzero_tick_Some tick_ok_def split: if_splits dest: entry_ranges)

lemma turbos_tick_index: "turbos_tick api pid ty i = Some t \<Longrightarrow> tick_index t = i"
  by (auto simp: entry_defs bind_eq_Some_conv nonzero_tick_Some)

lemma map_filter_strict:
  "sorted_wrt (<) is \<Longrightarrow> (\<And>i t. f i = Some t \<Longrightarrow> tick_index t = i) \<Longrightarrow>
   sorted_wrt (<) (map tick_index (List.map_filter f is))"
proof (induction "is")
  case (Cons i "is")
  have "tick_index t \<in> set is" if "t \<in> set (List.map_filter f is)" for t
    using that Cons.prems(2) by (fastforce simp: List.map_filter_def)
  then show ?case using Cons by (auto simp: List.map_filter_def split: option.splits)
qed (simp add: List.map_filter_def)

lemma turbos_ticks_spec:
  assumes "aligned_ticks_in_window current (wrap_i32 (uint spacing)) MAX_TICK_FETCH_WINDOW = Some is" "sorted_wrt (<) is"
  shows "collect_turbos_ticks api pid ty current spacing = Some (List.map_filter (turbos_tick api pid ty) is)"
  using assms map_filter_strict [OF assms(2) turbos_tick_index] by (simp add: collect_turbos_ticks_def finalize_id)

definition demo_tick_entry :: json where
  "demo_tick_entry = JObj [(''name'', JObj [(''value'', JObj [(''bits'', JNum (PosInt 41))])]), (''objectId'', JStr ''0x1'')]"

definition demo_object :: json where
  "demo_object = JObj [(''data'', JObj [(''content'', JObj [(''fields'', JObj [(''liquidity_net'', JObj [(''bits'', JStr ''8'')])])])])]"

definition demo_api :: sui_api where
  "demo_api =
     \<lparr>api_get_object = (\<lambda>oid. Ok demo_object),
      api_get_dynamic_fields = (\<lambda>pid cursor limit. Ok (JObj [(''data'', JArr [demo_tick_entry])])),
      api_get_dynamic_field_object = (\<lambda>pid nm. Err ''not found''),
      api_get_coin_metadata = (\<lambda>ty. Err ''not found''),
      api_get_reference_gas_price = Ok 1000,
      api_graphql = (\<lambda>q v. Err ''no endpoint'')\<rparr>"

lemma demo_object_liquidity: "parse_liquidity_net_from_tick_object demo_object = Some 2"
proof -
  have "parse_u128 ''8'' = Some 8" by (simp add: parse_u128_def parse_unsigned_def digit_of_def)
  then have "parse_i128_bits_from_json (JObj [(''bits'', JStr ''8'')]) = Some 8"
    by (subst parse_i128_bits_from_json.simps, simp, subst parse_i128_bits_from_json.simps, simp)
  moreover have "decode_sui_i128 8 = 2" by code_simp
  ultimately show ?thesis
    by (simp add: demo_object_def jpath_def parse_liquidity_net_from_tick_object_def parse_liquidity_net_from_fields_def)
qed

end
