(* ===== verification/Move_Types.thy ===== *)
theory Move_Types
  imports Tick_Fetch
begin

text \<open>
  Move type names as the node prints them (a path with a comma-separated list of type arguments) and the
  correctness of the scanner that extracts the top-level arguments of a pool type.
\<close>

datatype move_type = MoveType (mt_name: string) (mt_args: "move_type list")

fun join_args :: "string list \<Rightarrow> string" where
  "join_args [] = []"
| "join_args [a] = a"
| "join_args (a # b # as) = a @ '', '' @ join_args (b # as)"

fun show_type :: "move_type \<Rightarrow> string" where
  "show_type (MoveType n ts) = (if ts = [] then n else n @ ''<'' @ join_args (map show_type ts) @ ''>'')"

definition plain_char :: "char \<Rightarrow> bool" where
  "plain_char c \<longleftrightarrow> c \<noteq> CHR ''<'' \<and> c \<noteq> CHR ''>'' \<and> c \<noteq> CHR '','' \<and> \<not> is_space c"

definition plain_name :: "string \<Rightarrow> bool" where
  "plain_name n \<longleftrightarrow> n \<noteq> [] \<and> list_all plain_char n"

fun wf_type :: "move_type \<Rightarrow> bool" where
  "wf_type (MoveType n ts) \<longleftrightarrow> plain_name n \<and> list_all wf_type ts"

lemma scan_plain:
  "list_all plain_char n \<Longrightarrow> generic_args_loop d cur args (n @ rest) = generic_args_loop d (cur @ n) args rest"
  by (induction n arbitrary: cur) (auto simp: plain_char_def)

lemma scan_join:
  assumes "\<And>t d cur rest. t \<in> set ts \<Longrightarrow> generic_args_loop d cur args (show_type t @ rest) =
      generic_args_loop d (cur @ show_type t) args rest"
  shows "generic_args_loop (Suc d) cur args (join_args (map show_type ts) @ rest) =
    generic_args_loop (Suc d) (cur @ join_args (map show_type ts)) args rest"
  using assms
proof (induction ts arbitrary: cur rule: induct_list012)
  case (3 a b ts)
  have "generic_args_loop (Suc d) cur args (join_args (map show_type (a # b # ts)) @ rest) =
      generic_args_loop (Suc d) (cur @ show_type a) args ('', '' @ join_args (map show_type (b # ts)) @ rest)"
    using 3(3) [of a] by simp
  also have "\<dots> = generic_args_loop (Suc d) (cur @ show_type a @ '', '') args (join_args (map show_type (b # ts)) @ rest)"
    by simp
  also have "\<dots> = generic_args_loop (Suc d) ((cur @ show_type a @ '', '') @ join_args (map show_type (b # ts))) args rest"
    by (rule 3(2)) (use 3(3) in auto)
  finally show ?case by simp
qed simp_all

lemma scan_type:
  "wf_type t \<Longrightarrow> generic_args_loop d cur args (show_type t @ rest) = generic_args_loop d (cur @ show_type t) args rest"
proof (induction t arbitrary: d cur rest rule: show_type.induct)
  case (1 n ts)
  then have n: "list_all plain_char n" by (simp add: plain_name_def)
  show ?case
  proof (cases "ts = []")
    case True
    then show ?thesis using scan_plain [OF n] by simp
  next
    case False
    have inner: "generic_args_loop (Suc d) c args (join_args (map show_type ts) @ r) =
        generic_args_loop (Suc d) (c @ join_args (map show_type ts)) args r" for c r
      by (rule scan_join) (use 1 False in \<open>auto simp: list_all_iff\<close>)
    show ?thesis using False scan_plain [OF n] by (simp add: inner)
  qed
qed

lemma show_type_ends:
  "wf_type t \<Longrightarrow> show_type t \<noteq> [] \<and> \<not> is_space (hd (show_type t)) \<and> \<not> is_space (last (show_type t))"
proof (cases t)
  case (MoveType n ts)
  assume "wf_type t"
  then have n: "n \<noteq> []" "list_all plain_char n" by (simp_all add: MoveType plain_name_def)
  then have "\<not> is_space (hd n)" "\<not> is_space (last n)" by (auto simp: list_all_iff plain_char_def)
  moreover have "\<not> is_space (CHR ''>'')" by code_simp
  ultimately show ?thesis using n by (simp add: MoveType)
qed

lemma trim_ends:
  assumes "s \<noteq> []" "\<not> is_space (hd s)" "\<not> is_space (last s)" "list_all is_space pre"
  shows "trim (pre @ s) = s"
proof -
  have "dropWhile is_space (pre @ s) = s"
    using assms by (cases s) (auto simp: dropWhile_append list_all_iff)
  moreover have "dropWhile is_space (rev s) = rev s"
    using assms by (cases s rule: rev_cases) auto
  ultimately show ?thesis by (simp add: trim_def)
qed

lemma scan_args:
  assumes "list_all wf_type ts" "ts \<noteq> []" "list_all is_space pre"
  shows "generic_args_loop 0 pre args (join_args (map show_type ts) @ ''>'' @ rest) = args @ map show_type ts"
  using assms
proof (induction ts arbitrary: pre args rule: induct_list012)
  case (2 t)
  have "trim (pre @ show_type t) = show_type t" "show_type t \<noteq> []"
    using trim_ends show_type_ends 2 by auto
  then show ?case using 2 by (simp add: scan_type push_arg_def)
next
  case (3 a b ts)
  have a: "trim (pre @ show_type a) = show_type a" "show_type a \<noteq> []"
    using trim_ends show_type_ends 3 by auto
  have sp: "list_all is_space '' ''" by code_simp
  have "generic_args_loop 0 pre args (join_args (map show_type (a # b # ts)) @ ''>'' @ rest) =
      generic_args_loop 0 '' '' (args @ [show_type a]) (join_args (map show_type (b # ts)) @ ''>'' @ rest)"
    using 3 a by (simp add: scan_type push_arg_def)
  also have "\<dots> = (args @ [show_type a]) @ map show_type (b # ts)"
    by (rule 3(2)) (use 3 sp in auto)
  finally show ?case by simp
qed simp

lemma generic_args_scan:
  assumes "wf_type (MoveType n ts)" "ts \<noteq> []"
  shows "parse_top_level_generic_args (show_type (MoveType n ts)) k =
    (if length ts < k then Err ''expected more generic parameters'' else Ok (map show_type ts))"
proof -
  have n: "\<forall>c \<in> set n. c \<noteq> CHR ''<''" and wf: "list_all wf_type ts"
    using assms(1) by (auto simp: plain_name_def plain_char_def list_all_iff)
  have "dropWhile (\<lambda>c. c \<noteq> CHR ''<'') (show_type (MoveType n ts)) = ''<'' @ join_args (map show_type ts) @ ''>''"
    using n assms(2) by (simp add: dropWhile_append)
  moreover have "generic_args_loop 0 [] [] (join_args (map show_type ts) @ ''>'') = map show_type ts"
    using scan_args [OF wf assms(2), of "[]" "[]" "[]"] by simp
  ultimately show ?thesis by (simp add: parse_top_level_generic_args_def)
qed

lemma generic_args_coins:
  assumes "wf_type (MoveType n ts)" "2 \<le> length ts"
  shows "parse_coin_types_from_pool_type (show_type (MoveType n ts)) = Ok (show_type (ts ! 0), show_type (ts ! 1))"
proof -
  have "ts \<noteq> []" using assms(2) by auto
  then show ?thesis using assms(2) by (simp add: parse_coin_types_from_pool_type_def generic_args_scan [OF assms(1)] del: show_type.simps)
qed

text \<open>
  Printing a Move type and scanning it gives back exactly its top-level type arguments, however deeply they
  are nested themselves; with fewer arguments than expected the scanner reports an error.  So the coin types of a
  pool are its first two type arguments.
\<close>

theorem generic_args_roundtrip:
  assumes "wf_type (MoveType n ts)" "ts \<noteq> []"
  shows "parse_top_level_generic_args (show_type (MoveType n ts)) k =
      (if length ts < k then Err ''expected more generic parameters'' else Ok (map show_type ts)) \<and>
    (2 \<le> length ts \<longrightarrow> parse_coin_types_from_pool_type (show_type (MoveType n ts)) = Ok (show_type (ts ! 0), show_type (ts ! 1)))"
  using generic_args_scan [OF assms] generic_args_coins [OF assms(1)] by blast

theorem generic_args_roundtrip_witness:
  "parse_coin_types_from_pool_type ''0x1::pool::Pool<0x2::lp::LP<A, B>, 0x2::sui::SUI>'' = Ok (''0x2::lp::LP<A, B>'', ''0x2::sui::SUI'')"
proof -
  let ?ts = "[MoveType ''0x2::lp::LP'' [MoveType ''A'' [], MoveType ''B'' []], MoveType ''0x2::sui::SUI'' []]"
  have "wf_type (MoveType ''0x1::pool::Pool'' ?ts)" by code_simp
  from generic_args_roundtrip [OF this] show ?thesis by simp
qed

end
