(* ===== verification/Postgres.thy ===== *)
theory Postgres
  imports Progress
begin

text \<open>
  \<open>PostgresDb\<close> of \<open>src/storage/postgres.rs\<close>: the tables of \<open>create_tables\<close> as maps and row lists, one function
  per method of the storage trait.  The casts into and out of the column types, the length limits of the
  \<open>VARCHAR\<close> columns and the primary keys are those of the schema.  A statement that violates a constraint fails;
  the server's wording of such an error is abbreviated to the name of the constraint.  Every method takes the
  faults its statements meet.
\<close>

subsection \<open>Rows\<close>

type_synonym i16 = "16 word"

record token_row =
  tw_symbol :: string
  tw_name :: string
  tw_decimals :: i16

record pool_row =
  pw_dex_name :: string
  pw_coin_type_a :: string
  pw_coin_type_b :: string
  pw_sqrt_price :: string
  pw_liquidity :: string
  pw_fee_rate :: i64
  pw_is_paused :: bool

record tick_data_row =
  dw_current_tick_index :: int
  dw_tick_spacing :: i32
  dw_fee_growth_global_a :: "string option"
  dw_fee_growth_global_b :: "string option"

record tick_row =
  kw_pool_id :: string
  kw_tick_index :: int
  kw_liquidity_net :: i64

record progress_row =
  gw_discovery_source :: string
  gw_last_checkpoint :: "i64 option"
  gw_page_cursor :: "string option"
  gw_backfill_complete :: bool
  gw_bootstrap_complete :: bool
  gw_retention_limited :: bool
  gw_generation :: i64
  gw_pools_discovered :: i64

record failure_row =
  fw_dex_name :: string
  fw_event_id :: string
  fw_pool_id :: "string option"
  fw_reason :: string
  fw_attempts :: i32
  fw_updated_at :: nat

record pg_db =
  tokens_t :: "string \<rightharpoonup> token_row"
  pools_t :: "string \<rightharpoonup> pool_row"
  system_config_t :: "string \<rightharpoonup> string"
  pool_tick_data_t :: "string \<rightharpoonup> tick_data_row"
  pool_ticks_t :: "tick_row list"
  progress_t :: "string \<times> string \<rightharpoonup> progress_row"
  failures_t :: "failure_row list"

definition empty_db :: pg_db where
  "empty_db = \<lparr>tokens_t = Map.empty, pools_t = Map.empty, system_config_t = Map.empty,
     pool_tick_data_t = Map.empty, pool_ticks_t = [], progress_t = Map.empty, failures_t = []\<rparr>"

definition too_long :: "('a, string) outcome" where
  "too_long = Err ''value too long for type character varying''"

definition varchar :: "nat \<Rightarrow> string \<Rightarrow> bool" where
  "varchar n s \<longleftrightarrow> length s \<le> n"

subsection \<open>Tokens\<close>

definition token_fits :: "token \<Rightarrow> bool" where
  "token_fits t \<longleftrightarrow> varchar 255 (address t) \<and> varchar 50 (symbol t) \<and> varchar 255 (tok_name t)"

definition upsert_token :: "token \<Rightarrow> pg_db \<Rightarrow> (pg_db, string) outcome" where
  "upsert_token t db =
     (if token_fits t then
        Ok (db\<lparr>tokens_t := (tokens_t db)(address t \<mapsto>
              \<lparr>tw_symbol = symbol t, tw_name = tok_name t, tw_decimals = ucast (decimals t)\<rparr>)\<rparr>)
      else too_long)"

definition insert_token :: "fault \<Rightarrow> token \<Rightarrow> pg_db \<Rightarrow> (unit, string) outcome \<times> pg_db" where
  "insert_token fa t db = exec_stmt fa (upsert_token t db) db"

definition token_of_row :: "string \<Rightarrow> token_row \<Rightarrow> token" where
  "token_of_row addr r = \<lparr>address = addr, symbol = tw_symbol r, tok_name = tw_name r, decimals = ucast (tw_decimals r)\<rparr>"

definition get_token :: "fault \<Rightarrow> string \<Rightarrow> pg_db \<Rightarrow> (token option, string) outcome" where
  "get_token fa addr db = read_stmt fa (Ok (map_option (token_of_row addr) (tokens_t db addr)))"

text \<open>\<open>addrs\<close> are the keys of the rows in the order the server returns them.\<close>

definition list_tokens :: "fault \<Rightarrow> string list \<Rightarrow> pg_db \<Rightarrow> (token list, string) outcome" where
  "list_tokens fa addrs db =
     read_stmt fa (Ok (map (\<lambda>a. token_of_row a (the (tokens_t db a))) (filter (\<lambda>a. tokens_t db a \<noteq> None) addrs)))"

subsection \<open>Pools\<close>

definition pool_fits :: "pool_state \<Rightarrow> bool" where
  "pool_fits p \<longleftrightarrow> varchar 255 (pool_id p) \<and> varchar 100 (dex_name p) \<and>
     varchar 255 (coin_type_a p) \<and> varchar 255 (coin_type_b p) \<and>
     varchar 255 (show_word (sqrt_price p)) \<and> varchar 255 (show_word (liquidity p))"

definition upsert_pool :: "pool_state \<Rightarrow> pg_db \<Rightarrow> (pg_db, string) outcome" where
  "upsert_pool p db =
     (if pool_fits p then
        Ok (db\<lparr>pools_t := (pools_t db)(pool_id p \<mapsto>
              \<lparr>pw_dex_name = dex_name p, pw_coin_type_a = coin_type_a p, pw_coin_type_b = coin_type_b p,
               pw_sqrt_price = show_word (sqrt_price p), pw_liquidity = show_word (liquidity p),
               pw_fee_rate = fee_rate p, pw_is_paused = is_paused p\<rparr>)\<rparr>)
      else too_long)"

definition insert_pool :: "fault \<Rightarrow> pool_state \<Rightarrow> pg_db \<Rightarrow> (unit, string) outcome \<times> pg_db" where
  "insert_pool fa p db = exec_stmt fa (upsert_pool p db) db"

text \<open>\<open>fee_rate as i64\<close> keeps the bits; reading clamps a negative column to \<open>0\<close>.\<close>

definition fee_rate_val :: "i64 \<Rightarrow> u64" where
  "fee_rate_val w = (if sint w < 0 then 0 else w)"

definition pool_of_row :: "string \<Rightarrow> pool_row \<Rightarrow> (pool_state, string) outcome" where
  "pool_of_row pid r =
     bind_outcome (ok_or (parse_u128 (pw_sqrt_price r)) ''Failed to parse pool sqrt_price'') (\<lambda>sp.
     bind_outcome (ok_or (parse_u128 (pw_liquidity r)) ''Failed to parse pool liquidity'') (\<lambda>liq.
     Ok \<lparr>pool_id = pid, dex_name = pw_dex_name r, coin_type_a = pw_coin_type_a r, coin_type_b = pw_coin_type_b r,
         sqrt_price = sp, liquidity = liq, fee_rate = fee_rate_val (pw_fee_rate r), is_paused = pw_is_paused r\<rparr>))"

definition get_pool :: "fault \<Rightarrow> string \<Rightarrow> pg_db \<Rightarrow> (pool_state option, string) outcome" where
  "get_pool fa pid db =
     read_stmt fa
       (case pools_t db pid of
          None \<Rightarrow> Ok None
        | Some r \<Rightarrow> bind_outcome (pool_of_row pid r) (\<lambda>p. Ok (Some p)))"

text \<open>A row with a corrupted price or liquidity is skipped.\<close>

definition list_pools :: "fault \<Rightarrow> string list \<Rightarrow> pg_db \<Rightarrow> (pool_state list, string) outcome" where
  "list_pools fa pids db =
     read_stmt fa
       (Ok (List.map_filter (\<lambda>pid. Option.bind (pools_t db pid) (\<lambda>r. ok_option (pool_of_row pid r))) pids))"

subsection \<open>Reference gas price\<close>

definition set_reference_gas_price :: "fault \<Rightarrow> u64 \<Rightarrow> pg_db \<Rightarrow> (unit, string) outcome \<times> pg_db" where
  "set_reference_gas_price fa price db =
     exec_stmt fa (Ok (db\<lparr>system_config_t := (system_config_t db)(''reference_gas_price'' \<mapsto> show_word price)\<rparr>)) db"

definition get_reference_gas_price :: "fault \<Rightarrow> pg_db \<Rightarrow> (u64 option, string) outcome" where
  "get_reference_gas_price fa db =
     read_stmt fa
       (case system_config_t db ''reference_gas_price'' of
          None \<Rightarrow> Ok None
        | Some v \<Rightarrow> bind_outcome (ok_or (parse_u64 v) ''invalid digit found in string'') (\<lambda>p. Ok (Some p)))"

subsection \<open>Tick data\<close>

definition upsert_tick_data :: "pool_tick_data \<Rightarrow> pg_db \<Rightarrow> (pg_db, string) outcome" where
  "upsert_tick_data d db =
     (if varchar 255 (td_pool_id d) then
        Ok (db\<lparr>pool_tick_data_t := (pool_tick_data_t db)(td_pool_id d \<mapsto>
              \<lparr>dw_current_tick_index = current_tick_index d, dw_tick_spacing = tick_spacing d,
               dw_fee_growth_global_a = map_option show_word (fee_growth_global_a d),
               dw_fee_growth_global_b = map_option show_word (fee_growth_global_b d)\<rparr>)\<rparr>)
      else too_long)"

definition delete_ticks :: "string \<Rightarrow> pg_db \<Rightarrow> (pg_db, string) outcome" where
  "delete_ticks pid db = Ok (db\<lparr>pool_ticks_t := filter (\<lambda>r. kw_pool_id r \<noteq> pid) (pool_ticks_t db)\<rparr>)"

text \<open>\<open>liquidity_net as i64\<close> keeps the low 64 bits.\<close>

definition insert_tick :: "string \<Rightarrow> tick_info \<Rightarrow> pg_db \<Rightarrow> (pg_db, string) outcome" where
  "insert_tick pid t db =
     (if \<exists>r \<in> set (pool_ticks_t db). kw_pool_id r = pid \<and> kw_tick_index r = tick_index t then
        Err ''duplicate key value violates unique constraint''
      else Ok (db\<lparr>pool_ticks_t := pool_ticks_t db @
             [\<lparr>kw_pool_id = pid, kw_tick_index = tick_index t, kw_liquidity_net = word_of_int (liquidity_net t)\<rparr>]\<rparr>))"

definition tick_data_stmts :: "pool_tick_data \<Rightarrow> (pg_db \<Rightarrow> (pg_db, string) outcome) list" where
  "tick_data_stmts d = upsert_tick_data d # delete_ticks (td_pool_id d) # map (insert_tick (td_pool_id d)) (ticks d)"

definition pg_set_pool_tick_data ::
  "(nat \<Rightarrow> fault) \<Rightarrow> pool_tick_data \<Rightarrow> pg_db \<Rightarrow> (unit, string) outcome \<times> pg_db" where
  "pg_set_pool_tick_data fa d db = transaction fa (tick_data_stmts d) db"

definition optional_u128_column :: "string option \<Rightarrow> (u128 option, string) outcome" where
  "optional_u128_column v =
     (case v of
        None \<Rightarrow> Ok None
      | Some s \<Rightarrow> if s = [] then Ok None
                  else bind_outcome (ok_or (parse_u128 s) ''invalid digit found in string'') (\<lambda>w. Ok (Some w)))"

definition select_ticks :: "string \<Rightarrow> pg_db \<Rightarrow> tick_info list" where
  "select_ticks pid db =
     map (\<lambda>r. \<lparr>tick_index = kw_tick_index r, liquidity_net = sint (kw_liquidity_net r)\<rparr>)
       (sort_key kw_tick_index (filter (\<lambda>r. kw_pool_id r = pid) (pool_ticks_t db)))"

definition pg_get_pool_tick_data :: "(nat \<Rightarrow> fault) \<Rightarrow> string \<Rightarrow> pg_db \<Rightarrow> (pool_tick_data option, string) outcome" where
  "pg_get_pool_tick_data fa pid db =
     bind_outcome (read_stmt (fa 0) (Ok (pool_tick_data_t db pid))) (\<lambda>row.
       case row of
         None \<Rightarrow> Ok None
       | Some r \<Rightarrow>
           bind_outcome (optional_u128_column (dw_fee_growth_global_a r)) (\<lambda>fga.
           bind_outcome (optional_u128_column (dw_fee_growth_global_b r)) (\<lambda>fgb.
           bind_outcome (read_stmt (fa 1) (Ok (select_ticks pid db))) (\<lambda>tks.
           Ok (Some \<lparr>td_pool_id = pid, current_tick_index = dw_current_tick_index r, tick_spacing = dw_tick_spacing r,
                     ticks = tks, fee_growth_global_a = fga, fee_growth_global_b = fgb\<rparr>)))))"

subsection \<open>Discovery progress and failures\<close>

definition progress_of_row :: "string \<Rightarrow> string \<Rightarrow> progress_row \<Rightarrow> pool_discovery_progress" where
  "progress_of_row dex skey r =
     \<lparr>dp_dex_name = dex, source_key = skey,
      discovery_source = (if gw_discovery_source r = ''object_bootstrap'' then ObjectBootstrap else EventIncremental),
      last_checkpoint = gw_last_checkpoint r, page_cursor = gw_page_cursor r,
      backfill_complete = gw_backfill_complete r, bootstrap_complete = gw_bootstrap_complete r,
      retention_limited = gw_retention_limited r, generation = gw_generation r,
      pools_discovered = gw_pools_discovered r\<rparr>"

definition get_pool_discovery_progress ::
  "fault \<Rightarrow> string \<Rightarrow> string \<Rightarrow> pg_db \<Rightarrow> (pool_discovery_progress option, string) outcome" where
  "get_pool_discovery_progress fa dex skey db =
     read_stmt fa (Ok (map_option (progress_of_row dex skey) (progress_t db (dex, skey))))"

definition progress_fits :: "pool_discovery_progress \<Rightarrow> bool" where
  "progress_fits p \<longleftrightarrow> varchar 100 (dp_dex_name p) \<and> varchar 512 (source_key p)"

definition upsert_progress :: "pool_discovery_progress \<Rightarrow> pg_db \<Rightarrow> (pg_db, string) outcome" where
  "upsert_progress p db =
     (if progress_fits p then
        Ok (db\<lparr>progress_t := (progress_t db)((dp_dex_name p, source_key p) \<mapsto>
              \<lparr>gw_discovery_source = source_as_str (discovery_source p), gw_last_checkpoint = last_checkpoint p,
               gw_page_cursor = page_cursor p, gw_backfill_complete = backfill_complete p,
               gw_bootstrap_complete = bootstrap_complete p, gw_retention_limited = retention_limited p,
               gw_generation = generation p, gw_pools_discovered = pools_discovered p\<rparr>)\<rparr>)
      else too_long)"

definition failure_fits :: "pool_discovery_failure \<Rightarrow> bool" where
  "failure_fits f \<longleftrightarrow> varchar 100 (df_dex_name f) \<and> varchar 255 (event_id f) \<and>
     (case df_pool_id f of None \<Rightarrow> True | Some pid \<Rightarrow> varchar 255 pid)"

definition is_failure :: "string \<Rightarrow> string \<Rightarrow> failure_row \<Rightarrow> bool" where
  "is_failure dex eid r \<longleftrightarrow> fw_dex_name r = dex \<and> fw_event_id r = eid"

text \<open>A repeated failure keeps a known pool id, takes the new reason and counts one more attempt.\<close>

definition bump_failure :: "nat \<Rightarrow> pool_discovery_failure \<Rightarrow> failure_row \<Rightarrow> failure_row" where
  "bump_failure now f r =
     (if is_failure (df_dex_name f) (event_id f) r then
        r\<lparr>fw_pool_id := (case df_pool_id f of None \<Rightarrow> fw_pool_id r | Some pid \<Rightarrow> Some pid),
          fw_reason := reason f, fw_attempts := fw_attempts r + 1, fw_updated_at := now\<rparr>
      else r)"

definition upsert_failure :: "nat \<Rightarrow> pool_discovery_failure \<Rightarrow> pg_db \<Rightarrow> (pg_db, string) outcome" where
  "upsert_failure now f db =
     (if \<not> failure_fits f then too_long
      else case find (is_failure (df_dex_name f) (event_id f)) (failures_t db) of
        None \<Rightarrow>
          Ok (db\<lparr>failures_t := failures_t db @
             [\<lparr>fw_dex_name = df_dex_name f, fw_event_id = event_id f, fw_pool_id = df_pool_id f,
               fw_reason = reason f, fw_attempts = attempts f, fw_updated_at = now\<rparr>]\<rparr>)
      | Some r \<Rightarrow>
          if sint (fw_attempts r) = 2 ^ 31 - 1 then Err ''integer out of range''
          else Ok (db\<lparr>failures_t := map (bump_failure now f) (failures_t db)\<rparr>))"

definition delete_failures :: "string \<Rightarrow> string list \<Rightarrow> pg_db \<Rightarrow> (pg_db, string) outcome" where
  "delete_failures dex ids db =
     Ok (db\<lparr>failures_t := filter (\<lambda>r. \<not> (fw_dex_name r = dex \<and> fw_event_id r \<in> set ids)) (failures_t db)\<rparr>)"

definition commit_stmts :: "nat \<Rightarrow> discovery_page_commit \<Rightarrow> (pg_db \<Rightarrow> (pg_db, string) outcome) list" where
  "commit_stmts now c =
     upsert_progress (dc_progress c) #
     map upsert_token (dc_tokens c) @ map upsert_pool (dc_pools c) @ map (upsert_failure now) (dc_failures c) @
     (if resolved_failure_ids c = [] then []
      else [delete_failures (dp_dex_name (dc_progress c)) (resolved_failure_ids c)])"

definition commit_discovery_page ::
  "(nat \<Rightarrow> fault) \<Rightarrow> nat \<Rightarrow> discovery_page_commit \<Rightarrow> pg_db \<Rightarrow> (unit, string) outcome \<times> pg_db" where
  "commit_discovery_page fa now c db = transaction fa (commit_stmts now c) db"

definition resolve_discovery_failures ::
  "fault \<Rightarrow> string \<Rightarrow> string list \<Rightarrow> pg_db \<Rightarrow> (unit, string) outcome \<times> pg_db" where
  "resolve_discovery_failures fa dex ids db =
     (if ids = [] then (Ok (), db) else exec_stmt fa (delete_failures dex ids db) db)"

definition failure_of_row :: "failure_row \<Rightarrow> pool_discovery_failure" where
  "failure_of_row r = \<lparr>df_dex_name = fw_dex_name r, event_id = fw_event_id r, df_pool_id = fw_pool_id r,
     reason = fw_reason r, attempts = fw_attempts r\<rparr>"

definition list_pool_discovery_failures ::
  "fault \<Rightarrow> string \<Rightarrow> u32 \<Rightarrow> pg_db \<Rightarrow> (pool_discovery_failure list, string) outcome" where
  "list_pool_discovery_failures fa dex limit db =
     read_stmt fa
       (Ok (map failure_of_row
              (take (unat limit) (sort_key fw_updated_at (filter (\<lambda>r. fw_dex_name r = dex) (failures_t db))))))"

subsection \<open>Every table is a keyed store\<close>

definition put_pool :: "pool_state \<Rightarrow> pg_db \<Rightarrow> pg_db" where
  "put_pool p db = snd (insert_pool NoFault p db)"

definition look_pool :: "pg_db \<Rightarrow> string \<Rightarrow> pool_state option" where
  "look_pool db pid = (case get_pool NoFault pid db of Ok r \<Rightarrow> r | _ \<Rightarrow> None)"

definition stored_pool :: "pool_state \<Rightarrow> pool_state" where
  "stored_pool p = p\<lparr>fee_rate := fee_rate_val (fee_rate p)\<rparr>"

interpretation pg_pools: keyed_store "\<lambda>_. True" put_pool look_pool pool_id stored_pool pool_fits
  by unfold_locales
    (auto simp: put_pool_def look_pool_def stored_pool_def insert_pool_def exec_stmt_def upsert_pool_def get_pool_def
      pool_of_row_def too_long_def)

definition put_token :: "token \<Rightarrow> pg_db \<Rightarrow> pg_db" where
  "put_token t db = snd (insert_token NoFault t db)"

definition look_token :: "pg_db \<Rightarrow> string \<Rightarrow> token option" where
  "look_token db addr = (case get_token NoFault addr db of Ok r \<Rightarrow> r | _ \<Rightarrow> None)"

lemma ucast_u8_i16 [simp]: "ucast (ucast (w :: u8) :: i16) = w"
  by (rule bit_word_eqI) (simp add: bit_simps)

interpretation pg_tokens: keyed_store "\<lambda>_. True" put_token look_token address "\<lambda>t. t" token_fits
  by unfold_locales
    (auto simp: put_token_def look_token_def insert_token_def exec_stmt_def upsert_token_def get_token_def
      token_of_row_def too_long_def)

subsection \<open>Round trips\<close>

lemma insert_pool_Ok:
  "insert_pool fa p db = (Ok u, db') \<Longrightarrow> pool_fits p \<and> db' = put_pool p db"
  by (auto simp: insert_pool_def put_pool_def upsert_pool_def exec_stmt_def too_long_def split: fault.splits if_splits)

lemma look_pool_get: "look_pool db pid = Some p \<Longrightarrow> get_pool NoFault pid db = Ok (Some p)"
  by (auto simp: look_pool_def split: outcome.splits)

lemma fee_rate_val_id: "fee_rate_val w = w \<longleftrightarrow> unat w < 2 ^ 63"
proof -
  obtain k where k: "uint w = int k" "unat w = k" using uint_nat by blast
  have "uint w < 2 ^ 64" using uint_lt2p [of w] by simp
  then have "sint w < 0 \<longleftrightarrow> 2 ^ 63 \<le> unat w" unfolding sint_cases k by auto
  then show ?thesis by (auto simp: fee_rate_val_def)
qed

text \<open>
  A pool that was stored successfully reads back as itself, except that a fee rate of \<open>2 ^ 63\<close> or more
  comes back as \<open>0\<close>; other pools are untouched.
\<close>

theorem pool_roundtrip:
  assumes "insert_pool fa p db = (Ok (), db')"
  shows "get_pool NoFault (pool_id p) db' = Ok (Some (stored_pool p)) \<and>
    (stored_pool p = p \<longleftrightarrow> unat (fee_rate p) < 2 ^ 63) \<and>
    (\<forall>pid. pid \<noteq> pool_id p \<longrightarrow> get_pool NoFault pid db' = get_pool NoFault pid db)"
proof -
  have fits: "pool_fits p" and db': "db' = put_pool p db" using insert_pool_Ok [OF assms] by auto
  have "get_pool NoFault pid db' = get_pool NoFault pid db" if "pid \<noteq> pool_id p" for pid
    using that fits by (simp add: db' put_pool_def insert_pool_def upsert_pool_def get_pool_def)
  moreover have "get_pool NoFault (pool_id p) db' = Ok (Some (stored_pool p))"
    using pg_pools.look_put [OF fits] by (simp add: db' look_pool_get)
  moreover have "stored_pool p = p \<longleftrightarrow> unat (fee_rate p) < 2 ^ 63"
    by (metis fee_rate_val_id pool_state.select_convs(7) pool_state.surjective pool_state.update_convs(7) stored_pool_def)
  ultimately show ?thesis by blast
qed

text \<open>The tick rows a successful insertion loop appends.\<close>

definition row_of_tick :: "string \<Rightarrow> tick_info \<Rightarrow> tick_row" where
  "row_of_tick pid t =
     \<lparr>kw_pool_id = pid, kw_tick_index = tick_index t, kw_liquidity_net = word_of_int (liquidity_net t)\<rparr>"

definition stored_tick :: "tick_info \<Rightarrow> tick_info" where
  "stored_tick t = t\<lparr>liquidity_net := sint (word_of_int (liquidity_net t) :: i64)\<rparr>"

lemma insert_ticks_Ok:
  "all_stmts (map (insert_tick pid) ts) db = Ok db' \<Longrightarrow>
   db' = db\<lparr>pool_ticks_t := pool_ticks_t db @ map (row_of_tick pid) ts\<rparr> \<and>
   distinct (map tick_index ts) \<and>
   (\<forall>t \<in> set ts. \<forall>r \<in> set (pool_ticks_t db). \<not> (kw_pool_id r = pid \<and> kw_tick_index r = tick_index t))"
proof (induction ts arbitrary: db)
  case (Cons t ts)
  then obtain db1 where 1: "insert_tick pid t db = Ok db1" "all_stmts (map (insert_tick pid) ts) db1 = Ok db'"
    by (auto simp: outcome_simps)
  have db1: "db1 = db\<lparr>pool_ticks_t := pool_ticks_t db @ [row_of_tick pid t]\<rparr>"
    and new: "\<forall>r \<in> set (pool_ticks_t db). \<not> (kw_pool_id r = pid \<and> kw_tick_index r = tick_index t)"
    using 1(1) by (auto simp: insert_tick_def row_of_tick_def split: if_splits)
  have "row_of_tick pid t \<in> set (pool_ticks_t db1)" by (simp add: db1)
  with Cons.IH [OF 1(2)] have "tick_index t \<notin> tick_index ` set ts"
    by (fastforce simp: row_of_tick_def)
  with Cons.IH [OF 1(2)] new show ?case by (auto simp: db1)
qed simp

lemma sort_key_map_row:
  "sort_key kw_tick_index (map (row_of_tick pid) ts) = map (row_of_tick pid) (sort_key tick_index ts)"
proof (rule properties_for_sort_key)
  have "filter (\<lambda>x. c = tick_index x) (sort_key tick_index ts) = filter (\<lambda>x. c = tick_index x) ts" for c
    using sort_key_stable [of tick_index c ts] by (simp add: eq_commute)
  then show "filter (\<lambda>x. kw_tick_index k = kw_tick_index x) (map (row_of_tick pid) (sort_key tick_index ts)) =
      filter (\<lambda>x. kw_tick_index k = kw_tick_index x) (map (row_of_tick pid) ts)" for k
    by (simp add: filter_map o_def row_of_tick_def)
qed (simp_all add: o_def row_of_tick_def)

lemma select_ticks_after:
  assumes "all_stmts (tick_data_stmts d) db = Ok db'"
  shows "select_ticks (td_pool_id d) db' = map stored_tick (sort_key tick_index (ticks d)) \<and>
    distinct (map tick_index (ticks d)) \<and>
    (\<forall>pid. pid \<noteq> td_pool_id d \<longrightarrow> select_ticks pid db' = select_ticks pid db) \<and>
    pool_tick_data_t db' = (pool_tick_data_t db)(td_pool_id d \<mapsto>
      \<lparr>dw_current_tick_index = current_tick_index d, dw_tick_spacing = tick_spacing d,
       dw_fee_growth_global_a = map_option show_word (fee_growth_global_a d),
       dw_fee_growth_global_b = map_option show_word (fee_growth_global_b d)\<rparr>)"
proof -
  let ?pid = "td_pool_id d"
  obtain db1 where up: "upsert_tick_data d db = Ok db1"
    and ins: "all_stmts (map (insert_tick ?pid) (ticks d))
      (db1\<lparr>pool_ticks_t := filter (\<lambda>r. kw_pool_id r \<noteq> ?pid) (pool_ticks_t db1)\<rparr>) = Ok db'"
    using assms by (auto simp: tick_data_stmts_def delete_ticks_def outcome_simps)
  note eq = insert_ticks_Ok [OF ins]
  have rows: "pool_ticks_t db' = filter (\<lambda>r. kw_pool_id r \<noteq> ?pid) (pool_ticks_t db) @ map (row_of_tick ?pid) (ticks d)"
    using eq up by (auto simp: upsert_tick_data_def too_long_def split: if_splits)
  have own: "filter (\<lambda>r. kw_pool_id r = ?pid) (pool_ticks_t db') = map (row_of_tick ?pid) (ticks d)"
    by (auto simp: rows filter_map o_def row_of_tick_def filter_empty_conv)
  have other: "filter (\<lambda>r. kw_pool_id r = pid) (pool_ticks_t db') = filter (\<lambda>r. kw_pool_id r = pid) (pool_ticks_t db)"
    if "pid \<noteq> ?pid" for pid
    using that by (auto simp: rows filter_map o_def row_of_tick_def conj_commute intro: filter_cong)
  have "pool_tick_data_t db' = pool_tick_data_t db1" using eq by simp
  then show ?thesis
    using up eq [THEN conjunct2, THEN conjunct1]
    by (auto simp: select_ticks_def own other sort_key_map_row upsert_tick_data_def too_long_def row_of_tick_def
        stored_tick_def split: if_splits)
qed

lemma show_word_not_Nil [simp]: "show_word w \<noteq> []"
  using show_nat_head [of "unat w"] by (auto simp: show_word_def)

lemma optional_u128_column_show [simp]: "optional_u128_column (map_option show_word v) = Ok v"
  by (cases v) (simp_all add: optional_u128_column_def)

lemma stored_tick_id:
  "stored_tick t = t \<longleftrightarrow> - (2 ^ 63) \<le> liquidity_net t \<and> liquidity_net t < 2 ^ 63"
  by (cases t) (simp add: stored_tick_def signed_of_int signed_take_bit_int_eq_self_iff)

text \<open>
  C14.  Tick data stored successfully reads back with its ticks in ascending order; the stored list had no
  duplicate index, and each net liquidity comes back reduced to 64 bits, which is the identity exactly in the
  range of \<open>i64\<close>.  The tick data of other pools is untouched.
\<close>

theorem tick_data_roundtrip:
  assumes "pg_set_pool_tick_data fa d db = (Ok (), db')"
  shows "pg_get_pool_tick_data (\<lambda>_. NoFault) (td_pool_id d) db' =
      Ok (Some (d\<lparr>ticks := map stored_tick (sort_key tick_index (ticks d))\<rparr>)) \<and>
    distinct (map tick_index (ticks d)) \<and>
    (\<forall>t. stored_tick t = t \<longleftrightarrow> - (2 ^ 63) \<le> liquidity_net t \<and> liquidity_net t < 2 ^ 63) \<and>
    (\<forall>pid. pid \<noteq> td_pool_id d \<longrightarrow>
       pg_get_pool_tick_data (\<lambda>_. NoFault) pid db' = pg_get_pool_tick_data (\<lambda>_. NoFault) pid db)"
proof -
  have "all_stmts (tick_data_stmts d) db = Ok db'"
    using transaction_atomic(2) [OF assms [unfolded pg_set_pool_tick_data_def]] by simp
  from select_ticks_after [OF this] show ?thesis
    by (auto simp: pg_get_pool_tick_data_def stored_tick_id split: option.splits)
qed

subsection \<open>Page commits are atomic\<close>

lemma stmts_frame:
  assumes step: "\<And>x s s'. f x s = Ok s' \<Longrightarrow> sel s' = sel s"
  shows "all_stmts (map f xs) s = Ok s' \<Longrightarrow> sel s' = sel s"
proof (induction xs arbitrary: s)
  case (Cons x xs)
  then show ?case using step [of x s] by (fastforce simp: outcome_simps)
qed simp

lemma stmts_fold:
  assumes "\<And>x s s'. f x s = Ok s' \<Longrightarrow> ok x \<and> s' = g x s"
    and "all_stmts (map f xs) s = Ok s'"
  shows "list_all ok xs \<and> s' = fold g xs s"
  using assms by (induction xs arbitrary: s) (auto simp: outcome_simps)

lemma upsert_pool_Ok: "upsert_pool p db = Ok db' \<Longrightarrow> pool_fits p \<and> db' = put_pool p db"
  by (auto simp: put_pool_def insert_pool_def exec_stmt_def upsert_pool_def too_long_def split: if_splits)

lemma upsert_token_Ok: "upsert_token t db = Ok db' \<Longrightarrow> token_fits t \<and> db' = put_token t db"
  by (auto simp: put_token_def insert_token_def exec_stmt_def upsert_token_def too_long_def split: if_splits)

lemma upsert_frames:
  "upsert_pool p db = Ok db' \<Longrightarrow> tokens_t db' = tokens_t db \<and> progress_t db' = progress_t db"
  "upsert_token t db = Ok db' \<Longrightarrow> pools_t db' = pools_t db \<and> progress_t db' = progress_t db"
  "upsert_failure now f db = Ok db' \<Longrightarrow>
     tokens_t db' = tokens_t db \<and> pools_t db' = pools_t db \<and> progress_t db' = progress_t db"
  "delete_failures dex ids db = Ok db' \<Longrightarrow>
     tokens_t db' = tokens_t db \<and> pools_t db' = pools_t db \<and> progress_t db' = progress_t db"
  by (auto simp: upsert_pool_def upsert_token_def upsert_failure_def delete_failures_def too_long_def
      split: if_splits option.splits)

lemma look_pool_cong: "pools_t db = pools_t db' \<Longrightarrow> look_pool db = look_pool db'"
  by (simp add: look_pool_def get_pool_def fun_eq_iff)

lemma look_token_cong: "tokens_t db = tokens_t db' \<Longrightarrow> look_token db = look_token db'"
  by (simp add: look_token_def get_token_def fun_eq_iff)

lemma progress_stored:
  "upsert_progress p db = Ok db' \<Longrightarrow>
   map_option (progress_of_row (dp_dex_name p) (source_key p)) (progress_t db' (dp_dex_name p, source_key p)) = Some p \<and>
   pools_t db' = pools_t db \<and> tokens_t db' = tokens_t db"
  by (cases "discovery_source p")
    (auto simp: upsert_progress_def progress_of_row_def too_long_def split: if_splits)

text \<open>
  The row of a failure key after the failures \<open>fs\<close> with that key: the last reason, the last known pool id, one attempt more
  per failure, the time of the commit.
\<close>

definition failure_at :: "pg_db \<Rightarrow> string \<Rightarrow> string \<Rightarrow> failure_row option" where
  "failure_at db dex eid = find (is_failure dex eid) (failures_t db)"

definition last_known :: "'a option list \<Rightarrow> 'a option \<Rightarrow> 'a option" where
  "last_known xs d = fold (\<lambda>x acc. if x = None then acc else x) xs d"

definition failure_outcome :: "nat \<Rightarrow> pool_discovery_failure list \<Rightarrow> failure_row option \<Rightarrow> failure_row option" where
  "failure_outcome now fs old =
     (case fs of
        [] \<Rightarrow> old
      | f # rest \<Rightarrow> Some
          \<lparr>fw_dex_name = df_dex_name f, fw_event_id = event_id f,
           fw_pool_id = last_known (map df_pool_id fs) (Option.bind old fw_pool_id), fw_reason = reason (last fs),
           fw_attempts = (case old of None \<Rightarrow> attempts f + of_nat (length rest) | Some r \<Rightarrow> fw_attempts r + of_nat (length fs)),
           fw_updated_at = now\<rparr>)"

definition failures_of :: "string \<Rightarrow> string \<Rightarrow> pool_discovery_failure list \<Rightarrow> pool_discovery_failure list" where
  "failures_of dex eid fs = filter (\<lambda>f. df_dex_name f = dex \<and> event_id f = eid) fs"

lemma failures_of_key: "f \<in> set (failures_of dex eid fs) \<Longrightarrow> df_dex_name f = dex \<and> event_id f = eid"
  by (auto simp: failures_of_def)

lemma failure_outcome_step:
  assumes "df_dex_name f = dex" "event_id f = eid" "\<forall>g \<in> set fs. df_dex_name g = dex \<and> event_id g = eid"
  shows "failure_outcome now (f # fs) old = failure_outcome now fs (failure_outcome now [f] old)"
  using assms by (cases fs) (auto simp: failure_outcome_def last_known_def algebra_simps split: option.splits)

lemma find_map_key: "(\<And>r. P (g r) = P r) \<Longrightarrow> find P (map g rs) = map_option g (find P rs)"
  by (induction rs) auto

lemma find_append_one: "find P (xs @ [x]) = (case find P xs of None \<Rightarrow> (if P x then Some x else None) | Some y \<Rightarrow> Some y)"
  by (induction xs) auto

lemma upsert_failure_at:
  assumes "upsert_failure now f db = Ok db'"
  shows "failure_at db' dex eid = failure_outcome now (failures_of dex eid [f]) (failure_at db dex eid)"
proof (cases "find (is_failure (df_dex_name f) (event_id f)) (failures_t db)")
  case None
  then show ?thesis
    using assms by (auto simp: upsert_failure_def failure_at_def find_append_one failures_of_def failure_outcome_def last_known_def
        is_failure_def too_long_def split: if_splits option.splits)
next
  case (Some r)
  have keys: "is_failure d i (bump_failure now f r) = is_failure d i r" for d i r by (simp add: bump_failure_def is_failure_def)
  have "failures_t db' = map (bump_failure now f) (failures_t db)"
    using assms Some by (auto simp: upsert_failure_def too_long_def split: if_splits)
  then have "failure_at db' dex eid = map_option (bump_failure now f) (failure_at db dex eid)"
    by (simp add: failure_at_def find_map_key keys)
  moreover have "is_failure dex eid x" if "failure_at db dex eid = Some x" for x
    using that by (auto simp: failure_at_def find_Some_iff)
  ultimately show ?thesis
    using Some by (cases "failure_at db dex eid")
      (auto simp: failures_of_def failure_outcome_def last_known_def bump_failure_def is_failure_def failure_at_def)
qed

lemma upsert_failures_at:
  "all_stmts (map (upsert_failure now) fs) db = Ok db' \<Longrightarrow>
   failure_at db' dex eid = failure_outcome now (failures_of dex eid fs) (failure_at db dex eid)"
proof (induction fs arbitrary: db)
  case Nil
  then show ?case by (simp add: failures_of_def failure_outcome_def)
next
  case (Cons f fs)
  then obtain db1 where db1: "upsert_failure now f db = Ok db1" "all_stmts (map (upsert_failure now) fs) db1 = Ok db'"
    by (auto simp: outcome_simps)
  have rest: "\<forall>g \<in> set (failures_of dex eid fs). df_dex_name g = dex \<and> event_id g = eid" using failures_of_key by blast
  from Cons.IH [OF db1(2)] upsert_failure_at [OF db1(1)] show ?case
    using failure_outcome_step [OF _ _ rest, of f now "failure_at db dex eid"]
    by (cases "df_dex_name f = dex \<and> event_id f = eid") (auto simp: failures_of_def failure_outcome_def)
qed

lemma delete_failures_at:
  "delete_failures dex ids db = Ok db' \<Longrightarrow> failure_at db' d eid = (if d = dex \<and> eid \<in> set ids then None else failure_at db d eid)"
proof -
  assume "delete_failures dex ids db = Ok db'"
  then have rows: "failures_t db' = filter (\<lambda>r. \<not> (fw_dex_name r = dex \<and> fw_event_id r \<in> set ids)) (failures_t db)"
    by (auto simp: delete_failures_def)
  have "find (is_failure d eid) (filter (\<lambda>r. \<not> (fw_dex_name r = dex \<and> fw_event_id r \<in> set ids)) rs) =
      (if d = dex \<and> eid \<in> set ids then None else find (is_failure d eid) rs)" for rs
    by (induction rs) (auto simp: is_failure_def [of _ _ "_ :: failure_row"] cong: if_cong)
  then show ?thesis by (simp add: failure_at_def rows)
qed

text \<open>The effect of a page commit, table by table.\<close>

definition committed :: "nat \<Rightarrow> discovery_page_commit \<Rightarrow> pg_db \<Rightarrow> pg_db \<Rightarrow> bool" where
  "committed now c db db' \<longleftrightarrow>
     get_pool_discovery_progress NoFault (dp_dex_name (dc_progress c)) (source_key (dc_progress c)) db' =
       Ok (Some (dc_progress c)) \<and>
     (\<forall>pid. look_pool db' pid =
        (case filter (\<lambda>p. pool_id p = pid) (dc_pools c) of
           [] \<Rightarrow> look_pool db pid | p # ps \<Rightarrow> Some (stored_pool (last (p # ps))))) \<and>
     (\<forall>addr. look_token db' addr =
        (case filter (\<lambda>t. address t = addr) (dc_tokens c) of
           [] \<Rightarrow> look_token db addr | t # ts \<Rightarrow> Some (last (t # ts)))) \<and>
     (\<forall>dex eid. failure_at db' dex eid =
        (if dex = dp_dex_name (dc_progress c) \<and> eid \<in> set (resolved_failure_ids c) then None
         else failure_outcome now (failures_of dex eid (dc_failures c)) (failure_at db dex eid)))"

lemma commit_stmts_committed:
  assumes "all_stmts (commit_stmts now c) db = Ok db'"
  shows "committed now c db db'"
proof -
  let ?dex = "dp_dex_name (dc_progress c)" and ?ids = "resolved_failure_ids c"
  obtain db1 db2 db3 db4 where
    s1: "upsert_progress (dc_progress c) db = Ok db1" and
    s2: "all_stmts (map upsert_token (dc_tokens c)) db1 = Ok db2" and
    s3: "all_stmts (map upsert_pool (dc_pools c)) db2 = Ok db3" and
    s4: "all_stmts (map (upsert_failure now) (dc_failures c)) db3 = Ok db4" and
    s5: "all_stmts (if ?ids = [] then [] else [delete_failures ?dex ?ids]) db4 = Ok db'"
    using assms by (auto simp: commit_stmts_def all_stmts_append outcome_simps)
  have f2: "pools_t db2 = pools_t db1" "progress_t db2 = progress_t db1"
    using upsert_frames(2) by (blast intro: stmts_frame [OF _ s2])+
  have t3: "tokens_t db3 = tokens_t db2" "progress_t db3 = progress_t db2"
    using upsert_frames(1) by (blast intro: stmts_frame [OF _ s3])+
  have f4: "tokens_t db4 = tokens_t db3" "pools_t db4 = pools_t db3" "progress_t db4 = progress_t db3"
    using upsert_frames(3) by (blast intro: stmts_frame [OF _ s4])+
  have f5: "tokens_t db' = tokens_t db4" "pools_t db' = pools_t db4" "progress_t db' = progress_t db4"
    and dels: "failure_at db' d eid = (if d = ?dex \<and> eid \<in> set ?ids then None else failure_at db4 d eid)" for d eid
    using s5 upsert_frames(4) delete_failures_at [of ?dex ?ids db4 db'] by (auto simp: outcome_simps split: if_splits)
  have f3: "failures_t db3 = failures_t db"
  proof -
    have "failures_t db1 = failures_t db" using s1 by (auto simp: upsert_progress_def too_long_def split: if_splits)
    moreover have "failures_t db2 = failures_t db1"
      by (rule stmts_frame [OF _ s2]) (auto simp: upsert_token_def too_long_def split: if_splits)
    moreover have "failures_t db3 = failures_t db2"
      by (rule stmts_frame [OF _ s3]) (auto simp: upsert_pool_def too_long_def split: if_splits)
    ultimately show ?thesis by simp
  qed
  have fails: "failure_at db4 d eid = failure_outcome now (failures_of d eid (dc_failures c)) (failure_at db d eid)" for d eid
    using upsert_failures_at [OF s4] f3 by (simp add: failure_at_def)
  note p1 = progress_stored [OF s1]
  have toks: "list_all token_fits (dc_tokens c) \<and> db2 = fold put_token (dc_tokens c) db1"
    by (rule stmts_fold [OF upsert_token_Ok s2])
  have pls: "list_all pool_fits (dc_pools c) \<and> db3 = fold put_pool (dc_pools c) db2"
    by (rule stmts_fold [OF upsert_pool_Ok s3])
  have "look_pool db' = look_pool db3" "look_pool db2 = look_pool db"
    using f2 f4 f5 p1 by (auto intro: look_pool_cong)
  moreover have "look_token db' = look_token db2" "look_token db1 = look_token db"
    using t3 f4 f5 p1 by (auto intro: look_token_cong)
  moreover have "progress_t db' = progress_t db1" using f2 t3 f4 f5 by simp
  ultimately show ?thesis
    using p1 toks pls
    by (simp add: committed_def dels fails get_pool_discovery_progress_def pg_pools.look_fold pg_tokens.look_fold
        cong: list.case_cong)
qed

text \<open>
  C15.  Committing a discovery page is all-or-nothing under every failure of a statement or of the connection:
  afterwards the database is unchanged or holds the whole page, and success means the latter.  The whole page is its
  progress row, every pool and token with the last one winning, every failure (a new row, or the old one with the new
  reason, the last known pool id and one attempt more), and no row for a failure it resolves; all other pools, tokens and
  failures are as before.
\<close>

theorem commit_page_atomic:
  assumes "commit_discovery_page fa now c db = (r, db')"
  shows "(db' = db \<or> committed now c db db') \<and> (r = Ok () \<longrightarrow> committed now c db db')"
  using transaction_atomic [OF assms [unfolded commit_discovery_page_def]] commit_stmts_committed by blast

subsection \<open>Witnesses\<close>

definition pg_pool :: pool_state where
  "pg_pool = \<lparr>pool_id = ''0xp'', dex_name = ''Cetus'', coin_type_a = ''A'', coin_type_b = ''B'',
     sqrt_price = 79, liquidity = 1000, fee_rate = 2 ^ 63, is_paused = False\<rparr>"

theorem pool_roundtrip_witness:
  "\<exists>db'. insert_pool NoFault pg_pool empty_db = (Ok (), db') \<and>
     get_pool NoFault ''0xp'' db' = Ok (Some (pg_pool\<lparr>fee_rate := 0\<rparr>))"
proof -
  obtain db' where i: "insert_pool NoFault pg_pool empty_db = (Ok (), db')"
    by (simp add: insert_pool_def upsert_pool_def pool_fits_def varchar_def pg_pool_def show_word_def show_nat.simps)
  have "stored_pool pg_pool = pg_pool\<lparr>fee_rate := 0\<rparr>" "pool_id pg_pool = ''0xp''"
    by (simp_all add: stored_pool_def fee_rate_val_def pg_pool_def)
  with i pool_roundtrip [OF i] show ?thesis by auto
qed

definition pg_ticks :: pool_tick_data where
  "pg_ticks = \<lparr>td_pool_id = ''0xp'', current_tick_index = 5, tick_spacing = 2,
     ticks = [\<lparr>tick_index = 10, liquidity_net = 2 ^ 63\<rparr>, \<lparr>tick_index = - 4, liquidity_net = 7\<rparr>],
     fee_growth_global_a = Some 3, fee_growth_global_b = None\<rparr>"

theorem tick_data_roundtrip_witness:
  "\<exists>db'. pg_set_pool_tick_data (\<lambda>_. NoFault) pg_ticks empty_db = (Ok (), db') \<and>
     pg_get_pool_tick_data (\<lambda>_. NoFault) ''0xp'' db' =
       Ok (Some (pg_ticks\<lparr>ticks := [\<lparr>tick_index = - 4, liquidity_net = 7\<rparr>, \<lparr>tick_index = 10, liquidity_net = - (2 ^ 63)\<rparr>]\<rparr>))"
proof -
  obtain db' where i: "pg_set_pool_tick_data (\<lambda>_. NoFault) pg_ticks empty_db = (Ok (), db')"
    by (simp add: pg_set_pool_tick_data_def transaction_no_fault tick_data_stmts_def upsert_tick_data_def varchar_def
        pg_ticks_def delete_ticks_def insert_tick_def empty_db_def)
  from tick_data_roundtrip [OF i] i show ?thesis
    by (auto simp: pg_ticks_def stored_tick_def)
qed

definition pg_page :: discovery_page_commit where
  "pg_page = commit_default\<lparr>dc_pools := [pg_pool],
     dc_failures := [\<lparr>df_dex_name = ''Cetus'', event_id = ''e1'', df_pool_id = None, reason = ''down'', attempts = 1\<rparr>]\<rparr>"

theorem commit_page_atomic_witness:
  "\<exists>db'. commit_discovery_page (\<lambda>_. NoFault) 7 pg_page empty_db = (Ok (), db') \<and> committed 7 pg_page empty_db db'"
proof -
  have "\<exists>db'. all_stmts (commit_stmts 7 pg_page) empty_db = Ok db'"
    by (simp add: pg_page_def commit_default_def commit_stmts_def new_object_bootstrap_def upsert_progress_def progress_fits_def varchar_def
        pg_pool_def upsert_pool_def pool_fits_def show_word_def show_nat.simps upsert_failure_def failure_fits_def empty_db_def
        OBJECT_BOOTSTRAP_SOURCE_KEY_def)
  then obtain db' where "commit_discovery_page (\<lambda>_. NoFault) 7 pg_page empty_db = (Ok (), db')"
    by (auto simp: commit_discovery_page_def transaction_no_fault)
  with commit_page_atomic [OF this] show ?thesis by blast
qed

end
