(* ===== verification/Queue.thy ===== *)
theory Queue
  imports Services
begin

text \<open>
  The write queue and its dead-letter queue, \<open>src/queue.rs\<close>: Redis lists of serialised messages.  \<open>RPUSH\<close> and
  \<open>LPOP\<close> may be refused or lose their reply; serialisation is a codec whose round trip (\<open>codec_ok\<close>) is what
  \<open>serde_json\<close> documents for these types.  The locale \<open>fifo_queue\<close> is the contract of \<open>MessageQueueTrait\<close>;
  both queues are interpreted on the Redis operations.
\<close>

subsection \<open>Messages\<close>

record swap_event =
  se_event_id :: string
  se_timestamp :: u64
  se_pool_id :: string
  se_dex_name :: string
  se_sender :: string
  se_amount_in :: string
  se_amount_out :: string
  se_coin_in :: string
  se_coin_out :: string

datatype queue_message =
    PoolStateUpdate pool_state
  | PoolTickDataUpdate pool_tick_data
  | SwapEventLog swap_event

record dlq_entry =
  dq_message :: queue_message
  failure_reason :: string
  failed_at_unix :: u64
  dq_attempts :: u32

record ('a, 't) codec =
  enc :: "'a \<Rightarrow> ('t, string) outcome"
  dec :: "'t \<Rightarrow> ('a, string) outcome"

definition codec_ok :: "('a, 't) codec \<Rightarrow> bool" where
  "codec_ok c \<longleftrightarrow> (\<forall>x. \<exists>t. enc c x = Ok t \<and> dec c t = Ok x)"

record 't queue_env =
  msg_codec :: "(queue_message, 't) codec"
  dlq_codec :: "(dlq_entry, 't) codec"

type_synonym 't redis_lists = "string \<Rightarrow> 't list"

subsection \<open>Redis list commands\<close>

definition rpush_as ::
  "('a, 't) codec \<Rightarrow> string \<Rightarrow> fault \<Rightarrow> string \<Rightarrow> 'a \<Rightarrow> 't redis_lists \<Rightarrow> (unit, string) outcome \<times> 't redis_lists" where
  "rpush_as c label fa q x ls =
     (case enc c x of
        Ok t \<Rightarrow> (case exec_stmt fa (Ok (ls(q := ls q @ [t]))) ls of
                  (r, ls') \<Rightarrow> (map_err (\<lambda>e. label @ e) r, ls'))
      | Err e \<Rightarrow> (Err e, ls)
      | Panic m \<Rightarrow> (Panic m, ls))"

definition lpop :: "fault \<Rightarrow> string \<Rightarrow> 't redis_lists \<Rightarrow> ('t option, string) outcome \<times> 't redis_lists" where
  "lpop fa q ls =
     (case fa of
        NoFault \<Rightarrow> (case ls q of [] \<Rightarrow> (Ok None, ls) | t # ts \<Rightarrow> (Ok (Some t), ls(q := ts)))
      | Refused e \<Rightarrow> (Err e, ls)
      | LostReply e \<Rightarrow> (Err e, ls(q := tl (ls q))))"

definition lpop_as ::
  "('a, 't) codec \<Rightarrow> string \<Rightarrow> fault \<Rightarrow> string \<Rightarrow> 't redis_lists \<Rightarrow> ('a option, string) outcome \<times> 't redis_lists" where
  "lpop_as c label fa q ls =
     (case lpop fa q ls of
        (Ok (Some t), ls') \<Rightarrow> (bind_outcome (dec c t) (\<lambda>x. Ok (Some x)), ls')
      | (Ok None, ls') \<Rightarrow> (Ok None, ls')
      | (Err e, ls') \<Rightarrow> (Err (label @ e), ls')
      | (Panic m, ls') \<Rightarrow> (Panic m, ls'))"

subsection \<open>The queue operations\<close>

definition publish where
  "publish env = rpush_as (msg_codec env) ''Redis rpush error: ''"

definition consume where
  "consume env = lpop_as (msg_codec env) ''Redis lpop error: ''"

definition push_dlq where
  "push_dlq env = rpush_as (dlq_codec env) ''Redis dlq rpush error: ''"

definition pop_dlq where
  "pop_dlq env = lpop_as (dlq_codec env) ''Redis dlq lpop error: ''"

definition dlq_len :: "fault \<Rightarrow> string \<Rightarrow> 't redis_lists \<Rightarrow> (nat, string) outcome" where
  "dlq_len fa q ls = map_err (\<lambda>e. ''Redis dlq llen error: '' @ e) (read_stmt fa (Ok (length (ls q))))"

text \<open>\<open>replay_dlq\<close>: at most \<open>limit\<close> entries, oldest first; \<open>fa n\<close> are the faults of the \<open>n\<close>-th pop and publish.\<close>

fun replay_loop ::
  "'t queue_env \<Rightarrow> (nat \<Rightarrow> fault \<times> fault) \<Rightarrow> string \<Rightarrow> string \<Rightarrow> nat \<Rightarrow> nat \<Rightarrow> 't redis_lists \<Rightarrow>
   (nat, string) outcome \<times> 't redis_lists" where
  "replay_loop env fa main dlq 0 replayed ls = (Ok replayed, ls)"
| "replay_loop env fa main dlq (Suc n) replayed ls =
     (case pop_dlq env (fst (fa replayed)) dlq ls of
        (Ok (Some entry), ls1) \<Rightarrow>
          (case publish env (snd (fa replayed)) main (dq_message entry) ls1 of
             (Ok u, ls2) \<Rightarrow> replay_loop env fa main dlq n (Suc replayed) ls2
           | (Err e, ls2) \<Rightarrow> (Err e, ls2)
           | (Panic m, ls2) \<Rightarrow> (Panic m, ls2))
      | (Ok None, ls1) \<Rightarrow> (Ok replayed, ls1)
      | (Err e, ls1) \<Rightarrow> (Err e, ls1)
      | (Panic m, ls1) \<Rightarrow> (Panic m, ls1))"

definition replay_dlq where
  "replay_dlq env fa main dlq limit ls = replay_loop env fa main dlq limit 0 ls"

subsection \<open>The contract of a queue\<close>

text \<open>
  \<open>view e s q\<close> lists what the queue \<open>q\<close> holds, oldest first, an undecodable element as \<open>None\<close>.  A push that
  returns an error may or may not have appended; a pop that returns an error may or may not have removed the head.
\<close>

locale fifo_queue =
  fixes ok :: "'e \<Rightarrow> bool"
    and view :: "'e \<Rightarrow> 'q \<Rightarrow> string \<Rightarrow> 'm option list"
    and push :: "'e \<Rightarrow> fault \<Rightarrow> string \<Rightarrow> 'm \<Rightarrow> 'q \<Rightarrow> (unit, string) outcome \<times> 'q"
    and pop :: "'e \<Rightarrow> fault \<Rightarrow> string \<Rightarrow> 'q \<Rightarrow> ('m option, string) outcome \<times> 'q"
  assumes push_view: "ok e \<Longrightarrow> push e fa q m s = (r, s') \<Longrightarrow>
      view e s' q = view e s q @ [Some m] \<or> (view e s' q = view e s q \<and> r \<noteq> Ok ())"
    and push_fine: "ok e \<Longrightarrow> fst (push e NoFault q m s) = Ok ()"
    and push_frame: "push e fa q m s = (r, s') \<Longrightarrow> q' \<noteq> q \<Longrightarrow> view e s' q' = view e s q'"
    and pop_Some: "pop e fa q s = (Ok (Some m), s') \<Longrightarrow> view e s q = Some m # view e s' q"
    and pop_None: "pop e fa q s = (Ok None, s') \<Longrightarrow> view e s q = [] \<and> view e s' q = []"
    and pop_failed: "pop e fa q s = (o', s') \<Longrightarrow> \<not> is_ok o' \<Longrightarrow>
      view e s' q = view e s q \<or> view e s' q = tl (view e s q)"
    and pop_fine: "view e s q = Some m # ms \<Longrightarrow> fst (pop e NoFault q s) = Ok (Some m)"
    and pop_empty: "view e s q = [] \<Longrightarrow> fst (pop e NoFault q s) = Ok None"
    and pop_frame: "pop e fa q s = (o', s') \<Longrightarrow> q' \<noteq> q \<Longrightarrow> view e s' q' = view e s q'"
begin

lemma push_fine_view: "ok e \<Longrightarrow> view e (snd (push e NoFault q m s)) q = view e s q @ [Some m]"
  using push_view [of e NoFault q m s] push_fine [of e q m s] by (metis prod.collapse)

text \<open>Pushing a list and popping it again gives the list back: first in, first out.\<close>

lemma pushed_view:
  "ok e \<Longrightarrow> view e (fold (\<lambda>m s. snd (push e NoFault q m s)) ms s) q = view e s q @ map Some ms"
  by (induction ms arbitrary: s) (simp_all add: push_fine_view)

lemma pop_fine_view:
  assumes "view e s q = Some m # ms"
  shows "view e (snd (pop e NoFault q s)) q = ms"
  using pop_Some [of e NoFault q s m "snd (pop e NoFault q s)"] pop_fine [OF assms] assms
  by (metis list.inject prod.collapse)

end

subsection \<open>Both Redis queues keep the contract\<close>

definition list_view :: "('a, 't) codec \<Rightarrow> 't redis_lists \<Rightarrow> string \<Rightarrow> 'a option list" where
  "list_view c ls q = map (\<lambda>t. ok_option (dec c t)) (ls q)"

lemma rpush_as_cases:
  assumes "codec_ok c" "rpush_as c label fa q x ls = (r, ls')"
  shows "list_view c ls' q = list_view c ls q @ [Some x] \<or> (ls' = ls \<and> r \<noteq> Ok ())"
proof -
  obtain t where "enc c x = Ok t" "dec c t = Ok x" using assms(1) by (auto simp: codec_ok_def)
  with assms(2) show ?thesis
    by (auto simp: rpush_as_def list_view_def exec_stmt_def split: prod.splits fault.splits outcome.splits)
qed

lemma rpush_as_fine: "codec_ok c \<Longrightarrow> fst (rpush_as c label NoFault q x ls) = Ok ()"
proof -
  assume "codec_ok c"
  then obtain t where "enc c x = Ok t" by (auto simp: codec_ok_def)
  then show ?thesis by (simp add: rpush_as_def exec_stmt_def)
qed

lemma rpush_as_no_panic: "codec_ok c \<Longrightarrow> rpush_as c label fa q x ls \<noteq> (Panic m, ls')"
proof -
  assume "codec_ok c"
  then obtain t where "enc c x = Ok t" by (auto simp: codec_ok_def)
  then show ?thesis by (auto simp: rpush_as_def exec_stmt_def split: fault.splits)
qed

lemma rpush_as_frame: "rpush_as c label fa q x ls = (r, ls') \<Longrightarrow> q' \<noteq> q \<Longrightarrow> ls' q' = ls q'"
  by (auto simp: rpush_as_def exec_stmt_def split: outcome.splits prod.splits fault.splits)

lemma lpop_as_cases:
  assumes "lpop_as c label fa q ls = (r, ls')"
  shows "r = Ok (Some x) \<Longrightarrow> list_view c ls q = Some x # list_view c ls' q"
    and "r = Ok None \<Longrightarrow> ls q = [] \<and> ls' = ls"
    and "ls' q = ls q \<or> ls' q = tl (ls q)"
    and "q' \<noteq> q \<Longrightarrow> ls' q' = ls q'"
  using assms
  by (auto simp: lpop_as_def lpop_def list_view_def outcome_simps
      split: prod.splits outcome.splits option.splits fault.splits list.splits)

lemma lpop_as_fine:
  "list_view c ls q = Some x # ms \<Longrightarrow> fst (lpop_as c label NoFault q ls) = Ok (Some x)"
  "list_view c ls q = [] \<Longrightarrow> fst (lpop_as c label NoFault q ls) = Ok None"
  by (auto simp: lpop_as_def lpop_def list_view_def outcome_simps split: list.splits)

lemma redis_fifo:
  fixes sel :: "'e \<Rightarrow> ('a, 't) codec"
  assumes "\<And>e. ok e \<Longrightarrow> codec_ok (sel e)"
  shows "fifo_queue ok (\<lambda>e. list_view (sel e)) (\<lambda>e. rpush_as (sel e) label) (\<lambda>e. lpop_as (sel e) label')"
proof (unfold_locales, goal_cases)
  case (1 e fa q m s r s')
  then show ?case using rpush_as_cases [OF assms [OF 1(1)] 1(2)] by (auto simp: list_view_def)
next
  case (2 e q m s)
  then show ?case using assms by (blast intro: rpush_as_fine)
next
  case (3 e fa q m s r s' q')
  then show ?case by (auto simp: list_view_def dest: rpush_as_frame)
next
  case (4 e fa q s m s')
  then show ?case using lpop_as_cases(1) [OF 4] by simp
next
  case (5 e fa q s s')
  then show ?case using lpop_as_cases(2) [OF 5] by (simp add: list_view_def)
next
  case (6 e fa q s r s')
  then show ?case using lpop_as_cases(3) [OF 6(1)] by (auto simp: list_view_def map_tl)
next
  case (7 e s q m ms)
  then show ?case by (rule lpop_as_fine)
next
  case (8 e s q)
  then show ?case by (rule lpop_as_fine)
next
  case (9 e fa q s r s' q')
  then show ?case using lpop_as_cases(4) [OF 9] by (simp add: list_view_def)
qed

definition msgs :: "'t queue_env \<Rightarrow> 't redis_lists \<Rightarrow> string \<Rightarrow> queue_message option list" where
  "msgs env = list_view (msg_codec env)"

definition dlq_contents :: "'t queue_env \<Rightarrow> 't redis_lists \<Rightarrow> string \<Rightarrow> dlq_entry option list" where
  "dlq_contents env = list_view (dlq_codec env)"

definition env_ok :: "'t queue_env \<Rightarrow> bool" where
  "env_ok env \<longleftrightarrow> codec_ok (msg_codec env) \<and> codec_ok (dlq_codec env)"

lemmas queue_defs = publish_def consume_def push_dlq_def pop_dlq_def msgs_def dlq_contents_def env_ok_def

interpretation main_queue: fifo_queue env_ok msgs publish consume
  unfolding publish_def [abs_def] consume_def [abs_def] msgs_def [abs_def]
  by (rule redis_fifo) (simp add: env_ok_def)

interpretation dead_letters: fifo_queue env_ok dlq_contents push_dlq pop_dlq
  unfolding push_dlq_def [abs_def] pop_dlq_def [abs_def] dlq_contents_def [abs_def]
  by (rule redis_fifo) (simp add: env_ok_def)

text \<open>An operation on one list leaves every view of the other lists alone.\<close>

lemma cross_frames:
  "publish env fa q m ls = (r, ls') \<Longrightarrow> q' \<noteq> q \<Longrightarrow> dlq_contents env ls' q' = dlq_contents env ls q'"
  "push_dlq env fa q x ls = (r, ls') \<Longrightarrow> q' \<noteq> q \<Longrightarrow> msgs env ls' q' = msgs env ls q'"
  by (auto simp: queue_defs list_view_def dest: rpush_as_frame)

lemma cross_pop_frames:
  "consume env fa q ls = (r, ls') \<Longrightarrow> q' \<noteq> q \<Longrightarrow> dlq_contents env ls' q' = dlq_contents env ls q'"
  "pop_dlq env fa q ls = (r', ls') \<Longrightarrow> q' \<noteq> q \<Longrightarrow> msgs env ls' q' = msgs env ls q'"
  by (simp_all add: queue_defs list_view_def lpop_as_cases(4))

subsection \<open>Replaying dead letters\<close>

text \<open>
  What a replay has done when it stops: \<open>k\<close> entries moved in order, \<open>l\<close> entries lost.
\<close>

definition replayed ::
  "'t queue_env \<Rightarrow> string \<Rightarrow> string \<Rightarrow> nat \<Rightarrow> nat \<Rightarrow> 't redis_lists \<Rightarrow> 't redis_lists \<Rightarrow> bool" where
  "replayed env main dlq k l ls ls' \<longleftrightarrow>
     (\<exists>es. map Some es = take k (dlq_contents env ls dlq) \<and> k \<le> length (dlq_contents env ls dlq) \<and>
        msgs env ls' main = msgs env ls main @ map (Some \<circ> dq_message) es) \<and>
     dlq_contents env ls' dlq = drop (k + l) (dlq_contents env ls dlq)"

lemma replayed_Suc:
  assumes pop: "pop_dlq env fa dlq ls = (Ok (Some x), ls1)"
    and view: "msgs env ls2 main = msgs env ls1 main @ [Some (dq_message x)]" "dlq_contents env ls2 dlq = dlq_contents env ls1 dlq"
    and ne: "main \<noteq> dlq" and rest: "replayed env main dlq k l ls2 ls'"
  shows "replayed env main dlq (Suc k) l ls ls'"
proof -
  have e: "dlq_contents env ls dlq = Some x # dlq_contents env ls2 dlq"
    using dead_letters.pop_Some [OF pop] view(2) by simp
  have m: "msgs env ls1 main = msgs env ls main" using cross_pop_frames(2) [OF pop ne] .
  obtain es where es: "map Some es = take k (dlq_contents env ls2 dlq)" "k \<le> length (dlq_contents env ls2 dlq)"
    "msgs env ls' main = msgs env ls2 main @ map (Some \<circ> dq_message) es"
    using rest by (auto simp: replayed_def)
  then have "map Some (x # es) = take (Suc k) (dlq_contents env ls dlq) \<and> Suc k \<le> length (dlq_contents env ls dlq) \<and>
      msgs env ls' main = msgs env ls main @ map (Some \<circ> dq_message) (x # es)"
    using view(1) by (simp add: e m)
  moreover have "dlq_contents env ls' dlq = drop (Suc k + l) (dlq_contents env ls dlq)"
    using rest by (simp add: replayed_def e)
  ultimately show ?thesis unfolding replayed_def by blast
qed

lemma pop_result_cases:
  obtains (entry) x where "r = Ok (Some x)" | (empty) "r = Ok None" | (failed) "\<not> is_ok r"
proof (cases r)
  case (Ok v)
  then show thesis using entry empty by (cases v) auto
qed (use failed in simp_all)

lemma replay_loop_spec:
  assumes ok: "env_ok env" and ne: "main \<noteq> dlq"
  shows "replay_loop env fa main dlq n c ls = (r, ls') \<Longrightarrow>
    \<exists>k l. k \<le> n \<and> l \<le> 1 \<and> replayed env main dlq k l ls ls' \<and>
      (\<forall>j. r = Ok j \<longrightarrow> j = c + k \<and> l = 0 \<and> (k < n \<longrightarrow> dlq_contents env ls' dlq = []))"
proof (induction n arbitrary: c ls)
  case 0
  then show ?case by (auto simp: replayed_def)
next
  case (Suc n)
  obtain o1 ls1 where pop: "pop_dlq env (fst (fa c)) dlq ls = (o1, ls1)" by fastforce
  have main1: "msgs env ls1 main = msgs env ls main" using cross_pop_frames(2) [OF pop ne] .
  show ?case
  proof (cases rule: pop_result_cases [of o1])
    case (entry x)
    have e: "dlq_contents env ls dlq = Some x # dlq_contents env ls1 dlq"
      using dead_letters.pop_Some pop entry by metis
    obtain o2 ls2 where pub: "publish env (snd (fa c)) main (dq_message x) ls1 = (o2, ls2)" by fastforce
    have dlq2: "dlq_contents env ls2 dlq = dlq_contents env ls1 dlq" using cross_frames(1) [OF pub] ne by simp
    have main2: "msgs env ls2 main = msgs env ls1 main @ [Some (dq_message x)] \<or>
        (msgs env ls2 main = msgs env ls1 main \<and> o2 \<noteq> Ok ())"
      using main_queue.push_view [OF ok pub] .
    show ?thesis
    proof (cases o2)
      case (Ok u)
      then have "replay_loop env fa main dlq n (Suc c) ls2 = (r, ls')"
        using Suc.prems pop pub entry by simp
      then obtain k l where kl: "k \<le> n" "l \<le> 1" "replayed env main dlq k l ls2 ls'"
        "\<forall>j. r = Ok j \<longrightarrow> j = Suc c + k \<and> l = 0 \<and> (k < n \<longrightarrow> dlq_contents env ls' dlq = [])"
        using Suc.IH by blast
      moreover have "replayed env main dlq (Suc k) l ls ls'"
        using replayed_Suc [OF pop [unfolded entry] _ dlq2 ne kl(3)] main2 Ok by simp
      ultimately show ?thesis by (intro exI [of _ "Suc k"] exI [of _ l]) auto
    next
      case (Err e')
      then have stop: "r = Err e'" "ls' = ls2" using Suc.prems pop pub entry by auto
      from main2 show ?thesis
      proof
        assume "msgs env ls2 main = msgs env ls1 main @ [Some (dq_message x)]"
        then have "replayed env main dlq (Suc 0) 0 ls ls'"
          using replayed_Suc [OF pop [unfolded entry] _ dlq2 ne, of 0 0 ls2] stop by (auto simp: replayed_def)
        then show ?thesis using stop by (intro exI [of _ "Suc 0"] exI [of _ 0]) auto
      next
        assume "msgs env ls2 main = msgs env ls1 main \<and> o2 \<noteq> Ok ()"
        then have "replayed env main dlq 0 1 ls ls'" using stop main1 dlq2 e by (simp add: replayed_def)
        then show ?thesis using stop by (intro exI [of _ 0] exI [of _ 1]) auto
      qed
    next
      case (Panic m)
      then have "r = Panic m" "ls' = ls2" using Suc.prems pop pub entry by auto
      moreover have "o2 \<noteq> Panic m"
        using pub ok by (auto simp: queue_defs rpush_as_no_panic)
      ultimately show ?thesis using Panic by simp
    qed
  next
    case empty
    then have "r = Ok c" "ls' = ls1" using Suc.prems pop by auto
    moreover have "dlq_contents env ls dlq = []" "dlq_contents env ls1 dlq = []"
      using dead_letters.pop_None pop empty by metis+
    ultimately show ?thesis using main1 by (intro exI [of _ 0]) (simp add: replayed_def)
  next
    case failed
    then have stop: "\<not> is_ok r" "ls' = ls1" using Suc.prems pop by (cases o1; auto)+
    have "dlq_contents env ls1 dlq = drop 0 (dlq_contents env ls dlq) \<or> dlq_contents env ls1 dlq = drop 1 (dlq_contents env ls dlq)"
      using dead_letters.pop_failed [OF pop failed] by (simp add: drop_Suc)
    then obtain l where "l \<le> 1" "dlq_contents env ls1 dlq = drop l (dlq_contents env ls dlq)" by fastforce
    then have "replayed env main dlq 0 l ls ls'" using stop main1 by (simp add: replayed_def)
    then show ?thesis using stop \<open>l \<le> 1\<close> by (intro exI [of _ 0] exI [of _ l]) auto
  qed
qed

text \<open>
  However the connection fails, a replay moves a prefix of the dead letters, in order and unchanged, to
  the tail of the write queue, keeps the rest in order, and loses at most one entry.  When it returns \<open>Ok k\<close>
  nothing is lost, exactly \<open>k\<close> entries moved, and fewer than \<open>limit\<close> only if the dead-letter queue is empty.
\<close>

theorem replay_dlq_conserves:
  assumes "env_ok env" "main \<noteq> dlq" "replay_dlq env fa main dlq limit ls = (r, ls')"
  shows "\<exists>k l. k \<le> limit \<and> l \<le> 1 \<and> replayed env main dlq k l ls ls' \<and>
    (\<forall>j. r = Ok j \<longrightarrow> j = k \<and> l = 0 \<and> (k < limit \<longrightarrow> dlq_contents env ls' dlq = []))"
  using replay_loop_spec [OF assms(1,2) assms(3) [unfolded replay_dlq_def]] by simp

text \<open>
  The entry a refused publish leaves behind is gone: the pop already removed it from the dead-letter
  queue, the write queue never received it, and the caller only sees the error.
\<close>

theorem replay_loses_entry:
  assumes "env_ok env" "main \<noteq> dlq" "dlq_contents env ls dlq = Some x # rest" "0 < limit"
    and "fa 0 = (NoFault, Refused e)"
  shows "\<exists>e' ls'. replay_dlq env fa main dlq limit ls = (Err e', ls') \<and>
    dlq_contents env ls' dlq = rest \<and> msgs env ls' main = msgs env ls main"
proof -
  obtain n where n: "limit = Suc n" using assms(4) gr0_implies_Suc by blast
  obtain o1 ls1 where pop: "pop_dlq env NoFault dlq ls = (o1, ls1)" by fastforce
  have o1: "o1 = Ok (Some x)" using dead_letters.pop_fine [OF assms(3)] pop by simp
  have rest: "dlq_contents env ls1 dlq = rest" using dead_letters.pop_fine_view [OF assms(3)] pop by simp
  obtain t where "enc (msg_codec env) (dq_message x) = Ok t"
    using assms(1) by (auto simp: env_ok_def codec_ok_def)
  then have "publish env (Refused e) main (dq_message x) ls1 = (Err (''Redis rpush error: '' @ e), ls1)"
    by (simp add: publish_def rpush_as_def exec_stmt_def)
  then have "replay_dlq env fa main dlq limit ls = (Err (''Redis rpush error: '' @ e), ls1)"
    using pop o1 assms(5) by (simp add: replay_dlq_def n)
  moreover have "msgs env ls1 main = msgs env ls main" using cross_pop_frames(2) [OF pop assms(2)] .
  ultimately show ?thesis using rest by blast
qed

text \<open>A codec for evaluations: the stored text is the value itself.\<close>

definition plain_env :: "(queue_message + dlq_entry) queue_env" where
  "plain_env = \<lparr>msg_codec = \<lparr>enc = (\<lambda>m. Ok (Inl m)), dec = (\<lambda>t. case t of Inl m \<Rightarrow> Ok m | Inr d \<Rightarrow> Err ''not a message'')\<rparr>,
     dlq_codec = \<lparr>enc = (\<lambda>d. Ok (Inr d)), dec = (\<lambda>t. case t of Inr d \<Rightarrow> Ok d | Inl m \<Rightarrow> Err ''not an entry'')\<rparr>\<rparr>"

lemma plain_env_ok [simp]: "env_ok plain_env"
  by (simp add: env_ok_def codec_ok_def plain_env_def)

definition demo_event :: swap_event where
  "demo_event = \<lparr>se_event_id = ''e1'', se_timestamp = 1, se_pool_id = ''p'', se_dex_name = ''Cetus'', se_sender = ''0x1'',
     se_amount_in = ''1'', se_amount_out = ''2'', se_coin_in = ''A'', se_coin_out = ''B''\<rparr>"

definition demo_entry :: dlq_entry where
  "demo_entry = \<lparr>dq_message = SwapEventLog demo_event, failure_reason = ''down'', failed_at_unix = 9, dq_attempts = 3\<rparr>"

theorem replay_dlq_conserves_witness:
  "\<exists>k l. k \<le> 5 \<and> l \<le> 1 \<and> replayed plain_env ''q'' ''q_dlq'' k l ((\<lambda>_. [])(''q_dlq'' := [Inr demo_entry]))
     (snd (replay_dlq plain_env (\<lambda>_. (NoFault, NoFault)) ''q'' ''q_dlq'' 5 ((\<lambda>_. [])(''q_dlq'' := [Inr demo_entry]))))"
proof -
  let ?ls = "(\<lambda>_. [])(''q_dlq'' := [Inr demo_entry])"
  obtain r ls' where run: "replay_dlq plain_env (\<lambda>_. (NoFault, NoFault)) ''q'' ''q_dlq'' 5 ?ls = (r, ls')" by fastforce
  have "''q'' \<noteq> ''q_dlq''" by simp
  from replay_dlq_conserves [OF plain_env_ok this run] run show ?thesis by auto
qed

theorem replay_loses_entry_witness:
  "\<exists>e' ls'. replay_dlq plain_env (\<lambda>_. (NoFault, Refused ''down'')) ''q'' ''q_dlq'' 5
      ((\<lambda>_. [])(''q_dlq'' := [Inr demo_entry])) = (Err e', ls') \<and>
     dlq_contents plain_env ls' ''q_dlq'' = [] \<and>
     msgs plain_env ls' ''q'' = msgs plain_env ((\<lambda>_. [])(''q_dlq'' := [Inr demo_entry])) ''q''"
  by (rule replay_loses_entry [OF plain_env_ok, where x = demo_entry and rest = "[]" and e = "''down''"])
    (simp_all add: dlq_contents_def list_view_def plain_env_def)

end
