(* ===== verification/Db_Writer.thy ===== *)
theory Db_Writer
  imports Postgres Queue
begin

text \<open>
  The database writer, \<open>src/workers/db_writer.rs\<close>, with the ClickHouse event log of
  \<open>src/storage/clickhouse_storage.rs\<close>: it consumes the write queue, persists each message with up to three
  attempts and routes a message it cannot persist to the dead-letter queue.  One loop iteration is a function of
  the faults it meets; \<open>run\<close> is the loop over the iterations until shutdown.
\<close>

subsection \<open>State and environment\<close>

record database_writer =
  dw_queue_name :: string
  dlq_name :: string

definition writer_new :: "string \<Rightarrow> database_writer" where
  "writer_new q = \<lparr>dw_queue_name = q, dlq_name = q @ ''_dlq''\<rparr>"

record 't writer_state =
  ws_lists :: "'t redis_lists"
  ws_pg :: pg_db
  ws_swap_events :: "swap_event list"
  ws_dlq_pushed :: nat

text \<open>What one iteration meets: \<open>it_db k n\<close> is the fault of statement \<open>n\<close> of attempt \<open>k\<close>.\<close>

record iteration =
  it_shutdown :: bool
  it_consume :: fault
  it_db :: "nat \<Rightarrow> nat \<Rightarrow> fault"
  it_push_dlq :: fault
  it_unix_time :: u64

subsection \<open>ClickHouse\<close>

definition insert_swap_event ::
  "(nat \<Rightarrow> fault) \<Rightarrow> swap_event \<Rightarrow> swap_event list \<Rightarrow> (unit, string) outcome \<times> swap_event list" where
  "insert_swap_event fa ev evs =
     (case bind_outcome (map_err (\<lambda>e. ''ClickHouse insert init error: '' @ e) (read_stmt (fa 0) (Ok ())))
             (\<lambda>_. map_err (\<lambda>e. ''ClickHouse write row error: '' @ e) (read_stmt (fa 1) (Ok ()))) of
        Ok u \<Rightarrow> (case exec_stmt (fa 2) (Ok (evs @ [ev])) evs of
                   (r, evs') \<Rightarrow> (map_err (\<lambda>e. ''ClickHouse insert end error: '' @ e) r, evs'))
      | Err e \<Rightarrow> (Err e, evs)
      | Panic m \<Rightarrow> (Panic m, evs))"

subsection \<open>Persisting a message\<close>

definition persist :: "(nat \<Rightarrow> fault) \<Rightarrow> queue_message \<Rightarrow> 't writer_state \<Rightarrow> (unit, string) outcome \<times> 't writer_state" where
  "persist fa msg st =
     (case msg of
        PoolStateUpdate p \<Rightarrow> (case insert_pool (fa 0) p (ws_pg st) of (r, db) \<Rightarrow> (r, st\<lparr>ws_pg := db\<rparr>))
      | PoolTickDataUpdate d \<Rightarrow> (case pg_set_pool_tick_data fa d (ws_pg st) of (r, db) \<Rightarrow> (r, st\<lparr>ws_pg := db\<rparr>))
      | SwapEventLog ev \<Rightarrow> (case insert_swap_event fa ev (ws_swap_events st) of (r, evs) \<Rightarrow> (r, st\<lparr>ws_swap_events := evs\<rparr>)))"

definition max_attempts :: nat where "max_attempts = 3"

definition dead_letter ::
  "'t queue_env \<Rightarrow> database_writer \<Rightarrow> iteration \<Rightarrow> queue_message \<Rightarrow> string \<Rightarrow> nat \<Rightarrow> 't writer_state \<Rightarrow> 't writer_state" where
  "dead_letter env w it msg e n st =
     (let entry = \<lparr>dq_message = msg, failure_reason = e, failed_at_unix = it_unix_time it, dq_attempts = of_nat n\<rparr>
      in case push_dlq env (it_push_dlq it) (dlq_name w) entry (ws_lists st) of
           (Ok u, ls) \<Rightarrow> st\<lparr>ws_lists := ls, ws_dlq_pushed := Suc (ws_dlq_pushed st)\<rparr>
         | (_, ls) \<Rightarrow> st\<lparr>ws_lists := ls\<rparr>)"

text \<open>The retry loop of \<open>persist_with_retry\<close>; a panic of a driver call does not occur.\<close>

function persist_loop ::
  "'t queue_env \<Rightarrow> database_writer \<Rightarrow> iteration \<Rightarrow> queue_message \<Rightarrow> nat \<Rightarrow> 't writer_state \<Rightarrow> 't writer_state" where
  "persist_loop env w it msg n st =
     (case persist (it_db it n) msg st of
        (Ok u, st') \<Rightarrow> st'
      | (Err e, st') \<Rightarrow>
          if max_attempts \<le> Suc n then dead_letter env w it msg e (Suc n) st'
          else persist_loop env w it msg (Suc n) st'
      | (Panic m, st') \<Rightarrow> st')"
  by pat_completeness auto
termination
  by (relation "measure (\<lambda>(env, w, it, msg, n, st). max_attempts - n)") auto

declare persist_loop.simps [simp del]

definition persist_with_retry where
  "persist_with_retry env w it msg st = persist_loop env w it msg 0 st"

subsection \<open>The consumer loop\<close>

definition writer_iter :: "'t queue_env \<Rightarrow> database_writer \<Rightarrow> iteration \<Rightarrow> 't writer_state \<Rightarrow> 't writer_state" where
  "writer_iter env w it st =
     (case consume env (it_consume it) (dw_queue_name w) (ws_lists st) of
        (Ok (Some msg), ls) \<Rightarrow> persist_with_retry env w it msg (st\<lparr>ws_lists := ls\<rparr>)
      | (_, ls) \<Rightarrow> st\<lparr>ws_lists := ls\<rparr>)"

fun writer_run :: "'t queue_env \<Rightarrow> database_writer \<Rightarrow> iteration list \<Rightarrow> 't writer_state \<Rightarrow> 't writer_state" where
  "writer_run env w [] st = st"
| "writer_run env w (it # its) st =
     (if it_shutdown it then st else writer_run env w its (writer_iter env w it st))"

text \<open>\<open>DatabaseWriter::replay_dlq\<close>.\<close>

definition writer_replay_dlq where
  "writer_replay_dlq env fa w limit ls = replay_dlq env fa (dw_queue_name w) (dlq_name w) limit ls"

subsection \<open>Tick data is a keyed store\<close>

definition put_ticks :: "pool_tick_data \<Rightarrow> pg_db \<Rightarrow> pg_db" where
  "put_ticks d db = snd (pg_set_pool_tick_data (\<lambda>_. NoFault) d db)"

definition look_ticks :: "pg_db \<Rightarrow> string \<Rightarrow> pool_tick_data option" where
  "look_ticks db pid = (case pg_get_pool_tick_data (\<lambda>_. NoFault) pid db of Ok r \<Rightarrow> r | _ \<Rightarrow> None)"

definition stored_ticks :: "pool_tick_data \<Rightarrow> pool_tick_data" where
  "stored_ticks d = d\<lparr>ticks := map stored_tick (sort_key tick_index (ticks d))\<rparr>"

definition ticks_fit :: "pool_tick_data \<Rightarrow> bool" where
  "ticks_fit d \<longleftrightarrow> varchar 255 (td_pool_id d) \<and> distinct (map tick_index (ticks d))"

lemma insert_ticks_fit:
  "distinct (map tick_index ts) \<Longrightarrow>
   \<forall>t \<in> set ts. \<forall>r \<in> set (pool_ticks_t db). \<not> (kw_pool_id r = pid \<and> kw_tick_index r = tick_index t) \<Longrightarrow>
   \<exists>db'. all_stmts (map (insert_tick pid) ts) db = Ok db'"
proof (induction ts arbitrary: db)
  case (Cons t ts)
  let ?db = "db\<lparr>pool_ticks_t := pool_ticks_t db @ [row_of_tick pid t]\<rparr>"
  have "insert_tick pid t db = Ok ?db" using Cons.prems(2) by (auto simp: insert_tick_def row_of_tick_def)
  moreover have "\<exists>db'. all_stmts (map (insert_tick pid) ts) ?db = Ok db'"
    by (rule Cons.IH) (use Cons.prems in \<open>auto simp: row_of_tick_def\<close>)
  ultimately show ?case by simp
qed simp

lemma tick_data_stmts_fit: "ticks_fit d \<Longrightarrow> \<exists>db'. all_stmts (tick_data_stmts d) db = Ok db'"
  by (auto simp: tick_data_stmts_def ticks_fit_def upsert_tick_data_def delete_ticks_def intro: insert_ticks_fit)

lemma look_ticks_eq:
  "look_ticks db pid =
     (case pool_tick_data_t db pid of
        None \<Rightarrow> None
      | Some r \<Rightarrow>
          (case (optional_u128_column (dw_fee_growth_global_a r), optional_u128_column (dw_fee_growth_global_b r)) of
             (Ok fga, Ok fgb) \<Rightarrow>
               Some \<lparr>td_pool_id = pid, current_tick_index = dw_current_tick_index r, tick_spacing = dw_tick_spacing r,
                     ticks = select_ticks pid db, fee_growth_global_a = fga, fee_growth_global_b = fgb\<rparr>
           | _ \<Rightarrow> None))"
  by (auto simp: look_ticks_def pg_get_pool_tick_data_def outcome_simps split: option.splits outcome.splits)

lemma put_ticks_cases:
  "put_ticks d db = (case all_stmts (tick_data_stmts d) db of Ok db' \<Rightarrow> db' | _ \<Rightarrow> db)"
  by (auto simp: put_ticks_def pg_set_pool_tick_data_def transaction_no_fault split: outcome.splits)

interpretation pg_ticks: keyed_store "\<lambda>_. True" put_ticks look_ticks td_pool_id stored_ticks ticks_fit
proof (unfold_locales, goal_cases)
  case (1 d db)
  then obtain db' where st: "all_stmts (tick_data_stmts d) db = Ok db'" using tick_data_stmts_fit by blast
  from select_ticks_after [OF st] show ?case
    by (simp add: put_ticks_cases st look_ticks_eq stored_ticks_def)
next
  case (2 pid d db)
  show ?case
  proof (cases "all_stmts (tick_data_stmts d) db")
    case (Ok db')
    from select_ticks_after [OF this] 2 have sel: "select_ticks pid db' = select_ticks pid db"
      and tab: "pool_tick_data_t db' pid = pool_tick_data_t db pid" by auto
    have "put_ticks d db = db'" by (simp add: put_ticks_cases Ok)
    then show ?thesis by (simp only: look_ticks_eq sel tab)
  qed (simp_all add: put_ticks_cases)
qed simp

subsection \<open>Persisting, retrying, dead letters\<close>

text \<open>A message is stored when the databases give it back.\<close>

fun stored :: "queue_message \<Rightarrow> 't writer_state \<Rightarrow> bool" where
  "stored (PoolStateUpdate p) st \<longleftrightarrow> look_pool (ws_pg st) (pool_id p) = Some (stored_pool p)"
| "stored (PoolTickDataUpdate d) st \<longleftrightarrow> look_ticks (ws_pg st) (td_pool_id d) = Some (stored_ticks d)"
| "stored (SwapEventLog ev) st \<longleftrightarrow> ev \<in> set (ws_swap_events st)"

lemma stored_lists_irrelevant [simp]: "stored msg (st\<lparr>ws_lists := ls\<rparr>) = stored msg st"
  by (cases msg) simp_all

lemma insert_swap_event_Ok:
  "insert_swap_event fa ev evs = (Ok u, evs') \<Longrightarrow> evs' = evs @ [ev]"
  by (auto simp: insert_swap_event_def exec_stmt_def read_stmt_def split: outcome.splits fault.splits)

lemma set_ticks_Ok:
  assumes "pg_set_pool_tick_data fa d db = (Ok u, db')"
  shows "look_ticks db' (td_pool_id d) = Some (stored_ticks d)"
proof -
  have st: "all_stmts (tick_data_stmts d) db = Ok db'"
    using transaction_atomic(2) [OF assms [unfolded pg_set_pool_tick_data_def]] by simp
  have "ticks_fit d"
    using select_ticks_after [OF st] st
    by (auto simp: ticks_fit_def tick_data_stmts_def upsert_tick_data_def outcome_simps too_long_def split: if_splits)
  then show ?thesis using pg_ticks.look_put [of d db] by (simp add: put_ticks_cases st)
qed

lemma persist_Ok: "persist fa msg st = (Ok u, st') \<Longrightarrow> stored msg st'"
  by (cases msg)
    (auto simp: persist_def pg_pools.look_put set_ticks_Ok dest!: insert_pool_Ok insert_swap_event_Ok split: prod.splits)

lemma persist_frame: "persist fa msg st = (r, st') \<Longrightarrow> ws_lists st' = ws_lists st \<and> ws_dlq_pushed st' = ws_dlq_pushed st"
  by (cases msg) (auto simp: persist_def split: prod.splits)

lemma run_stmts_no_panic:
  "(\<And>st s. st \<in> set sts \<Longrightarrow> st s \<noteq> Panic m) \<Longrightarrow> run_stmts fa i sts s \<noteq> Panic m"
proof (induction sts arbitrary: i s)
  case (Cons st sts)
  then show ?case by (auto simp: outcome_simps read_stmt_def split: fault.splits)
qed simp

lemma persist_no_panic: "persist fa msg st \<noteq> (Panic m, st')"
proof (cases msg)
  case (PoolTickDataUpdate d)
  have "run_stmts fa 1 (tick_data_stmts d) (ws_pg st) \<noteq> Panic m"
    by (rule run_stmts_no_panic)
      (auto simp: tick_data_stmts_def upsert_tick_data_def delete_ticks_def insert_tick_def too_long_def split: if_splits)
  then show ?thesis
    by (auto simp: PoolTickDataUpdate persist_def pg_set_pool_tick_data_def transaction_def exec_stmt_def read_stmt_def
        outcome_simps split: prod.splits fault.splits outcome.splits)
qed (auto simp: persist_def insert_pool_def upsert_pool_def too_long_def insert_swap_event_def exec_stmt_def read_stmt_def
      outcome_simps split: prod.splits fault.splits outcome.splits if_splits)

text \<open>The retry loop ends with the message stored or with the dead-letter step after the third attempt.\<close>

lemma persist_loop_outcome:
  "n < max_attempts \<Longrightarrow>
   (let st' = persist_loop env w it msg n st in
     (stored msg st' \<and> ws_lists st' = ws_lists st \<and> ws_dlq_pushed st' = ws_dlq_pushed st) \<or>
     (\<exists>e st1. st' = dead_letter env w it msg e max_attempts st1 \<and> ws_lists st1 = ws_lists st \<and>
        ws_dlq_pushed st1 = ws_dlq_pushed st))"
proof (induction env w it msg n st rule: persist_loop.induct)
  case (1 env w it msg n st)
  obtain r st1 where p: "persist (it_db it n) msg st = (r, st1)" by fastforce
  note frame = persist_frame [OF p]
  show ?case
  proof (cases r)
    case (Ok u)
    then show ?thesis using p frame persist_Ok by (subst persist_loop.simps) auto
  next
    case (Err e)
    show ?thesis
    proof (cases "max_attempts \<le> Suc n")
      case True
      then have "Suc n = max_attempts" using "1.prems" by simp
      then show ?thesis using p Err True frame by (subst persist_loop.simps) (auto simp: Let_def)
    next
      case False
      then have "let st' = persist_loop env w it msg (Suc n) st1 in
          (stored msg st' \<and> ws_lists st' = ws_lists st1 \<and> ws_dlq_pushed st' = ws_dlq_pushed st1) \<or>
          (\<exists>e st2. st' = dead_letter env w it msg e max_attempts st2 \<and> ws_lists st2 = ws_lists st1 \<and>
             ws_dlq_pushed st2 = ws_dlq_pushed st1)"
        using "1.IH" [OF p [symmetric] Err] by simp
      then show ?thesis using p Err False frame by (subst persist_loop.simps) simp
    qed
  next
    case (Panic m)
    then show ?thesis using p persist_no_panic by metis
  qed
qed

lemma dead_letter_outcome:
  assumes "env_ok env" and "dw_queue_name w \<noteq> dlq_name w"
  shows "let st' = dead_letter env w it msg e n st in
    msgs env (ws_lists st') (dw_queue_name w) = msgs env (ws_lists st) (dw_queue_name w) \<and>
    ((\<exists>x. dlq_contents env (ws_lists st') (dlq_name w) = dlq_contents env (ws_lists st) (dlq_name w) @ [Some x] \<and>
        dq_message x = msg \<and> dq_attempts x = of_nat n) \<or>
     (it_push_dlq it \<noteq> NoFault \<and>
      dlq_contents env (ws_lists st') (dlq_name w) = dlq_contents env (ws_lists st) (dlq_name w)))"
proof -
  define x where "x = \<lparr>dq_message = msg, failure_reason = e, failed_at_unix = it_unix_time it, dq_attempts = of_nat n\<rparr>"
  obtain r ls where p: "push_dlq env (it_push_dlq it) (dlq_name w) x (ws_lists st) = (r, ls)" by fastforce
  have lists: "ws_lists (dead_letter env w it msg e n st) = ls"
    using p by (cases r) (simp_all add: dead_letter_def x_def Let_def)
  have "dlq_contents env ls (dlq_name w) = dlq_contents env (ws_lists st) (dlq_name w) @ [Some x] \<or>
      (dlq_contents env ls (dlq_name w) = dlq_contents env (ws_lists st) (dlq_name w) \<and> r \<noteq> Ok ())"
    using dead_letters.push_view [OF assms(1) p] .
  moreover have "it_push_dlq it = NoFault \<Longrightarrow> r = Ok ()"
    using dead_letters.push_fine [OF assms(1), of "dlq_name w" x "ws_lists st"] p by simp
  moreover have "msgs env ls (dw_queue_name w) = msgs env (ws_lists st) (dw_queue_name w)"
    using cross_frames(2) [OF p assms(2)] .
  ultimately show ?thesis unfolding Let_def lists by (auto simp: x_def)
qed

text \<open>What happened to a consumed message.\<close>

definition handled ::
  "'t queue_env \<Rightarrow> database_writer \<Rightarrow> iteration \<Rightarrow> queue_message \<Rightarrow> 't writer_state \<Rightarrow> 't writer_state \<Rightarrow> bool" where
  "handled env w it msg st st' \<longleftrightarrow>
     (let old = dlq_contents env (ws_lists st) (dlq_name w); new = dlq_contents env (ws_lists st') (dlq_name w)
      in (stored msg st' \<and> new = old) \<or>
         (\<exists>x. new = old @ [Some x] \<and> dq_message x = msg \<and> dq_attempts x = 3) \<or>
         (it_push_dlq it \<noteq> NoFault \<and> new = old))"

lemma writer_iter_handles:
  assumes ok: "env_ok env" and ne: "dw_queue_name w \<noteq> dlq_name w"
    and c: "consume env (it_consume it) (dw_queue_name w) (ws_lists st) = (Ok (Some msg), ls)"
  shows "handled env w it msg st (writer_iter env w it st) \<and>
    msgs env (ws_lists st) (dw_queue_name w) = Some msg # msgs env (ws_lists (writer_iter env w it st)) (dw_queue_name w)"
proof -
  let ?q = "dw_queue_name w" and ?d = "dlq_name w" and ?st = "st\<lparr>ws_lists := ls\<rparr>"
  have it: "writer_iter env w it st = persist_loop env w it msg 0 ?st"
    by (simp add: writer_iter_def c persist_with_retry_def)
  have head: "msgs env (ws_lists st) ?q = Some msg # msgs env ls ?q" using main_queue.pop_Some [OF c] .
  have same: "dlq_contents env ls ?d = dlq_contents env (ws_lists st) ?d"
    using cross_pop_frames(1) [OF c] ne by simp
  from persist_loop_outcome [of 0 env w it msg ?st] show ?thesis
  proof (simp add: max_attempts_def it Let_def, elim disjE exE conjE, goal_cases)
    case 1
    then show ?case using head same by (simp add: handled_def)
  next
    case (2 e st1)
    then show ?case
      using dead_letter_outcome [OF ok ne, of it msg e 3 st1] head same
      by (auto simp: handled_def Let_def)
  qed
qed

text \<open>
  C16.  A consumed message is never dropped silently: when the iteration ends it is stored, or it is the newest
  dead letter with three attempts recorded, or the push of that dead letter itself failed.  Exactly this
  message left the write queue.
\<close>

theorem writer_keeps_message:
  assumes "env_ok env" and "dw_queue_name w \<noteq> dlq_name w"
    and "consume env (it_consume it) (dw_queue_name w) (ws_lists st) = (Ok (Some msg), ls)"
  shows "handled env w it msg st (writer_iter env w it st) \<and>
    msgs env (ws_lists st) (dw_queue_name w) = Some msg # msgs env (ws_lists (writer_iter env w it st)) (dw_queue_name w)"
  using writer_iter_handles [OF assms] .

subsection \<open>The queue drains\<close>

definition queue_works :: "iteration \<Rightarrow> bool" where
  "queue_works it \<longleftrightarrow> \<not> it_shutdown it \<and> it_consume it = NoFault \<and> it_push_dlq it = NoFault"

lemma consume_head:
  assumes "msgs env ls q = Some m # ms"
  obtains ls' where "consume env NoFault q ls = (Ok (Some m), ls')" and "msgs env ls' q = ms"
  using main_queue.pop_fine [OF assms] main_queue.pop_fine_view [OF assms] by (metis prod.collapse)

lemma writer_iter_step:
  assumes "env_ok env" "dw_queue_name w \<noteq> dlq_name w" "queue_works it"
    and "msgs env (ws_lists st) (dw_queue_name w) = Some m # ms"
  shows "msgs env (ws_lists (writer_iter env w it st)) (dw_queue_name w) = ms" "handled env w it m st (writer_iter env w it st)"
proof -
  obtain ls' where c: "consume env (it_consume it) (dw_queue_name w) (ws_lists st) = (Ok (Some m), ls')"
    using consume_head [OF assms(4)] assms(3) by (metis queue_works_def)
  from writer_iter_handles [OF assms(1,2) c] assms(4)
  show "msgs env (ws_lists (writer_iter env w it st)) (dw_queue_name w) = ms" "handled env w it m st (writer_iter env w it st)"
    by simp_all
qed

text \<open>\<open>oks\<close> says of each message whether it was stored; the others are the new dead letters.\<close>

definition drained ::
  "'t queue_env \<Rightarrow> database_writer \<Rightarrow> iteration list \<Rightarrow> queue_message list \<Rightarrow> 't writer_state \<Rightarrow> bool list \<Rightarrow> dlq_entry list \<Rightarrow> bool" where
  "drained env w its ms st oks xs \<longleftrightarrow>
     length oks = length ms \<and>
     dlq_contents env (ws_lists (writer_run env w its st)) (dlq_name w) = dlq_contents env (ws_lists st) (dlq_name w) @ map Some xs \<and>
     map dq_message xs = map snd (filter (\<lambda>om. \<not> fst om) (zip oks ms)) \<and>
     (\<forall>x \<in> set xs. dq_attempts x = 3) \<and>
     (\<forall>i < length ms. oks ! i \<longrightarrow> stored (ms ! i) (writer_run env w (take (Suc i) its) st))"

lemma drained_Cons:
  assumes w: "queue_works it" and h: "handled env w it m st (writer_iter env w it st)"
    and rest: "drained env w its ms (writer_iter env w it st) oks xs"
  shows "\<exists>oks' xs'. drained env w (it # its) (m # ms) st oks' xs'"
proof -
  let ?st = "writer_iter env w it st"
  have ns: "\<not> it_shutdown it" using w by (simp add: queue_works_def)
  have later: "\<forall>i < length ms. oks ! i \<longrightarrow> stored (ms ! i) (writer_run env w (take (Suc i) its) ?st)"
    using rest by (simp add: drained_def)
  from h w consider
      (yes) "stored m ?st" "dlq_contents env (ws_lists ?st) (dlq_name w) = dlq_contents env (ws_lists st) (dlq_name w)"
    | (no) x where "dlq_contents env (ws_lists ?st) (dlq_name w) = dlq_contents env (ws_lists st) (dlq_name w) @ [Some x]"
        "dq_message x = m" "dq_attempts x = 3"
    by (auto simp: handled_def queue_works_def Let_def)
  then show ?thesis
  proof cases
    case yes
    then have "drained env w (it # its) (m # ms) st (True # oks) xs"
      using rest later ns by (auto simp: drained_def nth_Cons less_Suc_eq_0_disj)
    then show ?thesis by blast
  next
    case no
    then have "drained env w (it # its) (m # ms) st (False # oks) (x # xs)"
      using rest later ns by (auto simp: drained_def nth_Cons less_Suc_eq_0_disj)
    then show ?thesis by blast
  qed
qed

lemma drain_induct:
  assumes "env_ok env" "dw_queue_name w \<noteq> dlq_name w"
  shows "msgs env (ws_lists st) (dw_queue_name w) = map Some ms \<Longrightarrow> length its = length ms \<Longrightarrow> list_all queue_works its \<Longrightarrow>
    msgs env (ws_lists (writer_run env w its st)) (dw_queue_name w) = [] \<and> (\<exists>oks xs. drained env w its ms st oks xs)"
proof (induction ms arbitrary: its st)
  case Nil
  then have "drained env w its [] st [] []" by (simp add: drained_def)
  with Nil show ?case by auto
next
  case (Cons m ms)
  then obtain it its' where its: "its = it # its'" "queue_works it" "list_all queue_works its'" "length its' = length ms"
    by (cases its) auto
  note step = writer_iter_step [OF assms its(2), of st m "map Some ms"]
  have "msgs env (ws_lists (writer_run env w its' (writer_iter env w it st))) (dw_queue_name w) = [] \<and>
      (\<exists>oks xs. drained env w its' ms (writer_iter env w it st) oks xs)"
    by (rule Cons.IH) (use Cons.prems step its in auto)
  moreover have "writer_run env w its st = writer_run env w its' (writer_iter env w it st)"
    using its by (simp add: queue_works_def)
  ultimately show ?case
    using drained_Cons [OF its(2) step(2)] Cons.prems(1) its(1) by fastforce
qed

text \<open>
  C17.  While the queue itself answers, one iteration per waiting message empties the write queue however the
  databases fail: each message was stored in its turn, or is a new dead letter with three attempts, and the new
  dead letters are exactly the messages not stored, in queue order.
\<close>

theorem writer_drains_queue:
  assumes "env_ok env" "dw_queue_name w \<noteq> dlq_name w"
    and "msgs env (ws_lists st) (dw_queue_name w) = map Some ms" "length its = length ms" "list_all queue_works its"
  shows "msgs env (ws_lists (writer_run env w its st)) (dw_queue_name w) = [] \<and> (\<exists>oks xs. drained env w its ms st oks xs)"
  using drain_induct assms by blast

subsection \<open>Without faults the writer is a fold\<close>

text \<open>The abstract store: what the queries return.\<close>

type_synonym store = "(string \<rightharpoonup> pool_state) \<times> (string \<rightharpoonup> pool_tick_data) \<times> swap_event list"

definition abs_store :: "'t writer_state \<Rightarrow> store" where
  "abs_store st = (look_pool (ws_pg st), look_ticks (ws_pg st), ws_swap_events st)"

fun apply_message :: "queue_message \<Rightarrow> store \<Rightarrow> store" where
  "apply_message (PoolStateUpdate p) (P, T, E) = (P(pool_id p \<mapsto> stored_pool p), T, E)"
| "apply_message (PoolTickDataUpdate d) (P, T, E) = (P, T(td_pool_id d \<mapsto> stored_ticks d), E)"
| "apply_message (SwapEventLog ev) (P, T, E) = (P, T, E @ [ev])"

fun storable :: "queue_message \<Rightarrow> bool" where
  "storable (PoolStateUpdate p) = pool_fits p"
| "storable (PoolTickDataUpdate d) = ticks_fit d"
| "storable (SwapEventLog ev) = True"

definition all_works :: "iteration \<Rightarrow> bool" where
  "all_works it \<longleftrightarrow> queue_works it \<and> it_db it = (\<lambda>_ _. NoFault)"

lemma put_pool_ticks: "look_ticks (put_pool p db) = look_ticks db"
proof
  fix pid
  have "pool_tick_data_t (put_pool p db) = pool_tick_data_t db" "select_ticks pid (put_pool p db) = select_ticks pid db"
    by (auto simp: put_pool_def insert_pool_def exec_stmt_def upsert_pool_def too_long_def select_ticks_def)
  then show "look_ticks (put_pool p db) pid = look_ticks db pid" by (simp only: look_ticks_eq)
qed

lemma put_ticks_pools: "look_pool (put_ticks d db) = look_pool db"
proof (rule look_pool_cong, cases "all_stmts (tick_data_stmts d) db")
  case (Ok db')
  then obtain db1 where "upsert_tick_data d db = Ok db1"
    and "all_stmts (map (insert_tick (td_pool_id d)) (ticks d))
      (db1\<lparr>pool_ticks_t := filter (\<lambda>r. kw_pool_id r \<noteq> td_pool_id d) (pool_ticks_t db1)\<rparr>) = Ok db'"
    by (auto simp: tick_data_stmts_def delete_ticks_def outcome_simps)
  then have "pools_t db' = pools_t db"
    using insert_ticks_Ok by (fastforce simp: upsert_tick_data_def too_long_def split: if_splits)
  then show "pools_t (put_ticks d db) = pools_t db" by (simp add: put_ticks_cases Ok)
qed (simp_all add: put_ticks_cases)

lemma persist_fine:
  assumes "storable msg"
  shows "\<exists>st'. persist (\<lambda>_. NoFault) msg st = (Ok (), st') \<and> abs_store st' = apply_message msg (abs_store st)"
proof (cases msg)
  case (PoolStateUpdate p)
  then have fits: "pool_fits p" using assms by simp
  then have "insert_pool NoFault p (ws_pg st) = (Ok (), put_pool p (ws_pg st))"
    by (simp add: insert_pool_def put_pool_def upsert_pool_def)
  then show ?thesis
    using pg_pools.look_put_if [OF fits]
    by (simp add: PoolStateUpdate persist_def abs_store_def put_pool_ticks fun_eq_iff)
next
  case (PoolTickDataUpdate d)
  then have fits: "ticks_fit d" using assms by simp
  then obtain db' where "all_stmts (tick_data_stmts d) (ws_pg st) = Ok db'" using tick_data_stmts_fit by blast
  then have "pg_set_pool_tick_data (\<lambda>_. NoFault) d (ws_pg st) = (Ok (), put_ticks d (ws_pg st))"
    by (simp add: pg_set_pool_tick_data_def transaction_no_fault put_ticks_cases)
  then show ?thesis
    using pg_ticks.look_put_if [OF fits]
    by (simp add: PoolTickDataUpdate persist_def abs_store_def put_ticks_pools fun_eq_iff)
next
  case (SwapEventLog ev)
  then show ?thesis by (simp add: persist_def insert_swap_event_def abs_store_def)
qed

lemma writer_iter_fine:
  assumes "env_ok env" "all_works it" "storable m" "dw_queue_name w \<noteq> dlq_name w"
    and "msgs env (ws_lists st) (dw_queue_name w) = Some m # ms"
  shows "abs_store (writer_iter env w it st) = apply_message m (abs_store st)"
    "dlq_contents env (ws_lists (writer_iter env w it st)) (dlq_name w) = dlq_contents env (ws_lists st) (dlq_name w)"
proof -
  obtain ls where c: "consume env (it_consume it) (dw_queue_name w) (ws_lists st) = (Ok (Some m), ls)"
    using consume_head [OF assms(5)] assms(2) by (metis all_works_def queue_works_def)
  obtain st' where p: "persist (\<lambda>_. NoFault) m (st\<lparr>ws_lists := ls\<rparr>) = (Ok (), st')"
    and a: "abs_store st' = apply_message m (abs_store (st\<lparr>ws_lists := ls\<rparr>))"
    using persist_fine [OF assms(3)] by blast
  have it: "writer_iter env w it st = st'"
    using c p assms(2) by (simp add: writer_iter_def persist_with_retry_def persist_loop.simps all_works_def)
  show "abs_store (writer_iter env w it st) = apply_message m (abs_store st)"
    using a by (simp add: it abs_store_def)
  show "dlq_contents env (ws_lists (writer_iter env w it st)) (dlq_name w) = dlq_contents env (ws_lists st) (dlq_name w)"
    using persist_frame [OF p] cross_pop_frames(1) [OF c] assms(4) by (simp add: it)
qed

lemma writer_run_fine:
  assumes "env_ok env" "dw_queue_name w \<noteq> dlq_name w"
  shows "msgs env (ws_lists st) (dw_queue_name w) = map Some ms \<Longrightarrow> length its = length ms \<Longrightarrow> list_all all_works its \<Longrightarrow>
    list_all storable ms \<Longrightarrow>
    abs_store (writer_run env w its st) = fold apply_message ms (abs_store st) \<and>
    dlq_contents env (ws_lists (writer_run env w its st)) (dlq_name w) = dlq_contents env (ws_lists st) (dlq_name w)"
proof (induction ms arbitrary: its st)
  case (Cons m ms)
  then obtain it its' where its: "its = it # its'" "all_works it" by (cases its) auto
  then have q: "queue_works it" by (simp add: all_works_def)
  note fine = writer_iter_fine [OF assms(1) its(2) _ assms(2), of m st "map Some ms"]
  note step = writer_iter_step(1) [OF assms q, of st m "map Some ms"]
  have "abs_store (writer_run env w its' (writer_iter env w it st)) =
        fold apply_message ms (abs_store (writer_iter env w it st)) \<and>
      dlq_contents env (ws_lists (writer_run env w its' (writer_iter env w it st))) (dlq_name w) =
        dlq_contents env (ws_lists (writer_iter env w it st)) (dlq_name w)"
    by (rule Cons.IH) (use Cons.prems step its in auto)
  then show ?case using fine Cons.prems its q by (simp add: queue_works_def)
qed simp

text \<open>
  C18.  Refinement: while nothing fails and every message fits the schema, running the writer over the waiting
  messages is the abstract store applying them one by one (a pool and its ticks hold their last update, swap events are
  appended in order), and no dead letter is produced.
\<close>

theorem writer_refines_store:
  assumes "env_ok env" "dw_queue_name w \<noteq> dlq_name w"
    and "msgs env (ws_lists st) (dw_queue_name w) = map Some ms" "length its = length ms"
    and "list_all all_works its" "list_all storable ms"
  shows "abs_store (writer_run env w its st) = fold apply_message ms (abs_store st) \<and>
    dlq_contents env (ws_lists (writer_run env w its st)) (dlq_name w) = dlq_contents env (ws_lists st) (dlq_name w)"
  using writer_run_fine [OF assms(1,2)] assms by blast

subsection \<open>Witnesses\<close>

definition demo_state :: "(queue_message + dlq_entry) writer_state" where
  "demo_state = \<lparr>ws_lists = (\<lambda>_. [])(''q'' := [Inl (SwapEventLog demo_event)]), ws_pg = empty_db,
     ws_swap_events = [], ws_dlq_pushed = 0\<rparr>"

definition calm :: iteration where
  "calm = \<lparr>it_shutdown = False, it_consume = NoFault, it_db = (\<lambda>_ _. NoFault), it_push_dlq = NoFault, it_unix_time = 7\<rparr>"

definition stormy :: iteration where
  "stormy = calm\<lparr>it_db := \<lambda>_ _. Refused ''down''\<rparr>"

lemma demo_names [simp]: "dw_queue_name (writer_new ''q'') = ''q''" "dlq_name (writer_new ''q'') = ''q_dlq''"
  by (simp_all add: writer_new_def)

lemma demo_msgs [simp]: "msgs plain_env (ws_lists demo_state) ''q'' = map Some [SwapEventLog demo_event]"
  by (simp add: msgs_def list_view_def plain_env_def demo_state_def)

lemma demo_works [simp]: "queue_works stormy" "all_works calm"
  by (simp_all add: queue_works_def all_works_def stormy_def calm_def)

theorem writer_keeps_message_witness:
  "handled plain_env (writer_new ''q'') stormy (SwapEventLog demo_event) demo_state
     (writer_iter plain_env (writer_new ''q'') stormy demo_state)"
proof -
  have c: "consume plain_env (it_consume stormy) (dw_queue_name (writer_new ''q'')) (ws_lists demo_state) =
      (Ok (Some (SwapEventLog demo_event)), (ws_lists demo_state)(''q'' := []))"
    by (simp add: consume_def lpop_as_def lpop_def stormy_def calm_def demo_state_def plain_env_def)
  show ?thesis using writer_keeps_message [OF plain_env_ok _ c] by simp
qed

theorem writer_drains_queue_witness:
  "msgs plain_env (ws_lists (writer_run plain_env (writer_new ''q'') [stormy] demo_state)) ''q'' = [] \<and>
   (\<exists>oks xs. drained plain_env (writer_new ''q'') [stormy] [SwapEventLog demo_event] demo_state oks xs)"
  using writer_drains_queue [OF plain_env_ok, of "writer_new ''q''" demo_state "[SwapEventLog demo_event]" "[stormy]"]
  by simp

theorem writer_refines_store_witness:
  "abs_store (writer_run plain_env (writer_new ''q'') [calm] demo_state) =
     (look_pool empty_db, look_ticks empty_db, [demo_event])"
proof -
  have "abs_store demo_state = (look_pool empty_db, look_ticks empty_db, [])"
    by (simp add: abs_store_def demo_state_def)
  then show ?thesis
    using writer_refines_store [OF plain_env_ok, of "writer_new ''q''" demo_state "[SwapEventLog demo_event]" "[calm]"]
    by (simp del: writer_run.simps)
qed

end
