(* ===== verification/Collectors.thy ===== *)
theory Collectors
  imports Move_Types Db_Writer
begin

text \<open>
  The four exchange collectors of \<open>src/collectors/\<close> (\<open>cetus.rs\<close>, \<open>turbos.rs\<close>, \<open>magma.rs\<close>, \<open>momentum.rs\<close>) and the choice among
  them (\<open>mod.rs\<close>): how a pool object of the node becomes a pool state and its tick data.

  \<open>fetch_tick_data\<close> may fail to return (the loop over aligned Turbos indices); such a call is \<open>None\<close>.
\<close>

datatype collector = CetusCollector | TurbosCollector | MagmaCollector | MomentumCollector

fun collector_dex_name :: "collector \<Rightarrow> string" where
  "collector_dex_name CetusCollector = ''Cetus''"
| "collector_dex_name TurbosCollector = ''Turbos''"
| "collector_dex_name MagmaCollector = ''Magma Finance''"
| "collector_dex_name MomentumCollector = ''Momentum''"

definition collector_for_dex_name :: "string \<Rightarrow> collector option" where
  "collector_for_dex_name name =
     (let lower = to_lowercase name
      in if contains lower ''cetus'' then Some CetusCollector
         else if contains lower ''turbos'' then Some TurbosCollector
         else if contains lower ''magma'' then Some MagmaCollector
         else if contains lower ''momentum'' then Some MomentumCollector
         else None)"

subsection \<open>Shared steps\<close>

text \<open>A field that must be a decimal string, and the fee fields that may also be numbers.\<close>

definition u128_string_field :: "json \<Rightarrow> string \<Rightarrow> string \<Rightarrow> (u128, string) outcome" where
  "u128_string_field flds key missing =
     bind_outcome (ok_or (jget key flds) missing) (\<lambda>v.
     bind_outcome (ok_or (as_str v) (key @ '' is not a string'')) (\<lambda>s.
       ok_or (parse_u128 s) ''invalid digit found in string''))"

definition fee_value :: "json \<Rightarrow> (u64, string) outcome" where
  "fee_value v =
     (case as_str v of
        Some s \<Rightarrow> ok_or (parse_u64 s) ''invalid digit found in string''
      | None \<Rightarrow> Ok (case as_u64 v of Some n \<Rightarrow> n | None \<Rightarrow> 0))"

fun first_field :: "json \<Rightarrow> string list \<Rightarrow> json option" where
  "first_field flds [] = None"
| "first_field flds (k # ks) = (case jget k flds of Some v \<Rightarrow> Some v | None \<Rightarrow> first_field flds ks)"

definition flag_or_false :: "json \<Rightarrow> string list \<Rightarrow> bool" where
  "flag_or_false flds keys = (case Option.bind (first_field flds keys) as_bool of Some b \<Rightarrow> b | None \<Rightarrow> False)"

text \<open>The coin types of Cetus and Magma pools: text between the first \<open><\<close> and the next, split at commas.\<close>

definition trim_end_gt :: "string \<Rightarrow> string" where
  "trim_end_gt s = rev (dropWhile (\<lambda>c. c = CHR ''>'') (rev s))"

definition parse_coin_types :: "string \<Rightarrow> (string \<times> string, string) outcome" where
  "parse_coin_types type_str =
     (let parts = split_on (CHR ''<'') type_str
      in if length parts < 2 then Err ''Invalid pool type format: missing <''
         else let coins = split_on (CHR '','') (trim_end_gt (parts ! 1))
              in if length coins < 2 then Err ''Invalid pool type format: missing comma separator for coins''
                 else Ok (trim (coins ! 0), trim (coins ! 1)))"

definition magma_parse_coin_types :: "string \<Rightarrow> (string \<times> string, string) outcome" where
  "magma_parse_coin_types type_str = parse_coin_types type_str"

definition turbos_parse_coin_types :: "string \<Rightarrow> (string \<times> string, string) outcome" where
  "turbos_parse_coin_types type_str = parse_coin_types_from_pool_type type_str"

definition momentum_parse_coin_types :: "string \<Rightarrow> (string \<times> string, string) outcome" where
  "momentum_parse_coin_types type_str = parse_coin_types_from_pool_type type_str"

text \<open>Each collector carries its own copy of the object reader.\<close>

definition cetus_parse_json_response :: "json \<Rightarrow> (json \<times> string, string) outcome" where
  "cetus_parse_json_response val = parse_move_object_response val"

definition turbos_parse_json_response :: "json \<Rightarrow> (json \<times> string, string) outcome" where
  "turbos_parse_json_response val = parse_move_object_response val"

definition magma_parse_json_response :: "json \<Rightarrow> (json \<times> string, string) outcome" where
  "magma_parse_json_response val = parse_move_object_response val"

definition momentum_parse_json_response :: "json \<Rightarrow> (json \<times> string, string) outcome" where
  "momentum_parse_json_response val = parse_move_object_response val"

subsection \<open>Cetus\<close>

definition cetus_fetch_pool :: "sui_api \<Rightarrow> string \<Rightarrow> (pool_state, string) outcome" where
  "cetus_fetch_pool api pid =
     bind_outcome (api_get_object api pid) (\<lambda>response.
     bind_outcome (cetus_parse_json_response response) (\<lambda>(flds, ty).
     bind_outcome (parse_coin_types ty) (\<lambda>(coin_a, coin_b).
     bind_outcome (u128_string_field flds ''current_sqrt_price'' ''Cetus pool missing current_sqrt_price'') (\<lambda>price.
     bind_outcome (u128_string_field flds ''liquidity'' ''Cetus pool missing liquidity'') (\<lambda>liq.
     bind_outcome (ok_or (jget ''fee_rate'' flds) ''Cetus pool missing fee_rate'') (\<lambda>fv.
     bind_outcome (ok_or (as_str fv) ''fee_rate is not a string'') (\<lambda>fs.
     bind_outcome (ok_or (parse_u64 fs) ''invalid digit found in string'') (\<lambda>fee.
     bind_outcome (ok_or (jget ''is_pause'' flds) ''Cetus pool missing is_pause'') (\<lambda>pv.
     bind_outcome (ok_or (as_bool pv) ''is_pause is not a boolean'') (\<lambda>paused.
       Ok \<lparr>pool_id = pid, dex_name = collector_dex_name CetusCollector, coin_type_a = coin_a, coin_type_b = coin_b,
           sqrt_price = price, liquidity = liq, fee_rate = fee, is_paused = paused\<rparr>))))))))))"

definition cetus_parse_u32_field :: "json \<Rightarrow> string \<Rightarrow> (u32, string) outcome" where
  "cetus_parse_u32_field flds key =
     bind_outcome (ok_or (jget key flds) (''Cetus pool missing '' @ key)) (\<lambda>val.
       case as_str val of
         Some s \<Rightarrow> ok_or (parse_u32 s) ''invalid digit found in string''
       | None \<Rightarrow> (case as_u64 val of Some n \<Rightarrow> Ok (ucast n) | None \<Rightarrow> Err (key @ '' is not a valid u32'')))"

definition parse_current_tick_index :: "json \<Rightarrow> (int, string) outcome" where
  "parse_current_tick_index flds =
     bind_outcome (ok_or (jget ''current_tick_index'' flds) ''Cetus pool missing current_tick_index'') (\<lambda>v.
     bind_outcome (ok_or (parse_i32_bits_from_json v) ''current_tick_index missing bits'') (\<lambda>bits.
       Ok (decode_sui_i32 bits)))"

definition parse_tick_index_from_field_name :: "json \<Rightarrow> int option" where
  "parse_tick_index_from_field_name nm =
     Option.bind (jget ''value'' nm) (\<lambda>v. map_option decode_sui_i32 (parse_i32_bits_from_json v))"

definition cetus_parse_liquidity_net :: "json \<Rightarrow> int option" where
  "cetus_parse_liquidity_net obj =
     Option.bind (jpath [''data'', ''content'', ''fields''] obj) (\<lambda>flds.
     Option.bind (jget ''liquidity_net'' flds) (\<lambda>v.
       map_option decode_sui_i128 (parse_i128_bits_from_json v)))"

definition cetus_tick_in_window :: "int \<Rightarrow> int \<Rightarrow> int \<Rightarrow> bool" where
  "cetus_tick_in_window t current window \<longleftrightarrow> wrap_i32 (current - window) \<le> t \<and> t \<le> wrap_i32 (current + window)"

definition cetus_entry :: "sui_api \<Rightarrow> int \<Rightarrow> json \<Rightarrow> tick_info option" where
  "cetus_entry api current entry =
     Option.bind (jget ''name'' entry) (\<lambda>nm.
     Option.bind (parse_tick_index_from_field_name nm) (\<lambda>index.
     if \<not> cetus_tick_in_window index current MAX_TICK_FETCH_WINDOW then None
     else Option.bind (entry_object api entry) (\<lambda>obj.
          Option.bind (cetus_parse_liquidity_net obj) (\<lambda>lnet. nonzero_tick index lnet))))"

definition cetus_fetch_tick_data :: "sui_api \<Rightarrow> string \<Rightarrow> (pool_tick_data, string) outcome" where
  "cetus_fetch_tick_data api pid =
     bind_outcome (api_get_object api pid) (\<lambda>response.
     bind_outcome (cetus_parse_json_response response) (\<lambda>(flds, ty).
     bind_outcome (parse_current_tick_index flds) (\<lambda>current.
     bind_outcome (cetus_parse_u32_field flds ''tick_spacing'') (\<lambda>spacing.
     bind_outcome (collect_paged api pid (cetus_entry api current)) (\<lambda>ts.
     bind_outcome (parse_fee_growth_global flds) (\<lambda>(fee_a, fee_b).
       Ok (build_pool_tick_data pid current spacing ts fee_a fee_b)))))))"

subsection \<open>Turbos\<close>

definition turbos_fee_rate :: "json \<Rightarrow> (u64, string) outcome" where
  "turbos_fee_rate flds =
     (case jget ''fee'' flds of
        Some fee_val \<Rightarrow> fee_value fee_val
      | None \<Rightarrow>
          (case jget ''fee_rate'' flds of
             Some v \<Rightarrow> (case as_str v of Some s \<Rightarrow> ok_or (parse_u64 s) ''invalid digit found in string'' | None \<Rightarrow> Ok 0)
           | None \<Rightarrow> Ok 0))"

definition turbos_is_paused :: "json \<Rightarrow> (bool, string) outcome" where
  "turbos_is_paused flds =
     (case Option.bind (jget ''unlocked'' flds) as_bool of
        Some unlocked \<Rightarrow> Ok (\<not> unlocked)
      | None \<Rightarrow> ok_or (Option.bind (jget ''is_pause'' flds) as_bool) ''Turbos pool missing unlocked/is_pause'')"

definition turbos_fetch_pool :: "sui_api \<Rightarrow> string \<Rightarrow> (pool_state, string) outcome" where
  "turbos_fetch_pool api pid =
     bind_outcome (api_get_object api pid) (\<lambda>response.
     bind_outcome (turbos_parse_json_response response) (\<lambda>(flds, ty).
     bind_outcome (turbos_parse_coin_types ty) (\<lambda>(coin_a, coin_b).
     bind_outcome (u128_string_field flds ''sqrt_price'' ''Turbos pool missing sqrt_price'') (\<lambda>price.
     bind_outcome (u128_string_field flds ''liquidity'' ''Turbos pool missing liquidity'') (\<lambda>liq.
     bind_outcome (turbos_fee_rate flds) (\<lambda>fee.
     bind_outcome (turbos_is_paused flds) (\<lambda>paused.
       Ok \<lparr>pool_id = pid, dex_name = collector_dex_name TurbosCollector, coin_type_a = coin_a, coin_type_b = coin_b,
           sqrt_price = price, liquidity = liq, fee_rate = fee, is_paused = paused\<rparr>)))))))"

definition turbos_i32_type :: "json \<Rightarrow> string" where
  "turbos_i32_type flds =
     (case Option.bind (first_field flds [''tick_current_index'', ''current_tick_index'']) (jstr ''type'') of
        Some t \<Rightarrow> t
      | None \<Rightarrow> ''0x91bfbc386a41afcfd9b2533058d7e915a1d3829089cc268ff4333d54d6339ca1::i32::I32'')"

definition turbos_fetch_tick_data :: "sui_api \<Rightarrow> string \<Rightarrow> (pool_tick_data, string) outcome option" where
  "turbos_fetch_tick_data api pid =
     (case bind_outcome (api_get_object api pid) (\<lambda>response.
           bind_outcome (parse_move_object_response response) (\<lambda>(flds, ty).
           bind_outcome (parse_raw_tick_index flds [''tick_current_index'', ''current_tick_index'']) (\<lambda>current.
           bind_outcome (parse_u32_field flds [''tick_spacing'']) (\<lambda>spacing. Ok (flds, current, spacing))))) of
        Ok (flds, current, spacing) \<Rightarrow>
          map_option (\<lambda>ts.
              bind_outcome (parse_fee_growth_global flds) (\<lambda>(fee_a, fee_b).
                Ok (build_pool_tick_data pid current spacing ts fee_a fee_b)))
            (collect_turbos_ticks api pid (turbos_i32_type flds) current spacing)
      | Err e \<Rightarrow> Some (Err e)
      | Panic m \<Rightarrow> Some (Panic m))"

subsection \<open>Magma\<close>

definition magma_sqrt_price :: "json \<Rightarrow> (u128, string) outcome" where
  "magma_sqrt_price flds =
     (if jget ''current_sqrt_price'' flds \<noteq> None then u128_string_field flds ''current_sqrt_price'' []
      else if jget ''sqrt_price'' flds \<noteq> None then u128_string_field flds ''sqrt_price'' []
      else Err ''Magma pool missing current_sqrt_price/sqrt_price'')"

definition magma_fee_rate :: "json \<Rightarrow> (u64, string) outcome" where
  "magma_fee_rate flds = (case jget ''fee_rate'' flds of Some v \<Rightarrow> fee_value v | None \<Rightarrow> Ok 0)"

definition magma_fetch_pool :: "sui_api \<Rightarrow> string \<Rightarrow> (pool_state, string) outcome" where
  "magma_fetch_pool api pid =
     bind_outcome (api_get_object api pid) (\<lambda>response.
     bind_outcome (magma_parse_json_response response) (\<lambda>(flds, ty).
     bind_outcome (magma_parse_coin_types ty) (\<lambda>(coin_a, coin_b).
     bind_outcome (magma_sqrt_price flds) (\<lambda>price.
     bind_outcome (u128_string_field flds ''liquidity'' ''Magma pool missing liquidity'') (\<lambda>liq.
     bind_outcome (magma_fee_rate flds) (\<lambda>fee.
       Ok \<lparr>pool_id = pid, dex_name = collector_dex_name MagmaCollector, coin_type_a = coin_a, coin_type_b = coin_b,
           sqrt_price = price, liquidity = liq, fee_rate = fee,
           is_paused = flag_or_false flds [''is_pause'', ''is_paused'']\<rparr>))))))"

definition magma_current_tick :: "json \<Rightarrow> (int, string) outcome" where
  "magma_current_tick flds =
     (case parse_raw_tick_index flds [''current_tick_index''] of
        Ok t \<Rightarrow> Ok t
      | Err e \<Rightarrow> parse_cetus_tick_index flds
      | Panic m \<Rightarrow> Panic m)"

definition magma_skip_list_id :: "json \<Rightarrow> (string, string) outcome" where
  "magma_skip_list_id flds =
     bind_outcome (ok_or (jget ''tick_manager'' flds) ''Magma pool missing tick_manager'') (\<lambda>tick_manager.
     bind_outcome (ok_or (case jpath [''fields'', ''ticks''] tick_manager of
           Some t \<Rightarrow> Some t | None \<Rightarrow> jget ''ticks'' tick_manager) ''Magma tick_manager missing ticks'') (\<lambda>ticks_node.
       ok_or (extract_nested_object_id ticks_node) ''Magma ticks SkipList missing object id''))"

definition magma_fetch_tick_data :: "sui_api \<Rightarrow> string \<Rightarrow> (pool_tick_data, string) outcome" where
  "magma_fetch_tick_data api pid =
     bind_outcome (api_get_object api pid) (\<lambda>response.
     bind_outcome (parse_move_object_response response) (\<lambda>(flds, ty).
     bind_outcome (magma_current_tick flds) (\<lambda>current.
     bind_outcome (parse_u32_field flds [''tick_spacing'']) (\<lambda>spacing.
     bind_outcome (magma_skip_list_id flds) (\<lambda>skip_list_id.
     bind_outcome (collect_ticks_from_skip_list api skip_list_id current MAX_TICK_FETCH_WINDOW) (\<lambda>ts.
     bind_outcome (parse_fee_growth_global flds) (\<lambda>(fee_a, fee_b).
       Ok (build_pool_tick_data pid current spacing ts fee_a fee_b))))))))"

subsection \<open>Momentum\<close>

definition momentum_sqrt_price :: "json \<Rightarrow> (u128, string) outcome" where
  "momentum_sqrt_price flds =
     (if jget ''sqrt_price'' flds \<noteq> None then u128_string_field flds ''sqrt_price'' []
      else if jget ''current_sqrt_price'' flds \<noteq> None then u128_string_field flds ''current_sqrt_price'' []
      else Err ''Momentum pool missing sqrt_price/current_sqrt_price'')"

definition momentum_fee_rate :: "json \<Rightarrow> (u64, string) outcome" where
  "momentum_fee_rate flds =
     (case first_field flds [''swap_fee_rate'', ''fee_rate'', ''fee''] of Some v \<Rightarrow> fee_value v | None \<Rightarrow> Ok 0)"

definition momentum_fetch_pool :: "sui_api \<Rightarrow> string \<Rightarrow> (pool_state, string) outcome" where
  "momentum_fetch_pool api pid =
     bind_outcome (api_get_object api pid) (\<lambda>response.
     bind_outcome (momentum_parse_json_response response) (\<lambda>(flds, ty).
     bind_outcome (momentum_parse_coin_types ty) (\<lambda>(coin_a, coin_b).
     bind_outcome (momentum_sqrt_price flds) (\<lambda>price.
     bind_outcome (u128_string_field flds ''liquidity'' ''Momentum pool missing liquidity'') (\<lambda>liq.
     bind_outcome (momentum_fee_rate flds) (\<lambda>fee.
       Ok \<lparr>pool_id = pid, dex_name = collector_dex_name MomentumCollector, coin_type_a = coin_a, coin_type_b = coin_b,
           sqrt_price = price, liquidity = liq, fee_rate = fee,
           is_paused = flag_or_false flds [''is_paused'', ''is_pause'']\<rparr>))))))"

definition momentum_fetch_tick_data :: "sui_api \<Rightarrow> string \<Rightarrow> (pool_tick_data, string) outcome" where
  "momentum_fetch_tick_data api pid =
     bind_outcome (api_get_object api pid) (\<lambda>response.
     bind_outcome (parse_move_object_response response) (\<lambda>(flds, ty).
     bind_outcome (parse_raw_tick_index flds [''tick_index'', ''current_tick_index'']) (\<lambda>current.
     bind_outcome (parse_u32_field flds [''tick_spacing'']) (\<lambda>spacing.
     bind_outcome (ok_or (jget ''ticks'' flds) ''Momentum pool missing ticks table'') (\<lambda>ticks_node.
     bind_outcome (ok_or (extract_nested_object_id ticks_node) ''Momentum ticks table missing object id'') (\<lambda>table_id.
     bind_outcome (collect_ticks_from_raw_i32_table api table_id current MAX_TICK_FETCH_WINDOW) (\<lambda>ts.
     bind_outcome (parse_fee_growth_global flds) (\<lambda>(fee_a, fee_b).
       Ok (build_pool_tick_data pid current spacing ts fee_a fee_b)))))))))"

subsection \<open>The trait object\<close>

fun fetch_pool :: "collector \<Rightarrow> sui_api \<Rightarrow> string \<Rightarrow> (pool_state, string) outcome" where
  "fetch_pool CetusCollector = cetus_fetch_pool"
| "fetch_pool TurbosCollector = turbos_fetch_pool"
| "fetch_pool MagmaCollector = magma_fetch_pool"
| "fetch_pool MomentumCollector = momentum_fetch_pool"

fun fetch_tick_data :: "collector \<Rightarrow> sui_api \<Rightarrow> string \<Rightarrow> (pool_tick_data, string) outcome option" where
  "fetch_tick_data CetusCollector api pid = Some (cetus_fetch_tick_data api pid)"
| "fetch_tick_data TurbosCollector api pid = turbos_fetch_tick_data api pid"
| "fetch_tick_data MagmaCollector api pid = Some (magma_fetch_tick_data api pid)"
| "fetch_tick_data MomentumCollector api pid = Some (momentum_fetch_tick_data api pid)"

subsection \<open>Pools lead back to their exchange\<close>

fun swap_kind :: "collector \<Rightarrow> dex_swap_kind" where
  "swap_kind CetusCollector = Cetus"
| "swap_kind TurbosCollector = Turbos"
| "swap_kind MagmaCollector = Magma"
| "swap_kind MomentumCollector = Momentum"

lemma collector_name_back: "collector_for_dex_name (collector_dex_name c) = Some c \<and> dex_kind (collector_dex_name c) = swap_kind c"
  by (cases c; simp only: collector_dex_name.simps swap_kind.simps; code_simp)

lemma swap_kind_package: "is_ok (package_for (swap_kind c))"
  by (cases c; simp only: swap_kind.simps; code_simp)

lemmas fetch_pool_defs = cetus_fetch_pool_def turbos_fetch_pool_def magma_fetch_pool_def momentum_fetch_pool_def

lemma fetch_pool_named: "fetch_pool c api pid = Ok p \<Longrightarrow> pool_id p = pid \<and> dex_name p = collector_dex_name c"
  by (cases c) (auto simp: fetch_pool_defs outcome_simps simp del: collector_dex_name.simps)

text \<open>
  C24.  A pool fetched by a collector carries the requested id, and its exchange name leads back to the same collector and
  to that exchange's swap commands and package, so every fetched pool can be refreshed and swapped on.
\<close>

theorem fetched_pool_dispatches:
  assumes "fetch_pool c api pid = Ok p"
  shows "pool_id p = pid \<and> collector_for_dex_name (dex_name p) = Some c \<and> dex_kind (dex_name p) = swap_kind c \<and>
    is_ok (package_for (dex_kind (dex_name p)))"
  using fetch_pool_named [OF assms] collector_name_back swap_kind_package by simp

subsection \<open>Tick data can be stored\<close>

lemma current_tick_ranges:
  "parse_current_tick_index flds = Ok i \<Longrightarrow> is_i32 i" "magma_current_tick flds = Ok i \<Longrightarrow> is_i32 i"
  by (auto simp: parse_current_tick_index_def magma_current_tick_def parse_cetus_tick_index_def outcome_simps sui_i32_range
      simp del: parse_raw_tick_index.simps split: outcome.splits dest: raw_tick_index_range)

lemma cetus_entry_ok: "cetus_entry api c e = Some t \<Longrightarrow> tick_ok t"
  by (auto simp: cetus_entry_def bind_eq_Some_conv nonzero_tick_Some tick_ok_def parse_tick_index_from_field_name_def
      cetus_parse_liquidity_net_def sui_i32_range sui_i128_range split: if_splits)

text \<open>The shape of all collected tick data.\<close>

definition tick_data_ok :: "string \<Rightarrow> pool_tick_data \<Rightarrow> bool" where
  "tick_data_ok pid d \<longleftrightarrow> td_pool_id d = pid \<and> is_i32 (current_tick_index d) \<and>
     sorted_wrt (<) (map tick_index (ticks d)) \<and> list_all tick_ok (ticks d)"

lemma tick_data_ok_build:
  "is_i32 current \<Longrightarrow> sorted_wrt (<) (map tick_index ts) \<Longrightarrow> list_all tick_ok ts \<Longrightarrow>
   tick_data_ok pid (build_pool_tick_data pid current spacing ts fa fb)"
  by (simp add: tick_data_ok_def build_pool_tick_data_def)

lemmas paged_ticks = collect_paged_sound [where P = tick_ok]

lemma cetus_tick_data: "cetus_fetch_tick_data api pid = Ok d \<Longrightarrow> tick_data_ok pid d"
  by (auto simp: cetus_fetch_tick_data_def outcome_simps intro!: tick_data_ok_build
      dest: current_tick_ranges paged_ticks [OF _ cetus_entry_ok])

lemma magma_tick_data: "magma_fetch_tick_data api pid = Ok d \<Longrightarrow> tick_data_ok pid d"
  by (auto simp: magma_fetch_tick_data_def collect_ticks_from_skip_list_def outcome_simps intro!: tick_data_ok_build
      dest: current_tick_ranges paged_ticks [OF _ skip_list_entry_ok [THEN conjunct1]])

lemma momentum_tick_data: "momentum_fetch_tick_data api pid = Ok d \<Longrightarrow> tick_data_ok pid d"
  by (auto simp: momentum_fetch_tick_data_def collect_ticks_from_raw_i32_table_def outcome_simps intro!: tick_data_ok_build
      simp del: parse_raw_tick_index.simps parse_u32_field.simps
      dest: raw_tick_index_range paged_ticks [OF _ raw_table_entry_ok])

lemma aligned_loop_range:
  assumes "aligned_loop low high s t acc = Some r" shows "list_all is_i32 acc \<longrightarrow> is_i32 t \<longrightarrow> list_all is_i32 r"
  using assms by (induction rule: aligned_loop_induct) (auto split: if_splits)

lemma turbos_tick_ok: "turbos_tick api pid ty i = Some t \<Longrightarrow> is_i32 i \<Longrightarrow> tick_ok t"
  by (auto simp: turbos_tick_def bind_eq_Some_conv nonzero_tick_Some tick_ok_def tick_object_range)

lemma turbos_ticks_sound:
  assumes "collect_turbos_ticks api pid ty current spacing = Some ts"
  shows "sorted_wrt (<) (map tick_index ts)" "list_all tick_ok ts"
proof -
  obtain idx where i: "aligned_ticks_in_window current (wrap_i32 (uint spacing)) MAX_TICK_FETCH_WINDOW = Some idx"
    and ts: "ts = finalize_ticks (List.map_filter (turbos_tick api pid ty) idx)"
    using assms by (auto simp: collect_turbos_ticks_def)
  have "list_all is_i32 idx"
    using i aligned_loop_range by (fastforce simp: aligned_ticks_in_window_def Let_def split: if_splits)
  moreover have "\<exists>i \<in> set idx. turbos_tick api pid ty i = Some t" if "t \<in> set (List.map_filter (turbos_tick api pid ty) idx)" for t
    using that by (auto simp: List.map_filter_def)
  ultimately have "tick_ok t" if "t \<in> set (List.map_filter (turbos_tick api pid ty) idx)" for t
    using that turbos_tick_ok by (fastforce simp: list_all_iff)
  then show "list_all tick_ok ts" using finalize_subset by (fastforce simp: ts list_all_iff)
  show "sorted_wrt (<) (map tick_index ts)" by (simp only: ts finalize_strict)
qed

lemma turbos_tick_data: "turbos_fetch_tick_data api pid = Some (Ok d) \<Longrightarrow> tick_data_ok pid d"
  by (auto simp: turbos_fetch_tick_data_def outcome_simps intro!: tick_data_ok_build
      simp del: parse_raw_tick_index.simps parse_u32_field.simps split: outcome.splits
      dest: raw_tick_index_range turbos_ticks_sound)

lemmas collector_tick_data = cetus_tick_data turbos_tick_data magma_tick_data momentum_tick_data

lemma fetched_tick_data_ok: "fetch_tick_data c api pid = Some (Ok d) \<Longrightarrow> tick_data_ok pid d"
  by (cases c) (auto dest: collector_tick_data)

lemma stored_sorted_ticks: "sorted_wrt (<) (map tick_index (ticks d)) \<Longrightarrow> stored_ticks d = d\<lparr>ticks := map stored_tick (ticks d)\<rparr>"
  by (simp add: stored_ticks_def strict_sorted_iff sort_key_id_if_sorted)

text \<open>Net liquidities that fit their column.\<close>

definition nets_fit :: "pool_tick_data \<Rightarrow> bool" where
  "nets_fit d \<longleftrightarrow> (\<forall>t \<in> set (ticks d). - (2 ^ 63) \<le> liquidity_net t \<and> liquidity_net t < 2 ^ 63)"

lemma stored_exact: "nets_fit d \<Longrightarrow> map stored_tick (ticks d) = ticks d"
  using stored_tick_id by (intro map_idI) (auto simp: nets_fit_def)

text \<open>
  C25.  Whatever the node answers, tick data that a collector returns for a pool belongs to that pool and has \<open>i32\<close>
  indices in strictly ascending order with non-zero \<open>i128\<close> net liquidity.  So when the pool id fits its column the
  database writer stores it, whatever was stored before; the store then holds the same data with every net
  liquidity reduced to the 64 bits of its column, which is exactly the collected data when all of them fit.
\<close>

theorem fetched_ticks_storable:
  assumes "fetch_tick_data c api pid = Some (Ok d)" "length pid \<le> 255"
  shows "tick_data_ok pid d \<and> storable (PoolTickDataUpdate d) \<and>
    (\<exists>st'. persist (\<lambda>_. NoFault) (PoolTickDataUpdate d) st = (Ok (), st') \<and>
       look_ticks (ws_pg st') pid = Some (d\<lparr>ticks := map stored_tick (ticks d)\<rparr>) \<and>
       (nets_fit d \<longrightarrow> look_ticks (ws_pg st') pid = Some d))"
proof -
  have ok: "tick_data_ok pid d" by (rule fetched_tick_data_ok [OF assms(1)])
  then have fit: "ticks_fit d"
    using assms(2) by (auto simp: ticks_fit_def varchar_def tick_data_ok_def strict_sorted_iff)
  then obtain st' where p: "persist (\<lambda>_. NoFault) (PoolTickDataUpdate d) st = (Ok (), st')"
    "abs_store st' = apply_message (PoolTickDataUpdate d) (abs_store st)" using persist_fine by (metis storable.simps(2))
  then have "look_ticks (ws_pg st') pid = Some (d\<lparr>ticks := map stored_tick (ticks d)\<rparr>)"
    using ok stored_sorted_ticks [of d] by (auto simp: tick_data_ok_def abs_store_def)
  moreover have "nets_fit d \<Longrightarrow> d\<lparr>ticks := map stored_tick (ticks d)\<rparr> = d" by (simp add: stored_exact)
  ultimately show ?thesis using ok fit p(1) by auto
qed

subsection \<open>Ticks lie in the window\<close>

text \<open>
  An entry of the ticks table whose key lies in the window around the current tick and whose object describes
  the tick; the object's own index is not compared with the window.
\<close>

definition listed_in_window :: "sui_api \<Rightarrow> int \<Rightarrow> tick_info \<Rightarrow> bool" where
  "listed_in_window api current t \<longleftrightarrow>
     (\<exists>entry nm i obj. jget ''name'' entry = Some nm \<and> parse_raw_tick_index_from_df_name nm = Some i \<and>
        \<bar>i - current\<bar> \<le> 200 \<and> entry_object api entry = Some obj \<and>
        parse_table_tick_object obj = Some (tick_index t, liquidity_net t))"

definition tick_near :: "collector \<Rightarrow> sui_api \<Rightarrow> pool_tick_data \<Rightarrow> tick_info \<Rightarrow> bool" where
  "tick_near c api d t \<longleftrightarrow>
     (if c = MomentumCollector then listed_in_window api (current_tick_index d) t
      else \<bar>tick_index t - current_tick_index d\<bar> \<le> 200 \<and> (c = TurbosCollector \<longrightarrow> uint (tick_spacing d) dvd tick_index t))"

lemma window_near:
  assumes "\<bar>current\<bar> \<le> 2 ^ 29"
  shows "tick_in_window i current MAX_TICK_FETCH_WINDOW \<longleftrightarrow> \<bar>i - current\<bar> \<le> 200"
    and "cetus_tick_in_window i current MAX_TICK_FETCH_WINDOW \<longleftrightarrow> \<bar>i - current\<bar> \<le> 200"
proof -
  have "wrap_i32 (current - 200) = current - 200" "wrap_i32 (current + 200) = current + 200"
    using assms by (simp_all add: is_i32_def abs_le_iff)
  then show "tick_in_window i current MAX_TICK_FETCH_WINDOW \<longleftrightarrow> \<bar>i - current\<bar> \<le> 200"
    "cetus_tick_in_window i current MAX_TICK_FETCH_WINDOW \<longleftrightarrow> \<bar>i - current\<bar> \<le> 200"
    by (auto simp: tick_in_window_def cetus_tick_in_window_def MAX_TICK_FETCH_WINDOW_def)
qed

lemma cetus_entry_window: "cetus_entry api c e = Some t \<Longrightarrow> cetus_tick_in_window (tick_index t) c MAX_TICK_FETCH_WINDOW"
  by (auto simp: cetus_entry_def bind_eq_Some_conv nonzero_tick_Some split: if_splits)

lemma cetus_ticks_near:
  assumes "cetus_fetch_tick_data api pid = Ok d" "\<bar>current_tick_index d\<bar> \<le> 2 ^ 29"
  shows "list_all (tick_near CetusCollector api d) (ticks d)"
proof -
  obtain ts where ts: "collect_paged api pid (cetus_entry api (current_tick_index d)) = Ok ts" "ticks d = ts"
    using assms(1) by (auto simp: cetus_fetch_tick_data_def outcome_simps build_pool_tick_data_def)
  have "tick_near CetusCollector api d t" if "cetus_entry api (current_tick_index d) e = Some t" for e t
    using cetus_entry_window [OF that] window_near(2) [OF assms(2)] by (simp add: tick_near_def)
  from collect_paged_sound(2) [OF ts(1) this] show ?thesis by (simp add: ts(2))
qed

lemma magma_ticks_near:
  assumes "magma_fetch_tick_data api pid = Ok d" "\<bar>current_tick_index d\<bar> \<le> 2 ^ 29"
  shows "list_all (tick_near MagmaCollector api d) (ticks d)"
proof -
  obtain sl ts where ts: "collect_paged api sl (skip_list_entry api (current_tick_index d) MAX_TICK_FETCH_WINDOW) = Ok ts" "ticks d = ts"
    using assms(1) by (auto simp: magma_fetch_tick_data_def outcome_simps build_pool_tick_data_def collect_ticks_from_skip_list_def)
  have "tick_near MagmaCollector api d t" if "skip_list_entry api (current_tick_index d) MAX_TICK_FETCH_WINDOW e = Some t" for e t
    using skip_list_entry_ok [OF that] window_near(1) [OF assms(2)] by (simp add: tick_near_def)
  from collect_paged_sound(2) [OF ts(1) this] show ?thesis by (simp add: ts(2))
qed

lemma momentum_ticks_near:
  assumes "momentum_fetch_tick_data api pid = Ok d" "\<bar>current_tick_index d\<bar> \<le> 2 ^ 29"
  shows "list_all (tick_near MomentumCollector api d) (ticks d)"
proof -
  obtain tid ts where ts: "collect_paged api tid (raw_table_entry api (current_tick_index d) MAX_TICK_FETCH_WINDOW) = Ok ts" "ticks d = ts"
    using assms(1) by (auto simp: momentum_fetch_tick_data_def outcome_simps build_pool_tick_data_def collect_ticks_from_raw_i32_table_def)
  have "tick_near MomentumCollector api d t" if e: "raw_table_entry api (current_tick_index d) MAX_TICK_FETCH_WINDOW e = Some t" for e t
  proof -
    obtain nm i obj where "jget ''name'' e = Some nm" "parse_raw_tick_index_from_df_name nm = Some i"
      "tick_in_window i (current_tick_index d) MAX_TICK_FETCH_WINDOW" "entry_object api e = Some obj"
      "parse_table_tick_object obj = Some (tick_index t, liquidity_net t)"
      using e by (auto simp: raw_table_entry_def bind_eq_Some_conv nonzero_tick_Some split: if_splits)
    then show ?thesis
      unfolding tick_near_def listed_in_window_def window_near(1) [OF assms(2), symmetric]
      by (simp, intro exI [of _ e] exI [of _ nm] exI [of _ i] exI [of _ obj]) simp
  qed
  from collect_paged_sound(2) [OF ts(1) this] show ?thesis by (simp add: ts(2))
qed

lemma turbos_ticks_near:
  assumes "turbos_fetch_tick_data api pid = Some (Ok d)" "\<bar>current_tick_index d\<bar> \<le> 2 ^ 29" "uint (tick_spacing d) < 2 ^ 29"
  shows "list_all (tick_near TurbosCollector api d) (ticks d)"
proof -
  let ?c = "current_tick_index d" and ?s = "uint (tick_spacing d)"
  obtain ty where "collect_turbos_ticks api pid ty ?c (tick_spacing d) = Some (ticks d)"
    using assms(1) by (fastforce simp: turbos_fetch_tick_data_def outcome_simps build_pool_tick_data_def split: outcome.splits
        simp del: parse_raw_tick_index.simps parse_u32_field.simps)
  moreover have "wrap_i32 ?s = ?s" using assms(3) by (simp add: is_i32_def order_trans [OF _ uint_ge_0])
  ultimately obtain idx where idx: "aligned_ticks_in_window ?c ?s 200 = Some idx"
    "ticks d = finalize_ticks (List.map_filter (turbos_tick api pid ty) idx)"
    by (auto simp: collect_turbos_ticks_def MAX_TICK_FETCH_WINDOW_def)
  have i: "\<bar>i - ?c\<bar> \<le> 200 \<and> ?s dvd i" if "i \<in> set idx" for i
  proof (cases "?s = 0")
    case True
    with idx(1) that show ?thesis by (simp add: aligned_ticks_in_window_def)
  next
    case False
    then have pos: "0 < ?s" using uint_ge_0 [of "tick_spacing d"] by linarith
    have "- (2 ^ 31) \<le> ?c - 200 - ?s" "?c + 200 + ?s < 2 ^ 31" using assms(2,3) by simp_all
    from aligned_ticks_spec [OF pos this] idx(1) that show ?thesis by auto
  qed
  have "\<exists>i \<in> set idx. turbos_tick api pid ty i = Some t" if "t \<in> set (ticks d)" for t
    using that finalize_subset idx(2) by (fastforce simp: List.map_filter_def)
  then show ?thesis using i turbos_tick_index by (fastforce simp: list_all_iff tick_near_def)
qed

text \<open>
  C26.  The ticks that a fetch returns are the non-zero ones near the current tick, for each of the four
  collectors and whatever the node answers, as long as the node reports a current tick and a spacing below \<open>2 ^ 29\<close>
  (real ticks stay below \<open>443637\<close>): indices ascend strictly, and every index of a Cetus, Magma or Turbos pool lies
  within 200 of the current tick, for Turbos on a multiple of the spacing.  For Momentum only the key under which a
  tick is listed lies in that window: the index kept is the one read from the tick object, which is not compared with it.
\<close>

theorem fetched_ticks_in_window:
  assumes "fetch_tick_data c api pid = Some (Ok d)" "\<bar>current_tick_index d\<bar> \<le> 2 ^ 29" "uint (tick_spacing d) < 2 ^ 29"
  shows "sorted_wrt (<) (map tick_index (ticks d)) \<and> list_all (\<lambda>t. liquidity_net t \<noteq> 0 \<and> tick_near c api d t) (ticks d)"
proof -
  have "list_all (tick_near c api d) (ticks d)"
    using assms cetus_ticks_near magma_ticks_near momentum_ticks_near turbos_ticks_near by (cases c) auto
  then show ?thesis using fetched_tick_data_ok [OF assms(1)] by (auto simp: tick_data_ok_def tick_ok_def list_all_iff)
qed

subsection \<open>Collectors return\<close>

text \<open>The current tick and the spacing that the node reports for a Turbos pool.\<close>

definition turbos_reports :: "sui_api \<Rightarrow> string \<Rightarrow> int \<Rightarrow> u32 \<Rightarrow> bool" where
  "turbos_reports api pid current spacing \<longleftrightarrow>
     (\<exists>response flds ty. api_get_object api pid = Ok response \<and> parse_move_object_response response = Ok (flds, ty) \<and>
        parse_raw_tick_index flds [''tick_current_index'', ''current_tick_index''] = Ok current \<and>
        parse_u32_field flds [''tick_spacing''] = Ok spacing)"

lemma turbos_collects:
  assumes "\<bar>current\<bar> \<le> 2 ^ 29" "uint spacing < 2 ^ 29"
  shows "collect_turbos_ticks api pid ty current spacing \<noteq> None"
proof -
  have "is_i32 (uint spacing)" using assms by (simp add: is_i32_def order_trans [OF _ uint_ge_0])
  then have w: "wrap_i32 (uint spacing) = uint spacing" by simp
  show ?thesis
  proof (cases "uint spacing = 0")
    case True
    then show ?thesis using w by (simp add: collect_turbos_ticks_def aligned_ticks_in_window_def)
  next
    case False
    then have pos: "0 < uint spacing" using uint_ge_0 [of spacing] by linarith
    have "- (2 ^ 31) \<le> current - 200 - uint spacing" "current + 200 + uint spacing < 2 ^ 31" using assms by simp_all
    then have "aligned_ticks_in_window current (uint spacing) MAX_TICK_FETCH_WINDOW \<noteq> None"
      using aligned_ticks_spec [OF pos, of current 200] by (simp add: MAX_TICK_FETCH_WINDOW_def)
    then show ?thesis by (simp add: collect_turbos_ticks_def w)
  qed
qed

text \<open>
  Fetching tick data returns for every collector and every behaviour of the node, except that a Turbos pool
  must not report a current tick or a spacing beyond \<open>2 ^ 29\<close> (real ticks stay below \<open>443637\<close>).
\<close>

theorem fetch_tick_data_returns:
  assumes "c = TurbosCollector \<longrightarrow>
    (\<forall>current spacing. turbos_reports api pid current spacing \<longrightarrow> \<bar>current\<bar> \<le> 2 ^ 29 \<and> uint spacing < 2 ^ 29)"
  shows "\<exists>r. fetch_tick_data c api pid = Some r"
proof (cases c)
  case TurbosCollector
  then have bound: "\<bar>current\<bar> \<le> 2 ^ 29 \<and> uint spacing < 2 ^ 29" if "turbos_reports api pid current spacing" for current spacing
    using that assms by blast
  have "turbos_fetch_tick_data api pid \<noteq> None"
  proof
    assume none: "turbos_fetch_tick_data api pid = None"
    then obtain flds current spacing where "turbos_reports api pid current spacing"
      and "collect_turbos_ticks api pid (turbos_i32_type flds) current spacing = None"
      by (fastforce simp: turbos_fetch_tick_data_def turbos_reports_def outcome_simps
          simp del: parse_raw_tick_index.simps parse_u32_field.simps split: outcome.splits)
    then show False using bound turbos_collects by blast
  qed
  then show ?thesis using TurbosCollector by simp
qed simp_all

subsection \<open>Coin types of nested pool types\<close>

lemma split_on_none: "sep \<notin> set s \<Longrightarrow> split_on sep s = [s]"
  by (induction s) auto

lemma split_on_sep: "sep \<notin> set a \<Longrightarrow> split_on sep (a @ sep # b) = a # split_on sep b"
  by (induction a) auto

lemma trim_end_gt_none: "s \<noteq> [] \<Longrightarrow> last s \<noteq> CHR ''>'' \<Longrightarrow> trim_end_gt s = s"
  by (cases s rule: rev_cases) (simp_all add: trim_end_gt_def)

lemma plain_name_facts:
  assumes "plain_name n"
  shows "n \<noteq> []" "CHR ''<'' \<notin> set n" "CHR ''>'' \<notin> set n" "CHR '','' \<notin> set n" "\<forall>c \<in> set n. \<not> is_space c"
  using assms by (auto simp: plain_name_def plain_char_def list_all_iff)

text \<open>
  On a pool of two unparameterised coins the Cetus and Magma reader agrees with the scanner the other collectors
  use; as soon as the first coin type itself has a type argument, it fails although the scanner succeeds.
\<close>

theorem coin_type_readers:
  assumes "plain_name n" "plain_name a" "plain_name b"
  shows "parse_coin_types (show_type (MoveType n [MoveType a [], MoveType b []])) = Ok (a, b) \<and>
    parse_coin_types_from_pool_type (show_type (MoveType n [MoveType a [], MoveType b []])) = Ok (a, b) \<and>
    (wf_type x \<longrightarrow> \<not> is_ok (parse_coin_types (show_type (MoveType n [MoveType a [x], MoveType b []]))) \<and>
      is_ok (parse_coin_types_from_pool_type (show_type (MoveType n [MoveType a [x], MoveType b []]))))"
proof (intro conjI impI)
  note pn = plain_name_facts [OF assms(1)] and pa = plain_name_facts [OF assms(2)] and pb = plain_name_facts [OF assms(3)]
  have "split_on (CHR ''<'') (n @ ''<'' @ (a @ '', '' @ b) @ ''>'') = [n, (a @ '', '' @ b) @ ''>'']"
    using pn pa pb by (simp add: split_on_sep split_on_none)
  moreover have "last b \<noteq> CHR ''>''" using pb last_in_set by metis
  then have "trim_end_gt ((a @ '', '' @ b) @ ''>'') = a @ '', '' @ b"
    using pb trim_end_gt_none [of "a @ '', '' @ b"] by (auto simp: trim_end_gt_def)
  moreover have "split_on (CHR '','') (a @ '', '' @ b) = [a, '' '' @ b]"
    using pa pb by (simp add: split_on_sep split_on_none)
  moreover have "trim a = a" "trim ('' '' @ b) = b"
    using pa pb trim_ends [of b "'' ''"] trim_no_space [of a] by (auto simp: is_space_def)
  ultimately show "parse_coin_types (show_type (MoveType n [MoveType a [], MoveType b []])) = Ok (a, b)"
    by (simp add: parse_coin_types_def Let_def)
  have wf: "wf_type (MoveType n [MoveType a [], MoveType b []])" using assms by simp
  show "parse_coin_types_from_pool_type (show_type (MoveType n [MoveType a [], MoveType b []])) = Ok (a, b)"
    using generic_args_coins [OF wf] by simp
  assume x: "wf_type x"
  have wfx: "wf_type (MoveType n [MoveType a [x], MoveType b []])" using assms x by simp
  show "is_ok (parse_coin_types_from_pool_type (show_type (MoveType n [MoveType a [x], MoveType b []])))"
    using generic_args_coins [OF wfx] by simp
  have "split_on (CHR ''<'') (show_type (MoveType n [MoveType a [x], MoveType b []])) =
      n # a # split_on (CHR ''<'') (show_type x @ ''>, '' @ b @ ''>'')"
    using pn pa by (simp add: split_on_sep)
  moreover have "trim_end_gt a = a" using pa trim_end_gt_none last_in_set by metis
  ultimately show "\<not> is_ok (parse_coin_types (show_type (MoveType n [MoveType a [x], MoveType b []])))"
    using pa by (simp add: parse_coin_types_def split_on_none)
qed

subsection \<open>Witnesses\<close>

definition demo_fields :: json where
  "demo_fields = JObj [(''current_sqrt_price'', JStr ''7''), (''liquidity'', JStr ''5''), (''fee_rate'', JStr ''3''),
     (''is_pause'', JBool False), (''current_tick_index'', JNum (PosInt 0)), (''tick_spacing'', JNum (PosInt 60))]"

definition demo_pool_object :: json where
  "demo_pool_object = JObj [(''data'', JObj [(''content'', JObj [(''type'', JStr ''0x1::pool::Pool<A, B>''),
     (''fields'', demo_fields)])])]"

definition chain_api :: sui_api where
  "chain_api = demo_api\<lparr>api_get_object := (\<lambda>oid. Ok (if oid = ''0x1'' then demo_object else demo_pool_object))\<rparr>"

lemma demo_pool_response: "parse_move_object_response demo_pool_object = Ok (demo_fields, ''0x1::pool::Pool<A, B>'')"
  by (simp add: parse_move_object_response_def demo_pool_object_def jpath_def jstr_def)

lemma demo_coin_types: "parse_coin_types ''0x1::pool::Pool<A, B>'' = Ok (''A'', ''B'')"
  by code_simp

lemma demo_numbers: "parse_u128 ''7'' = Some 7" "parse_u128 ''5'' = Some 5" "parse_u64 ''3'' = Some 3"
  by (simp_all add: parse_u128_def parse_u64_def parse_unsigned_def digit_of_def)

lemma chain_object: "api_get_object chain_api ''0xp'' = Ok demo_pool_object"
  by (simp add: chain_api_def)

lemma demo_cetus_pool:
  "cetus_fetch_pool chain_api ''0xp'' = Ok \<lparr>pool_id = ''0xp'', dex_name = ''Cetus'', coin_type_a = ''A'', coin_type_b = ''B'',
     sqrt_price = 7, liquidity = 5, fee_rate = 3, is_paused = False\<rparr>"
  by (simp add: cetus_fetch_pool_def chain_object cetus_parse_json_response_def demo_pool_response demo_coin_types
      demo_fields_def u128_string_field_def demo_numbers)

lemma demo_cetus_ticks:
  "cetus_fetch_tick_data chain_api ''0xp'' = Ok (build_pool_tick_data ''0xp'' 0 60 [\<lparr>tick_index = - 10, liquidity_net = 2\<rparr>] None None)"
proof -
  have bits: "parse_i32_bits_from_json (JObj [(''bits'', JNum (PosInt 41))]) = Some 41"
    by (subst parse_i32_bits_from_json.simps, simp, subst parse_i32_bits_from_json.simps, simp)
  have zero: "parse_i32_bits_from_json (JNum (PosInt 0)) = Some 0"
    by (subst parse_i32_bits_from_json.simps) simp
  have "decode_sui_i32 41 = - 10" by code_simp
  then have index: "parse_tick_index_from_field_name (JObj [(''value'', JObj [(''bits'', JNum (PosInt 41))])]) = Some (- 10)"
    by (simp add: parse_tick_index_from_field_name_def bits)
  have liquidity: "cetus_parse_liquidity_net demo_object = Some 2"
    using demo_object_liquidity by (simp add: cetus_parse_liquidity_net_def demo_object_def jpath_def
        parse_liquidity_net_from_tick_object_def parse_liquidity_net_from_fields_def bind_map_option o_def split: option.splits)
  have "entry_object chain_api demo_tick_entry = Some demo_object"
    by (simp add: entry_object_def demo_tick_entry_def chain_api_def jstr_def)
  moreover have "cetus_tick_in_window (- 10) 0 200" by (simp add: cetus_tick_in_window_def is_i32_def)
  ultimately have entry: "cetus_entry chain_api 0 demo_tick_entry = Some \<lparr>tick_index = - 10, liquidity_net = 2\<rparr>"
    using index liquidity by (simp add: cetus_entry_def demo_tick_entry_def nonzero_tick_def MAX_TICK_FETCH_WINDOW_def)
  have "collect_pages (\<lambda>cursor. api_get_dynamic_fields chain_api ''0xp'' cursor (Some 50)) (cetus_entry chain_api 0) (Suc 9) None [] =
      Ok [\<lparr>tick_index = - 10, liquidity_net = 2\<rparr>]"
    by (simp only: collect_pages.simps)
      (simp add: chain_api_def [THEN arg_cong [of _ _ api_get_dynamic_fields]] demo_api_def List.map_filter_def entry jstr_def)
  then have "collect_paged chain_api ''0xp'' (cetus_entry chain_api 0) = Ok [\<lparr>tick_index = - 10, liquidity_net = 2\<rparr>]"
    by (simp add: collect_paged_def finalize_ticks_def)
  moreover have "parse_current_tick_index demo_fields = Ok 0" "cetus_parse_u32_field demo_fields ''tick_spacing'' = Ok 60"
    "parse_fee_growth_global demo_fields = Ok (None, None)"
    by (simp_all add: parse_current_tick_index_def cetus_parse_u32_field_def parse_fee_growth_global_def demo_fields_def zero decode_sui_i32_def)
  ultimately show ?thesis
    by (simp add: cetus_fetch_tick_data_def chain_object cetus_parse_json_response_def demo_pool_response)
qed

theorem fetched_pool_dispatches_witness:
  "\<exists>p. fetch_pool CetusCollector chain_api ''0xp'' = Ok p \<and> collector_for_dex_name (dex_name p) = Some CetusCollector"
proof -
  obtain p where p: "fetch_pool CetusCollector chain_api ''0xp'' = Ok p" using demo_cetus_pool by simp
  from fetched_pool_dispatches [OF this] have "collector_for_dex_name (dex_name p) = Some CetusCollector" by simp
  with p show ?thesis by (intro exI [of _ p] conjI)
qed

definition demo_fetched :: pool_tick_data where
  "demo_fetched = build_pool_tick_data ''0xp'' 0 60 [\<lparr>tick_index = - 10, liquidity_net = 2\<rparr>] None None"

lemma demo_fetch: "fetch_tick_data CetusCollector chain_api ''0xp'' = Some (Ok demo_fetched)"
  by (simp only: fetch_tick_data.simps demo_cetus_ticks demo_fetched_def)

theorem fetched_ticks_storable_witness:
  "storable (PoolTickDataUpdate demo_fetched) \<and>
   (\<exists>st'. persist (\<lambda>_. NoFault) (PoolTickDataUpdate demo_fetched) demo_state = (Ok (), st') \<and>
      look_ticks (ws_pg st') ''0xp'' = Some demo_fetched)"
proof -
  have "nets_fit demo_fetched" by (simp add: nets_fit_def demo_fetched_def build_pool_tick_data_def)
  with fetched_ticks_storable [OF demo_fetch, of demo_state] show ?thesis by auto
qed

theorem fetched_ticks_in_window_witness:
  "fetch_tick_data CetusCollector chain_api ''0xp'' = Some (Ok demo_fetched) \<and> ticks demo_fetched \<noteq> [] \<and>
   list_all (\<lambda>t. liquidity_net t \<noteq> 0 \<and> tick_near CetusCollector chain_api demo_fetched t) (ticks demo_fetched)"
proof -
  have "\<bar>current_tick_index demo_fetched\<bar> \<le> 2 ^ 29" "uint (tick_spacing demo_fetched) < 2 ^ 29" "ticks demo_fetched \<noteq> []"
    by (simp_all add: demo_fetched_def build_pool_tick_data_def)
  with fetched_ticks_in_window [OF demo_fetch] demo_fetch show ?thesis by blast
qed

theorem fetch_tick_data_returns_witness:
  "\<exists>r. fetch_tick_data TurbosCollector chain_api ''0xp'' = Some r"
proof -
  have "parse_i32_bits_from_json (JNum (PosInt 0)) = Some 0" by (subst parse_i32_bits_from_json.simps) simp
  then have "current = 0 \<and> spacing = 60" if "turbos_reports chain_api ''0xp'' current spacing" for current spacing
    using that by (simp add: turbos_reports_def chain_object demo_pool_response demo_fields_def decode_raw_i32_def)
  then have "\<bar>current\<bar> \<le> 2 ^ 29 \<and> uint spacing < 2 ^ 29" if "turbos_reports chain_api ''0xp'' current spacing" for current spacing
    using that by force
  then show ?thesis by (intro fetch_tick_data_returns) blast
qed

theorem coin_type_readers_witness:
  "parse_coin_types ''Pool<LP<X>, SUI>'' \<noteq> Ok (''LP<X>'', ''SUI'') \<and>
   is_ok (parse_coin_types_from_pool_type ''Pool<LP<X>, SUI>'')"
proof -
  have pl: "plain_name ''Pool''" "plain_name ''LP''" "plain_name ''SUI''" "wf_type (MoveType ''X'' [])" by code_simp+
  from coin_type_readers [OF pl(1-3), THEN conjunct2, THEN conjunct2, THEN mp, OF pl(4)]
  have no: "\<not> is_ok (parse_coin_types ''Pool<LP<X>, SUI>'')" and yes: "is_ok (parse_coin_types_from_pool_type ''Pool<LP<X>, SUI>'')"
    by simp_all
  from no have "parse_coin_types ''Pool<LP<X>, SUI>'' \<noteq> Ok v" for v by auto
  then show ?thesis using yes by (intro conjI)
qed

end
