(* ===== verification/Redis_Cache.thy ===== *)
theory Redis_Cache
  imports Queue
begin

text \<open>
  \<open>RedisCache\<close> of \<open>src/storage/redis.rs\<close>: the hot cache of pool states, tick data, the pool topology, tokens and
  the gas price.  Values are written with \<open>SETEX\<close> and expire; every command is tried three times (\<open>reconnect\<close>
  between the attempts only replaces the connection handle and its own failure is logged).  \<open>fa n\<close> is the fault of
  attempt \<open>n\<close>, \<open>now\<close> the server's clock in seconds.
\<close>

subsection \<open>Commands with retry\<close>

type_synonym 't redis_kv = "string \<rightharpoonup> 't \<times> nat"

definition live :: "nat \<Rightarrow> 't redis_kv \<Rightarrow> string \<Rightarrow> 't option" where
  "live now kv k = (case kv k of None \<Rightarrow> None | Some (t, expires) \<Rightarrow> if now < expires then Some t else None)"

function set_loop ::
  "(nat \<Rightarrow> fault) \<Rightarrow> nat \<Rightarrow> string \<Rightarrow> string \<Rightarrow> 't \<Rightarrow> nat \<Rightarrow> nat \<Rightarrow> 't redis_kv \<Rightarrow> (unit, string) outcome \<times> 't redis_kv" where
  "set_loop fa now label k t ttl n kv =
     (case exec_stmt (fa n) (Ok (kv(k \<mapsto> (t, now + ttl)))) kv of
        (Ok u, kv') \<Rightarrow> (Ok (), kv')
      | (Err e, kv') \<Rightarrow> if 3 \<le> Suc n then (Err (label @ e), kv') else set_loop fa now label k t ttl (Suc n) kv'
      | (Panic m, kv') \<Rightarrow> (Panic m, kv'))"
  by pat_completeness auto
termination
  by (relation "measure (\<lambda>(fa, now, label, k, t, ttl, n, kv). 3 - n)") auto

declare set_loop.simps [simp del]

function get_loop ::
  "(nat \<Rightarrow> fault) \<Rightarrow> string \<Rightarrow> ('a option, string) outcome \<Rightarrow> nat \<Rightarrow> ('a option, string) outcome" where
  "get_loop fa label v n =
     (case read_stmt (fa n) v of
        Ok r \<Rightarrow> Ok r
      | Err e \<Rightarrow> if 3 \<le> Suc n then Err (label @ e) else get_loop fa label v (Suc n)
      | Panic m \<Rightarrow> Panic m)"
  by pat_completeness auto
termination
  by (relation "measure (\<lambda>(fa, label, v, n). 3 - n)") auto

declare get_loop.simps [simp del]

definition set_as ::
  "('a, 't) codec \<Rightarrow> (nat \<Rightarrow> fault) \<Rightarrow> nat \<Rightarrow> string \<Rightarrow> string \<Rightarrow> nat \<Rightarrow> 'a \<Rightarrow> 't redis_kv \<Rightarrow> (unit, string) outcome \<times> 't redis_kv" where
  "set_as c fa now label k ttl x kv =
     (case enc c x of
        Ok t \<Rightarrow> set_loop fa now label k t ttl 0 kv
      | Err e \<Rightarrow> (Err e, kv)
      | Panic m \<Rightarrow> (Panic m, kv))"

text \<open>Decoding happens after a successful \<open>GET\<close>: its error is returned at once.\<close>

definition get_as ::
  "('a, 't) codec \<Rightarrow> (nat \<Rightarrow> fault) \<Rightarrow> nat \<Rightarrow> string \<Rightarrow> string \<Rightarrow> 't redis_kv \<Rightarrow> ('a option, string) outcome" where
  "get_as c fa now label k kv =
     bind_outcome (get_loop fa label (Ok (live now kv k)) 0) (\<lambda>v.
       case v of None \<Rightarrow> Ok None | Some t \<Rightarrow> bind_outcome (dec c t) (\<lambda>x. Ok (Some x)))"

subsection \<open>The cache operations\<close>

record 't cache_env =
  pool_codec :: "(pool_state, 't) codec"
  ticks_codec :: "(pool_tick_data, 't) codec"
  pools_codec :: "(pool_state list, 't) codec"
  tokens_codec :: "(token list, 't) codec"
  price_codec :: "(u64, 't) codec"

definition pool_key :: "string \<Rightarrow> string" where "pool_key pid = ''pool:'' @ pid"

definition ticks_key :: "string \<Rightarrow> string" where "ticks_key pid = ''pool_ticks:'' @ pid"

definition cache_set_pool_state where
  "cache_set_pool_state env fa now p =
     set_as (pool_codec env) fa now ''Redis set error after retry: '' (pool_key (pool_id p)) 300 p"

definition cache_get_pool_state where
  "cache_get_pool_state env fa now pid =
     get_as (pool_codec env) fa now ''Redis get error after retry: '' (pool_key pid)"

definition cache_set_gas_price where
  "cache_set_gas_price env fa now =
     set_as (price_codec env) fa now ''Redis set gas price error after retry: '' ''config:reference_gas_price'' 3600"

text \<open>The price is converted by the driver, so a malformed value counts as a failed attempt.\<close>

definition cache_get_gas_price :: "'t cache_env \<Rightarrow> (nat \<Rightarrow> fault) \<Rightarrow> nat \<Rightarrow> 't redis_kv \<Rightarrow> (u64 option, string) outcome" where
  "cache_get_gas_price env fa now kv =
     get_loop fa ''Redis get gas price error after retry: ''
       (case live now kv ''config:reference_gas_price'' of
          None \<Rightarrow> Ok None | Some t \<Rightarrow> bind_outcome (dec (price_codec env) t) (\<lambda>x. Ok (Some x))) 0"

definition cache_set_tick_data where
  "cache_set_tick_data env fa now d =
     set_as (ticks_codec env) fa now ''Redis set pool tick data error after retry: '' (ticks_key (td_pool_id d)) 300 d"

definition cache_get_tick_data where
  "cache_get_tick_data env fa now pid =
     get_as (ticks_codec env) fa now ''Redis get pool tick data error after retry: '' (ticks_key pid)"

definition cache_set_active_pools where
  "cache_set_active_pools env fa now =
     set_as (pools_codec env) fa now ''Redis set active pools error after retry: '' ''pools:active'' 30"

definition cache_get_active_pools where
  "cache_get_active_pools env fa now =
     get_as (pools_codec env) fa now ''Redis get active pools error after retry: '' ''pools:active''"

definition cache_set_all_tokens where
  "cache_set_all_tokens env fa now =
     set_as (tokens_codec env) fa now ''Redis set all tokens error after retry: '' ''tokens:all'' 300"

definition cache_get_all_tokens where
  "cache_get_all_tokens env fa now =
     get_as (tokens_codec env) fa now ''Redis get all tokens error after retry: '' ''tokens:all''"

subsection \<open>Three attempts\<close>

lemma ex_less_3: "(\<exists>n < 3. P n) \<longleftrightarrow> P 0 \<or> P (Suc 0) \<or> P (Suc (Suc 0))" for P :: "nat \<Rightarrow> bool"
  by (auto simp: numeral_3_eq_3 less_Suc_eq)

lemma set_loop_outcome:
  "fst (set_loop fa now label k t ttl 0 kv) = Ok () \<longleftrightarrow> (\<exists>n < 3. fa n = NoFault)"
  "snd (set_loop fa now label k t ttl 0 kv) = kv \<or> snd (set_loop fa now label k t ttl 0 kv) = kv(k \<mapsto> (t, now + ttl))"
  "\<exists>n < 3. fa n = NoFault \<Longrightarrow> snd (set_loop fa now label k t ttl 0 kv) = kv(k \<mapsto> (t, now + ttl))"
  by (auto simp: ex_less_3 set_loop.simps exec_stmt_def split: fault.splits)

lemma get_loop_Ok:
  "get_loop fa label (Ok r) 0 = Ok r \<longleftrightarrow> (\<exists>n < 3. fa n = NoFault)"
  "\<exists>n < 3. fa n = NoFault \<Longrightarrow> get_loop fa label (Ok r) 0 = Ok r"
  by (auto simp: ex_less_3 get_loop.simps read_stmt_def split: fault.splits)

lemma set_as_outcome:
  assumes "codec_ok c"
  shows "fst (set_as c fa now label k ttl x kv) = Ok () \<longleftrightarrow> (\<exists>n < 3. fa n = NoFault)"
    and "k' \<noteq> k \<Longrightarrow> snd (set_as c fa now label k ttl x kv) k' = kv k'"
    and "\<exists>n < 3. fa n = NoFault \<Longrightarrow>
      \<exists>t. dec c t = Ok x \<and> snd (set_as c fa now label k ttl x kv) = kv(k \<mapsto> (t, now + ttl))"
proof -
  obtain t where t: "enc c x = Ok t" "dec c t = Ok x" using assms by (auto simp: codec_ok_def)
  show "fst (set_as c fa now label k ttl x kv) = Ok () \<longleftrightarrow> (\<exists>n < 3. fa n = NoFault)"
    by (simp add: set_as_def t set_loop_outcome)
  show "snd (set_as c fa now label k ttl x kv) k' = kv k'" if "k' \<noteq> k"
    using that set_loop_outcome(2) [of fa now label k t ttl kv] by (auto simp: set_as_def t)
  show "\<exists>t. dec c t = Ok x \<and> snd (set_as c fa now label k ttl x kv) = kv(k \<mapsto> (t, now + ttl))"
    if "\<exists>n < 3. fa n = NoFault"
    using set_loop_outcome(3) [OF that] by (intro exI [of _ t]) (simp add: set_as_def t)
qed

lemma get_as_live: "\<exists>n < 3. fa n = NoFault \<Longrightarrow> live now kv k = Some t \<Longrightarrow> dec c t = Ok x \<Longrightarrow> get_as c fa now label k kv = Ok (Some x)"
  and get_as_gone: "\<exists>n < 3. fa n = NoFault \<Longrightarrow> live now kv k = None \<Longrightarrow> get_as c fa now label k kv = Ok None"
  by (simp_all add: get_as_def get_loop_Ok(2))

lemma get_as_other: "kv k = kv' k \<Longrightarrow> get_as c fa now label k kv = get_as c fa now label k kv'"
  by (simp add: get_as_def live_def)

lemma set_get_as:
  assumes "codec_ok c" "\<exists>n < 3. fa n = NoFault" "\<exists>n < 3. fb n = NoFault"
  shows "later < now + ttl \<Longrightarrow> get_as c fb later label' k (snd (set_as c fa now label k ttl x kv)) = Ok (Some x)"
    and "now + ttl \<le> later \<Longrightarrow> get_as c fb later label' k (snd (set_as c fa now label k ttl x kv)) = Ok None"
proof -
  obtain t where t: "dec c t = Ok x" "snd (set_as c fa now label k ttl x kv) = kv(k \<mapsto> (t, now + ttl))"
    using set_as_outcome(3) [OF assms(1,2)] by blast
  show "get_as c fb later label' k (snd (set_as c fa now label k ttl x kv)) = Ok (Some x)" if "later < now + ttl"
    by (rule get_as_live [OF assms(3) _ t(1)]) (simp add: t(2) live_def that)
  show "get_as c fb later label' k (snd (set_as c fa now label k ttl x kv)) = Ok None" if "now + ttl \<le> later"
    by (rule get_as_gone [OF assms(3)]) (use that in \<open>simp add: t(2) live_def\<close>)
qed

lemma set_get_now:
  "codec_ok c \<Longrightarrow> 0 < ttl \<Longrightarrow>
   get_as c (\<lambda>_. NoFault) now label' k (snd (set_as c (\<lambda>_. NoFault) now label k ttl x kv)) = Ok (Some x)"
  by (rule set_get_as(1)) (auto intro: exI [of _ 0])

lemma set_get_as_other:
  "codec_ok c \<Longrightarrow> k' \<noteq> k \<Longrightarrow>
   get_as c' fb later label' k' (snd (set_as c fa now label k ttl x kv)) = get_as c' fb later label' k' kv"
  by (rule get_as_other) (rule set_as_outcome(2))

lemma keys_differ [simp]:
  "pool_key a \<noteq> ticks_key b" "ticks_key b \<noteq> pool_key a"
  "pool_key a \<noteq> ''pools:active''" "pool_key a \<noteq> ''tokens:all''" "pool_key a \<noteq> ''config:reference_gas_price''"
  "ticks_key a \<noteq> ''pools:active''" "ticks_key a \<noteq> ''tokens:all''" "ticks_key a \<noteq> ''config:reference_gas_price''"
  "pool_key a = pool_key b \<longleftrightarrow> a = b" "ticks_key a = ticks_key b \<longleftrightarrow> a = b"
  by (simp_all add: pool_key_def ticks_key_def)

lemmas cache_op_defs =
  cache_set_pool_state_def cache_get_pool_state_def cache_set_tick_data_def cache_get_tick_data_def
  cache_set_active_pools_def cache_get_active_pools_def cache_set_all_tokens_def cache_get_all_tokens_def

subsection \<open>Cached pools and ticks are keyed stores\<close>

text \<open>A cache seen at a fixed instant: the codecs, the clock and the contents.\<close>

type_synonym 't cache_now = "'t cache_env \<times> nat \<times> 't redis_kv"

definition codecs_ok :: "'t cache_env \<Rightarrow> bool" where
  "codecs_ok env \<longleftrightarrow> codec_ok (pool_codec env) \<and> codec_ok (ticks_codec env) \<and> codec_ok (pools_codec env) \<and>
     codec_ok (tokens_codec env) \<and> codec_ok (price_codec env)"

fun cache_ok :: "'t cache_now \<Rightarrow> bool" where
  "cache_ok (env, now, kv) \<longleftrightarrow> codecs_ok env"

fun put_hot :: "pool_state \<Rightarrow> 't cache_now \<Rightarrow> 't cache_now" where
  "put_hot p (env, now, kv) = (env, now, snd (cache_set_pool_state env (\<lambda>_. NoFault) now p kv))"

fun look_hot :: "'t cache_now \<Rightarrow> string \<Rightarrow> pool_state option" where
  "look_hot (env, now, kv) pid = Option.bind (ok_option (cache_get_pool_state env (\<lambda>_. NoFault) now pid kv)) id"

fun put_hot_ticks :: "pool_tick_data \<Rightarrow> 't cache_now \<Rightarrow> 't cache_now" where
  "put_hot_ticks d (env, now, kv) = (env, now, snd (cache_set_tick_data env (\<lambda>_. NoFault) now d kv))"

fun look_hot_ticks :: "'t cache_now \<Rightarrow> string \<Rightarrow> pool_tick_data option" where
  "look_hot_ticks (env, now, kv) pid = Option.bind (ok_option (cache_get_tick_data env (\<lambda>_. NoFault) now pid kv)) id"

interpretation hot_pools: keyed_store cache_ok put_hot look_hot pool_id "\<lambda>p. p" "\<lambda>_. True"
  by unfold_locales
    (auto simp: cache_op_defs codecs_ok_def set_get_now set_get_as_other)

interpretation hot_ticks: keyed_store cache_ok put_hot_ticks look_hot_ticks td_pool_id "\<lambda>d. d" "\<lambda>_. True"
  by unfold_locales
    (auto simp: cache_op_defs codecs_ok_def set_get_now set_get_as_other)

text \<open>
  A cached pool state is read back exactly until its five minutes are over and is absent afterwards, as long as
  one of the three read attempts gets through; the write touches no other pool, no tick data, and neither the pool
  topology, the token list nor the gas price.
\<close>

theorem cached_pool_roundtrip:
  assumes "codecs_ok env" "cache_set_pool_state env fa now p kv = (Ok (), kv')" "\<exists>n < 3. fb n = NoFault"
  shows "(later < now + 300 \<longrightarrow> cache_get_pool_state env fb later (pool_id p) kv' = Ok (Some p)) \<and>
    (now + 300 \<le> later \<longrightarrow> cache_get_pool_state env fb later (pool_id p) kv' = Ok None) \<and>
    (\<forall>pid. pid \<noteq> pool_id p \<longrightarrow> cache_get_pool_state env fb later pid kv' = cache_get_pool_state env fb later pid kv) \<and>
    cache_get_tick_data env fb later pid kv' = cache_get_tick_data env fb later pid kv \<and>
    cache_get_active_pools env fb later kv' = cache_get_active_pools env fb later kv \<and>
    cache_get_all_tokens env fb later kv' = cache_get_all_tokens env fb later kv \<and>
    cache_get_gas_price env fb later kv' = cache_get_gas_price env fb later kv"
proof -
  have c: "codec_ok (pool_codec env)" using assms(1) by (simp add: codecs_ok_def)
  have kv': "kv' = snd (cache_set_pool_state env fa now p kv)" using assms(2) by simp
  have some: "\<exists>n < 3. fa n = NoFault"
    using set_as_outcome(1) [OF c, of fa now "''Redis set error after retry: ''" "pool_key (pool_id p)" 300 p kv] assms(2)
    by (simp add: cache_set_pool_state_def)
  have "live later kv' ''config:reference_gas_price'' = live later kv ''config:reference_gas_price''"
    by (simp add: kv' live_def cache_set_pool_state_def set_as_outcome(2) [OF c] keys_differ(5) [symmetric])
  then show ?thesis
    using set_get_as [OF c some assms(3)]
    by (simp add: kv' cache_op_defs set_get_as_other [OF c] keys_differ(3,4,5) [symmetric] cache_get_gas_price_def)
qed

text \<open>
  A cache write succeeds exactly when one of its three attempts gets a reply, and a read fails with an error
  only when all three attempts failed or the stored text is not decodable; no third failure is retried.
\<close>

theorem cache_three_attempts:
  assumes "codecs_ok env"
  shows "(fst (cache_set_pool_state env fa now p kv) = Ok () \<longleftrightarrow> (\<exists>n < 3. fa n = NoFault)) \<and>
    (live now kv (pool_key pid) = None \<longrightarrow>
       (cache_get_pool_state env fb now pid kv = Ok None \<longleftrightarrow> (\<exists>n < 3. fb n = NoFault)))"
proof -
  have c: "codec_ok (pool_codec env)" using assms by (simp add: codecs_ok_def)
  have "get_loop fb label (Ok None) 0 = Ok r \<longrightarrow> r = None" for label and r :: "'t option"
    by (simp add: get_loop.simps read_stmt_def split: fault.splits)
  then show ?thesis
    using get_loop_Ok [of fb _ None] set_as_outcome(1) [OF c]
    by (auto simp: cache_set_pool_state_def cache_get_pool_state_def get_as_def outcome_simps split: option.splits)
qed

definition plain_cache :: "(pool_state + pool_tick_data + pool_state list + token list + u64) cache_env" where
  "plain_cache =
     \<lparr>pool_codec = \<lparr>enc = (\<lambda>x. Ok (Inl x)), dec = (\<lambda>t. case t of Inl x \<Rightarrow> Ok x | _ \<Rightarrow> Err ''text'')\<rparr>,
      ticks_codec = \<lparr>enc = (\<lambda>x. Ok (Inr (Inl x))), dec = (\<lambda>t. case t of Inr (Inl x) \<Rightarrow> Ok x | _ \<Rightarrow> Err ''text'')\<rparr>,
      pools_codec = \<lparr>enc = (\<lambda>x. Ok (Inr (Inr (Inl x)))), dec = (\<lambda>t. case t of Inr (Inr (Inl x)) \<Rightarrow> Ok x | _ \<Rightarrow> Err ''text'')\<rparr>,
      tokens_codec = \<lparr>enc = (\<lambda>x. Ok (Inr (Inr (Inr (Inl x))))), dec = (\<lambda>t. case t of Inr (Inr (Inr (Inl x))) \<Rightarrow> Ok x | _ \<Rightarrow> Err ''text'')\<rparr>,
      price_codec = \<lparr>enc = (\<lambda>x. Ok (Inr (Inr (Inr (Inr x))))), dec = (\<lambda>t. case t of Inr (Inr (Inr (Inr x))) \<Rightarrow> Ok x | _ \<Rightarrow> Err ''text'')\<rparr>\<rparr>"

lemma plain_cache_ok: "codecs_ok plain_cache"
  by (simp add: codecs_ok_def codec_ok_def plain_cache_def)

definition cached_pool :: pool_state where
  "cached_pool = \<lparr>pool_id = ''0xp'', dex_name = ''Cetus'', coin_type_a = ''A'', coin_type_b = ''B'',
     sqrt_price = 1, liquidity = 2, fee_rate = 3, is_paused = False\<rparr>"

theorem cached_pool_roundtrip_witness:
  "cache_get_pool_state plain_cache (\<lambda>_. NoFault) 399 ''0xp''
     (snd (cache_set_pool_state plain_cache (\<lambda>n. if n = 0 then Refused ''down'' else NoFault) 100 cached_pool Map.empty)) =
     Ok (Some cached_pool)"
proof -
  let ?fa = "\<lambda>n :: nat. if n = 0 then Refused ''down'' else NoFault"
  obtain kv' where s: "cache_set_pool_state plain_cache ?fa 100 cached_pool Map.empty = (Ok (), kv')"
    by (simp add: cache_set_pool_state_def set_as_def plain_cache_def set_loop.simps exec_stmt_def)
  have n: "\<exists>n < 3 :: nat. (\<lambda>_. NoFault) n = NoFault" by (auto intro: exI [of _ 0])
  from cached_pool_roundtrip [OF plain_cache_ok s n, of 399] s show ?thesis by (simp add: cached_pool_def)
qed

theorem cache_three_attempts_witness:
  "fst (cache_set_pool_state plain_cache (\<lambda>_. Refused ''down'') 100 cached_pool Map.empty) \<noteq> Ok ()"
  using cache_three_attempts [OF plain_cache_ok, of "\<lambda>_. Refused ''down''" 100 cached_pool Map.empty] by simp

end
