(* ===== verification/World.thy ===== *)
theory World
  imports Collectors Redis_Cache
begin

text \<open>
  The state that the background workers share and the monad their asynchronous methods run in: PostgreSQL, the Redis
  cache and lists, the broadcast channel, the spawned tasks and the flags of the static worker.

  Every remote call takes the next tick of \<open>w_clock\<close>; the environment gives, for each tick, the faults of the call,
  the time of the servers and the answers of the Sui node, so two calls may well be answered differently.  An action
  yields \<open>None\<close> when it does not return.
\<close>

record 't world =
  w_clock :: nat
  w_db :: pg_db
  w_kv :: "'t redis_kv"
  w_lists :: "'t redis_lists"
  w_broadcast :: "pool_state list"
  w_spawned :: "pool_state list list"
  w_ready :: bool
  w_cycle :: u32

record 't world_env =
  we_fault :: "nat \<Rightarrow> nat \<Rightarrow> fault"
  we_now :: "nat \<Rightarrow> nat"
  we_api :: "nat \<Rightarrow> sui_api"
  we_queue :: "'t queue_env"
  we_cache :: "'t cache_env"
  we_pool_rows :: "nat \<Rightarrow> pg_db \<Rightarrow> string list"
  we_token_rows :: "nat \<Rightarrow> pg_db \<Rightarrow> string list"

text \<open>The order in which an unordered \<open>SELECT\<close> yields the rows at a tick: an enumeration of the keys.\<close>

definition rows_ok :: "'t world_env \<Rightarrow> nat \<Rightarrow> pg_db \<Rightarrow> bool" where
  "rows_ok e n db \<longleftrightarrow> distinct (we_pool_rows e n db) \<and> set (we_pool_rows e n db) = dom (pools_t db)"

type_synonym ('a, 't) act = "'t world_env \<Rightarrow> 't world \<Rightarrow> (('a, string) outcome \<times> 't world) option"

named_theorems act_simps "unfolding of actions"

definition act_return :: "'a \<Rightarrow> ('a, 't) act" where
  "act_return x e w = Some (Ok x, w)"

definition act_fail :: "string \<Rightarrow> ('a, 't) act" where
  "act_fail err e w = Some (Err err, w)"

definition act_lift :: "('a, string) outcome \<Rightarrow> ('a, 't) act" where
  "act_lift r e w = Some (r, w)"

definition act_bind :: "('a, 't) act \<Rightarrow> ('a \<Rightarrow> ('b, 't) act) \<Rightarrow> ('b, 't) act" where
  "act_bind m f e w =
     (case m e w of
        None \<Rightarrow> None
      | Some (Ok x, w') \<Rightarrow> f x e w'
      | Some (Err err, w') \<Rightarrow> Some (Err err, w')
      | Some (Panic s, w') \<Rightarrow> Some (Panic s, w'))"

text \<open>Inspecting an error instead of returning it (\<open>match\<close>, \<open>if let Err\<close>); a panic still stops the task.\<close>

definition act_try :: "('a, 't) act \<Rightarrow> (('a, string) outcome, 't) act" where
  "act_try m e w =
     (case m e w of
        None \<Rightarrow> None
      | Some (Panic s, w') \<Rightarrow> Some (Panic s, w')
      | Some (r, w') \<Rightarrow> Some (Ok r, w'))"

definition act_modify :: "('t world \<Rightarrow> 't world) \<Rightarrow> (unit, 't) act" where
  "act_modify f e w = Some (Ok (), f w)"

definition act_get :: "('t world \<Rightarrow> 'a) \<Rightarrow> ('a, 't) act" where
  "act_get f e w = Some (Ok (f w), w)"

fun act_iter :: "('a \<Rightarrow> (unit, 't) act) \<Rightarrow> 'a list \<Rightarrow> (unit, 't) act" where
  "act_iter f [] = act_return ()"
| "act_iter f (x # xs) = act_bind (f x) (\<lambda>_. act_iter f xs)"

fun act_fold :: "('a \<Rightarrow> 's \<Rightarrow> ('s, 't) act) \<Rightarrow> 'a list \<Rightarrow> 's \<Rightarrow> ('s, 't) act" where
  "act_fold f [] s = act_return s"
| "act_fold f (x # xs) s = act_bind (f x s) (\<lambda>s'. act_fold f xs s')"

subsection \<open>Remote calls\<close>

definition db_write :: "((nat \<Rightarrow> fault) \<Rightarrow> nat \<Rightarrow> pg_db \<Rightarrow> (unit, string) outcome \<times> pg_db) \<Rightarrow> (unit, 't) act" where
  "db_write f e w =
     (case f (we_fault e (w_clock w)) (we_now e (w_clock w)) (w_db w) of
        (r, db') \<Rightarrow> Some (r, w\<lparr>w_clock := Suc (w_clock w), w_db := db'\<rparr>))"

definition db_read :: "(fault \<Rightarrow> pg_db \<Rightarrow> ('a, string) outcome) \<Rightarrow> ('a, 't) act" where
  "db_read f e w = Some (f (we_fault e (w_clock w) 0) (w_db w), w\<lparr>w_clock := Suc (w_clock w)\<rparr>)"

definition db_list_pools :: "(pool_state list, 't) act" where
  "db_list_pools e w = db_read (\<lambda>fa db. list_pools fa (we_pool_rows e (w_clock w) db) db) e w"

definition db_list_tokens :: "(token list, 't) act" where
  "db_list_tokens e w = db_read (\<lambda>fa db. list_tokens fa (we_token_rows e (w_clock w) db) db) e w"

definition kv_write ::
  "('t cache_env \<Rightarrow> (nat \<Rightarrow> fault) \<Rightarrow> nat \<Rightarrow> 't redis_kv \<Rightarrow> (unit, string) outcome \<times> 't redis_kv) \<Rightarrow> (unit, 't) act" where
  "kv_write f e w =
     (case f (we_cache e) (we_fault e (w_clock w)) (we_now e (w_clock w)) (w_kv w) of
        (r, kv') \<Rightarrow> Some (r, w\<lparr>w_clock := Suc (w_clock w), w_kv := kv'\<rparr>))"

definition act_publish :: "string \<Rightarrow> queue_message \<Rightarrow> (unit, 't) act" where
  "act_publish q msg e w =
     (case publish (we_queue e) (we_fault e (w_clock w) 0) q msg (w_lists w) of
        (r, ls') \<Rightarrow> Some (r, w\<lparr>w_clock := Suc (w_clock w), w_lists := ls'\<rparr>))"

definition ask_node :: "(sui_api \<Rightarrow> ('a, string) outcome) \<Rightarrow> ('a, 't) act" where
  "ask_node f e w = Some (f (we_api e (w_clock w)), w\<lparr>w_clock := Suc (w_clock w)\<rparr>)"

definition ask_node_partial :: "(sui_api \<Rightarrow> ('a, string) outcome option) \<Rightarrow> ('a, 't) act" where
  "ask_node_partial f e w =
     map_option (\<lambda>r. (r, w\<lparr>w_clock := Suc (w_clock w)\<rparr>)) (f (we_api e (w_clock w)))"

definition act_broadcast :: "pool_state \<Rightarrow> (unit, 't) act" where
  "act_broadcast p = act_modify (\<lambda>w. w\<lparr>w_broadcast := w_broadcast w @ [p]\<rparr>)"

definition act_spawn :: "pool_state list \<Rightarrow> (unit, 't) act" where
  "act_spawn ps = act_modify (\<lambda>w. w\<lparr>w_spawned := w_spawned w @ [ps]\<rparr>)"

lemmas [act_simps] = act_return_def act_fail_def act_lift_def act_bind_def act_try_def act_modify_def act_get_def
  db_write_def db_read_def db_list_pools_def db_list_tokens_def kv_write_def act_publish_def ask_node_def ask_node_partial_def act_broadcast_def act_spawn_def

subsection \<open>Relating the states before and after\<close>

text \<open>
  \<open>rel_act R m\<close>: whenever \<open>m\<close> returns, with a value or an error, the states before and after are related.  For a
  reflexive and transitive relation it is closed under the combinators, which the locale proves once.
\<close>

definition rel_act :: "('t world \<Rightarrow> 't world \<Rightarrow> bool) \<Rightarrow> ('a, 't) act \<Rightarrow> bool" where
  "rel_act R m \<longleftrightarrow> (\<forall>e w r w'. m e w = Some (r, w') \<longrightarrow> R w w')"

lemma rel_actD: "rel_act R m \<Longrightarrow> m e w = Some (r, w') \<Longrightarrow> R w w'"
  by (simp add: rel_act_def)

locale step_relation =
  fixes R :: "'t world \<Rightarrow> 't world \<Rightarrow> bool"
  assumes refl_step: "R w w"
    and trans_step: "R w w' \<Longrightarrow> R w' w'' \<Longrightarrow> R w w''"
begin

lemma rel_pure: "rel_act R (act_return x)" "rel_act R (act_fail err)" "rel_act R (act_lift r)" "rel_act R (act_get f)"
  by (simp_all add: rel_act_def act_simps refl_step)

lemma rel_bind:
  assumes "rel_act R m" "\<And>x. rel_act R (f x)"
  shows "rel_act R (act_bind m f)"
  unfolding rel_act_def
proof (intro allI impI)
  fix e w r w'
  assume bind: "act_bind m f e w = Some (r, w')"
  then obtain q w1 where m: "m e w = Some (q, w1)" by (cases "m e w") (auto simp: act_simps)
  have first: "R w w1" by (rule rel_actD [OF assms(1) m])
  show "R w w'"
  proof (cases q)
    case (Ok x)
    then have "f x e w1 = Some (r, w')" using bind m by (simp add: act_simps)
    then have "R w1 w'" by (rule rel_actD [OF assms(2)])
    with first show ?thesis by (rule trans_step)
  qed (use bind m first in \<open>simp_all add: act_simps\<close>)
qed

lemma rel_try: "rel_act R m \<Longrightarrow> rel_act R (act_try m)"
  by (fastforce simp: rel_act_def act_simps split: option.splits outcome.splits)

lemma rel_iter: "(\<And>x. rel_act R (f x)) \<Longrightarrow> rel_act R (act_iter f xs)"
  by (induction xs) (simp_all add: rel_pure rel_bind)

lemma rel_fold: "(\<And>x s. rel_act R (f x s)) \<Longrightarrow> rel_act R (act_fold f xs s)"
  by (induction xs arbitrary: s) (simp_all add: rel_pure rel_bind)

lemmas rel_rules = rel_pure rel_bind rel_try rel_iter rel_fold

end

subsection \<open>Actions that return\<close>

definition returns :: "'t world_env \<Rightarrow> ('a, 't) act \<Rightarrow> bool" where
  "returns e m \<longleftrightarrow> (\<forall>w. m e w \<noteq> None)"

lemma returns_pure:
  "returns e (act_return x)" "returns e (act_fail err)" "returns e (act_lift r)" "returns e (act_get f)"
  "returns e (act_modify g)" "returns e (db_write h)" "returns e (db_read k)" "returns e db_list_pools"
  "returns e db_list_tokens" "returns e (kv_write l)" "returns e (act_publish q msg)" "returns e (ask_node n)"
  "returns e (act_broadcast p)" "returns e (act_spawn ps)"
  by (auto simp: returns_def act_simps split: prod.splits)

lemma returns_partial: "(\<And>n. f (we_api e n) \<noteq> None) \<Longrightarrow> returns e (ask_node_partial f)"
  by (auto simp: returns_def act_simps)

lemma returns_bind: "returns e m \<Longrightarrow> (\<And>x. returns e (f x)) \<Longrightarrow> returns e (act_bind m f)"
  by (auto simp: returns_def act_simps split: option.splits outcome.splits)

lemma returns_try: "returns e m \<Longrightarrow> returns e (act_try m)"
  by (auto simp: returns_def act_simps split: option.splits outcome.splits)

lemma returns_iter: "(\<And>x. returns e (f x)) \<Longrightarrow> returns e (act_iter f xs)"
  by (induction xs) (simp_all add: returns_pure returns_bind)

lemma returns_fold: "(\<And>x s. returns e (f x s)) \<Longrightarrow> returns e (act_fold f xs s)"
  by (induction xs arbitrary: s) (simp_all add: returns_pure returns_bind)

lemmas returns_rules = returns_pure returns_bind returns_try returns_iter returns_fold

subsection \<open>A calm environment\<close>

text \<open>For concrete runs: values are stored as themselves, nothing fails, and the node is a fixed interface.\<close>

datatype blob =
    BMsg queue_message | BDlq dlq_entry | BPool pool_state | BTicks pool_tick_data | BPools "pool_state list"
  | BTokens "token list" | BPrice u64

definition blob_codec :: "('a \<Rightarrow> blob) \<Rightarrow> (blob \<Rightarrow> 'a option) \<Rightarrow> ('a, blob) codec" where
  "blob_codec mk prj = \<lparr>enc = (\<lambda>x. Ok (mk x)), dec = (\<lambda>t. ok_or (prj t) ''wrong kind of value'')\<rparr>"

definition blob_queue :: "blob queue_env" where
  "blob_queue = \<lparr>msg_codec = blob_codec BMsg (\<lambda>t. case t of BMsg m \<Rightarrow> Some m | _ \<Rightarrow> None),
     dlq_codec = blob_codec BDlq (\<lambda>t. case t of BDlq d \<Rightarrow> Some d | _ \<Rightarrow> None)\<rparr>"

definition blob_cache :: "blob cache_env" where
  "blob_cache = \<lparr>pool_codec = blob_codec BPool (\<lambda>t. case t of BPool p \<Rightarrow> Some p | _ \<Rightarrow> None),
     ticks_codec = blob_codec BTicks (\<lambda>t. case t of BTicks d \<Rightarrow> Some d | _ \<Rightarrow> None),
     pools_codec = blob_codec BPools (\<lambda>t. case t of BPools ps \<Rightarrow> Some ps | _ \<Rightarrow> None),
     tokens_codec = blob_codec BTokens (\<lambda>t. case t of BTokens ts \<Rightarrow> Some ts | _ \<Rightarrow> None),
     price_codec = blob_codec BPrice (\<lambda>t. case t of BPrice n \<Rightarrow> Some n | _ \<Rightarrow> None)\<rparr>"

lemma blob_ok: "env_ok blob_queue" "codecs_ok blob_cache"
  by (simp_all add: env_ok_def codecs_ok_def codec_ok_def blob_queue_def blob_cache_def blob_codec_def)

definition calm_env :: "sui_api \<Rightarrow> string list \<Rightarrow> string list \<Rightarrow> blob world_env" where
  "calm_env api pids addrs =
     \<lparr>we_fault = (\<lambda>_ _. NoFault), we_now = (\<lambda>n. n), we_api = (\<lambda>_. api), we_queue = blob_queue, we_cache = blob_cache,
      we_pool_rows = (\<lambda>_ db. filter (\<lambda>p. pools_t db p \<noteq> None) pids),
      we_token_rows = (\<lambda>_ db. filter (\<lambda>a. tokens_t db a \<noteq> None) addrs)\<rparr>"

definition world_of :: "pg_db \<Rightarrow> blob world" where
  "world_of db = \<lparr>w_clock = 0, w_db = db, w_kv = Map.empty, w_lists = (\<lambda>_. []), w_broadcast = [], w_spawned = [],
     w_ready = False, w_cycle = 0\<rparr>"

definition dead_api :: sui_api where
  "dead_api = \<lparr>api_get_object = (\<lambda>_. Err ''down''), api_get_dynamic_fields = (\<lambda>_ _ _. Err ''down''),
     api_get_dynamic_field_object = (\<lambda>_ _. Err ''down''), api_get_coin_metadata = (\<lambda>_. Err ''down''),
     api_get_reference_gas_price = Err ''down'', api_graphql = (\<lambda>_ _. Err ''down'')\<rparr>"

end
