(* ===== verification/Discovery.thy ===== *)
theory Discovery
  imports World
begin

text \<open>
  Reading discovery pages: \<open>src/discovery/event_parser.rs\<close>, \<open>object_parser.rs\<close> and the query variables of
  \<open>graphql.rs\<close>.  JSON pointers are paths of object keys.
\<close>

subsection \<open>Queries\<close>

text \<open>A raw string literal that starts on a new line: its lines, each ended by a line feed.\<close>

definition text_lines :: "string list \<Rightarrow> string" where
  "text_lines ls = concat (map (\<lambda>l. l @ [CHR 0x0A]) ([] # ls))"

definition DISCOVER_OBJECTS_QUERY :: string where
  "DISCOVER_OBJECTS_QUERY = text_lines
    [''query DiscoverPoolObjects($first: Int!, $after: String, $type: String!) {'',
     ''  objects(first: $first, after: $after, filter: { type: $type }) {'',
     ''    pageInfo {'',
     ''      hasNextPage'',
     ''      endCursor'',
     ''    }'',
     ''    nodes {'',
     ''      address'',
     ''      version'',
     ''      digest'',
     ''      asMoveObject {'',
     ''        contents {'',
     ''          type {'',
     ''            repr'',
     ''          }'',
     ''          json'',
     ''        }'',
     ''      }'',
     ''    }'',
     ''  }'',
     ''}'']"

definition DISCOVER_EVENTS_QUERY :: string where
  "DISCOVER_EVENTS_QUERY = text_lines
    [''query DiscoverPoolEvents($first: Int!, $after: String, $type: String!, $afterCheckpoint: UInt53) {'',
     ''  events('',
     ''    first: $first'',
     ''    after: $after'',
     ''    filter: { type: $type, afterCheckpoint: $afterCheckpoint }'',
     ''  ) {'',
     ''    pageInfo {'',
     ''      hasNextPage'',
     ''      endCursor'',
     ''    }'',
     ''    nodes {'',
     ''      sequenceNumber'',
     ''      timestamp'',
     ''      contents {'',
     ''        type {'',
     ''          repr'',
     ''        }'',
     ''        json'',
     ''      }'',
     ''      transaction {'',
     ''        digest'',
     ''        effects {'',
     ''          checkpoint {'',
     ''            sequenceNumber'',
     ''          }'',
     ''        }'',
     ''      }'',
     ''    }'',
     ''  }'',
     ''}'']"

definition SERVICE_CONFIG_RANGE_QUERY :: string where
  "SERVICE_CONFIG_RANGE_QUERY = text_lines
    [''query ServiceConfigRange {'',
     ''  serviceConfig {'',
     ''    eventsAvailableRange: availableRange(type: \"Query\", field: \"events\") {'',
     ''      first {'',
     ''        sequenceNumber'',
     ''      }'',
     ''      last {'',
     ''        sequenceNumber'',
     ''      }'',
     ''    }'',
     ''  }'',
     ''}'']"

definition opt_u64 :: "u64 option \<Rightarrow> json" where
  "opt_u64 n = (case n of None \<Rightarrow> JNull | Some x \<Rightarrow> JNum (PosInt x))"

definition discover_objects_variables :: "string \<Rightarrow> u32 \<Rightarrow> string option \<Rightarrow> json" where
  "discover_objects_variables pool_type first after =
     JObj [(''first'', JNum (PosInt (ucast first))), (''after'', opt_str after), (''type'', JStr pool_type)]"

definition discover_events_variables :: "string \<Rightarrow> u32 \<Rightarrow> string option \<Rightarrow> u64 option \<Rightarrow> json" where
  "discover_events_variables event_type first after after_checkpoint =
     JObj [(''first'', JNum (PosInt (ucast first))), (''after'', opt_str after), (''type'', JStr event_type),
       (''afterCheckpoint'', opt_u64 after_checkpoint)]"

subsection \<open>Events\<close>

record discovery_pool_ref =
  pr_pool_id :: string
  pr_dex_name :: string
  pr_event_id :: string
  pr_checkpoint :: "u64 option"

record discovery_event_ref =
  er_event_id :: string
  er_dex_name :: string
  er_pool_ref :: "discovery_pool_ref option"
  er_parse_error :: "string option"

record discovery_page =
  pg_events :: "discovery_event_ref list"
  pg_has_next_page :: bool
  pg_end_cursor :: "string option"

fun or_else :: "'a option \<Rightarrow> 'a option \<Rightarrow> 'a option" where
  "or_else (Some x) y = Some x"
| "or_else None y = y"

definition event_type_repr :: "json \<Rightarrow> string option" where
  "event_type_repr node = Option.bind (or_else (jpath [''type'', ''repr''] node) (jpath [''contents'', ''type'', ''repr''] node)) as_str"

definition event_json_fields :: "json \<Rightarrow> json option" where
  "event_json_fields node = or_else (jget ''json'' node) (jpath [''contents'', ''json''] node)"

text \<open>A number given as a JSON number or as a decimal string.\<close>

definition flexible_u64 :: "json \<Rightarrow> u64 option" where
  "flexible_u64 v = or_else (as_u64 v) (Option.bind (as_str v) parse_u64)"

definition event_id_of :: "json \<Rightarrow> string" where
  "event_id_of node =
     (case jstr ''id'' node of
        Some i \<Rightarrow> i
      | None \<Rightarrow>
          (case (Option.bind (jpath [''transaction'', ''digest''] node) as_str, Option.bind (jget ''sequenceNumber'' node) flexible_u64) of
             (Some d, Some s) \<Rightarrow> d @ '':'' @ show_word s
           | (None, Some s) \<Rightarrow> ''seq:'' @ show_word s
           | _ \<Rightarrow> ''unknown''))"

definition event_checkpoint :: "json \<Rightarrow> u64 option" where
  "event_checkpoint node =
     Option.bind (or_else (jpath [''transaction'', ''effects'', ''checkpoint'', ''sequenceNumber''] node)
         (or_else (jpath [''checkpoint'', ''sequenceNumber''] node) (jget ''checkpoint'' node))) flexible_u64"

definition is_create_event :: "string \<Rightarrow> bool" where
  "is_create_event type_lower \<longleftrightarrow> contains type_lower ''createpoolevent'' \<or> contains type_lower ''poolcreatedevent''"

definition spec_matches_event :: "string \<Rightarrow> dex_discovery_spec \<Rightarrow> bool" where
  "spec_matches_event type_lower s \<longleftrightarrow>
     list_ex (\<lambda>t. contains type_lower (to_lowercase t)) (create_pool_event_types s) \<or>
     contains type_lower (to_lowercase (ds_package_id s)) \<and> is_create_event type_lower"

definition parse_create_pool_event :: "json \<Rightarrow> dex_discovery_spec list \<Rightarrow> discovery_pool_ref option" where
  "parse_create_pool_event node specs =
     Option.bind (event_type_repr node) (\<lambda>type_repr.
     let type_lower = to_lowercase type_repr in
     Option.bind (find (spec_matches_event type_lower) specs) (\<lambda>spec.
     if \<not> is_create_event type_lower then None
     else
       Option.bind (event_json_fields node) (\<lambda>flds.
       Option.bind (Option.bind (first_field flds [''pool_id'', ''pool'', ''id'']) as_str) (\<lambda>pid.
         Some \<lparr>pr_pool_id = pid, pr_dex_name = ds_dex_name spec, pr_event_id = event_id_of node,
               pr_checkpoint = event_checkpoint node\<rparr>))))"

text \<open>The page information both kinds of pages carry.\<close>

definition page_nodes :: "json \<Rightarrow> json list" where
  "page_nodes v = (case Option.bind (jget ''nodes'' v) as_array of Some ns \<Rightarrow> ns | None \<Rightarrow> [])"

definition page_has_next :: "json \<Rightarrow> bool" where
  "page_has_next v = (case Option.bind (jpath [''pageInfo'', ''hasNextPage''] v) as_bool of Some b \<Rightarrow> b | None \<Rightarrow> False)"

definition page_end_cursor :: "json \<Rightarrow> string option" where
  "page_end_cursor v = Option.bind (jpath [''pageInfo'', ''endCursor''] v) as_str"

definition event_ref_of :: "dex_discovery_spec list \<Rightarrow> json \<Rightarrow> discovery_event_ref option" where
  "event_ref_of specs node =
     (case parse_create_pool_event node specs of
        Some r \<Rightarrow> Some \<lparr>er_event_id = event_id_of node, er_dex_name = pr_dex_name r, er_pool_ref = Some r, er_parse_error = None\<rparr>
      | None \<Rightarrow>
          if event_type_repr node \<noteq> None then None
          else Some \<lparr>er_event_id = event_id_of node, er_dex_name = [], er_pool_ref = None,
                     er_parse_error = Some ''unrecognized event node shape''\<rparr>)"

definition parse_event_page :: "json \<Rightarrow> dex_discovery_spec list \<Rightarrow> (discovery_page, string) outcome" where
  "parse_event_page data specs =
     bind_outcome (ok_or (jget ''events'' data) ''missing events in GraphQL data'') (\<lambda>v.
       Ok \<lparr>pg_events = List.map_filter (event_ref_of specs) (page_nodes v),
           pg_has_next_page = page_has_next v, pg_end_cursor = page_end_cursor v\<rparr>)"

fun require_fields :: "string \<Rightarrow> string list \<Rightarrow> string list \<Rightarrow> (unit, string) outcome" where
  "require_fields dex [] names = Ok ()"
| "require_fields dex (f # fs) names =
     (if f \<notin> set names then Err (''missing required event field '' @ f @ '' for '' @ dex) else require_fields dex fs names)"

definition validate_event_contract_fields :: "dex_discovery_spec \<Rightarrow> string list \<Rightarrow> (unit, string) outcome" where
  "validate_event_contract_fields spec names = require_fields (ds_dex_name spec) (required_event_fields spec) names"

subsection \<open>Objects\<close>

record discovery_object_ref =
  or_pool_id :: string
  or_dex_name :: string
  or_type_repr :: string
  or_parse_error :: "string option"

record discovery_object_page =
  op_objects :: "discovery_object_ref list"
  op_has_next_page :: bool
  op_end_cursor :: "string option"

definition object_type_repr :: "json \<Rightarrow> string option" where
  "object_type_repr node =
     Option.bind (or_else (jpath [''asMoveObject'', ''contents'', ''type'', ''repr''] node) (jpath [''contents'', ''type'', ''repr''] node)) as_str"

definition object_json_fields :: "json \<Rightarrow> json option" where
  "object_json_fields node =
     or_else (jpath [''asMoveObject'', ''contents'', ''json''] node) (or_else (jpath [''contents'', ''json''] node) (jget ''json'' node))"

definition spec_matches_object :: "string \<Rightarrow> dex_discovery_spec \<Rightarrow> bool" where
  "spec_matches_object type_repr s \<longleftrightarrow>
     contains (to_lowercase type_repr) (to_lowercase (ds_package_id s)) \<and>
     contains type_repr (''::'' @ pool_type_module s @ ''::Pool'')"

definition object_ref_of :: "dex_discovery_spec list \<Rightarrow> json \<Rightarrow> discovery_object_ref" where
  "object_ref_of specs node =
     (let pid = (case or_else (jstr ''address'' node) (Option.bind (object_json_fields node) (jstr ''id'')) of Some p \<Rightarrow> p | None \<Rightarrow> []);
          ty = (case object_type_repr node of Some t \<Rightarrow> t | None \<Rightarrow> [])
      in if pid = [] then
           \<lparr>or_pool_id = pid, or_dex_name = [], or_type_repr = ty, or_parse_error = Some ''missing pool object address''\<rparr>
         else case find (spec_matches_object ty) specs of
           Some s \<Rightarrow> \<lparr>or_pool_id = pid, or_dex_name = ds_dex_name s, or_type_repr = ty, or_parse_error = None\<rparr>
         | None \<Rightarrow> \<lparr>or_pool_id = pid, or_dex_name = [], or_type_repr = ty, or_parse_error = Some ''unrecognized pool object type''\<rparr>)"

definition parse_object_page :: "json \<Rightarrow> dex_discovery_spec list \<Rightarrow> (discovery_object_page, string) outcome" where
  "parse_object_page data specs =
     bind_outcome (ok_or (jget ''objects'' data) ''missing objects in GraphQL data'') (\<lambda>v.
       Ok \<lparr>op_objects = map (object_ref_of specs) (page_nodes v),
           op_has_next_page = page_has_next v, op_end_cursor = page_end_cursor v\<rparr>)"

subsection \<open>Discovered references can be hydrated\<close>

lemma specs_have_collectors: "list_all (\<lambda>s. collector_for_dex_name (ds_dex_name s) \<noteq> None) ALL_DISCOVERY_SPECS"
  by code_simp

lemma find_spec_collector:
  "find P ALL_DISCOVERY_SPECS = Some s \<Longrightarrow> P s \<and> collector_for_dex_name (ds_dex_name s) \<noteq> None"
  using specs_have_collectors by (fastforce simp: find_Some_iff list_all_length)

lemma require_fields_Ok: "require_fields dex fs names = Ok () \<longleftrightarrow> set fs \<subseteq> set names"
  by (induction fs) auto

text \<open>
  Every reference the parsers accept can be hydrated: it names a pool and an exchange for which a collector
  exists.  An object page yields one reference per node, so an unreadable node is reported and not dropped, and an event
  reference carries either a pool or a parse error.
\<close>

theorem discovered_refs_hydratable:
  "(parse_object_page data ALL_DISCOVERY_SPECS = Ok page \<longrightarrow>
      (\<forall>r \<in> set (op_objects page). or_parse_error r = None \<longrightarrow>
         or_pool_id r \<noteq> [] \<and> collector_for_dex_name (or_dex_name r) \<noteq> None) \<and>
      (\<exists>v. jget ''objects'' data = Some v \<and> length (op_objects page) = length (page_nodes v))) \<and>
   (parse_event_page data ALL_DISCOVERY_SPECS = Ok evs \<longrightarrow>
      (\<forall>r \<in> set (pg_events evs).
         (case er_pool_ref r of
            Some p \<Rightarrow> er_parse_error r = None \<and> pr_dex_name p = er_dex_name r \<and> collector_for_dex_name (er_dex_name r) \<noteq> None
          | None \<Rightarrow> er_parse_error r \<noteq> None)))"
proof (intro conjI impI ballI)
  fix r assume ok: "parse_object_page data ALL_DISCOVERY_SPECS = Ok page" and r: "r \<in> set (op_objects page)" "or_parse_error r = None"
  then obtain node where "r = object_ref_of ALL_DISCOVERY_SPECS node" by (auto simp: parse_object_page_def outcome_simps)
  with r(2) show "or_pool_id r \<noteq> []" "collector_for_dex_name (or_dex_name r) \<noteq> None"
    using find_spec_collector by (auto simp: object_ref_of_def Let_def split: if_splits option.splits)
next
  assume "parse_object_page data ALL_DISCOVERY_SPECS = Ok page"
  then show "\<exists>v. jget ''objects'' data = Some v \<and> length (op_objects page) = length (page_nodes v)"
    by (auto simp: parse_object_page_def outcome_simps)
next
  fix r assume "parse_event_page data ALL_DISCOVERY_SPECS = Ok evs" and "r \<in> set (pg_events evs)"
  then obtain node where "event_ref_of ALL_DISCOVERY_SPECS node = Some r"
    by (auto simp: parse_event_page_def outcome_simps List.map_filter_def)
  then show "case er_pool_ref r of
       Some p \<Rightarrow> er_parse_error r = None \<and> pr_dex_name p = er_dex_name r \<and> collector_for_dex_name (er_dex_name r) \<noteq> None
     | None \<Rightarrow> er_parse_error r \<noteq> None"
    using find_spec_collector
    by (auto simp: event_ref_of_def parse_create_pool_event_def bind_eq_Some_conv Let_def split: if_splits option.splits)
qed

text \<open>A Turbos pool one of whose coins is defined in the package of Cetus.\<close>

definition foreign_coin_pool :: json where
  "foreign_coin_pool = JObj [(''address'', JStr ''0xp''), (''contents'', JObj [(''type'', JObj [(''repr'', JStr
     (''0x91bfbc386a41afcfd9b2533058d7e915a1d3829089cc268ff4333d54d6339ca1::pool::Pool<'' @
      ''0x1eabed72c53feb3805120a081dc15963c204dc8d091542592abaf7a35689b2fb::lp::LP, 0x2::sui::SUI>''))])])]"

definition plain_pool :: json where
  "plain_pool = JObj [(''address'', JStr ''0xp''), (''contents'', JObj [(''type'', JObj [(''repr'', JStr
     ''0x91bfbc386a41afcfd9b2533058d7e915a1d3829089cc268ff4333d54d6339ca1::pool::Pool<A, B>'')])])]"

text \<open>
  The exchange of a pool object is found by searching the package ids in the whole type, type arguments included:
  a Turbos pool is classified as Turbos when its coins are foreign to all packages, but as Cetus when one of its
  coins is defined in the package of Cetus.
\<close>

theorem foreign_coin_misclassified:
  "or_dex_name (object_ref_of ALL_DISCOVERY_SPECS plain_pool) = ''Turbos'' \<and>
   or_dex_name (object_ref_of ALL_DISCOVERY_SPECS foreign_coin_pool) = ''Cetus''"
  by code_simp

text \<open>Instances of the page parsers.\<close>

theorem discovered_refs_hydratable_witness:
  "list_all (\<lambda>r. or_pool_id r \<noteq> []) (op_objects \<lparr>op_objects = [object_ref_of ALL_DISCOVERY_SPECS plain_pool],
     op_has_next_page = False, op_end_cursor = None\<rparr>)"
proof -
  let ?page = "\<lparr>op_objects = [object_ref_of ALL_DISCOVERY_SPECS plain_pool], op_has_next_page = False, op_end_cursor = None\<rparr>"
  have "parse_object_page (JObj [(''objects'', JObj [(''nodes'', JArr [plain_pool])])]) ALL_DISCOVERY_SPECS = Ok ?page"
    by (simp add: parse_object_page_def page_nodes_def page_has_next_def page_end_cursor_def jpath_def)
  from discovered_refs_hydratable [THEN conjunct1, THEN mp, OF this, THEN conjunct1]
  have "or_parse_error (object_ref_of ALL_DISCOVERY_SPECS plain_pool) = None \<longrightarrow> or_pool_id (object_ref_of ALL_DISCOVERY_SPECS plain_pool) \<noteq> []"
    by simp
  moreover have "or_parse_error (object_ref_of ALL_DISCOVERY_SPECS plain_pool) = None" by code_simp
  ultimately show ?thesis by simp
qed

end
