(* ===== verification/Scanner.thy ===== *)
theory Scanner
  imports Discovery
begin

text \<open>
  \<open>src/discovery/scanner.rs\<close>: the paginated scans of pool objects and create-pool events, with page-wise commits of
  progress, pools, tokens and failures.  The hydration callbacks and the hook that runs after a commit are arguments,
  as in the source.  Metrics and log output are left out; sleeping between pages has no effect on the state.
\<close>

record static_worker_config =
  sw_num_workers :: nat
  scan_interval_secs :: u64
  discovery_page_size :: u32
  discovery_max_pages_per_scan :: u32
  discovery_inter_page_ms :: u64
  discovery_hydrate_concurrency :: nat
  reconciliation_every_n_scans :: u32

definition static_worker_config_default :: static_worker_config where
  "static_worker_config_default =
     \<lparr>sw_num_workers = 1, scan_interval_secs = 3600, discovery_page_size = 50, discovery_max_pages_per_scan = 100,
      discovery_inter_page_ms = 100, discovery_hydrate_concurrency = 8, reconciliation_every_n_scans = 1\<rparr>"

record discovery_scan_stats =
  pages_scanned :: u32
  objects_seen :: u32
  events_seen :: u32
  pools_registered :: u32
  pools_reconciled :: u32
  failures_recorded :: u32

definition stats_default :: discovery_scan_stats where
  "stats_default = \<lparr>pages_scanned = 0, objects_seen = 0, events_seen = 0, pools_registered = 0, pools_reconciled = 0, failures_recorded = 0\<rparr>"

record graphql_available_range =
  first_checkpoint :: "u64 option"
  range_last_checkpoint :: "u64 option"

definition fetch_graphql_available_range :: "sui_api \<Rightarrow> (graphql_available_range, string) outcome" where
  "fetch_graphql_available_range api =
     bind_outcome (api_graphql api SERVICE_CONFIG_RANGE_QUERY (JObj [])) (\<lambda>data.
     bind_outcome (ok_or (or_else (jpath [''serviceConfig'', ''eventsAvailableRange''] data) (jpath [''serviceConfig'', ''availableRange''] data))
         ''missing serviceConfig events availableRange'') (\<lambda>rng.
       Ok \<lparr>first_checkpoint = Option.bind (jpath [''first'', ''sequenceNumber''] rng) as_u64,
           range_last_checkpoint = Option.bind (jpath [''last'', ''sequenceNumber''] rng) as_u64\<rparr>))"

definition is_invalid_cursor_error :: "string \<Rightarrow> bool" where
  "is_invalid_cursor_error err =
     (let msg = to_lowercase err in contains msg ''cursor'' \<and> (contains msg ''invalid'' \<or> contains msg ''expired''))"

subsection \<open>One page\<close>

text \<open>What the loop over the references of a page updates.\<close>

record page_acc =
  pa_seen :: "string set"
  pa_commit :: discovery_page_commit
  pa_progress :: pool_discovery_progress
  pa_stats :: discovery_scan_stats
  pa_max_checkpoint :: "u64 option"
  pa_saw_events :: bool

definition page_start :: "pool_discovery_progress \<Rightarrow> discovery_scan_stats \<Rightarrow> page_acc" where
  "page_start p st = \<lparr>pa_seen = {}, pa_commit = commit_default\<lparr>dc_progress := p\<rparr>, pa_progress = p, pa_stats = st,
     pa_max_checkpoint = last_checkpoint p, pa_saw_events = False\<rparr>"

definition add_failure :: "pool_discovery_failure \<Rightarrow> page_acc \<Rightarrow> page_acc" where
  "add_failure f a = a\<lparr>pa_commit := (pa_commit a)\<lparr>dc_failures := dc_failures (pa_commit a) @ [f]\<rparr>\<rparr>"

text \<open>Merging the commit of one pool into that of the page.\<close>

definition merge_commit :: "discovery_page_commit \<Rightarrow> page_acc \<Rightarrow> page_acc" where
  "merge_commit c a =
     a\<lparr>pa_commit := (pa_commit a)\<lparr>dc_pools := dc_pools (pa_commit a) @ dc_pools c,
          dc_tokens := dc_tokens (pa_commit a) @ dc_tokens c,
          dc_failures := dc_failures (pa_commit a) @ dc_failures c,
          resolved_failure_ids := resolved_failure_ids (pa_commit a) @ resolved_failure_ids c\<rparr>,
       pa_progress := (pa_progress a)\<lparr>pools_discovered := pools_discovered (pa_progress a) + pools_discovered (dc_progress c)\<rparr>,
       pa_stats := (pa_stats a)\<lparr>pools_registered := pools_registered (pa_stats a) + of_nat (length (dc_pools c))\<rparr>\<rparr>"

definition count_failure :: "page_acc \<Rightarrow> page_acc" where
  "count_failure a = a\<lparr>pa_stats := (pa_stats a)\<lparr>failures_recorded := failures_recorded (pa_stats a) + 1\<rparr>\<rparr>"

definition object_failure :: "dex_discovery_spec \<Rightarrow> string \<Rightarrow> string \<Rightarrow> pool_discovery_failure" where
  "object_failure spec pid why =
     \<lparr>df_dex_name = ds_dex_name spec, event_id = ''object:'' @ pid, df_pool_id = Some pid, reason = why, attempts = 1\<rparr>"

definition scan_object_ref ::
  "dex_discovery_spec \<Rightarrow> (discovery_object_ref \<Rightarrow> (discovery_page_commit, 't) act) \<Rightarrow> discovery_object_ref \<Rightarrow> page_acc \<Rightarrow> (page_acc, 't) act" where
  "scan_object_ref spec on_pool r a0 =
     (let a = a0\<lparr>pa_stats := (pa_stats a0)\<lparr>objects_seen := objects_seen (pa_stats a0) + 1\<rparr>\<rparr>
      in case or_parse_error r of
           Some err \<Rightarrow> act_return (add_failure (object_failure spec (or_pool_id r) err) a)
         | None \<Rightarrow>
             if or_pool_id r \<in> pa_seen a then
               act_return (a\<lparr>pa_stats := (pa_stats a)\<lparr>pools_reconciled := pools_reconciled (pa_stats a) + 1\<rparr>\<rparr>)
             else
               act_bind (act_try (on_pool r)) (\<lambda>res.
                 let a1 = a\<lparr>pa_seen := insert (or_pool_id r) (pa_seen a)\<rparr>
                 in act_return
                      (case res of
                         Ok commit \<Rightarrow> merge_commit commit a1
                       | Err e \<Rightarrow> count_failure (add_failure (object_failure spec (or_pool_id r) e) a1)
                       | Panic m \<Rightarrow> a1)))"

definition event_failure :: "dex_discovery_spec \<Rightarrow> discovery_event_ref \<Rightarrow> string option \<Rightarrow> string \<Rightarrow> pool_discovery_failure" where
  "event_failure spec r pid why =
     \<lparr>df_dex_name = ds_dex_name spec, event_id = er_event_id r, df_pool_id = pid, reason = why, attempts = 1\<rparr>"

definition max_option :: "u64 option \<Rightarrow> u64 \<Rightarrow> u64 option" where
  "max_option m cp = Some (case m of None \<Rightarrow> cp | Some prev \<Rightarrow> max prev cp)"

definition raise_checkpoint :: "discovery_event_ref \<Rightarrow> page_acc \<Rightarrow> page_acc" where
  "raise_checkpoint r a =
     (case Option.bind (er_pool_ref r) pr_checkpoint of
        Some cp \<Rightarrow> a\<lparr>pa_max_checkpoint := max_option (pa_max_checkpoint a) cp\<rparr>
      | None \<Rightarrow> a)"

definition scan_event_ref ::
  "dex_discovery_spec \<Rightarrow> (discovery_event_ref \<Rightarrow> (discovery_page_commit, 't) act) \<Rightarrow> discovery_event_ref \<Rightarrow> page_acc \<Rightarrow> (page_acc, 't) act" where
  "scan_event_ref spec on_event r a0 =
     (let a = a0\<lparr>pa_saw_events := True, pa_stats := (pa_stats a0)\<lparr>events_seen := events_seen (pa_stats a0) + 1\<rparr>\<rparr>
      in case er_parse_error r of
           Some err \<Rightarrow> act_return (add_failure (event_failure spec r None err) a)
         | None \<Rightarrow>
             (case er_pool_ref r of
                None \<Rightarrow> act_return (raise_checkpoint r a)
              | Some pool_ref \<Rightarrow>
                  act_bind (act_try (on_event r)) (\<lambda>res.
                    act_return (raise_checkpoint r
                      (case res of
                         Ok commit \<Rightarrow> merge_commit commit a
                       | Err e \<Rightarrow> count_failure (add_failure (event_failure spec r (Some (pr_pool_id pool_ref)) e) a)
                       | Panic m \<Rightarrow> a)))))"

subsection \<open>Object bootstrap\<close>

definition commit_page :: "(discovery_page_commit \<Rightarrow> (unit, 't) act) \<Rightarrow> discovery_page_commit \<Rightarrow> (unit, 't) act" where
  "commit_page after_commit c =
     act_bind (db_write (\<lambda>fa now. commit_discovery_page fa now c)) (\<lambda>_. after_commit c)"

definition bootstrap_page_done :: "discovery_object_page \<Rightarrow> pool_discovery_progress \<Rightarrow> pool_discovery_progress" where
  "bootstrap_page_done page p =
     p\<lparr>page_cursor := (if op_has_next_page page then op_end_cursor page else None),
       bootstrap_complete := (if op_has_next_page page then bootstrap_complete p else True)\<rparr>"

fun object_scan_loop ::
  "dex_discovery_spec \<Rightarrow> static_worker_config \<Rightarrow> (discovery_object_ref \<Rightarrow> (discovery_page_commit, 't) act) \<Rightarrow>
   (discovery_page_commit \<Rightarrow> (unit, 't) act) \<Rightarrow> nat \<Rightarrow> pool_discovery_progress \<Rightarrow> discovery_scan_stats \<Rightarrow>
   (discovery_scan_stats, 't) act" where
  "object_scan_loop spec cfg on_pool after_commit 0 p st = act_return st"
| "object_scan_loop spec cfg on_pool after_commit (Suc n) p st =
     act_bind (act_try (ask_node (\<lambda>api. api_graphql api DISCOVER_OBJECTS_QUERY
         (discover_objects_variables (pool_object_type spec) (discovery_page_size cfg) (page_cursor p))))) (\<lambda>res.
     case res of
       Err e \<Rightarrow>
         if is_invalid_cursor_error e then
           object_scan_loop spec cfg on_pool after_commit n
             (p\<lparr>generation := generation p + 1, page_cursor := None, bootstrap_complete := False\<rparr>) st
         else act_fail e
     | Panic m \<Rightarrow> act_lift (Panic m)
     | Ok data \<Rightarrow>
         act_bind (act_lift (parse_object_page data ALL_DISCOVERY_SPECS)) (\<lambda>page.
         let st1 = st\<lparr>pages_scanned := pages_scanned st + 1\<rparr>
         in if op_objects page = [] \<and> \<not> op_has_next_page page then
              act_bind (commit_page after_commit (commit_default\<lparr>dc_progress := p\<rparr>)) (\<lambda>_. act_return st1)
            else
              act_bind (act_fold (scan_object_ref spec on_pool) (op_objects page) (page_start p st1)) (\<lambda>a.
              let p' = bootstrap_page_done page (pa_progress a)
              in act_bind (commit_page after_commit ((pa_commit a)\<lparr>dc_progress := p'\<rparr>)) (\<lambda>_.
                   if op_has_next_page page then object_scan_loop spec cfg on_pool after_commit n p' (pa_stats a)
                   else act_return (pa_stats a)))))"

definition scan_dex_object_bootstrap ::
  "dex_discovery_spec \<Rightarrow> static_worker_config \<Rightarrow> (discovery_object_ref \<Rightarrow> (discovery_page_commit, 't) act) \<Rightarrow>
   (discovery_page_commit \<Rightarrow> (unit, 't) act) \<Rightarrow> (discovery_scan_stats, 't) act" where
  "scan_dex_object_bootstrap spec cfg on_pool after_commit =
     act_bind (db_read (\<lambda>fa. get_pool_discovery_progress fa (ds_dex_name spec) OBJECT_BOOTSTRAP_SOURCE_KEY)) (\<lambda>stored.
     let p = (case stored of Some p \<Rightarrow> p | None \<Rightarrow> new_object_bootstrap (ds_dex_name spec))
     in object_scan_loop spec cfg on_pool after_commit (unat (discovery_max_pages_per_scan cfg)) p stats_default)"

subsection \<open>Incremental events\<close>

definition event_page_done :: "graphql_available_range \<Rightarrow> discovery_page \<Rightarrow> page_acc \<Rightarrow> pool_discovery_progress" where
  "event_page_done rng page a =
     (let p = pa_progress a;
          p1 = p\<lparr>last_checkpoint := or_else (pa_max_checkpoint a) (last_checkpoint p),
                 page_cursor := (if pg_has_next_page page then pg_end_cursor page else None)\<rparr>
      in if pg_has_next_page page then p1
         else p1\<lparr>backfill_complete := True,
                 retention_limited := (if \<not> pa_saw_events a \<and> first_checkpoint rng \<noteq> None then True else retention_limited p1)\<rparr>)"

fun event_scan_loop ::
  "dex_discovery_spec \<Rightarrow> string \<Rightarrow> static_worker_config \<Rightarrow> graphql_available_range \<Rightarrow>
   (discovery_event_ref \<Rightarrow> (discovery_page_commit, 't) act) \<Rightarrow> (discovery_page_commit \<Rightarrow> (unit, 't) act) \<Rightarrow>
   u64 option \<Rightarrow> nat \<Rightarrow> pool_discovery_progress \<Rightarrow> discovery_scan_stats \<Rightarrow> (discovery_scan_stats, 't) act" where
  "event_scan_loop spec ty cfg rng on_event after_commit after_cp 0 p st = act_return st"
| "event_scan_loop spec ty cfg rng on_event after_commit after_cp (Suc n) p st =
     act_bind (act_try (ask_node (\<lambda>api. api_graphql api DISCOVER_EVENTS_QUERY
         (discover_events_variables ty (discovery_page_size cfg) (page_cursor p) after_cp)))) (\<lambda>res.
     case res of
       Err e \<Rightarrow>
         if is_invalid_cursor_error e then
           event_scan_loop spec ty cfg rng on_event after_commit after_cp n (p\<lparr>page_cursor := None\<rparr>) st
         else act_fail e
     | Panic m \<Rightarrow> act_lift (Panic m)
     | Ok data \<Rightarrow>
         act_bind (act_lift (parse_event_page data ALL_DISCOVERY_SPECS)) (\<lambda>page.
         let st1 = st\<lparr>pages_scanned := pages_scanned st + 1\<rparr>
         in act_bind (act_fold (scan_event_ref spec on_event) (pg_events page) (page_start p st1)) (\<lambda>a.
            let p' = event_page_done rng page a
            in act_bind (commit_page after_commit ((pa_commit a)\<lparr>dc_progress := p'\<rparr>)) (\<lambda>_.
                 if pg_has_next_page page then event_scan_loop spec ty cfg rng on_event after_commit after_cp n p' (pa_stats a)
                 else act_return (pa_stats a)))))"

definition scan_single_event_type ::
  "dex_discovery_spec \<Rightarrow> static_worker_config \<Rightarrow> graphql_available_range \<Rightarrow>
   (discovery_event_ref \<Rightarrow> (discovery_page_commit, 't) act) \<Rightarrow> (discovery_page_commit \<Rightarrow> (unit, 't) act) \<Rightarrow>
   string \<Rightarrow> (discovery_scan_stats, 't) act" where
  "scan_single_event_type spec cfg rng on_event after_commit ty =
     act_bind (db_read (\<lambda>fa. get_pool_discovery_progress fa (ds_dex_name spec) ty)) (\<lambda>stored.
     let p = (case stored of Some p \<Rightarrow> p | None \<Rightarrow> new_event_incremental (ds_dex_name spec) ty);
         after_cp = (if backfill_complete p then last_checkpoint p else None)
     in event_scan_loop spec ty cfg rng on_event after_commit after_cp (unat (discovery_max_pages_per_scan cfg)) p stats_default)"

definition add_event_stats :: "discovery_scan_stats \<Rightarrow> discovery_scan_stats \<Rightarrow> discovery_scan_stats" where
  "add_event_stats t s =
     t\<lparr>pages_scanned := pages_scanned t + pages_scanned s, events_seen := events_seen t + events_seen s,
       pools_registered := pools_registered t + pools_registered s, failures_recorded := failures_recorded t + failures_recorded s\<rparr>"

definition scan_dex_events ::
  "dex_discovery_spec \<Rightarrow> static_worker_config \<Rightarrow> graphql_available_range \<Rightarrow>
   (discovery_event_ref \<Rightarrow> (discovery_page_commit, 't) act) \<Rightarrow> (discovery_page_commit \<Rightarrow> (unit, 't) act) \<Rightarrow>
   (discovery_scan_stats, 't) act" where
  "scan_dex_events spec cfg rng on_event after_commit =
     act_fold (\<lambda>ty t. act_bind (scan_single_event_type spec cfg rng on_event after_commit ty) (\<lambda>s. act_return (add_event_stats t s)))
       (create_pool_event_types spec) stats_default"

definition reconcile_existing_pools :: "(pool_state \<Rightarrow> (unit, 't) act) \<Rightarrow> (u32, 't) act" where
  "reconcile_existing_pools hydrate_pool =
     act_bind db_list_pools (\<lambda>pools.
       act_fold (\<lambda>p n. act_bind (act_try (hydrate_pool p)) (\<lambda>r. act_return (if is_ok r then n + 1 else n))) pools 0)"

subsection \<open>Rows are never deleted\<close>

definition rows_kept :: "'t world \<Rightarrow> 't world \<Rightarrow> bool" where
  "rows_kept w w' \<longleftrightarrow> dom (pools_t (w_db w)) \<subseteq> dom (pools_t (w_db w')) \<and> dom (tokens_t (w_db w)) \<subseteq> dom (tokens_t (w_db w')) \<and>
     dom (progress_t (w_db w)) \<subseteq> dom (progress_t (w_db w'))"

interpretation kept: step_relation rows_kept
proof unfold_locales
  show "rows_kept w w" for w :: "'t world" by (simp add: rows_kept_def)
  show "rows_kept w w' \<Longrightarrow> rows_kept w' w'' \<Longrightarrow> rows_kept w w''" for w w' w'' :: "'t world"
    unfolding rows_kept_def by (meson order_trans)
qed

lemma stmts_keep:
  assumes "\<And>st s s'. st \<in> set sts \<Longrightarrow> st s = Ok s' \<Longrightarrow> dom (f s) \<subseteq> dom (f s')"
  shows "all_stmts sts s = Ok s' \<Longrightarrow> dom (f s) \<subseteq> dom (f s')"
  using assms
proof (induction sts arbitrary: s)
  case (Cons st sts)
  then obtain s1 where "st s = Ok s1" "all_stmts sts s1 = Ok s'" by (auto simp: outcome_simps)
  then show ?case using Cons.prems(2) [of st s s1] Cons.IH [of s1] Cons.prems(2) by fastforce
qed simp

lemma commit_stmt_keeps:
  assumes "st \<in> set (commit_stmts now c)" "st db = Ok db'"
  shows "dom (pools_t db) \<subseteq> dom (pools_t db')" "dom (tokens_t db) \<subseteq> dom (tokens_t db')"
    "dom (progress_t db) \<subseteq> dom (progress_t db')"
  using assms
  by (auto simp: commit_stmts_def upsert_progress_def upsert_token_def upsert_pool_def upsert_failure_def delete_failures_def
      too_long_def split: if_splits option.splits)

lemma commit_keeps:
  assumes "commit_discovery_page fa now c db = (r, db')"
  shows "dom (pools_t db) \<subseteq> dom (pools_t db')" "dom (tokens_t db) \<subseteq> dom (tokens_t db')"
    "dom (progress_t db) \<subseteq> dom (progress_t db')"
proof -
  have either: "db' = db \<or> all_stmts (commit_stmts now c) db = Ok db'"
    by (rule transaction_atomic(1) [OF assms [unfolded commit_discovery_page_def]])
  show "dom (pools_t db) \<subseteq> dom (pools_t db')"
    using either by (rule disjE) (simp, rule stmts_keep [OF commit_stmt_keeps(1)])
  show "dom (tokens_t db) \<subseteq> dom (tokens_t db')"
    using either by (rule disjE) (simp, rule stmts_keep [OF commit_stmt_keeps(2)])
  show "dom (progress_t db) \<subseteq> dom (progress_t db')"
    using either by (rule disjE) (simp, rule stmts_keep [OF commit_stmt_keeps(3)])
qed

lemma kept_prims:
  "rel_act rows_kept (db_read f)" "rel_act rows_kept db_list_pools" "rel_act rows_kept db_list_tokens"
  "rel_act rows_kept (kv_write g)" "rel_act rows_kept (act_publish q msg)" "rel_act rows_kept (ask_node h)"
  "rel_act rows_kept (ask_node_partial k)" "rel_act rows_kept (act_broadcast p)" "rel_act rows_kept (act_spawn ps)"
  by (auto simp: rel_act_def act_simps rows_kept_def split: prod.splits)

lemma kept_commit: "rel_act rows_kept (db_write (\<lambda>fa now. commit_discovery_page fa now c))"
  by (auto simp: rel_act_def act_simps rows_kept_def split: prod.splits dest: commit_keeps)

lemmas kept_rules = kept.rel_rules kept_prims kept_commit

lemma kept_object_ref: "rel_act rows_kept (on_pool r) \<Longrightarrow> rel_act rows_kept (scan_object_ref spec on_pool r a)"
  by (auto simp: scan_object_ref_def Let_def intro!: kept_rules split: option.split)

lemma kept_event_ref: "rel_act rows_kept (on_event r) \<Longrightarrow> rel_act rows_kept (scan_event_ref spec on_event r a)"
  by (auto simp: scan_event_ref_def Let_def intro!: kept_rules split: option.split)

lemma kept_commit_page: "rel_act rows_kept (hook c) \<Longrightarrow> rel_act rows_kept (commit_page hook c)"
  by (auto simp: commit_page_def intro!: kept_rules)

lemmas kept_page = kept_object_ref kept_event_ref kept_commit_page

lemma kept_object_scan:
  assumes "\<And>r. rel_act rows_kept (on_pool r)" "\<And>c. rel_act rows_kept (hook c)"
  shows "rel_act rows_kept (scan_dex_object_bootstrap spec cfg on_pool hook)"
proof -
  have "rel_act rows_kept (object_scan_loop spec cfg on_pool hook n p st)" for n p st
    by (induction n arbitrary: p st)
      (auto simp: Let_def intro!: kept_rules kept_page assms split: outcome.split)
  then show ?thesis by (auto simp: scan_dex_object_bootstrap_def Let_def intro!: kept_rules)
qed

lemma kept_event_scan:
  assumes "\<And>r. rel_act rows_kept (on_event r)" "\<And>c. rel_act rows_kept (hook c)"
  shows "rel_act rows_kept (scan_dex_events spec cfg rng on_event hook)"
proof -
  have "rel_act rows_kept (event_scan_loop spec ty cfg rng on_event hook cp n p st)" for ty cp n p st
    by (induction n arbitrary: p st)
      (auto simp: Let_def intro!: kept_rules kept_page assms split: outcome.split)
  then show ?thesis by (auto simp: scan_dex_events_def scan_single_event_type_def Let_def intro!: kept_rules)
qed

subsection \<open>Scans return\<close>

lemma returns_object_ref: "returns e (on_pool r) \<Longrightarrow> returns e (scan_object_ref spec on_pool r a)"
  by (auto simp: scan_object_ref_def Let_def intro!: returns_rules split: option.split)

lemma returns_event_ref: "returns e (on_event r) \<Longrightarrow> returns e (scan_event_ref spec on_event r a)"
  by (auto simp: scan_event_ref_def Let_def intro!: returns_rules split: option.split)

lemma returns_commit_page: "returns e (hook c) \<Longrightarrow> returns e (commit_page hook c)"
  by (auto simp: commit_page_def intro!: returns_rules)

lemmas returns_page = returns_object_ref returns_event_ref returns_commit_page

lemma returns_object_scan:
  assumes "\<And>r. returns e (on_pool r)" "\<And>c. returns e (hook c)"
  shows "returns e (scan_dex_object_bootstrap spec cfg on_pool hook)"
proof -
  have "returns e (object_scan_loop spec cfg on_pool hook n p st)" for n p st
    by (induction n arbitrary: p st)
      (auto simp: Let_def intro!: returns_rules returns_page assms split: outcome.split)
  then show ?thesis by (auto simp: scan_dex_object_bootstrap_def Let_def intro!: returns_rules)
qed

lemma returns_event_scan:
  assumes "\<And>r. returns e (on_event r)" "\<And>c. returns e (hook c)"
  shows "returns e (scan_dex_events spec cfg rng on_event hook)"
proof -
  have "returns e (event_scan_loop spec ty cfg rng on_event hook cp n p st)" for ty cp n p st
    by (induction n arbitrary: p st)
      (auto simp: Let_def intro!: returns_rules returns_page assms split: outcome.split)
  then show ?thesis by (auto simp: scan_dex_events_def scan_single_event_type_def Let_def intro!: returns_rules)
qed

subsection \<open>No reference of a page is dropped\<close>

definition in_commit :: "string \<Rightarrow> discovery_page_commit \<Rightarrow> bool" where
  "in_commit pid c \<longleftrightarrow> (\<exists>p \<in> set (dc_pools c). pool_id p = pid) \<or> (\<exists>f \<in> set (dc_failures c). df_pool_id f = Some pid)"

definition hydrates :: "'t world_env \<Rightarrow> (discovery_object_ref \<Rightarrow> (discovery_page_commit, 't) act) \<Rightarrow> bool" where
  "hydrates e on_pool \<longleftrightarrow>
     (\<forall>r c w w'. on_pool r e w = Some (Ok c, w') \<longrightarrow> (\<exists>p \<in> set (dc_pools c). pool_id p = or_pool_id r))"

definition acc_ok :: "page_acc \<Rightarrow> bool" where
  "acc_ok a \<longleftrightarrow> (\<forall>pid \<in> pa_seen a. in_commit pid (pa_commit a))"

lemma scan_object_ref_cases:
  assumes "scan_object_ref spec on_pool r a e w = Some (Ok a', w')"
  obtains (failed) why where "dc_pools (pa_commit a') = dc_pools (pa_commit a)"
      "dc_failures (pa_commit a') = dc_failures (pa_commit a) @ [object_failure spec (or_pool_id r) why]"
      "pa_seen a' \<subseteq> insert (or_pool_id r) (pa_seen a)"
  | (seen) "or_pool_id r \<in> pa_seen a" "pa_commit a' = pa_commit a" "pa_seen a' = pa_seen a"
  | (merged) c w1 where "on_pool r e w = Some (Ok c, w1)" "dc_pools (pa_commit a') = dc_pools (pa_commit a) @ dc_pools c"
      "dc_failures (pa_commit a') = dc_failures (pa_commit a) @ dc_failures c" "pa_seen a' = insert (or_pool_id r) (pa_seen a)"
proof (cases "or_parse_error r")
  case (Some err)
  then show ?thesis using assms failed [of err] by (auto simp: scan_object_ref_def act_return_def add_failure_def subset_insertI)
next
  case None
  show ?thesis
  proof (cases "or_pool_id r \<in> pa_seen a")
    case True
    then show ?thesis using assms None seen by (auto simp: scan_object_ref_def act_return_def)
  next
    case False
    then obtain res w1 where m: "on_pool r e w = Some (res, w1)"
      using assms None by (cases "on_pool r e w") (auto simp: scan_object_ref_def act_bind_def act_try_def)
    then show ?thesis
      using assms None False failed merged
      by (cases res) (auto simp: scan_object_ref_def act_bind_def act_try_def act_return_def Let_def merge_commit_def
          count_failure_def add_failure_def)
  qed
qed

lemma scan_object_ref_accounts:
  assumes "hydrates e on_pool" "scan_object_ref spec on_pool r a e w = Some (Ok a', w')" "acc_ok a"
  shows "acc_ok a'" "in_commit (or_pool_id r) (pa_commit a')" "\<And>pid. in_commit pid (pa_commit a) \<Longrightarrow> in_commit pid (pa_commit a')"
proof -
  have all: "acc_ok a' \<and> in_commit (or_pool_id r) (pa_commit a') \<and> (\<forall>pid. in_commit pid (pa_commit a) \<longrightarrow> in_commit pid (pa_commit a'))"
    using assms(2)
  proof (cases rule: scan_object_ref_cases)
    case (failed why)
    then show ?thesis using assms(3) by (auto simp: acc_ok_def in_commit_def object_failure_def)
  next
    case seen
    then show ?thesis using assms(3) by (simp add: acc_ok_def)
  next
    case (merged c w1)
    moreover obtain p where "p \<in> set (dc_pools c)" "pool_id p = or_pool_id r"
      using assms(1) merged(1) unfolding hydrates_def by blast
    ultimately show ?thesis using assms(3) by (auto simp: acc_ok_def in_commit_def)
  qed
  then show "acc_ok a'" "in_commit (or_pool_id r) (pa_commit a')" "\<And>pid. in_commit pid (pa_commit a) \<Longrightarrow> in_commit pid (pa_commit a')"
    by blast+
qed

lemma act_bind_Ok:
  "act_bind m f e w = Some (Ok y, w') \<longleftrightarrow> (\<exists>x w1. m e w = Some (Ok x, w1) \<and> f x e w1 = Some (Ok y, w'))"
  by (auto simp: act_bind_def split: option.splits outcome.splits)

lemma page_accounts:
  assumes "hydrates e on_pool"
  shows "act_fold (scan_object_ref spec on_pool) refs a e w = Some (Ok a', w') \<Longrightarrow> acc_ok a \<Longrightarrow>
    (\<forall>r \<in> set refs. in_commit (or_pool_id r) (pa_commit a')) \<and>
    (\<forall>pid. in_commit pid (pa_commit a) \<longrightarrow> in_commit pid (pa_commit a'))"
proof (induction refs arbitrary: a w)
  case (Cons r refs)
  then obtain a1 w1 where step: "scan_object_ref spec on_pool r a e w = Some (Ok a1, w1)"
    and rest: "act_fold (scan_object_ref spec on_pool) refs a1 e w1 = Some (Ok a', w')"
    by (auto simp: act_bind_Ok)
  note acc = scan_object_ref_accounts [OF assms step Cons.prems(2)]
  from Cons.IH [OF rest acc(1)] acc(2,3) show ?case by auto
qed (simp add: act_return_def)

end
