(* ===== verification/Static_Worker.thy ===== *)
theory Static_Worker
  imports Scanner
begin

text \<open>
  \<open>StaticPoolManager\<close> of \<open>src/workers/static_worker.rs\<close>: hydration of discovered pools, retries, reconciliation, the Redis
  snapshots and the discovery cycle.  The task spawned after every page commit is recorded in \<open>w_spawned\<close>; when the
  runtime executes it, it is \<open>run_spawned\<close>.  The hydration semaphore only delays.
\<close>

record static_pool_manager =
  sm_queue_name :: string
  sm_config :: static_worker_config

definition static_manager_new :: "string \<Rightarrow> static_worker_config \<Rightarrow> static_pool_manager" where
  "static_manager_new queue_name config = \<lparr>sm_queue_name = queue_name, sm_config = config\<rparr>"

subsection \<open>Hydration\<close>

definition token_of_metadata :: "string \<Rightarrow> json \<Rightarrow> token" where
  "token_of_metadata addr meta =
     \<lparr>address = addr,
      symbol = (case jstr ''symbol'' meta of Some s \<Rightarrow> s | None \<Rightarrow> ''UNKNOWN''),
      tok_name = (case jstr ''name'' meta of Some n \<Rightarrow> n | None \<Rightarrow> ''Unknown''),
      decimals = ucast (case Option.bind (jget ''decimals'' meta) as_u64 of Some d \<Rightarrow> d | None \<Rightarrow> 9)\<rparr>"

definition fetch_token_if_missing :: "string \<Rightarrow> (token option, 't) act" where
  "fetch_token_if_missing addr =
     act_bind (db_read (\<lambda>fa. get_token fa addr)) (\<lambda>stored.
       if stored \<noteq> None then act_return None
       else act_bind (ask_node (\<lambda>api. api_get_coin_metadata api addr)) (\<lambda>meta. act_return (Some (token_of_metadata addr meta))))"

definition opt_list :: "'a option \<Rightarrow> 'a list" where
  "opt_list x = (case x of None \<Rightarrow> [] | Some y \<Rightarrow> [y])"

definition build_commit_for_pool :: "string \<Rightarrow> string \<Rightarrow> string option \<Rightarrow> (discovery_page_commit, 't) act" where
  "build_commit_for_pool pid dex resolved =
     (case collector_for_dex_name dex of
        None \<Rightarrow> act_fail (''no collector for DEX '' @ dex)
      | Some c \<Rightarrow>
          act_bind (ask_node (\<lambda>api. fetch_pool c api pid)) (\<lambda>pool.
          act_bind (fetch_token_if_missing (coin_type_a pool)) (\<lambda>ta.
          act_bind (fetch_token_if_missing (coin_type_b pool)) (\<lambda>tb.
            act_return (commit_default\<lparr>dc_pools := [pool], dc_tokens := opt_list ta @ opt_list tb,
              dc_progress := (dc_progress commit_default)\<lparr>pools_discovered := 1\<rparr>,
              resolved_failure_ids := opt_list resolved\<rparr>)))))"

definition hydrate_object_ref :: "discovery_object_ref \<Rightarrow> (discovery_page_commit, 't) act" where
  "hydrate_object_ref r = build_commit_for_pool (or_pool_id r) (or_dex_name r) None"

definition hydrate_event_ref :: "discovery_event_ref \<Rightarrow> (discovery_page_commit, 't) act" where
  "hydrate_event_ref r =
     (case er_pool_ref r of
        None \<Rightarrow> act_fail (''missing pool ref for event '' @ er_event_id r)
      | Some p \<Rightarrow> build_commit_for_pool (pr_pool_id p) (pr_dex_name p) (Some (er_event_id r)))"

subsection \<open>The hot path\<close>

definition hot_pool_update :: "static_pool_manager \<Rightarrow> pool_state \<Rightarrow> (unit, 't) act" where
  "hot_pool_update m p =
     act_bind (kv_write (\<lambda>env fa now. cache_set_pool_state env fa now p)) (\<lambda>_.
       act_publish (sm_queue_name m) (PoolStateUpdate p))"

definition apply_hot_path_commit :: "static_pool_manager \<Rightarrow> discovery_page_commit \<Rightarrow> (unit, 't) act" where
  "apply_hot_path_commit m c = act_iter (hot_pool_update m) (dc_pools c)"

text \<open>The spawned task: a failed cache write skips the pool, a failed publish is only logged.\<close>

definition run_spawned :: "static_pool_manager \<Rightarrow> pool_state list \<Rightarrow> (unit, 't) act" where
  "run_spawned m ps =
     act_iter (\<lambda>p.
       act_bind (act_try (kv_write (\<lambda>env fa now. cache_set_pool_state env fa now p))) (\<lambda>r.
         if is_ok r then act_bind (act_try (act_publish (sm_queue_name m) (PoolStateUpdate p))) (\<lambda>_. act_return ())
         else act_return ())) ps"

definition after_commit_hook :: "discovery_page_commit \<Rightarrow> (unit, 't) act" where
  "after_commit_hook c = act_spawn (dc_pools c)"

definition hydrate_existing_pool :: "static_pool_manager \<Rightarrow> pool_state \<Rightarrow> (unit, 't) act" where
  "hydrate_existing_pool m pool =
     act_bind (build_commit_for_pool (pool_id pool) (dex_name pool) None) (\<lambda>c.
     act_bind (db_write (\<lambda>fa now. commit_discovery_page fa now c)) (\<lambda>_. apply_hot_path_commit m c))"

definition retry_failure :: "static_pool_manager \<Rightarrow> string \<Rightarrow> pool_discovery_failure \<Rightarrow> (unit, 't) act" where
  "retry_failure m dex f =
     (case df_pool_id f of
        None \<Rightarrow> act_return ()
      | Some pid \<Rightarrow>
          act_bind (act_try (build_commit_for_pool pid dex (Some (event_id f)))) (\<lambda>res.
            case res of
              Ok c \<Rightarrow> act_bind (db_write (\<lambda>fa now. commit_discovery_page fa now c)) (\<lambda>_. apply_hot_path_commit m c)
            | Err e \<Rightarrow> act_return ()
            | Panic s \<Rightarrow> act_lift (Panic s)))"

definition retry_discovery_failures :: "static_pool_manager \<Rightarrow> (unit, 't) act" where
  "retry_discovery_failures m =
     act_iter (\<lambda>spec.
       act_bind (db_read (\<lambda>fa. list_pool_discovery_failures fa (ds_dex_name spec) 100)) (\<lambda>fs.
         act_iter (retry_failure m (ds_dex_name spec)) fs)) ALL_DISCOVERY_SPECS"

subsection \<open>Snapshots and ticks\<close>

definition refresh_topology_caches :: "(unit, 't) act" where
  "refresh_topology_caches =
     act_bind db_list_pools (\<lambda>pools.
     act_bind (kv_write (\<lambda>env fa now. cache_set_active_pools env fa now (filter (\<lambda>p. \<not> is_paused p) pools))) (\<lambda>_.
     act_bind db_list_tokens (\<lambda>toks.
       kv_write (\<lambda>env fa now. cache_set_all_tokens env fa now toks))))"

definition refresh_pool_ticks :: "static_pool_manager \<Rightarrow> pool_state \<Rightarrow> string set \<Rightarrow> (string set, 't) act" where
  "refresh_pool_ticks m pool seen =
     (if pool_id pool \<in> seen then act_return seen
      else let seen' = insert (pool_id pool) seen
           in case collector_for_dex_name (dex_name pool) of
                None \<Rightarrow> act_return seen'
              | Some c \<Rightarrow>
                  act_bind (act_try (ask_node_partial (\<lambda>api. fetch_tick_data c api (pool_id pool)))) (\<lambda>res.
                    case res of
                      Ok d \<Rightarrow>
                        act_bind (act_try (kv_write (\<lambda>env fa now. cache_set_tick_data env fa now d))) (\<lambda>_.
                        act_bind (act_try (act_publish (sm_queue_name m) (PoolTickDataUpdate d))) (\<lambda>_. act_return seen'))
                    | Err e \<Rightarrow> act_return seen'
                    | Panic s \<Rightarrow> act_lift (Panic s)))"

definition refresh_tick_data :: "static_pool_manager \<Rightarrow> (unit, 't) act" where
  "refresh_tick_data m =
     act_bind db_list_pools (\<lambda>pools.
     act_bind (act_fold (refresh_pool_ticks m) pools {}) (\<lambda>_. act_return ()))"

subsection \<open>The discovery cycle\<close>

definition discovery_range :: "pool_state list \<Rightarrow> (graphql_available_range, 't) act" where
  "discovery_range existing =
     act_bind (act_try (ask_node fetch_graphql_available_range)) (\<lambda>res.
       case res of
         Ok rng \<Rightarrow> act_return rng
       | Err e \<Rightarrow> if existing = [] then act_fail e else act_return \<lparr>first_checkpoint = None, range_last_checkpoint = None\<rparr>
       | Panic s \<Rightarrow> act_lift (Panic s))"

definition bootstrap_all :: "static_pool_manager \<Rightarrow> pool_state list \<Rightarrow> (bool, 't) act" where
  "bootstrap_all m existing =
     act_fold (\<lambda>spec bootstrap_ok.
       act_bind (act_try (scan_dex_object_bootstrap spec (sm_config m) hydrate_object_ref after_commit_hook)) (\<lambda>res.
         case res of
           Ok stats \<Rightarrow> act_return (if 0 < objects_seen stats \<or> 0 < pages_scanned stats then True else bootstrap_ok)
         | Err e \<Rightarrow> if existing = [] then act_fail e else act_return bootstrap_ok
         | Panic s \<Rightarrow> act_lift (Panic s))) ALL_DISCOVERY_SPECS False"

definition events_all :: "static_pool_manager \<Rightarrow> graphql_available_range \<Rightarrow> (unit, 't) act" where
  "events_all m rng =
     act_iter (\<lambda>spec.
       act_bind (act_try (scan_dex_events spec (sm_config m) rng hydrate_event_ref after_commit_hook)) (\<lambda>_. act_return ()))
       ALL_DISCOVERY_SPECS"

definition set_topology_ready :: "bool \<Rightarrow> (unit, 't) act" where
  "set_topology_ready bootstrap_ok =
     act_bind db_list_pools (\<lambda>pools_after.
       if bootstrap_ok \<or> pools_after \<noteq> [] then act_modify (\<lambda>w. w\<lparr>w_ready := True\<rparr>)
       else act_bind (act_modify (\<lambda>w. w\<lparr>w_ready := False\<rparr>))
              (\<lambda>_. act_fail ''discovery produced no results and database is empty''))"

definition reconcile :: "static_pool_manager \<Rightarrow> (unit, 't) act" where
  "reconcile m =
     act_bind (act_get (\<lambda>w. w_cycle w + 1)) (\<lambda>cycle.
     act_bind (act_modify (\<lambda>w. w\<lparr>w_cycle := cycle\<rparr>)) (\<lambda>_.
       if 0 < reconciliation_every_n_scans (sm_config m) \<and> cycle mod reconciliation_every_n_scans (sm_config m) = 0 then
         act_bind db_list_pools (\<lambda>pools.
           act_iter (\<lambda>p. act_bind (act_try (hydrate_existing_pool m p)) (\<lambda>_. act_return ())) pools)
       else act_return ()))"

definition refresh_gas_price :: "(unit, 't) act" where
  "refresh_gas_price =
     act_bind (act_try (ask_node api_get_reference_gas_price)) (\<lambda>res.
       case res of
         Ok price \<Rightarrow>
           act_bind (act_try (db_write (\<lambda>fa now. set_reference_gas_price (fa 0) price))) (\<lambda>_.
           act_bind (act_try (kv_write (\<lambda>env fa now. cache_set_gas_price env fa now price))) (\<lambda>_. act_return ()))
       | Err e \<Rightarrow> act_return ()
       | Panic s \<Rightarrow> act_lift (Panic s))"

definition discover_and_register :: "static_pool_manager \<Rightarrow> (unit, 't) act" where
  "discover_and_register m =
     act_bind db_list_pools (\<lambda>existing.
     act_bind (discovery_range existing) (\<lambda>rng.
     act_bind (bootstrap_all m existing) (\<lambda>bootstrap_ok.
     act_bind (events_all m rng) (\<lambda>_.
     act_bind (set_topology_ready bootstrap_ok) (\<lambda>_.
     act_bind (retry_discovery_failures m) (\<lambda>_.
     act_bind (reconcile m) (\<lambda>_.
     act_bind refresh_topology_caches (\<lambda>_.
     act_bind refresh_gas_price (\<lambda>_.
       refresh_tick_data m)))))))))"

text \<open>
  The run loop over what it observes: whether shutdown was requested at the head of the loop, and whether the wait ended
  with a shutdown request.
\<close>

fun static_run_loop :: "static_pool_manager \<Rightarrow> (bool \<times> bool) list \<Rightarrow> (unit, 't) act" where
  "static_run_loop m [] = act_return ()"
| "static_run_loop m ((stop, stop_waiting) # obs) =
     (if stop then act_return ()
      else act_bind (act_try (discover_and_register m)) (\<lambda>_.
             if stop_waiting then act_return () else static_run_loop m obs))"

definition static_run :: "static_pool_manager \<Rightarrow> (bool \<times> bool) list \<Rightarrow> (unit, 't) act" where
  "static_run m obs = act_bind (act_try (discover_and_register m)) (\<lambda>_. static_run_loop m obs)"

fun bootstraps_complete :: "dex_discovery_spec list \<Rightarrow> (bool, 't) act" where
  "bootstraps_complete [] = act_return True"
| "bootstraps_complete (spec # specs) =
     act_bind (db_read (\<lambda>fa. get_pool_discovery_progress fa (ds_dex_name spec) OBJECT_BOOTSTRAP_SOURCE_KEY)) (\<lambda>p.
       if (case p of None \<Rightarrow> True | Some q \<Rightarrow> \<not> bootstrap_complete q) then act_return False else bootstraps_complete specs)"

definition all_bootstraps_complete :: "(bool, 't) act" where
  "all_bootstraps_complete = bootstraps_complete ALL_DISCOVERY_SPECS"

subsection \<open>Discovery never deletes\<close>

lemmas worker_defs = fetch_token_if_missing_def build_commit_for_pool_def hydrate_object_ref_def hydrate_event_ref_def
  hot_pool_update_def apply_hot_path_commit_def after_commit_hook_def hydrate_existing_pool_def retry_failure_def
  retry_discovery_failures_def refresh_topology_caches_def refresh_pool_ticks_def refresh_tick_data_def
  discovery_range_def bootstrap_all_def events_all_def set_topology_ready_def reconcile_def refresh_gas_price_def

lemma kept_modify: "rel_act rows_kept (act_modify (\<lambda>w. w\<lparr>w_ready := b\<rparr>))" "rel_act rows_kept (act_modify (\<lambda>w. w\<lparr>w_cycle := c\<rparr>))"
  by (simp_all add: rel_act_def act_simps rows_kept_def)

lemma kept_gas_price: "rel_act rows_kept (db_write (\<lambda>fa now. set_reference_gas_price (fa 0) price))"
  by (auto simp: rel_act_def act_simps rows_kept_def set_reference_gas_price_def exec_stmt_def split: fault.splits)

lemma kept_build_commit: "rel_act rows_kept (build_commit_for_pool pid dex resolved)"
  by (auto simp: build_commit_for_pool_def fetch_token_if_missing_def intro!: kept_rules split: option.split)

lemma kept_hydrate: "rel_act rows_kept (hydrate_object_ref r)" "rel_act rows_kept (hydrate_event_ref r')"
  by (auto simp: hydrate_object_ref_def hydrate_event_ref_def intro!: kept_build_commit kept_rules split: option.split)

lemma kept_hook: "rel_act rows_kept (after_commit_hook c)" "rel_act rows_kept (apply_hot_path_commit m c)"
  by (auto simp: after_commit_hook_def apply_hot_path_commit_def hot_pool_update_def intro!: kept_rules)

lemma kept_existing: "rel_act rows_kept (hydrate_existing_pool m p)" "rel_act rows_kept (retry_failure m dex f)"
  by (auto simp: hydrate_existing_pool_def retry_failure_def intro!: kept_build_commit kept_hook kept_rules
      split: option.split outcome.split)

lemma kept_ticks: "rel_act rows_kept (refresh_pool_ticks m p seen)"
  by (auto simp: refresh_pool_ticks_def Let_def intro!: kept_rules split: option.split outcome.split)

lemmas kept_worker = kept_modify kept_gas_price kept_hydrate kept_hook kept_existing kept_ticks kept_object_scan kept_event_scan

lemma kept_phases:
  "rel_act rows_kept (discovery_range ps)" "rel_act rows_kept (bootstrap_all m ps)" "rel_act rows_kept (events_all m rng)"
  "rel_act rows_kept (set_topology_ready b)" "rel_act rows_kept (retry_discovery_failures m)" "rel_act rows_kept (reconcile m)"
  "rel_act rows_kept refresh_topology_caches" "rel_act rows_kept refresh_gas_price" "rel_act rows_kept (refresh_tick_data m)"
  unfolding discovery_range_def bootstrap_all_def events_all_def set_topology_ready_def retry_discovery_failures_def reconcile_def
    refresh_topology_caches_def refresh_gas_price_def refresh_tick_data_def
  by (auto intro!: kept_rules kept_worker split: outcome.split)

lemma kept_discover: "rel_act rows_kept (discover_and_register m)"
  unfolding discover_and_register_def by (intro kept_rules kept_phases)

lemma kept_run: "rel_act rows_kept (static_run m obs)"
proof -
  have "rel_act rows_kept (static_run_loop m obs)"
    by (induction obs) (auto intro!: kept_rules kept_discover)
  then show ?thesis unfolding static_run_def by (intro kept_rules kept_discover)
qed

text \<open>
  C20.  However the databases, Redis and the node fail, the static worker never deletes a pool, a token or a discovery
  progress row from the database: every row present before a run is present after it.
\<close>

theorem static_worker_never_deletes:
  assumes "static_run m obs e w = Some (r, w')"
  shows "dom (pools_t (w_db w)) \<subseteq> dom (pools_t (w_db w')) \<and> dom (tokens_t (w_db w)) \<subseteq> dom (tokens_t (w_db w')) \<and>
    dom (progress_t (w_db w)) \<subseteq> dom (progress_t (w_db w'))"
  using rel_actD [OF kept_run assms] by (simp add: rows_kept_def)

subsection \<open>The readiness flag\<close>

definition ready_kept :: "'t world \<Rightarrow> 't world \<Rightarrow> bool" where
  "ready_kept w w' \<longleftrightarrow> (w_ready w \<longrightarrow> w_ready w')"

interpretation ready: step_relation ready_kept
  by unfold_locales (auto simp: ready_kept_def)

lemma ready_prims:
  "rel_act ready_kept (db_write d)" "rel_act ready_kept (db_read f)" "rel_act ready_kept db_list_pools" "rel_act ready_kept db_list_tokens"
  "rel_act ready_kept (kv_write g)" "rel_act ready_kept (act_publish q msg)" "rel_act ready_kept (ask_node h)"
  "rel_act ready_kept (ask_node_partial k)" "rel_act ready_kept (act_modify (\<lambda>w. w\<lparr>w_cycle := c\<rparr>))"
  by (auto simp: rel_act_def act_simps ready_kept_def split: prod.splits)

lemmas ready_rules = ready.rel_rules ready_prims

lemma ready_existing: "rel_act ready_kept (hydrate_existing_pool m p)" "rel_act ready_kept (retry_failure m dex f)"
  by (auto simp: worker_defs intro!: ready_rules split: option.split outcome.split)

lemma ready_ticks: "rel_act ready_kept (refresh_pool_ticks m p seen)"
  by (auto simp: refresh_pool_ticks_def Let_def intro!: ready_rules split: option.split outcome.split)

lemma ready_phases:
  "rel_act ready_kept (retry_discovery_failures m)" "rel_act ready_kept (reconcile m)" "rel_act ready_kept refresh_topology_caches"
  "rel_act ready_kept refresh_gas_price" "rel_act ready_kept (refresh_tick_data m)"
  unfolding retry_discovery_failures_def reconcile_def refresh_topology_caches_def refresh_gas_price_def refresh_tick_data_def
  by (auto intro!: ready_rules ready_existing ready_ticks split: outcome.split)

lemma set_topology_ready_Ok: "set_topology_ready b e w = Some (Ok u, w') \<Longrightarrow> w_ready w'"
  by (auto simp: set_topology_ready_def act_bind_Ok act_modify_def act_fail_def split: if_splits)

text \<open>
  When a discovery cycle succeeds the service is marked ready, and when it ends with the report that nothing was
  found and the database is empty it is marked not ready.
\<close>

theorem discovery_readiness:
  assumes "discover_and_register m e w = Some (r, w')"
  shows "(r = Ok () \<longrightarrow> w_ready w') \<and>
    (\<forall>e2 w2 err w2'. set_topology_ready b e2 w2 = Some (Err err, w2') \<longrightarrow>
       (w2' = w2\<lparr>w_clock := Suc (w_clock w2)\<rparr> \<or> (\<not> w_ready w2' \<and> \<not> b)))"
proof (intro conjI impI allI)
  assume "r = Ok ()"
  with assms obtain u w1 w2 b' where w1: "set_topology_ready b' e w1 = Some (Ok u, w2)"
    and rest: "act_bind (retry_discovery_failures m) (\<lambda>_. act_bind (reconcile m) (\<lambda>_. act_bind refresh_topology_caches
        (\<lambda>_. act_bind refresh_gas_price (\<lambda>_. refresh_tick_data m)))) e w2 = Some (Ok (), w')"
    unfolding discover_and_register_def by (auto simp: act_bind_Ok)
  have "rel_act ready_kept (act_bind (retry_discovery_failures m) (\<lambda>_. act_bind (reconcile m) (\<lambda>_. act_bind refresh_topology_caches
        (\<lambda>_. act_bind refresh_gas_price (\<lambda>_. refresh_tick_data m)))))"
    by (intro ready_rules ready_phases)
  from rel_actD [OF this rest] set_topology_ready_Ok [OF w1] show "w_ready w'" by (simp add: ready_kept_def)
next
  fix e2 w2 err w2'
  assume "set_topology_ready b e2 w2 = Some (Err err, w2')"
  then show "w2' = w2\<lparr>w_clock := Suc (w_clock w2)\<rparr> \<or> (\<not> w_ready w2' \<and> \<not> b)"
    by (auto simp: set_topology_ready_def act_simps split: outcome.splits if_splits)
qed

subsection \<open>Retried failures stay\<close>

definition failures_stay :: "'t world \<Rightarrow> 't world \<Rightarrow> bool" where
  "failures_stay w w' \<longleftrightarrow>
     (\<forall>row \<in> set (failures_t (w_db w)). fw_dex_name row \<noteq> ''unknown'' \<longrightarrow> row \<in> set (failures_t (w_db w')))"

interpretation stay: step_relation failures_stay
  by unfold_locales (auto simp: failures_stay_def)

lemma stay_prims:
  "rel_act failures_stay (db_read f)" "rel_act failures_stay (kv_write g)" "rel_act failures_stay (act_publish q msg)"
  "rel_act failures_stay (ask_node h)"
  by (auto simp: rel_act_def act_simps failures_stay_def split: prod.splits)

lemmas stay_rules = stay.rel_rules stay_prims

text \<open>A commit of the default progress row with no failures of its own.\<close>

definition default_commit :: "discovery_page_commit \<Rightarrow> bool" where
  "default_commit c \<longleftrightarrow> dc_failures c = [] \<and> dp_dex_name (dc_progress c) = ''unknown''"

lemma stmts_stay:
  assumes "\<And>st s s'. st \<in> set sts \<Longrightarrow> st s = Ok s' \<Longrightarrow> P s \<Longrightarrow> P s'"
  shows "all_stmts sts s = Ok s' \<Longrightarrow> P s \<Longrightarrow> P s'"
  using assms
proof (induction sts arbitrary: s)
  case (Cons st sts)
  then obtain s1 where s1: "st s = Ok s1" "all_stmts sts s1 = Ok s'" by (auto simp: outcome_simps)
  have "P s1" using Cons.prems(3) [of st s s1] s1 Cons.prems(2) by simp
  moreover have "\<And>st s s'. st \<in> set sts \<Longrightarrow> st s = Ok s' \<Longrightarrow> P s \<Longrightarrow> P s'"
    using Cons.prems(3) by (meson list.set_intros(2))
  ultimately show ?case using Cons.IH [OF s1(2)] by blast
qed simp

lemma default_commit_stay:
  assumes "default_commit c" "commit_discovery_page fa now c db = (r, db')"
    and "row \<in> set (failures_t db)" "fw_dex_name row \<noteq> ''unknown''"
  shows "row \<in> set (failures_t db')"
proof -
  have step: "\<And>st s s'. st \<in> set (commit_stmts now c) \<Longrightarrow> st s = Ok s' \<Longrightarrow> row \<in> set (failures_t s) \<Longrightarrow> row \<in> set (failures_t s')"
    using assms(1,4)
    by (auto simp: commit_stmts_def default_commit_def upsert_progress_def upsert_token_def upsert_pool_def delete_failures_def
        too_long_def split: if_splits)
  have "row \<in> set (failures_t db')" if "all_stmts (commit_stmts now c) db = Ok db'"
    by (rule stmts_stay [where P = "\<lambda>s. row \<in> set (failures_t s)", OF step that assms(3)])
  then show ?thesis
    using transaction_atomic(1) [OF assms(2) [unfolded commit_discovery_page_def]] assms(3) by blast
qed

lemma build_commit_default: "build_commit_for_pool pid dex res e w = Some (Ok c, w') \<Longrightarrow> default_commit c"
  by (auto simp: build_commit_for_pool_def act_bind_Ok act_fail_def act_return_def default_commit_def commit_default_def
      new_object_bootstrap_def split: option.splits)

lemma stay_retry: "rel_act failures_stay (retry_failure m dex f)"
proof -
  have commit: "failures_stay w w'" if "default_commit c" "db_write (\<lambda>fa now. commit_discovery_page fa now c) e w = Some (r, w')"
    for c e w and w' :: "'t world" and r
    using that default_commit_stay [OF that(1)] by (auto simp: act_simps failures_stay_def split: prod.splits)
  have hot: "rel_act failures_stay (apply_hot_path_commit m c)" for c
    by (auto simp: apply_hot_path_commit_def hot_pool_update_def intro!: stay_rules)
  have build: "rel_act failures_stay (build_commit_for_pool pid dex res)" for pid res
    by (auto simp: build_commit_for_pool_def fetch_token_if_missing_def intro!: stay_rules split: option.split)
  show ?thesis
    unfolding rel_act_def
  proof (intro allI impI)
    fix e w r w' assume run: "retry_failure m dex f e w = Some (r, w')"
    show "failures_stay w w'"
    proof (cases "df_pool_id f")
      case None
      then show ?thesis using run by (simp add: retry_failure_def act_return_def stay.refl_step)
    next
      case (Some pid)
      obtain q w1 where q: "build_commit_for_pool pid dex (Some (event_id f)) e w = Some (q, w1)"
        using run Some by (cases "build_commit_for_pool pid dex (Some (event_id f)) e w") (auto simp: retry_failure_def act_simps)
      have first: "failures_stay w w1" by (rule rel_actD [OF build q])
      show ?thesis
      proof (cases q)
        case (Ok c)
        then obtain r2 w2 where db: "db_write (\<lambda>fa now. commit_discovery_page fa now c) e w1 = Some (r2, w2)"
          and rest: "w2 = w' \<or> apply_hot_path_commit m c e w2 = Some (r, w')"
          using run Some q by (auto simp: retry_failure_def act_bind_def act_try_def split: option.splits outcome.splits)
        have "failures_stay w1 w2" by (rule commit [OF build_commit_default db]) (use q Ok in simp)
        moreover have "failures_stay w2 w'" using rest rel_actD [OF hot] stay.refl_step by blast
        ultimately show ?thesis using first stay.trans_step by blast
      qed (use run Some q first in \<open>simp_all add: retry_failure_def act_simps\<close>)
    qed
  qed
qed

text \<open>
  A retry never clears the failure it retried: the commit of a retried pool carries the default progress of an
  exchange called \<open>unknown\<close>, and resolved failures are deleted for that exchange only.  So after a complete retry
  pass, successful or not, every failure recorded for a real exchange is still recorded unchanged.
\<close>

theorem retry_keeps_failures:
  assumes "retry_discovery_failures m e w = Some (r, w')"
    and "row \<in> set (failures_t (w_db w))" "fw_dex_name row \<noteq> ''unknown''"
  shows "row \<in> set (failures_t (w_db w'))"
proof -
  have "rel_act failures_stay (retry_discovery_failures m)"
    unfolding retry_discovery_failures_def by (intro stay_rules stay_retry)
  from rel_actD [OF this assms(1)] show ?thesis using assms(2,3) by (simp add: failures_stay_def)
qed

subsection \<open>The active-pool snapshot\<close>

lemma look_pool_row: "look_pool db pid = Option.bind (pools_t db pid) (\<lambda>r. ok_option (pool_of_row pid r))"
proof (cases "pools_t db pid")
  case (Some r)
  then show ?thesis by (cases "pool_of_row pid r") (simp_all add: look_pool_def get_pool_def)
qed (simp add: look_pool_def get_pool_def)

lemma list_pools_look: "list_pools fa pids db = read_stmt fa (Ok (List.map_filter (look_pool db) pids))"
proof -
  have "look_pool db = (\<lambda>pid. Option.bind (pools_t db pid) (\<lambda>r. ok_option (pool_of_row pid r)))"
    by (rule ext) (rule look_pool_row)
  then show ?thesis by (simp add: list_pools_def)
qed

lemma kv_write_eq:
  "kv_write f e w = Some (fst (f (we_cache e) (we_fault e (w_clock w)) (we_now e (w_clock w)) (w_kv w)),
     w\<lparr>w_clock := Suc (w_clock w), w_kv := snd (f (we_cache e) (we_fault e (w_clock w)) (we_now e (w_clock w)) (w_kv w))\<rparr>)"
  by (simp add: kv_write_def split: prod.splits)

lemma set_map_filter_eq: "set (List.map_filter f xs) = {y. \<exists>x \<in> set xs. f x = Some y}"
  by (induction xs) (auto simp: List.map_filter_def split: option.splits)

lemma listed_pools:
  assumes "rows_ok e (w_clock w) (w_db w)" "db_list_pools e w = Some (Ok pools, w1)"
  shows "set pools = {p. \<exists>pid. look_pool (w_db w) pid = Some p}" "w1 = w\<lparr>w_clock := Suc (w_clock w)\<rparr>"
proof -
  have pools: "pools = List.map_filter (look_pool (w_db w)) (we_pool_rows e (w_clock w) (w_db w))"
    using assms(2) by (auto simp: db_list_pools_def db_read_def list_pools_look read_stmt_def split: fault.splits)
  have known: "pid \<in> dom (pools_t (w_db w))" if "look_pool (w_db w) pid = Some p" for pid p
    using that by (auto simp: look_pool_row bind_eq_Some_conv)
  have "set pools = {p. \<exists>pid \<in> set (we_pool_rows e (w_clock w) (w_db w)). look_pool (w_db w) pid = Some p}"
    by (simp only: pools set_map_filter_eq)
  then show "set pools = {p. \<exists>pid. look_pool (w_db w) pid = Some p}"
    using assms(1) known unfolding rows_ok_def by blast
  show "w1 = w\<lparr>w_clock := Suc (w_clock w)\<rparr>" using assms(2) by (simp add: act_simps)
qed

lemma tokens_frame:
  assumes "codecs_ok env"
  shows "cache_get_active_pools env fb later (snd (cache_set_all_tokens env fa now toks kv)) = cache_get_active_pools env fb later kv"
  using assms by (simp add: cache_op_defs codecs_ok_def set_get_as_other)

text \<open>
  C21.  After a successful refresh, the Redis snapshot that quotes read holds, for thirty seconds, exactly the pools of the
  database that are not paused.
\<close>

theorem topology_snapshot_exact:
  assumes "refresh_topology_caches e w = Some (Ok (), w')" "codecs_ok (we_cache e)" "rows_ok e (w_clock w) (w_db w)"
    and "later < we_now e (Suc (w_clock w)) + 30" "\<exists>n < 3. fb n = NoFault"
  shows "\<exists>ps. cache_get_active_pools (we_cache e) fb later (w_kv w') = Ok (Some ps) \<and>
    set ps = {p. \<not> is_paused p \<and> (\<exists>pid. look_pool (w_db w) pid = Some p)}"
proof -
  obtain pools w1 where list: "db_list_pools e w = Some (Ok pools, w1)"
    and rest: "act_bind (kv_write (\<lambda>env fa now. cache_set_active_pools env fa now (filter (\<lambda>p. \<not> is_paused p) pools)))
      (\<lambda>_. act_bind db_list_tokens (\<lambda>toks. kv_write (\<lambda>env fa now. cache_set_all_tokens env fa now toks))) e w1 = Some (Ok (), w')"
    using assms(1) by (auto simp: refresh_topology_caches_def act_bind_Ok)
  note pools = listed_pools [OF assms(3) list]
  let ?active = "filter (\<lambda>p. \<not> is_paused p) pools"
  let ?set = "cache_set_active_pools (we_cache e) (we_fault e (w_clock w1)) (we_now e (w_clock w1)) ?active (w_kv w1)"
  obtain toks fa now where fst: "fst ?set = Ok ()"
    and kv: "w_kv w' = snd (cache_set_all_tokens (we_cache e) fa now toks (snd ?set))"
    using rest by (auto simp: act_bind_Ok kv_write_eq db_list_tokens_def db_read_def)
  have c: "codec_ok (pools_codec (we_cache e))" using assms(2) by (simp add: codecs_ok_def)
  have ok: "\<exists>n < 3. we_fault e (w_clock w1) n = NoFault"
    using fst set_as_outcome(1) [OF c] by (simp add: cache_set_active_pools_def)
  have "cache_get_active_pools (we_cache e) fb later (snd ?set) = Ok (Some ?active)"
    unfolding cache_set_active_pools_def cache_get_active_pools_def
    by (rule set_get_as(1) [OF c ok assms(5)]) (use assms(4) pools(2) in simp)
  then have "cache_get_active_pools (we_cache e) fb later (w_kv w') = Ok (Some ?active)"
    by (simp only: kv tokens_frame [OF assms(2)])
  moreover have "set ?active = {p. \<not> is_paused p \<and> (\<exists>pid. look_pool (w_db w) pid = Some p)}"
    using pools(1) by auto
  ultimately show ?thesis by blast
qed

subsection \<open>Discovered objects are accounted for\<close>

lemma build_commit_pool:
  "build_commit_for_pool pid dex res e w = Some (Ok c, w') \<Longrightarrow> \<exists>p. dc_pools c = [p] \<and> pool_id p = pid"
proof -
  assume run: "build_commit_for_pool pid dex res e w = Some (Ok c, w')"
  then obtain col where col: "collector_for_dex_name dex = Some col"
    by (cases "collector_for_dex_name dex") (simp_all add: build_commit_for_pool_def act_fail_def)
  then obtain pool w1 where "ask_node (\<lambda>api. fetch_pool col api pid) e w = Some (Ok pool, w1)" "dc_pools c = [pool]"
    using run by (auto simp: build_commit_for_pool_def act_bind_Ok act_return_def)
  moreover from this have "pool_id pool = pid" using fetch_pool_named by (auto simp: ask_node_def)
  ultimately show ?thesis by blast
qed

lemma hydrate_object_hydrates: "hydrates e hydrate_object_ref"
  using build_commit_pool by (fastforce simp: hydrates_def hydrate_object_ref_def)

text \<open>
  C23.  No object of a discovery page is lost: when the page has been worked through, each reference of it is in the
  commit of the page, as a hydrated pool or as a recorded failure that names it.
\<close>

theorem scanned_objects_accounted:
  assumes "act_fold (scan_object_ref spec hydrate_object_ref) refs (page_start p st) e w = Some (Ok a, w')"
  shows "\<forall>r \<in> set refs. in_commit (or_pool_id r) (pa_commit a)"
  using page_accounts [OF hydrate_object_hydrates assms] by (simp add: acc_ok_def page_start_def)

subsection \<open>A discovery cycle returns\<close>

lemma returns_phases:
  "returns e (discovery_range ps)" "returns e (bootstrap_all m ps)" "returns e (events_all m rng)"
  "returns e (set_topology_ready b)" "returns e (retry_discovery_failures m)" "returns e (reconcile m)"
  "returns e refresh_topology_caches" "returns e refresh_gas_price"
proof -
  have build: "returns e (build_commit_for_pool pid dex res)" for pid dex res
    by (auto simp: build_commit_for_pool_def fetch_token_if_missing_def intro!: returns_rules split: option.split)
  have hydrate: "returns e (hydrate_object_ref r)" "returns e (hydrate_event_ref r')" for r r'
    by (auto simp: hydrate_object_ref_def hydrate_event_ref_def intro!: build returns_rules split: option.split)
  have hook: "returns e (after_commit_hook c)" "returns e (apply_hot_path_commit m c)" for c
    by (auto simp: after_commit_hook_def apply_hot_path_commit_def hot_pool_update_def intro!: returns_rules)
  have again: "returns e (hydrate_existing_pool m p)" "returns e (retry_failure m dex f)" for p dex f
    by (auto simp: hydrate_existing_pool_def retry_failure_def intro!: build hook returns_rules split: option.split outcome.split)
  show "returns e (discovery_range ps)" "returns e (bootstrap_all m ps)" "returns e (events_all m rng)"
    "returns e (set_topology_ready b)" "returns e (retry_discovery_failures m)" "returns e (reconcile m)"
    "returns e refresh_topology_caches" "returns e refresh_gas_price"
    unfolding discovery_range_def bootstrap_all_def events_all_def set_topology_ready_def retry_discovery_failures_def
      reconcile_def refresh_topology_caches_def refresh_gas_price_def
    by (auto intro!: returns_rules hydrate hook again returns_object_scan returns_event_scan split: outcome.split)
qed

text \<open>A discovery cycle returns when the tick fetches do, and so does a run of the worker.\<close>

lemma discovery_returns:
  assumes "\<And>n c pid. fetch_tick_data c (we_api e n) pid \<noteq> None"
  shows "\<exists>r w'. discover_and_register m e w = Some (r, w')"
proof -
  have "returns e (refresh_pool_ticks m p seen)" for p seen
    using assms by (auto simp: refresh_pool_ticks_def Let_def intro!: returns_rules returns_partial split: option.split outcome.split)
  then have "returns e (refresh_tick_data m)" unfolding refresh_tick_data_def by (intro returns_rules)
  then have "returns e (discover_and_register m)"
    unfolding discover_and_register_def by (intro returns_rules returns_phases)
  then show ?thesis by (simp add: returns_def)
qed

lemma run_returns:
  assumes "\<And>n c pid. fetch_tick_data c (we_api e n) pid \<noteq> None"
  shows "\<exists>r w'. static_run m obs e w = Some (r, w')"
proof -
  have cycle: "returns e (discover_and_register m)" using discovery_returns [OF assms] by (fastforce simp: returns_def)
  have "returns e (static_run_loop m obs)" by (induction obs) (auto intro!: returns_rules cycle)
  then have "returns e (static_run m obs)" unfolding static_run_def by (intro returns_rules cycle)
  then show ?thesis by (fastforce simp: returns_def)
qed

subsection \<open>Witnesses\<close>

definition demo_manager :: static_pool_manager where
  "demo_manager = static_manager_new ''q'' static_worker_config_default"

abbreviation dead_env :: "blob world_env" where "dead_env \<equiv> calm_env dead_api [] []"

lemma dead_tick_data: "fetch_tick_data c (we_api dead_env n) pid \<noteq> None"
  by (cases c) (simp_all add: calm_env_def dead_api_def turbos_fetch_tick_data_def)

lemma dead_discover: "\<exists>w'. discover_and_register demo_manager dead_env (world_of empty_db) = Some (Err ''down'', w')"
  by (simp add: discover_and_register_def act_simps calm_env_def world_of_def list_pools_def discovery_range_def
      fetch_graphql_available_range_def dead_api_def List.map_filter_def)

text \<open>A node that lists one pool object of every type, on a database with a pool, a token and a progress row.\<close>

definition live_page :: json where
  "live_page = JObj [(''serviceConfig'', JObj []), (''events'', JObj [(''nodes'', JArr [])]),
     (''objects'', JObj [(''nodes'', JArr [JObj [(''address'', JStr ''0xq''), (''asMoveObject'', JObj [(''contents'',
        JObj [(''type'', JObj [(''repr'', JStr (pool_object_type (hd ALL_DISCOVERY_SPECS)))])])])]])])]"

definition live_env :: "blob world_env" where
  "live_env = calm_env (demo_api\<lparr>api_get_object := (\<lambda>_. Ok demo_pool_object), api_graphql := (\<lambda>_ _. Ok live_page)\<rparr>) [''0xp''] [''A'']"

lemma live_tick_data: "fetch_tick_data c (we_api live_env n) pid \<noteq> None"
proof -
  let ?api = "we_api live_env n"
  have "parse_i32_bits_from_json (JNum (PosInt 0)) = Some 0" by (subst parse_i32_bits_from_json.simps) simp
  then have "current = 0 \<and> spacing = 60" if "turbos_reports ?api pid current spacing" for current spacing
    using that by (simp add: turbos_reports_def live_env_def calm_env_def demo_pool_response demo_fields_def decode_raw_i32_def)
  then have "\<bar>current\<bar> \<le> 2 ^ 29 \<and> uint spacing < 2 ^ 29" if "turbos_reports ?api pid current spacing" for current spacing
    using that by force
  then show ?thesis using fetch_tick_data_returns [of c ?api pid] by auto
qed

definition live_db :: pg_db where
  "live_db = snd (commit_discovery_page (\<lambda>_. NoFault) 7 (pg_page\<lparr>dc_tokens :=
     [\<lparr>address = ''A'', symbol = ''A'', tok_name = ''A'', decimals = 9\<rparr>]\<rparr>) empty_db)"

lemma live_db_rows: "''0xp'' \<in> dom (pools_t live_db)" "''A'' \<in> dom (tokens_t live_db)" "progress_t live_db \<noteq> Map.empty"
  by (simp_all add: live_db_def commit_discovery_page_def transaction_no_fault pg_page_def commit_default_def commit_stmts_def
      new_object_bootstrap_def upsert_progress_def progress_fits_def varchar_def pg_pool_def upsert_pool_def pool_fits_def
      upsert_token_def token_fits_def show_word_def show_nat.simps upsert_failure_def failure_fits_def empty_db_def
      OBJECT_BOOTSTRAP_SOURCE_KEY_def)

theorem static_worker_never_deletes_witness:
  "\<exists>r w'. static_run demo_manager [(False, False), (True, False)] live_env (world_of live_db) = Some (r, w') \<and>
     ''0xp'' \<in> dom (pools_t (w_db w')) \<and> ''A'' \<in> dom (tokens_t (w_db w')) \<and> progress_t (w_db w') \<noteq> Map.empty"
proof -
  obtain r w' where run: "static_run demo_manager [(False, False), (True, False)] live_env (world_of live_db) = Some (r, w')"
    using run_returns [of live_env] live_tick_data by blast
  have "w_db (world_of live_db) = live_db" by (simp add: world_of_def)
  with static_worker_never_deletes [OF run] live_db_rows run show ?thesis by auto
qed

theorem discovery_readiness_witness:
  "\<exists>r w'. discover_and_register demo_manager dead_env (world_of empty_db) = Some (r, w') \<and> (r \<noteq> Ok () \<or> w_ready w')"
proof -
  obtain w' where "discover_and_register demo_manager dead_env (world_of empty_db) = Some (Err ''down'', w')"
    using dead_discover by blast
  with discovery_readiness [OF this, of False] show ?thesis by blast
qed

definition failed_row :: failure_row where
  "failed_row = \<lparr>fw_dex_name = ''Cetus'', fw_event_id = ''object:0xp'', fw_pool_id = Some ''0xp'', fw_reason = ''down'',
     fw_attempts = 1, fw_updated_at = 0\<rparr>"

theorem retry_keeps_failures_witness:
  "\<exists>r w'. retry_discovery_failures demo_manager dead_env (world_of (empty_db\<lparr>failures_t := [failed_row]\<rparr>)) = Some (r, w') \<and>
     failed_row \<in> set (failures_t (w_db w'))"
proof -
  obtain r w' where run: "retry_discovery_failures demo_manager dead_env (world_of (empty_db\<lparr>failures_t := [failed_row]\<rparr>)) = Some (r, w')"
    using returns_phases(5) [of dead_env demo_manager] unfolding returns_def by fastforce
  have "failed_row \<in> set (failures_t (w_db w'))"
    by (rule retry_keeps_failures [OF run]) (simp_all add: world_of_def failed_row_def)
  with run show ?thesis by blast
qed

theorem topology_snapshot_exact_witness:
  "\<exists>w' ps. refresh_topology_caches dead_env (world_of empty_db) = Some (Ok (), w') \<and>
     cache_get_active_pools blob_cache (\<lambda>_. NoFault) 5 (w_kv w') = Ok (Some ps) \<and> set ps = {}"
proof -
  have ok: "fst (cache_set_active_pools blob_cache (\<lambda>_. NoFault) n ps kv) = Ok ()"
    "fst (cache_set_all_tokens blob_cache (\<lambda>_. NoFault) n ts kv) = Ok ()" for n ps ts kv
    using blob_ok(2) by (auto simp: cache_op_defs codecs_ok_def set_as_outcome(1) intro: exI [of _ 0])
  then obtain w' where run: "refresh_topology_caches dead_env (world_of empty_db) = Some (Ok (), w')"
    by (simp add: refresh_topology_caches_def act_bind_def kv_write_eq db_list_pools_def db_list_tokens_def db_read_def
        list_pools_def list_tokens_def calm_env_def world_of_def)
  have rows: "rows_ok dead_env (w_clock (world_of empty_db)) (w_db (world_of empty_db))"
    by (simp add: rows_ok_def calm_env_def world_of_def empty_db_def)
  have "\<exists>ps. cache_get_active_pools (we_cache dead_env) (\<lambda>_. NoFault) 5 (w_kv w') = Ok (Some ps) \<and>
      set ps = {p. \<not> is_paused p \<and> (\<exists>pid. look_pool (w_db (world_of empty_db)) pid = Some p)}"
    by (rule topology_snapshot_exact [OF run _ rows]) (use blob_ok in \<open>auto simp: calm_env_def intro: exI [of _ 0]\<close>)
  then show ?thesis using run by (simp add: calm_env_def world_of_def look_pool_row empty_db_def)
qed

theorem scanned_objects_accounted_witness:
  "\<exists>a w'. act_fold (scan_object_ref (hd ALL_DISCOVERY_SPECS) hydrate_object_ref)
       [\<lparr>or_pool_id = ''0xp'', or_dex_name = ''Cetus'', or_type_repr = [], or_parse_error = None\<rparr>]
       (page_start (new_object_bootstrap ''Cetus'') stats_default) dead_env (world_of empty_db) = Some (Ok a, w') \<and>
     in_commit ''0xp'' (pa_commit a)"
proof -
  let ?r = "\<lparr>or_pool_id = ''0xp'', or_dex_name = ''Cetus'', or_type_repr = [], or_parse_error = None\<rparr>"
  have col: "collector_for_dex_name ''Cetus'' = Some CetusCollector" by code_simp
  have "hydrate_object_ref ?r dead_env (world_of empty_db) = Some (Err ''down'', (world_of empty_db)\<lparr>w_clock := 1\<rparr>)"
    by (simp add: hydrate_object_ref_def build_commit_for_pool_def col act_bind_def ask_node_def cetus_fetch_pool_def
        calm_env_def dead_api_def world_of_def)
  then obtain a w' where run: "act_fold (scan_object_ref (hd ALL_DISCOVERY_SPECS) hydrate_object_ref) [?r]
       (page_start (new_object_bootstrap ''Cetus'') stats_default) dead_env (world_of empty_db) = Some (Ok a, w')"
    by (simp add: scan_object_ref_def page_start_def act_bind_def act_try_def act_return_def Let_def)
  have "in_commit (or_pool_id ?r) (pa_commit a)"
    using scanned_objects_accounted [OF run] by simp
  with run show ?thesis by auto
qed

end
