(* ===== verification/Dynamic_Worker.thy ===== *)
theory Dynamic_Worker
  imports World
begin

text \<open>
  \<open>DynamicPoolManager\<close> of \<open>src/workers/dynamic_worker.rs\<close>: the listener that turns pushed swap events into tasks, the
  polling fallback, the bounded channel between them and the workers, and the task itself.

  The tasks run concurrently: each \<open>.await\<close> of the source is one step of the relation \<open>dyn_step\<close>, whose states carry
  the control point of every tokio task.  \<open>process_task\<close> is also given as the sequential code it is; the two agree
  (\<open>worker_steps_process_task\<close>).

  Parsing a text as JSON (\<open>serde_json::from_str\<close>) is the parameter \<open>read_json\<close>.  A \<open>usize\<close> has 64 bits.  The sender
  of the shutdown channel outlives the manager, as it does in the daemon.
\<close>

subsection \<open>Configuration and tasks\<close>

record dynamic_worker_config =
  num_workers :: u64
  poll_interval_ms :: u64
  max_retries :: u64
  retry_backoff_ms :: u64
  websocket_url :: string
  ws_reconnect_interval_ms :: u64

definition dynamic_worker_config_default :: dynamic_worker_config where
  "dynamic_worker_config_default =
     \<lparr>num_workers = 4, poll_interval_ms = 2000, max_retries = 3, retry_backoff_ms = 200,
      websocket_url = ''wss://fullnode.mainnet.sui.io:443'', ws_reconnect_interval_ms = 3000\<rparr>"

record dynamic_task =
  dt_pool_id :: string
  dt_dex_name :: string

subsection \<open>Pushed messages\<close>

definition pushed_dex_name :: "string \<Rightarrow> string option" where
  "pushed_dex_name type_repr =
     (let type_lower = to_lowercase type_repr
      in if contains type_lower ''cetus''
            \<or> contains type_lower ''0x1eab094efda6ebb2c11488c02c1c37b80569687e07a3f5c531d0354e33b4e41''
            \<or> contains type_lower ''0x123''
         then Some ''Cetus''
         else if contains type_lower ''turbos''
            \<or> contains type_lower ''0x91bfbc386a412c6e3155cc62e307cc9c31405f84d010d8c07656e1bc4028d7b''
         then Some ''Turbos''
         else if contains type_lower ''magma'' then Some ''Magma''
         else if contains type_lower ''momentum'' then Some ''Momentum''
         else None)"

definition parse_websocket_message :: "(string \<Rightarrow> json option) \<Rightarrow> string \<Rightarrow> (string \<times> string) option" where
  "parse_websocket_message read_json msg =
     Option.bind (read_json msg) (\<lambda>val.
     Option.bind (jget ''params'' val) (\<lambda>params.
     Option.bind (jget ''result'' params) (\<lambda>result.
     Option.bind (Option.bind (jget ''type'' result) as_str) (\<lambda>type_repr.
     Option.bind (pushed_dex_name type_repr) (\<lambda>dex.
     Option.bind (jget ''json'' result) (\<lambda>json_fields.
     Option.bind (jstr ''pool_id'' json_fields) (\<lambda>pid.
       Some (pid, dex))))))))"

definition parse_swap_event :: "(string \<Rightarrow> json option) \<Rightarrow> string \<Rightarrow> swap_event option" where
  "parse_swap_event read_json msg =
     Option.bind (read_json msg) (\<lambda>val.
     Option.bind (jget ''params'' val) (\<lambda>params.
     Option.bind (jget ''result'' params) (\<lambda>result.
     Option.bind (Option.bind (jget ''type'' result) as_str) (\<lambda>type_repr.
     if \<not> contains type_repr ''SwapEvent'' then None
     else
     Option.bind (pushed_dex_name type_repr) (\<lambda>dex.
     Option.bind (jget ''json'' result) (\<lambda>json_fields.
     Option.bind (jstr ''pool_id'' json_fields) (\<lambda>pid.
     Option.bind (jstr ''sender'' json_fields) (\<lambda>sender.
     Option.bind (jstr ''amount_in'' json_fields) (\<lambda>amount_in.
     Option.bind (jstr ''amount_out'' json_fields) (\<lambda>amount_out.
     Option.bind (jstr ''coin_in'' json_fields) (\<lambda>coin_in.
     Option.bind (jstr ''coin_out'' json_fields) (\<lambda>coin_out.
     Option.bind (Option.bind (jpath [''id'', ''txDigest''] result) as_str) (\<lambda>digest.
     Option.bind (Option.bind (jstr ''timestampMs'' result) parse_u64) (\<lambda>ms.
       Some \<lparr>se_event_id = digest, se_timestamp = ms div 1000, se_pool_id = pid, se_dex_name = dex, se_sender = sender,
             se_amount_in = amount_in, se_amount_out = amount_out, se_coin_in = coin_in, se_coin_out = coin_out\<rparr>))))))))))))))"

subsection \<open>One task\<close>

definition dynamic_collector :: "string \<Rightarrow> collector option" where
  "dynamic_collector name =
     (let lower = to_lowercase name
      in if lower = ''cetus'' then Some CetusCollector
         else if lower = ''turbos'' then Some TurbosCollector
         else if lower = ''magma'' \<or> lower = ''magma finance'' then Some MagmaCollector
         else if lower = ''momentum'' then Some MomentumCollector
         else None)"

text \<open>
  One round of the retry loop: the fetched pool, or the count and the delay of the next round.  The delay is in
  milliseconds; a \<open>Duration\<close> holds less than \<open>2 ^ 64\<close> seconds and doubling it beyond that panics.
\<close>

definition duration_bound :: nat where
  "duration_bound = 2 ^ 64 * 1000"

definition fetch_round ::
  "dynamic_worker_config \<Rightarrow> collector \<Rightarrow> string \<Rightarrow> u64 \<Rightarrow> nat \<Rightarrow> (pool_state + u64 \<times> nat, 't) act" where
  "fetch_round cfg c pid attempt delay =
     act_bind (act_try (ask_node (\<lambda>api. fetch_pool c api pid))) (\<lambda>r.
       case r of
         Ok st \<Rightarrow> act_return (Inl st)
       | Panic s \<Rightarrow> act_lift (Panic s)
       | Err err \<Rightarrow>
           (let attempt = attempt + 1
            in if max_retries cfg < attempt
               then act_fail (''Failed fetching pool state for ID '' @ pid @ '' after '' @ show_word attempt @
                      '' attempts. Last error: '' @ err)
               else if duration_bound \<le> 2 * delay then act_lift (Panic ''overflow when multiplying duration by scalar'')
               else act_return (Inr (attempt, 2 * delay))))"

partial_function (option) fetch_retrying ::
  "dynamic_worker_config \<Rightarrow> collector \<Rightarrow> string \<Rightarrow> u64 \<Rightarrow> nat \<Rightarrow> 't world_env \<Rightarrow> 't world \<Rightarrow>
   ((pool_state, string) outcome \<times> 't world) option" where
  "fetch_retrying cfg c pid attempt delay e w =
     (case fetch_round cfg c pid attempt delay e w of
        None \<Rightarrow> None
      | Some (r, w') \<Rightarrow>
          (case r of
             Ok next \<Rightarrow>
               (case next of
                  Inl st \<Rightarrow> Some (Ok st, w')
                | Inr p \<Rightarrow> fetch_retrying cfg c pid (fst p) (snd p) e w')
           | Err err \<Rightarrow> Some (Err err, w')
           | Panic s \<Rightarrow> Some (Panic s, w')))"

definition cache_fetched :: "pool_state \<Rightarrow> (unit, 't) act" where
  "cache_fetched st = kv_write (\<lambda>env fa now. cache_set_pool_state env fa now st)"

definition process_task :: "string \<Rightarrow> dynamic_worker_config \<Rightarrow> dynamic_task \<Rightarrow> (unit, 't) act" where
  "process_task queue_name cfg task =
     (case dynamic_collector (dt_dex_name task) of
        None \<Rightarrow> act_fail (''Unsupported DEX: '' @ dt_dex_name task)
      | Some c \<Rightarrow>
          act_bind (fetch_retrying cfg c (dt_pool_id task) 0 (unat (retry_backoff_ms cfg))) (\<lambda>st.
          act_bind (cache_fetched st) (\<lambda>_.
          act_bind (act_publish queue_name (PoolStateUpdate st)) (\<lambda>_.
            act_broadcast st))))"

subsection \<open>What a task does\<close>

definition answer :: "collector \<Rightarrow> string \<Rightarrow> 't world_env \<Rightarrow> 't world \<Rightarrow> nat \<Rightarrow> (pool_state, string) outcome" where
  "answer c pid e w k = fetch_pool c (we_api e (w_clock w + k)) pid"

abbreviation ticked :: "nat \<Rightarrow> 't world \<Rightarrow> 't world" where
  "ticked k w \<equiv> w\<lparr>w_clock := w_clock w + k\<rparr>"

text \<open>The configurations with which the doubling of the delay never overflows a \<open>Duration\<close>.\<close>

definition safe_config :: "dynamic_worker_config \<Rightarrow> bool" where
  "safe_config cfg \<longleftrightarrow> max_retries cfg < - 1 \<and>
     unat (retry_backoff_ms cfg) * 2 ^ unat (max_retries cfg) < duration_bound"

text \<open>The bound that keeps: the delay, doubled for each retry that remains.\<close>

definition round_ok :: "dynamic_worker_config \<Rightarrow> u64 \<Rightarrow> nat \<Rightarrow> bool" where
  "round_ok cfg attempt delay \<longleftrightarrow> max_retries cfg < - 1 \<and> attempt \<le> max_retries cfg \<and>
     delay * 2 ^ (unat (max_retries cfg) - unat attempt) < duration_bound"

lemma round_ok_start: "safe_config cfg \<Longrightarrow> round_ok cfg 0 (unat (retry_backoff_ms cfg))"
  by (simp add: safe_config_def round_ok_def)

lemma unat_next:
  fixes a b :: u64
  assumes "a \<le> b" "b < - 1"
  shows "unat (a + 1) = Suc (unat a)" "b < a + 1 \<longleftrightarrow> unat a = unat b"
proof -
  have "a \<noteq> - 1" using assms by auto
  then have "1 + a \<noteq> 0" by (simp add: add_eq_0_iff)
  then show *: "unat (a + 1) = Suc (unat a)" using unatSuc [of a] by (simp add: add.commute)
  show "b < a + 1 \<longleftrightarrow> unat a = unat b" using assms(1) by (auto simp: word_less_nat_alt word_le_nat_alt *)
qed

lemma round_ok_next:
  assumes "round_ok cfg a d" "a \<noteq> max_retries cfg"
  shows "\<not> max_retries cfg < a + 1" "\<not> duration_bound \<le> 2 * d" "round_ok cfg (a + 1) (2 * d)"
    "unat (max_retries cfg) - unat a = Suc (unat (max_retries cfg) - unat (a + 1))"
proof -
  let ?m = "max_retries cfg"
  have m: "?m < - 1" "a \<le> ?m" using assms(1) by (simp_all add: round_ok_def)
  have lt: "unat a < unat ?m" using m(2) assms(2) by (simp add: word_less_nat_alt [symmetric])
  show *: "\<not> ?m < a + 1" using unat_next(2) [OF m(2,1)] lt by simp
  show left: "unat ?m - unat a = Suc (unat ?m - unat (a + 1))" using unat_next(1) [OF m(2,1)] lt by simp
  have "2 * d * 2 ^ (unat ?m - unat (a + 1)) < duration_bound"
    using assms(1) left by (simp add: round_ok_def ac_simps)
  then show "round_ok cfg (a + 1) (2 * d)" using m * by (simp add: round_ok_def not_less)
  have "2 * d \<le> 2 * d * 2 ^ (unat ?m - unat (a + 1))" by simp
  also have "\<dots> < duration_bound" by fact
  finally show "\<not> duration_bound \<le> 2 * d" by simp
qed

lemma fetch_round_result:
  "fetch_round cfg c pid a d e w =
     (case answer c pid e w 0 of
        Ok st \<Rightarrow> Some (Ok (Inl st), ticked 1 w)
      | Panic s \<Rightarrow> Some (Panic s, ticked 1 w)
      | Err err \<Rightarrow>
          if max_retries cfg < a + 1
          then Some (Err (''Failed fetching pool state for ID '' @ pid @ '' after '' @ show_word (a + 1) @
                      '' attempts. Last error: '' @ err), ticked 1 w)
          else if duration_bound \<le> 2 * d then Some (Panic ''overflow when multiplying duration by scalar'', ticked 1 w)
          else Some (Ok (Inr (a + 1, 2 * d)), ticked 1 w))"
  by (simp add: fetch_round_def answer_def act_simps Let_def split: outcome.split)

lemma answer_ticked [simp]:
  "answer c pid e (ticked n w) k = answer c pid e w (n + k)"
  "answer c pid e (w\<lparr>w_clock := Suc (w_clock w)\<rparr>) k = answer c pid e w (Suc k)"
  by (simp_all add: answer_def add.assoc)

lemma fetch_retrying_unfold:
  "fetch_retrying cfg c pid a d e w =
     (case answer c pid e w 0 of
        Ok st \<Rightarrow> Some (Ok st, ticked 1 w)
      | Panic s \<Rightarrow> Some (Panic s, ticked 1 w)
      | Err err \<Rightarrow>
          if max_retries cfg < a + 1
          then Some (Err (''Failed fetching pool state for ID '' @ pid @ '' after '' @ show_word (a + 1) @
                      '' attempts. Last error: '' @ err), ticked 1 w)
          else if duration_bound \<le> 2 * d then Some (Panic ''overflow when multiplying duration by scalar'', ticked 1 w)
          else fetch_retrying cfg c pid (a + 1) (2 * d) e (ticked 1 w))"
  by (subst fetch_retrying.simps) (simp add: fetch_round_result split: outcome.split)

text \<open>The first answer that is no error, if it comes within the rounds that are left.\<close>

lemma fetch_retrying_first:
  assumes "round_ok cfg a d" "k \<le> unat (max_retries cfg) - unat a" "\<forall>j<k. \<exists>err. answer c pid e w j = Err err"
    "answer c pid e w k = Ok st"
  shows "fetch_retrying cfg c pid a d e w = Some (Ok st, ticked (Suc k) w)"
  using assms
proof (induction k arbitrary: a d w)
  case 0
  then show ?case by (subst fetch_retrying_unfold) simp
next
  case (Suc k)
  from Suc.prems(3) obtain err where err: "answer c pid e w 0 = Err err" by auto
  have "a \<noteq> max_retries cfg" using Suc.prems(2) by auto
  note next_round = round_ok_next [OF Suc.prems(1) this]
  have "fetch_retrying cfg c pid (a + 1) (2 * d) e (ticked 1 w) = Some (Ok st, ticked (Suc k) (ticked 1 w))"
    by (rule Suc.IH [OF next_round(3)]) (use Suc.prems next_round(4) in auto)
  then show ?case by (subst fetch_retrying_unfold) (simp add: err next_round(1,2))
qed

lemma fetch_retrying_never:
  assumes "round_ok cfg a d" "\<forall>j\<le>unat (max_retries cfg) - unat a. \<exists>err. answer c pid e w j = Err err"
  shows "\<exists>err. fetch_retrying cfg c pid a d e w = Some (Err err, ticked (Suc (unat (max_retries cfg) - unat a)) w)"
  using assms
proof (induction "unat (max_retries cfg) - unat a" arbitrary: a d w)
  case 0
  then have "unat a = unat (max_retries cfg)" by (simp add: round_ok_def word_le_nat_alt)
  then have last: "max_retries cfg < a + 1"
    using unat_next(2) [of a "max_retries cfg"] "0.prems"(1) by (simp add: round_ok_def)
  from 0 obtain err where "answer c pid e w 0 = Err err" by auto
  then show ?case by (subst fetch_retrying_unfold) (simp add: last 0(1) [symmetric])
next
  case (Suc n)
  from Suc.prems(2) obtain err where err: "answer c pid e w 0 = Err err" by auto
  have "a \<noteq> max_retries cfg" using Suc.hyps(2) by auto
  note next_round = round_ok_next [OF Suc.prems(1) this]
  have n: "n = unat (max_retries cfg) - unat (a + 1)" using Suc.hyps(2) next_round(4) by simp
  have "\<forall>j\<le>n. \<exists>err. answer c pid e (ticked 1 w) j = Err err" using Suc.prems(2) Suc.hyps(2) by simp
  then obtain err' where "fetch_retrying cfg c pid (a + 1) (2 * d) e (ticked 1 w) = Some (Err err', ticked (Suc n) (ticked 1 w))"
    using Suc.hyps(1) [OF n next_round(3), of "ticked 1 w"] n by auto
  then show ?case by (subst fetch_retrying_unfold) (simp add: err next_round(1,2) Suc.hyps(2) [symmetric])
qed

text \<open>What the last three steps of a task do to the world when they succeed.\<close>

lemma cache_fetched_world:
  assumes "codecs_ok (we_cache e)" "cache_fetched st e w = Some (r, w')"
  shows "w_lists w' = w_lists w" "w_broadcast w' = w_broadcast w" "w_clock w' = Suc (w_clock w)"
    "r = Ok () \<longleftrightarrow> (\<exists>n<3. we_fault e (w_clock w) n = NoFault)"
    "\<exists>n<3. fb n = NoFault \<Longrightarrow> r = Ok () \<Longrightarrow> later < we_now e (w_clock w) + 300 \<Longrightarrow>
       cache_get_pool_state (we_cache e) fb later (pool_id st) (w_kv w') = Ok (Some st)"
proof -
  have c: "codec_ok (pool_codec (we_cache e))" using assms(1) by (simp add: codecs_ok_def)
  let ?set = "cache_set_pool_state (we_cache e) (we_fault e (w_clock w)) (we_now e (w_clock w)) st (w_kv w)"
  have w': "r = fst ?set" "w' = w\<lparr>w_clock := Suc (w_clock w), w_kv := snd ?set\<rparr>"
    using assms(2) by (auto simp: cache_fetched_def kv_write_def split: prod.splits)
  then show "w_lists w' = w_lists w" "w_broadcast w' = w_broadcast w" "w_clock w' = Suc (w_clock w)" by simp_all
  show ok: "r = Ok () \<longleftrightarrow> (\<exists>n<3. we_fault e (w_clock w) n = NoFault)"
    by (simp add: w'(1) cache_set_pool_state_def set_as_outcome(1) [OF c])
  show "cache_get_pool_state (we_cache e) fb later (pool_id st) (w_kv w') = Ok (Some st)"
    if "\<exists>n<3. fb n = NoFault" "r = Ok ()" "later < we_now e (w_clock w) + 300"
    using set_get_as(1) [OF c _ that(1,3)] that(2) ok by (simp add: w'(2) cache_op_defs)
qed

lemma publish_world:
  assumes "env_ok (we_queue e)" "act_publish q m e w = Some (r, w')"
  shows "w_kv w' = w_kv w" "w_broadcast w' = w_broadcast w" "w_db w' = w_db w"
    "msgs (we_queue e) (w_lists w') q = msgs (we_queue e) (w_lists w) q @ [Some m] \<or>
     (msgs (we_queue e) (w_lists w') q = msgs (we_queue e) (w_lists w) q \<and> r \<noteq> Ok ())"
    "we_fault e (w_clock w) 0 = NoFault \<Longrightarrow> r = Ok ()"
proof -
  let ?p = "publish (we_queue e) (we_fault e (w_clock w) 0) q m (w_lists w)"
  have w': "?p = (r, w_lists w')" "w' = w\<lparr>w_clock := Suc (w_clock w), w_lists := snd ?p\<rparr>"
    using assms(2) by (auto simp: act_publish_def split: prod.splits)
  from w'(2) show "w_kv w' = w_kv w" "w_broadcast w' = w_broadcast w" "w_db w' = w_db w" by simp_all
  show "msgs (we_queue e) (w_lists w') q = msgs (we_queue e) (w_lists w) q @ [Some m] \<or>
     (msgs (we_queue e) (w_lists w') q = msgs (we_queue e) (w_lists w) q \<and> r \<noteq> Ok ())"
    by (rule main_queue.push_view [OF assms(1) w'(1)])
  show "r = Ok ()" if "we_fault e (w_clock w) 0 = NoFault"
    using main_queue.push_fine [OF assms(1), of q m "w_lists w"] w'(1) that by simp
qed

lemma process_task_fails:
  assumes "safe_config cfg" "dynamic_collector (dt_dex_name t) = Some c"
    "\<forall>j\<le>unat (max_retries cfg). \<exists>err. answer c (dt_pool_id t) e w j = Err err"
  shows "\<exists>err. process_task q cfg t e w = Some (Err err, ticked (Suc (unat (max_retries cfg))) w)"
  using fetch_retrying_never [OF round_ok_start [OF assms(1)], of c "dt_pool_id t" e w] assms(2,3)
  by (auto simp: process_task_def act_bind_def)

lemma process_task_succeeds:
  assumes "safe_config cfg" "env_ok (we_queue e)" "codecs_ok (we_cache e)" "dynamic_collector (dt_dex_name t) = Some c"
    and "k \<le> unat (max_retries cfg)" "\<forall>j<k. \<exists>err. answer c (dt_pool_id t) e w j = Err err"
    and st: "answer c (dt_pool_id t) e w k = Ok st"
    and calm: "\<exists>n<3. we_fault e (w_clock w + Suc k) n = NoFault" "we_fault e (w_clock w + Suc (Suc k)) 0 = NoFault"
  shows "\<exists>w'. process_task q cfg t e w = Some (Ok (), w') \<and> pool_id st = dt_pool_id t \<and>
      (\<forall>later < we_now e (w_clock w + Suc k) + 300.
         cache_get_pool_state (we_cache e) (\<lambda>_. NoFault) later (dt_pool_id t) (w_kv w') = Ok (Some st)) \<and>
      msgs (we_queue e) (w_lists w') q = msgs (we_queue e) (w_lists w) q @ [Some (PoolStateUpdate st)] \<and>
      w_broadcast w' = w_broadcast w @ [st]"
proof -
  let ?w1 = "ticked (Suc k) w"
  have fetched: "fetch_retrying cfg c (dt_pool_id t) 0 (unat (retry_backoff_ms cfg)) e w = Some (Ok st, ?w1)"
    by (rule fetch_retrying_first [OF round_ok_start]) (use assms in simp_all)
  obtain r2 w2 where cached: "cache_fetched st e ?w1 = Some (r2, w2)"
    by (cases "cache_fetched st e ?w1") (auto simp: cache_fetched_def kv_write_def split: prod.splits)
  obtain r3 w3 where queued: "act_publish q (PoolStateUpdate st) e w2 = Some (r3, w3)"
    by (cases "act_publish q (PoolStateUpdate st) e w2") (auto simp: act_publish_def split: prod.splits)
  note cw = cache_fetched_world [OF assms(3) cached] and pw = publish_world [OF assms(2) queued]
  have r: "r2 = Ok ()" "r3 = Ok ()" using cw(4) calm(1) pw(5) calm(2) cw(3) by simp_all
  have pid: "pool_id st = dt_pool_id t" using fetch_pool_named st by (auto simp: answer_def)
  have "process_task q cfg t e w = Some (Ok (), w3\<lparr>w_broadcast := w_broadcast w3 @ [st]\<rparr>)"
    using fetched cached queued r assms(4) by (simp add: process_task_def act_bind_def act_broadcast_def act_modify_def)
  moreover have "cache_get_pool_state (we_cache e) (\<lambda>_. NoFault) later (dt_pool_id t) (w_kv w3) = Ok (Some st)"
    if "later < we_now e (w_clock w + Suc k) + 300" for later
    using cw(5) [of "\<lambda>_. NoFault" later, OF exI [of _ 0]] that r(1) pid pw(1) by simp
  ultimately show ?thesis using pw(2,4) cw(1,2) r pid by auto
qed

text \<open>
  C28.  A task returns.  When the node answers every one of the \<open>max_retries + 1\<close> rounds with an error, the task fails and
  neither the cache, the queue nor the broadcast channel is touched.  When a round within that limit is the first to
  succeed, its pool is the one asked for, and unless Redis fails it is cached for five minutes, queued for the database
  and then broadcast, each exactly once.
\<close>

theorem process_task_outcome:
  assumes "safe_config cfg" "env_ok (we_queue e)" "codecs_ok (we_cache e)" "dynamic_collector (dt_dex_name t) = Some c"
  shows "((\<forall>j\<le>unat (max_retries cfg). \<exists>err. answer c (dt_pool_id t) e w j = Err err) \<longrightarrow>
      (\<exists>err. process_task q cfg t e w = Some (Err err, ticked (Suc (unat (max_retries cfg))) w))) \<and>
    (k \<le> unat (max_retries cfg) \<and> (\<forall>j<k. \<exists>err. answer c (dt_pool_id t) e w j = Err err) \<and>
        answer c (dt_pool_id t) e w k = Ok st \<and> (\<exists>n<3. we_fault e (w_clock w + Suc k) n = NoFault) \<and>
        we_fault e (w_clock w + Suc (Suc k)) 0 = NoFault \<longrightarrow>
      (\<exists>w'. process_task q cfg t e w = Some (Ok (), w') \<and> pool_id st = dt_pool_id t \<and>
        (\<forall>later < we_now e (w_clock w + Suc k) + 300.
           cache_get_pool_state (we_cache e) (\<lambda>_. NoFault) later (dt_pool_id t) (w_kv w') = Ok (Some st)) \<and>
        msgs (we_queue e) (w_lists w') q = msgs (we_queue e) (w_lists w) q @ [Some (PoolStateUpdate st)] \<and>
        w_broadcast w' = w_broadcast w @ [st]))"
  using process_task_fails [OF assms(1,4)] process_task_succeeds [OF assms] by blast

text \<open>
  A pushed swap event is both a task and a log entry: when a message is recorded as a swap it is also turned into a
  task, for the same pool and exchange.
\<close>

lemma swap_event_is_task:
  "parse_swap_event read_json msg = Some ev \<Longrightarrow>
   parse_websocket_message read_json msg = Some (se_pool_id ev, se_dex_name ev)"
  by (auto simp: parse_swap_event_def parse_websocket_message_def bind_eq_Some_conv split: if_splits)

text \<open>Every exchange name a pushed message is given has a collector.\<close>

lemma pushed_dex_collector: "pushed_dex_name s = Some dex \<Longrightarrow> dynamic_collector dex \<noteq> None"
proof -
  have known: "dynamic_collector ''Cetus'' \<noteq> None" "dynamic_collector ''Turbos'' \<noteq> None"
    "dynamic_collector ''Magma'' \<noteq> None" "dynamic_collector ''Momentum'' \<noteq> None" by code_simp+
  show "pushed_dex_name s = Some dex \<Longrightarrow> dynamic_collector dex \<noteq> None"
    unfolding pushed_dex_name_def Let_def using known by (simp split: if_splits)
qed

text \<open>
  The package ids written into the listener are not those of the registry: a swap event of any of the four exchanges,
  as its package emits it, is not recognised unless some part of its type happens to spell the exchange's name.
\<close>

lemma registered_swap_events_unrecognised:
  "list_all (\<lambda>s. pushed_dex_name (ds_package_id s @ ''::'' @ pool_type_module s @ ''::SwapEvent'') = None) ALL_DISCOVERY_SPECS"
  by code_simp

subsection \<open>Concurrent tasks\<close>

text \<open>The control point of a worker; each step below runs up to the next \<open>.await\<close>.\<close>

datatype worker =
    Waiting
  | Fetching dynamic_task collector u64 nat
  | Caching pool_state
  | Publishing pool_state
  | Announcing pool_state
  | Finished
  | Crashed

definition begin_task :: "dynamic_worker_config \<Rightarrow> dynamic_task \<Rightarrow> worker" where
  "begin_task cfg t =
     (case dynamic_collector (dt_dex_name t) of
        None \<Rightarrow> Waiting
      | Some c \<Rightarrow> Fetching t c 0 (unat (retry_backoff_ms cfg)))"

fun worker_act :: "string \<Rightarrow> dynamic_worker_config \<Rightarrow> worker \<Rightarrow> (worker, 't) act" where
  "worker_act q cfg (Fetching t c attempt delay) =
     act_bind (fetch_round cfg c (dt_pool_id t) attempt delay) (\<lambda>r.
       case r of Inl st \<Rightarrow> act_return (Caching st) | Inr p \<Rightarrow> act_return (Fetching t c (fst p) (snd p)))"
| "worker_act q cfg (Caching st) = act_bind (cache_fetched st) (\<lambda>_. act_return (Publishing st))"
| "worker_act q cfg (Publishing st) =
     act_bind (act_publish q (PoolStateUpdate st)) (\<lambda>_. act_return (Announcing st))"
| "worker_act q cfg (Announcing st) = act_bind (act_broadcast st) (\<lambda>_. act_return Waiting)"
| "worker_act q cfg st = act_return st"

text \<open>An error ends the task and is logged; a panic ends the worker.\<close>

definition worker_step :: "string \<Rightarrow> dynamic_worker_config \<Rightarrow> 't world_env \<Rightarrow> worker \<times> 't world \<Rightarrow> worker \<times> 't world" where
  "worker_step q cfg e sw =
     (case worker_act q cfg (fst sw) e (snd sw) of
        Some (Ok st, w') \<Rightarrow> (st, w')
      | Some (Err _, w') \<Rightarrow> (Waiting, w')
      | Some (Panic _, w') \<Rightarrow> (Crashed, w')
      | None \<Rightarrow> sw)"

lemma worker_act_returns: "returns e (worker_act q cfg st)"
  by (cases st) (auto simp: fetch_round_def cache_fetched_def Let_def intro!: returns_rules split: outcome.split sum.split)

text \<open>Where the fetching phase, and where the whole task, leaves the worker.\<close>

fun fetched_to :: "(pool_state, string) outcome \<Rightarrow> worker" where
  "fetched_to (Ok st) = Caching st"
| "fetched_to (Err _) = Waiting"
| "fetched_to (Panic _) = Crashed"

fun ended_as :: "(unit, string) outcome \<Rightarrow> worker" where
  "ended_as (Panic _) = Crashed"
| "ended_as _ = Waiting"

abbreviation worker_runs ::
  "string \<Rightarrow> dynamic_worker_config \<Rightarrow> 't world_env \<Rightarrow> worker \<times> 't world \<Rightarrow> worker \<times> 't world \<Rightarrow> bool" where
  "worker_runs q cfg e \<equiv> (\<lambda>a b. b = worker_step q cfg e a)\<^sup>*\<^sup>*"

lemma worker_runs_step: "worker_runs q cfg e (worker_step q cfg e a) b \<Longrightarrow> worker_runs q cfg e a b"
  by (rule converse_rtranclp_into_rtranclp) auto

lemmas fetch_retrying_induct = fetch_retrying.raw_induct [rotated, consumes 1, case_names step]

lemma worker_runs_fetch:
  assumes "fetch_retrying cfg c pid a d e w = Some rw"
  shows "pid = dt_pool_id t \<longrightarrow> worker_runs q cfg e (Fetching t c a d, w) (fetched_to (fst rw), snd rw)"
  using assms
proof (induction rule: fetch_retrying_induct)
  case (step self cfg c pid a d e w rw)
  show ?case
  proof
    assume pid: "pid = dt_pool_id t"
    from step(2) obtain r w1 where first: "fetch_round cfg c pid a d e w = Some (r, w1)"
      by (cases "fetch_round cfg c pid a d e w") auto
    have go: "worker_step q cfg e (Fetching t c a d, w) =
        ((case r of Ok (Inl st) \<Rightarrow> Caching st | Ok (Inr p) \<Rightarrow> Fetching t c (fst p) (snd p) | Err _ \<Rightarrow> Waiting | Panic _ \<Rightarrow> Crashed), w1)"
      using first pid by (simp add: worker_step_def act_bind_def act_return_def split: outcome.split sum.split)
    show "worker_runs q cfg e (Fetching t c a d, w) (fetched_to (fst rw), snd rw)"
    proof (rule worker_runs_step, cases r)
      case (Ok x)
      show "worker_runs q cfg e (worker_step q cfg e (Fetching t c a d, w)) (fetched_to (fst rw), snd rw)"
      proof (cases x)
        case (Inr p)
        with step(2) first Ok have "self cfg c pid (fst p) (snd p) e w1 = Some rw" by simp
        from step(1) [OF this] pid go Ok Inr show ?thesis by simp
      qed (use step(2) first Ok go in auto)
    qed (use step(2) first go in auto)
  qed
qed

lemma act_broadcast_eq: "act_broadcast st e w = Some (Ok (), w\<lparr>w_broadcast := w_broadcast w @ [st]\<rparr>)"
  unfolding act_broadcast_def act_modify_def by (rule refl)

lemma announce_step:
  "worker_step q cfg e (Announcing st, w) = (Waiting, w\<lparr>w_broadcast := w_broadcast w @ [st]\<rparr>)"
  by (simp add: worker_step_def act_bind_def act_return_def act_broadcast_eq)

lemma worker_runs_tail:
  assumes "act_bind (cache_fetched st) (\<lambda>_. act_bind (act_publish q (PoolStateUpdate st)) (\<lambda>_. act_broadcast st)) e w = Some (r, w')"
  shows "worker_runs q cfg e (Caching st, w) (ended_as r, w')"
proof -
  from assms obtain r2 w2 where c: "cache_fetched st e w = Some (r2, w2)"
    by (cases "cache_fetched st e w") (auto simp: act_bind_def)
  show ?thesis
  proof (rule worker_runs_step, cases r2)
    case (Ok u)
    then have s1: "worker_step q cfg e (Caching st, w) = (Publishing st, w2)"
      using c by (simp add: worker_step_def act_bind_def act_return_def)
    from assms c Ok obtain r3 w3 where p: "act_publish q (PoolStateUpdate st) e w2 = Some (r3, w3)"
      by (cases "act_publish q (PoolStateUpdate st) e w2") (auto simp: act_bind_def)
    have "worker_runs q cfg e (Publishing st, w2) (ended_as r, w')"
    proof (rule worker_runs_step, cases r3)
      case (Ok u')
      then have s2: "worker_step q cfg e (Publishing st, w2) = (Announcing st, w3)"
        using p by (simp add: worker_step_def act_bind_def act_return_def)
      have "act_broadcast st e w3 = Some (r, w')" using assms c p \<open>r2 = Ok u\<close> Ok by (simp add: act_bind_def)
      then have "worker_step q cfg e (Announcing st, w3) = (ended_as r, w')" by (auto simp: act_broadcast_eq announce_step)
      then have "worker_runs q cfg e (Announcing st, w3) (ended_as r, w')" by - (rule worker_runs_step, simp)
      then show "worker_runs q cfg e (worker_step q cfg e (Publishing st, w2)) (ended_as r, w')" by (simp add: s2)
    qed (use assms c p Ok in \<open>auto simp: worker_step_def act_bind_def\<close>)
    then show "worker_runs q cfg e (worker_step q cfg e (Caching st, w)) (ended_as r, w')" by (simp add: s1)
  qed (use assms c in \<open>auto simp: worker_step_def act_bind_def\<close>)
qed

text \<open>
  The steps of an undisturbed worker are the sequential task: whenever \<open>process_task\<close> returns, stepping the worker
  from the start of that task leads to the same world, with the worker ready for the next task, or dead after a panic.
\<close>

lemma worker_steps_process_task:
  assumes "process_task q cfg t e w = Some (r, w')"
  shows "worker_runs q cfg e (begin_task cfg t, w) (ended_as r, w')"
proof (cases "dynamic_collector (dt_dex_name t)")
  case None
  then show ?thesis using assms by (auto simp: process_task_def begin_task_def act_fail_def)
next
  case (Some c)
  let ?fetch = "fetch_retrying cfg c (dt_pool_id t) 0 (unat (retry_backoff_ms cfg)) e w"
  obtain rf w1 where f: "?fetch = Some (rf, w1)"
    using assms Some by (cases ?fetch) (auto simp: process_task_def act_bind_def)
  have fetched: "worker_runs q cfg e (begin_task cfg t, w) (fetched_to rf, w1)"
    using worker_runs_fetch [OF f, of t q] Some by (simp add: begin_task_def)
  have rest: "worker_runs q cfg e (fetched_to rf, w1) (ended_as r, w')"
  proof (cases rf)
    case (Ok st)
    then have "act_bind (cache_fetched st) (\<lambda>_. act_bind (act_publish q (PoolStateUpdate st)) (\<lambda>_. act_broadcast st)) e w1 = Some (r, w')"
      using assms f Some by (simp add: process_task_def act_bind_def)
    from worker_runs_tail [OF this] Ok show ?thesis by simp
  qed (use assms f Some in \<open>auto simp: process_task_def act_bind_def\<close>)
  from fetched rest show ?thesis by (rule rtranclp_trans)
qed

subsection \<open>Witnesses\<close>

abbreviation demo_cfg :: dynamic_worker_config where "demo_cfg \<equiv> dynamic_worker_config_default"

abbreviation live_env :: "blob world_env" where "live_env \<equiv> calm_env chain_api [] []"

definition demo_task :: dynamic_task where
  "demo_task = \<lparr>dt_pool_id = ''0xp'', dt_dex_name = ''Cetus''\<rparr>"

definition demo_pool :: pool_state where
  "demo_pool = \<lparr>pool_id = ''0xp'', dex_name = ''Cetus'', coin_type_a = ''A'', coin_type_b = ''B'', sqrt_price = 7,
     liquidity = 5, fee_rate = 3, is_paused = False\<rparr>"

lemma demo_collector: "dynamic_collector (dt_dex_name demo_task) = Some CetusCollector"
  by code_simp

lemma demo_safe: "safe_config demo_cfg"
  by (simp add: safe_config_def dynamic_worker_config_default_def duration_bound_def)

lemma live_answer: "answer CetusCollector (dt_pool_id demo_task) live_env w k = Ok demo_pool"
  by (simp add: answer_def calm_env_def demo_task_def demo_cetus_pool demo_pool_def)

lemma live_calm: "env_ok (we_queue live_env)" "codecs_ok (we_cache live_env)" "we_fault live_env n m = NoFault"
    "\<exists>n<3. we_fault live_env k n = NoFault"
  using blob_ok by (auto simp: calm_env_def intro: exI [of _ 0])

theorem process_task_outcome_witness:
  "\<exists>w'. process_task ''q'' demo_cfg demo_task live_env (world_of empty_db) = Some (Ok (), w') \<and>
     w_broadcast w' = w_broadcast (world_of empty_db) @ [demo_pool]"
  using process_task_outcome [OF demo_safe live_calm(1,2) demo_collector, of "world_of empty_db" "''q''" 0 demo_pool,
      THEN conjunct2, THEN mp] live_answer live_calm(3,4) by auto

end
