(* ===== verification/Dynamic_System.thy ===== *)
theory Dynamic_System
  imports Dynamic_Worker
begin

text \<open>
  The dynamic worker as a system of concurrent tokio tasks (\<open>run\<close>, \<open>run_websocket_listener\<close>, \<open>run_polling_loop\<close> and
  \<open>worker_loop\<close> of \<open>src/workers/dynamic_worker.rs\<close>): the producers, the bounded channel, the workers, and the
  shutdown protocol of the manager.

  \<open>dyn_step\<close> interleaves the tasks at their \<open>.await\<close> points.  A send blocks while the channel is full, the connection
  and the messages of the node are nondeterministic, and other parts of the service change the database and the cache
  in between (\<open>Others\<close>).  Two ghost lists record the tasks that were sent and the tasks a worker has started.
\<close>

subsection \<open>Control points\<close>

datatype listener =
    L_Checking
  | L_Connecting
  | L_Listening
  | L_Handing dynamic_task "swap_event option"
  | L_Logging swap_event
  | L_Done

datatype poller =
    P_Checking
  | P_Querying
  | P_Sending "dynamic_task list"
  | P_Sleeping
  | P_Done

datatype manager =
    M_Waiting
  | M_Joining_Listener
  | M_Joining_Poller
  | M_Joining_Workers
  | M_Done

record 't dyn_state =
  dy_world :: "'t world"
  dy_channel :: "dynamic_task list"
  dy_sent :: "dynamic_task list"
  dy_started :: "dynamic_task list"
  dy_workers :: "worker list"
  dy_listener :: listener
  dy_poller :: poller
  dy_manager :: manager
  dy_shutdown :: bool

text \<open>
  \<open>mpsc::channel\<close> panics on a capacity of zero and on one above the permits of its semaphore (\<open>usize::MAX >> 3\<close>).
\<close>

definition channel_capacity :: "dynamic_worker_config \<Rightarrow> nat" where
  "channel_capacity cfg = unat (num_workers cfg * 2)"

definition dyn_start :: "dynamic_worker_config \<Rightarrow> 't world \<Rightarrow> ('t dyn_state, string) outcome" where
  "dyn_start cfg w =
     (if channel_capacity cfg = 0 then Panic ''mpsc bounded channel requires buffer > 0''
      else if 2 ^ 61 - 1 < channel_capacity cfg
      then Panic ''a semaphore may not have more than MAX_PERMITS permits''
      else Ok \<lparr>dy_world = w, dy_channel = [], dy_sent = [], dy_started = [],
               dy_workers = replicate (unat (num_workers cfg)) Waiting,
               dy_listener = L_Checking, dy_poller = P_Checking, dy_manager = M_Waiting, dy_shutdown = False\<rparr>)"

definition has_room :: "dynamic_worker_config \<Rightarrow> 't dyn_state \<Rightarrow> bool" where
  "has_room cfg s \<longleftrightarrow> length (dy_channel s) < channel_capacity cfg"

definition send_task :: "dynamic_task \<Rightarrow> 't dyn_state \<Rightarrow> 't dyn_state" where
  "send_task t s = s\<lparr>dy_channel := dy_channel s @ [t], dy_sent := dy_sent s @ [t]\<rparr>"

text \<open>The channel is closed once its three senders are dropped: with the listener, the poller and by the manager.\<close>

definition closed_channel :: "'t dyn_state \<Rightarrow> bool" where
  "closed_channel s \<longleftrightarrow> dy_listener s = L_Done \<and> dy_poller s = P_Done \<and> dy_manager s \<in> {M_Joining_Workers, M_Done}"

subsection \<open>What each task does next\<close>

fun log_next :: "swap_event option \<Rightarrow> listener" where
  "log_next (Some ev) = L_Logging ev"
| "log_next None = L_Listening"

definition on_text :: "(string \<Rightarrow> json option) \<Rightarrow> string \<Rightarrow> listener" where
  "on_text read_json text =
     (case parse_websocket_message read_json text of
        Some (pid, dex) \<Rightarrow> L_Handing \<lparr>dt_pool_id = pid, dt_dex_name = dex\<rparr> (parse_swap_event read_json text)
      | None \<Rightarrow> log_next (parse_swap_event read_json text))"

definition poll_tasks :: "(pool_state list, string) outcome \<Rightarrow> poller" where
  "poll_tasks r =
     (case r of
        Ok ps \<Rightarrow> P_Sending (map (\<lambda>p. \<lparr>dt_pool_id = pool_id p, dt_dex_name = dex_name p\<rparr>) ps)
      | _ \<Rightarrow> P_Sleeping)"

fun busy :: "worker \<Rightarrow> bool" where
  "busy Waiting = False"
| "busy Finished = False"
| "busy Crashed = False"
| "busy _ = True"

definition ended :: "worker \<Rightarrow> bool" where
  "ended x \<longleftrightarrow> x = Finished \<or> x = Crashed"

inductive dyn_step ::
  "(string \<Rightarrow> json option) \<Rightarrow> string \<Rightarrow> dynamic_worker_config \<Rightarrow> 't world_env \<Rightarrow> 't dyn_state \<Rightarrow> 't dyn_state \<Rightarrow> bool"
  for read_json q cfg e where
  Shutdown: "dyn_step read_json q cfg e s (s\<lparr>dy_shutdown := True\<rparr>)"
| Others: "w_lists w' = w_lists (dy_world s) \<Longrightarrow> w_broadcast w' = w_broadcast (dy_world s) \<Longrightarrow>
    dyn_step read_json q cfg e s (s\<lparr>dy_world := w'\<rparr>)"
| Worker_Takes: "i < length (dy_workers s) \<Longrightarrow> dy_workers s ! i = Waiting \<Longrightarrow> dy_channel s = t # ts \<Longrightarrow>
    dyn_step read_json q cfg e s
      (s\<lparr>dy_channel := ts, dy_started := dy_started s @ [t], dy_workers := (dy_workers s)[i := begin_task cfg t]\<rparr>)"
| Worker_Moves: "i < length (dy_workers s) \<Longrightarrow> busy (dy_workers s ! i) \<Longrightarrow>
    worker_step q cfg e (dy_workers s ! i, dy_world s) = (x, w') \<Longrightarrow>
    dyn_step read_json q cfg e s (s\<lparr>dy_world := w', dy_workers := (dy_workers s)[i := x]\<rparr>)"
| Worker_Ends: "i < length (dy_workers s) \<Longrightarrow> dy_workers s ! i = Waiting \<Longrightarrow> dy_channel s = [] \<Longrightarrow> closed_channel s \<Longrightarrow>
    dyn_step read_json q cfg e s (s\<lparr>dy_workers := (dy_workers s)[i := Finished]\<rparr>)"
| L_Check: "dy_listener s = L_Checking \<Longrightarrow>
    dyn_step read_json q cfg e s (s\<lparr>dy_listener := if dy_shutdown s then L_Done else L_Connecting\<rparr>)"
| L_Connect: "dy_listener s = L_Connecting \<Longrightarrow> dyn_step read_json q cfg e s (s\<lparr>dy_listener := L_Listening\<rparr>)"
| L_Connect_Fails: "dy_listener s = L_Connecting \<Longrightarrow> dyn_step read_json q cfg e s (s\<lparr>dy_listener := L_Checking\<rparr>)"
| L_Text: "dy_listener s = L_Listening \<Longrightarrow> dyn_step read_json q cfg e s (s\<lparr>dy_listener := on_text read_json text\<rparr>)"
| L_Lost: "dy_listener s = L_Listening \<Longrightarrow> dyn_step read_json q cfg e s (s\<lparr>dy_listener := L_Checking\<rparr>)"
| L_Stop: "dy_listener s = L_Listening \<Longrightarrow> dy_shutdown s \<Longrightarrow> dyn_step read_json q cfg e s (s\<lparr>dy_listener := L_Done\<rparr>)"
| L_Hand: "dy_listener s = L_Handing t ev \<Longrightarrow> has_room cfg s \<Longrightarrow>
    dyn_step read_json q cfg e s ((send_task t s)\<lparr>dy_listener := log_next ev\<rparr>)"
| L_Log: "dy_listener s = L_Logging ev \<Longrightarrow> act_publish q (SwapEventLog ev) e (dy_world s) = Some (r, w') \<Longrightarrow>
    dyn_step read_json q cfg e s (s\<lparr>dy_world := w', dy_listener := L_Listening\<rparr>)"
| P_Check: "dy_poller s = P_Checking \<Longrightarrow>
    dyn_step read_json q cfg e s (s\<lparr>dy_poller := if dy_shutdown s then P_Done else P_Querying\<rparr>)"
| P_Query: "dy_poller s = P_Querying \<Longrightarrow> db_list_pools e (dy_world s) = Some (ps, w') \<Longrightarrow>
    dyn_step read_json q cfg e s (s\<lparr>dy_world := w', dy_poller := poll_tasks ps\<rparr>)"
| P_Send: "dy_poller s = P_Sending (t # ts) \<Longrightarrow> has_room cfg s \<Longrightarrow>
    dyn_step read_json q cfg e s ((send_task t s)\<lparr>dy_poller := P_Sending ts\<rparr>)"
| P_Sent: "dy_poller s = P_Sending [] \<Longrightarrow> dyn_step read_json q cfg e s (s\<lparr>dy_poller := P_Sleeping\<rparr>)"
| P_Wake: "dy_poller s = P_Sleeping \<Longrightarrow> dyn_step read_json q cfg e s (s\<lparr>dy_poller := P_Checking\<rparr>)"
| P_Stop: "dy_poller s = P_Sleeping \<Longrightarrow> dy_shutdown s \<Longrightarrow> dyn_step read_json q cfg e s (s\<lparr>dy_poller := P_Done\<rparr>)"
| M_Stop: "dy_manager s = M_Waiting \<Longrightarrow> dy_shutdown s \<Longrightarrow> dyn_step read_json q cfg e s (s\<lparr>dy_manager := M_Joining_Listener\<rparr>)"
| M_Listener: "dy_manager s = M_Joining_Listener \<Longrightarrow> dy_listener s = L_Done \<Longrightarrow>
    dyn_step read_json q cfg e s (s\<lparr>dy_manager := M_Joining_Poller\<rparr>)"
| M_Poller: "dy_manager s = M_Joining_Poller \<Longrightarrow> dy_poller s = P_Done \<Longrightarrow>
    dyn_step read_json q cfg e s (s\<lparr>dy_manager := M_Joining_Workers\<rparr>)"
| M_Workers: "dy_manager s = M_Joining_Workers \<Longrightarrow> list_all ended (dy_workers s) \<Longrightarrow>
    dyn_step read_json q cfg e s (s\<lparr>dy_manager := M_Done\<rparr>)"

definition dyn_reach ::
  "(string \<Rightarrow> json option) \<Rightarrow> string \<Rightarrow> dynamic_worker_config \<Rightarrow> 't world_env \<Rightarrow> 't world \<Rightarrow> 't dyn_state \<Rightarrow> bool" where
  "dyn_reach read_json q cfg e w s \<longleftrightarrow>
     (\<exists>s0. dyn_start cfg w = Ok s0 \<and> (dyn_step read_json q cfg e)\<^sup>*\<^sup>* s0 s)"

lemma dyn_reach_induct [consumes 1, case_names start step]:
  assumes "dyn_reach read_json q cfg e w s"
    and "\<And>s0. dyn_start cfg w = Ok s0 \<Longrightarrow> P s0"
    and "\<And>s s'. dyn_reach read_json q cfg e w s \<Longrightarrow> P s \<Longrightarrow> dyn_step read_json q cfg e s s' \<Longrightarrow> P s'"
  shows "P s"
proof -
  obtain s0 where s0: "dyn_start cfg w = Ok s0" "(dyn_step read_json q cfg e)\<^sup>*\<^sup>* s0 s"
    using assms(1) by (auto simp: dyn_reach_def)
  from s0(2) show ?thesis
  proof (induction rule: rtranclp_induct)
    case base
    then show ?case by (rule assms(2) [OF s0(1)])
  next
    case (step s s')
    have "dyn_reach read_json q cfg e w s" using s0(1) step(1) by (auto simp: dyn_reach_def)
    then show ?case by (rule assms(3) [OF _ step(3,2)])
  qed
qed

inductive_cases dyn_stepE: "dyn_step read_json q cfg e s s'"

lemma dyn_start_Ok:
  "dyn_start cfg w = Ok s0 \<Longrightarrow> 0 < channel_capacity cfg \<and> s0 =
     \<lparr>dy_world = w, dy_channel = [], dy_sent = [], dy_started = [], dy_workers = replicate (unat (num_workers cfg)) Waiting,
      dy_listener = L_Checking, dy_poller = P_Checking, dy_manager = M_Waiting, dy_shutdown = False\<rparr>"
  by (simp add: dyn_start_def split: if_splits)

subsection \<open>The channel\<close>

text \<open>First in, first out, never over its capacity; a worker that ended cleanly leaves an empty, closed channel.\<close>

definition channel_inv :: "dynamic_worker_config \<Rightarrow> 't dyn_state \<Rightarrow> bool" where
  "channel_inv cfg s \<longleftrightarrow>
     length (dy_workers s) = unat (num_workers cfg) \<and>
     length (dy_channel s) \<le> channel_capacity cfg \<and>
     dy_started s @ dy_channel s = dy_sent s \<and>
     (Finished \<in> set (dy_workers s) \<longrightarrow> dy_channel s = [] \<and> closed_channel s) \<and>
     (dy_manager s \<in> {M_Joining_Poller, M_Joining_Workers, M_Done} \<longrightarrow> dy_listener s = L_Done) \<and>
     (dy_manager s \<in> {M_Joining_Workers, M_Done} \<longrightarrow> dy_poller s = P_Done) \<and>
     (dy_manager s = M_Done \<longrightarrow> list_all ended (dy_workers s))"

lemma set_list_update_other: "x \<in> set (xs[i := y]) \<Longrightarrow> x \<noteq> y \<Longrightarrow> x \<in> set xs"
  using set_update_subset_insert [of xs i y] by auto

lemma begin_task_not_ended: "begin_task cfg t \<noteq> Finished" "begin_task cfg t \<noteq> Crashed"
  by (simp_all add: begin_task_def split: option.split)

lemma worker_step_not_finished:
  assumes "busy st" "worker_step q cfg e (st, w) = (x, w')"
  shows "x \<noteq> Finished"
  using assms
  by (cases st) (auto simp: worker_step_def act_bind_def act_return_def split: option.splits outcome.splits sum.splits)

lemma ended_not_waiting: "list_all ended xs \<Longrightarrow> i < length xs \<Longrightarrow> \<not> busy (xs ! i) \<and> xs ! i \<noteq> Waiting"
  by (auto simp: list_all_length ended_def)

lemma channel_inv_step:
  assumes "dyn_step read_json q cfg e s s'" "channel_inv cfg s"
  shows "channel_inv cfg s'"
  using assms(1)
proof cases
  case (Worker_Takes i t ts)
  have "\<not> list_all ended (dy_workers s)" using ended_not_waiting [of "dy_workers s" i] Worker_Takes by blast
  moreover have "Finished \<notin> set ((dy_workers s)[i := begin_task cfg t])"
    using assms(2) Worker_Takes begin_task_not_ended(1) [of cfg t] set_list_update_other [of Finished "dy_workers s" i "begin_task cfg t"]
    by (auto simp: channel_inv_def)
  ultimately show ?thesis using assms(2) Worker_Takes by (auto simp: channel_inv_def closed_channel_def)
next
  case (Worker_Moves i x w')
  have "x \<noteq> Finished" by (rule worker_step_not_finished [OF Worker_Moves(3,4)])
  moreover have "\<not> list_all ended (dy_workers s)" using ended_not_waiting [of "dy_workers s" i] Worker_Moves by blast
  ultimately show ?thesis using assms(2) Worker_Moves(1) set_list_update_other [of Finished "dy_workers s" i x]
    by (auto simp: channel_inv_def closed_channel_def)
next
  case (Worker_Ends i)
  have "\<not> list_all ended (dy_workers s)" using ended_not_waiting [of "dy_workers s" i] Worker_Ends by blast
  with Worker_Ends assms(2) show ?thesis by (auto simp: channel_inv_def closed_channel_def)
next
  case (L_Hand t ev)
  then show ?thesis using assms(2) by (auto simp: channel_inv_def closed_channel_def has_room_def send_task_def)
next
  case (P_Send t ts)
  then show ?thesis using assms(2) by (auto simp: channel_inv_def closed_channel_def has_room_def send_task_def)
qed (use assms(2) in \<open>auto simp: channel_inv_def closed_channel_def\<close>)

lemma channel_inv_reach: "dyn_reach read_json q cfg e w s \<Longrightarrow> channel_inv cfg s"
proof (induction rule: dyn_reach_induct)
  case (start s0)
  then show ?case by (auto simp: channel_inv_def closed_channel_def dest!: dyn_start_Ok)
next
  case (step s s')
  then show ?case by (blast intro: channel_inv_step)
qed

subsection \<open>No worker is lost\<close>

text \<open>The client of the node reports its failures as errors, as \<open>Sui_Client\<close> does.\<close>

definition node_errs :: "'t world_env \<Rightarrow> bool" where
  "node_errs e \<longleftrightarrow> (\<forall>n id s. api_get_object (we_api e n) id \<noteq> Panic s)"

lemma parse_no_panic:
  "parse_move_object_response v \<noteq> Panic s" "parse_coin_types ty \<noteq> Panic s" "parse_coin_types_from_pool_type ty \<noteq> Panic s"
  "u128_string_field flds key missing \<noteq> Panic s" "fee_value v \<noteq> Panic s"
  by (auto simp: parse_move_object_response_def parse_coin_types_def parse_coin_types_from_pool_type_def
      parse_top_level_generic_args_def u128_string_field_def fee_value_def Let_def outcome_simps split: option.splits list.splits)

lemma field_no_panic:
  "turbos_fee_rate flds \<noteq> Panic s" "turbos_is_paused flds \<noteq> Panic s" "magma_sqrt_price flds \<noteq> Panic s"
  "magma_fee_rate flds \<noteq> Panic s" "momentum_sqrt_price flds \<noteq> Panic s" "momentum_fee_rate flds \<noteq> Panic s"
  by (auto simp: turbos_fee_rate_def turbos_is_paused_def magma_sqrt_price_def magma_fee_rate_def momentum_sqrt_price_def
      momentum_fee_rate_def parse_no_panic outcome_simps split: option.splits)

lemma fetch_pool_no_panic:
  assumes "\<And>id s. api_get_object api id \<noteq> Panic s"
  shows "fetch_pool c api pid \<noteq> Panic s"
  using assms
  by (cases c) (auto simp: fetch_pool_defs outcome_simps parse_no_panic field_no_panic cetus_parse_json_response_def
      turbos_parse_json_response_def magma_parse_json_response_def momentum_parse_json_response_def
      turbos_parse_coin_types_def magma_parse_coin_types_def momentum_parse_coin_types_def)

lemma set_loop_no_panic: "set_loop fa now label k t ttl 0 kv \<noteq> (Panic s, kv')"
  by (auto simp: set_loop.simps exec_stmt_def split: fault.splits)

lemma act_not_None: "cache_fetched st e w \<noteq> None" "act_publish q m e w \<noteq> None"
  by (auto simp: cache_fetched_def kv_write_def act_publish_def split: prod.splits)

lemma act_no_panic:
  assumes "codecs_ok (we_cache e)" "env_ok (we_queue e)"
  shows "cache_fetched st e w \<noteq> Some (Panic s, w')" "act_publish q m e w \<noteq> Some (Panic s, w')"
proof -
  obtain t where "enc (pool_codec (we_cache e)) st = Ok t" using assms(1) unfolding codecs_ok_def codec_ok_def by blast
  then show "cache_fetched st e w \<noteq> Some (Panic s, w')"
    by (auto simp: cache_fetched_def kv_write_def cache_set_pool_state_def set_as_def set_loop_no_panic split: prod.splits)
  obtain t where "enc (msg_codec (we_queue e)) m = Ok t" using assms(2) unfolding env_ok_def codec_ok_def by blast
  then show "act_publish q m e w \<noteq> Some (Panic s, w')"
    by (auto simp: act_publish_def publish_def rpush_as_def exec_stmt_def split: fault.splits)
qed

text \<open>
  A worker within its bounds: it has not crashed, and its next doubling of the delay fits.  Each of its steps keeps
  it so and brings it nearer to its next task.
\<close>

fun worker_ok :: "dynamic_worker_config \<Rightarrow> worker \<Rightarrow> bool" where
  "worker_ok cfg (Fetching t c a d) \<longleftrightarrow> round_ok cfg a d"
| "worker_ok cfg Crashed \<longleftrightarrow> False"
| "worker_ok cfg _ \<longleftrightarrow> True"

fun worker_size :: "dynamic_worker_config \<Rightarrow> worker \<Rightarrow> nat" where
  "worker_size cfg (Fetching t c a d) = 5 + (unat (max_retries cfg) - unat a)"
| "worker_size cfg (Caching st) = 4"
| "worker_size cfg (Publishing st) = 3"
| "worker_size cfg (Announcing st) = 2"
| "worker_size cfg Waiting = 1"
| "worker_size cfg _ = 0"

definition fair_env :: "dynamic_worker_config \<Rightarrow> 't world_env \<Rightarrow> bool" where
  "fair_env cfg e \<longleftrightarrow> safe_config cfg \<and> env_ok (we_queue e) \<and> codecs_ok (we_cache e) \<and> node_errs e"

lemma last_round: "round_ok cfg a d \<Longrightarrow> max_retries cfg < a + 1 \<longleftrightarrow> a = max_retries cfg"
  using round_ok_next(1) [of cfg a d] unat_next(2) [of a "max_retries cfg"] by (auto simp: round_ok_def)

lemma begin_task_ok:
  "safe_config cfg \<Longrightarrow> worker_ok cfg (begin_task cfg t) \<and> worker_size cfg (begin_task cfg t) < 6 + unat (max_retries cfg)"
  by (simp add: begin_task_def round_ok_start split: option.split)

lemma worker_step_ok:
  assumes "fair_env cfg e" "worker_ok cfg st" "busy st" "worker_step q cfg e (st, w) = (x, w')"
  shows "worker_ok cfg x \<and> worker_size cfg x < worker_size cfg st"
proof (cases st)
  case (Fetching t c a d)
  have ok: "round_ok cfg a d" using assms(2) Fetching by simp
  have np: "answer c (dt_pool_id t) e w 0 \<noteq> Panic s" for s
    using assms(1) fetch_pool_no_panic by (auto simp: fair_env_def node_errs_def answer_def)
  show ?thesis
  proof (cases "answer c (dt_pool_id t) e w 0")
    case (Ok p)
    then show ?thesis using assms(4) Fetching by (auto simp: worker_step_def act_bind_def act_return_def fetch_round_result)
  next
    case (Err err)
    show ?thesis
    proof (cases "a = max_retries cfg")
      case True
      then have "max_retries cfg < a + 1" using last_round [OF ok] by simp
      then show ?thesis using assms(4) Fetching Err by (auto simp: worker_step_def act_bind_def fetch_round_result)
    next
      case False
      note n = round_ok_next [OF ok False]
      have "x = Fetching t c (a + 1) (2 * d)"
        using assms(4) Fetching Err n(1,2) by (simp add: worker_step_def act_bind_def act_return_def fetch_round_result)
      then show ?thesis using n(3,4) Fetching by simp
    qed
  qed (use np in auto)
next
  case (Caching p)
  then show ?thesis using assms act_no_panic(1) [of e p w] act_not_None(1) [of p e w]
    by (auto simp: worker_step_def act_bind_def act_return_def fair_env_def split: option.splits outcome.splits)
next
  case (Publishing p)
  then show ?thesis using assms act_no_panic(2) [of e q "PoolStateUpdate p" w] act_not_None(2) [of q "PoolStateUpdate p" e w]
    by (auto simp: worker_step_def act_bind_def act_return_def fair_env_def split: option.splits outcome.splits)
next
  case (Announcing p)
  then show ?thesis using assms(4) by (auto simp: announce_step)
qed (use assms(3) in auto)

lemma workers_ok_step:
  assumes "dyn_step read_json q cfg e s s'" "fair_env cfg e" "list_all (worker_ok cfg) (dy_workers s)"
  shows "list_all (worker_ok cfg) (dy_workers s')"
  using assms(1)
proof cases
  case (Worker_Takes i t ts)
  then show ?thesis using assms(2,3) begin_task_ok [of cfg t]
    by (simp add: list_all_length nth_list_update fair_env_def)
next
  case (Worker_Moves i x w')
  have "worker_ok cfg x"
    using worker_step_ok [OF assms(2) _ Worker_Moves(3,4)] assms(3) Worker_Moves(2) by (simp add: list_all_length)
  then show ?thesis using Worker_Moves(1,2) assms(3) by (simp add: list_all_length nth_list_update)
next
  case (Worker_Ends i)
  then show ?thesis using assms(3) by (simp add: list_all_length nth_list_update)
qed (use assms(3) in \<open>simp_all add: send_task_def\<close>)

lemma workers_ok_reach:
  assumes "dyn_reach read_json q cfg e w s" "fair_env cfg e"
  shows "list_all (worker_ok cfg) (dy_workers s)"
  using assms(1)
proof (induction rule: dyn_reach_induct)
  case (start s0)
  then show ?case by (auto simp: list_all_length dest!: dyn_start_Ok)
next
  case (step s s')
  then show ?case using workers_ok_step assms(2) by blast
qed

lemma reach_has_workers: "dyn_reach read_json q cfg e w s \<Longrightarrow> 0 < channel_capacity cfg \<and> 0 < length (dy_workers s)"
  using channel_inv_reach [of read_json q cfg e w s]
  by (auto simp: dyn_reach_def channel_inv_def channel_capacity_def unat_gt_0 dest!: dyn_start_Ok)

lemma done_drained:
  assumes "dyn_reach read_json q cfg e w s" "fair_env cfg e" "dy_manager s = M_Done"
  shows "set (dy_workers s) = {Finished}" "dy_channel s = []" "dy_started s = dy_sent s"
proof -
  note inv = channel_inv_reach [OF assms(1), unfolded channel_inv_def]
  have "x = Finished" if x: "x \<in> set (dy_workers s)" for x
  proof -
    have "worker_ok cfg x" using workers_ok_reach [OF assms(1,2)] x by (simp add: list_all_iff)
    moreover have "ended x" using inv assms(3) x by (simp add: list_all_iff)
    ultimately show ?thesis by (auto simp: ended_def)
  qed
  then show all: "set (dy_workers s) = {Finished}" using reach_has_workers [OF assms(1)] by (cases "dy_workers s") auto
  then show "dy_channel s = []" using inv by simp
  with inv show "dy_started s = dy_sent s" by simp
qed

text \<open>
  C29.  In every interleaving the channel delivers the tasks in the order in which the listener and the poller sent them
  and never holds more than its capacity; and when the manager has returned after a shutdown, both producers have
  stopped, every worker has ended without a panic, and every task that was ever sent has been started.
\<close>

theorem shutdown_drains_channel:
  assumes "dyn_reach read_json q cfg e w s" "fair_env cfg e"
  shows "length (dy_channel s) \<le> channel_capacity cfg \<and> dy_started s @ dy_channel s = dy_sent s \<and>
    (dy_manager s = M_Done \<longrightarrow> dy_listener s = L_Done \<and> dy_poller s = P_Done \<and> dy_channel s = [] \<and>
       dy_started s = dy_sent s \<and> set (dy_workers s) = {Finished})"
  using channel_inv_reach [OF assms(1)] done_drained [OF assms] by (simp add: channel_inv_def)

subsection \<open>Nothing is announced that is not stored\<close>

definition queued :: "string \<Rightarrow> 't world_env \<Rightarrow> 't world \<Rightarrow> pool_state \<Rightarrow> bool" where
  "queued q e w p \<longleftrightarrow> Some (PoolStateUpdate p) \<in> set (msgs (we_queue e) (w_lists w) q)"

definition announced_inv :: "string \<Rightarrow> 't world_env \<Rightarrow> 't dyn_state \<Rightarrow> bool" where
  "announced_inv q e s \<longleftrightarrow>
     (\<forall>p \<in> set (w_broadcast (dy_world s)). queued q e (dy_world s) p) \<and>
     (\<forall>p. Announcing p \<in> set (dy_workers s) \<longrightarrow> queued q e (dy_world s) p)"

lemma queued_publish: "env_ok (we_queue e) \<Longrightarrow> act_publish q m e w = Some (r, w') \<Longrightarrow> queued q e w p \<Longrightarrow> queued q e w' p"
  using publish_world(4) [of e q m w r w'] by (auto simp: queued_def)

lemma worker_step_queue:
  assumes "fair_env cfg e" "busy st" "worker_step q cfg e (st, w) = (x, w')"
  shows "queued q e w p \<Longrightarrow> queued q e w' p" "x = Announcing p \<Longrightarrow> queued q e w' p"
    "p \<in> set (w_broadcast w') \<Longrightarrow> p \<in> set (w_broadcast w) \<or> st = Announcing p"
proof -
  have "(queued q e w p \<longrightarrow> queued q e w' p) \<and> (x = Announcing p \<longrightarrow> queued q e w' p) \<and>
    (p \<in> set (w_broadcast w') \<longrightarrow> p \<in> set (w_broadcast w) \<or> st = Announcing p)"
  proof (cases st)
    case (Fetching t c a d)
    then show ?thesis using assms(3)
      by (auto simp: worker_step_def act_bind_def act_return_def fetch_round_result queued_def
          split: outcome.splits sum.splits if_splits)
  next
    case (Caching st)
    obtain r w1 where c: "cache_fetched st e w = Some (r, w1)" using act_not_None(1) [of st e w] by fastforce
    then have "w' = w1" "x \<noteq> Announcing p"
      using assms(3) Caching by (auto simp: worker_step_def act_bind_def act_return_def split: outcome.splits)
    then show ?thesis using cache_fetched_world(1,2) [OF _ c] assms(1) by (simp add: fair_env_def queued_def)
  next
    case (Publishing st)
    obtain r w1 where c: "act_publish q (PoolStateUpdate st) e w = Some (r, w1)"
      using act_not_None(2) [of q "PoolStateUpdate st" e w] by fastforce
    then have x: "w' = w1" "x = Announcing p \<longrightarrow> p = st \<and> r = Ok ()"
      using assms(3) Publishing by (auto simp: worker_step_def act_bind_def act_return_def split: outcome.splits)
    have env: "env_ok (we_queue e)" using assms(1) by (simp add: fair_env_def)
    have "x = Announcing p \<longrightarrow> queued q e w1 p" using publish_world(4) [OF env c] x(2) by (auto simp: queued_def)
    then show ?thesis using queued_publish [OF env c] publish_world(2) [OF env c] x(1) by auto
  next
    case (Announcing st)
    then show ?thesis using assms(3) by (auto simp: announce_step queued_def)
  qed (use assms(2) in auto)
  then show "queued q e w p \<Longrightarrow> queued q e w' p" "x = Announcing p \<Longrightarrow> queued q e w' p"
    "p \<in> set (w_broadcast w') \<Longrightarrow> p \<in> set (w_broadcast w) \<or> st = Announcing p" by blast+
qed

lemma announced_inv_step:
  assumes "dyn_step read_json q cfg e s s'" "fair_env cfg e" "announced_inv q e s"
  shows "announced_inv q e s'"
  using assms(1)
proof cases
  case (Others w')
  then show ?thesis using assms(3) by (simp add: announced_inv_def queued_def)
next
  case (Worker_Takes i t ts)
  have "begin_task cfg t \<noteq> Announcing p" for p by (simp add: begin_task_def split: option.split)
  then have "Announcing p \<in> set (dy_workers s)" if "Announcing p \<in> set ((dy_workers s)[i := begin_task cfg t])" for p
    using set_list_update_other [OF that] by metis
  then show ?thesis using assms(3) Worker_Takes(1) by (simp add: announced_inv_def)
next
  case (Worker_Moves i x w')
  note step = worker_step_queue [OF assms(2) Worker_Moves(3,4)]
  have "queued q e w' p" if "p \<in> set (w_broadcast w')" for p
  proof -
    have "dy_workers s ! i = Announcing p \<Longrightarrow> Announcing p \<in> set (dy_workers s)"
      using nth_mem [OF Worker_Moves(2)] by simp
    then show ?thesis using step(1,3) [of p] that assms(3) by (auto simp: announced_inv_def)
  qed
  moreover have "queued q e w' p" if "Announcing p \<in> set ((dy_workers s)[i := x])" for p
    using step(1,2) [of p] assms(3) set_list_update_other [OF that] by (auto simp: announced_inv_def)
  ultimately show ?thesis using Worker_Moves(1) by (simp add: announced_inv_def)
next
  case (Worker_Ends i)
  have "Announcing p \<in> set (dy_workers s)" if "Announcing p \<in> set ((dy_workers s)[i := Finished])" for p
    using set_list_update_other [OF that] by simp
  then show ?thesis using assms(3) Worker_Ends(1) by (simp add: announced_inv_def)
next
  case (L_Log ev r w')
  have env: "env_ok (we_queue e)" using assms(2) by (simp add: fair_env_def)
  show ?thesis
    using queued_publish [OF env L_Log(3)] publish_world(2) [OF env L_Log(3)] assms(3) L_Log(1) by (simp add: announced_inv_def)
next
  case (P_Query ps w')
  then have "w_lists w' = w_lists (dy_world s)" "w_broadcast w' = w_broadcast (dy_world s)"
    by (auto simp: db_list_pools_def db_read_def)
  then show ?thesis using assms(3) P_Query(1) by (simp add: announced_inv_def queued_def)
qed (use assms(3) in \<open>simp_all add: announced_inv_def send_task_def\<close>)

text \<open>
  C30.  In every interleaving, with any faults of Redis, a pool state that has been broadcast to the WebSocket clients is
  also in the queue of the database writer, which nothing here consumes: no client is told of a state that the
  database never gets.
\<close>

theorem broadcast_states_queued:
  assumes "dyn_reach read_json q cfg e w s" "fair_env cfg e" "w_broadcast w = []"
  shows "\<forall>p \<in> set (w_broadcast (dy_world s)). Some (PoolStateUpdate p) \<in> set (msgs (we_queue e) (w_lists (dy_world s)) q)"
proof -
  from assms(1) have "announced_inv q e s"
  proof (induction rule: dyn_reach_induct)
    case (start s0)
    then show ?case using assms(3) by (auto simp: announced_inv_def dest!: dyn_start_Ok)
  next
    case (step s s')
    then show ?case using announced_inv_step assms(2) by blast
  qed
  then show ?thesis by (simp add: announced_inv_def queued_def)
qed

subsection \<open>A shutdown completes\<close>

text \<open>
  What is left to do once the shutdown flag is set, counted in steps: a task in the channel is worth the steps of its
  processing, a producer the tasks it still has to hand over, and every control point its distance from the end.
\<close>

definition task_cost :: "dynamic_worker_config \<Rightarrow> nat" where
  "task_cost cfg = 6 + unat (max_retries cfg)"

fun listener_size :: "dynamic_worker_config \<Rightarrow> listener \<Rightarrow> nat" where
  "listener_size cfg (L_Handing t ev) = task_cost cfg + 3"
| "listener_size cfg (L_Logging ev) = 2"
| "listener_size cfg L_Connecting = 2"
| "listener_size cfg L_Done = 0"
| "listener_size cfg _ = 1"

fun poller_size :: "dynamic_worker_config \<Rightarrow> poller \<Rightarrow> nat" where
  "poller_size cfg (P_Sending ts) = 2 + length ts * (task_cost cfg + 1)"
| "poller_size cfg P_Done = 0"
| "poller_size cfg _ = 1"

fun manager_size :: "manager \<Rightarrow> nat" where
  "manager_size M_Waiting = 4"
| "manager_size M_Joining_Listener = 3"
| "manager_size M_Joining_Poller = 2"
| "manager_size M_Joining_Workers = 1"
| "manager_size M_Done = 0"

definition left_to_do :: "dynamic_worker_config \<Rightarrow> 't dyn_state \<Rightarrow> nat" where
  "left_to_do cfg s = task_cost cfg * length (dy_channel s) + sum_list (map (worker_size cfg) (dy_workers s)) +
     listener_size cfg (dy_listener s) + poller_size cfg (dy_poller s) + manager_size (dy_manager s)"

lemma worker_sizes_update:
  assumes "i < length xs"
  shows "sum_list (map (worker_size cfg) (xs[i := x])) + worker_size cfg (xs ! i) =
    sum_list (map (worker_size cfg) xs) + worker_size cfg x"
  using assms
proof (induction xs arbitrary: i)
  case (Cons a xs)
  then show ?case by (cases i) auto
qed simp

lemma log_next_size: "listener_size cfg (log_next ev) \<le> 2"
  by (cases ev) simp_all

definition stopping :: "'t dyn_state \<Rightarrow> bool" where
  "stopping s \<longleftrightarrow> dy_shutdown s \<and> dy_poller s \<noteq> P_Querying"

definition nearer :: "dynamic_worker_config \<Rightarrow> 't dyn_state \<Rightarrow> 't dyn_state \<Rightarrow> bool" where
  "nearer cfg s s' \<longleftrightarrow> left_to_do cfg s' < left_to_do cfg s \<and> stopping s'"

lemmas nearer_simps = nearer_def left_to_do_def stopping_def send_task_def

text \<open>The cases of the progress argument: a busy worker, a task in the channel, a producer, and the manager.\<close>

lemma busy_worker_progress:
  assumes "fair_env cfg e" "list_all (worker_ok cfg) (dy_workers s)" "stopping s" "i < length (dy_workers s)" "busy (dy_workers s ! i)"
  shows "\<exists>s'. dyn_step read_json q cfg e s s' \<and> nearer cfg s s'"
proof -
  obtain x w' where x: "worker_step q cfg e (dy_workers s ! i, dy_world s) = (x, w')" by fastforce
  have "worker_ok cfg (dy_workers s ! i)" using assms(2,4) by (simp add: list_all_length)
  then have "worker_size cfg x < worker_size cfg (dy_workers s ! i)" using worker_step_ok [OF assms(1) _ assms(5) x] by simp
  then have "nearer cfg s (s\<lparr>dy_world := w', dy_workers := (dy_workers s)[i := x]\<rparr>)"
    using worker_sizes_update [OF assms(4), of cfg x] assms(3) by (simp add: nearer_simps)
  with dyn_step.Worker_Moves [OF assms(4,5) x] show ?thesis by blast
qed

lemma waiting_task_progress:
  assumes "safe_config cfg" "stopping s" "i < length (dy_workers s)" "dy_workers s ! i = Waiting" "dy_channel s = t # ts"
  shows "\<exists>s'. dyn_step read_json q cfg e s s' \<and> nearer cfg s s'"
proof -
  have "worker_size cfg (begin_task cfg t) < task_cost cfg" using begin_task_ok [OF assms(1)] by (simp add: task_cost_def)
  then have "nearer cfg s (s\<lparr>dy_channel := ts, dy_started := dy_started s @ [t], dy_workers := (dy_workers s)[i := begin_task cfg t]\<rparr>)"
    using worker_sizes_update [OF assms(3), of cfg "begin_task cfg t"] assms(2,4,5) by (simp add: nearer_simps)
  with dyn_step.Worker_Takes [OF assms(3,4,5)] show ?thesis by blast
qed

lemma listener_progress:
  assumes "stopping s" "has_room cfg s" "dy_listener s \<noteq> L_Done"
  shows "\<exists>s'. dyn_step read_json q cfg e s s' \<and> nearer cfg s s'"
proof (cases "dy_listener s")
  case L_Checking
  from dyn_step.L_Check [OF L_Checking] assms(1) show ?thesis
    by (intro exI [of _ "s\<lparr>dy_listener := L_Done\<rparr>"]) (simp add: nearer_simps L_Checking)
next
  case L_Connecting
  from dyn_step.L_Connect_Fails [OF L_Connecting] assms(1) show ?thesis
    by (intro exI [of _ "s\<lparr>dy_listener := L_Checking\<rparr>"]) (simp add: nearer_simps L_Connecting)
next
  case L_Listening
  from dyn_step.L_Stop [OF L_Listening] assms(1) show ?thesis
    by (intro exI [of _ "s\<lparr>dy_listener := L_Done\<rparr>"]) (simp add: nearer_simps L_Listening)
next
  case (L_Handing t ev)
  from dyn_step.L_Hand [OF L_Handing assms(2)] assms(1) log_next_size [of cfg ev] show ?thesis
    by (intro exI [of _ "(send_task t s)\<lparr>dy_listener := log_next ev\<rparr>"]) (simp add: nearer_simps L_Handing)
next
  case (L_Logging ev)
  obtain r w' where p: "act_publish q (SwapEventLog ev) e (dy_world s) = Some (r, w')"
    using act_not_None(2) [of q "SwapEventLog ev" e "dy_world s"] by fastforce
  from dyn_step.L_Log [OF L_Logging p] assms(1) show ?thesis
    by (intro exI [of _ "s\<lparr>dy_world := w', dy_listener := L_Listening\<rparr>"]) (simp add: nearer_simps L_Logging)
qed (use assms(3) in simp)

lemma poller_progress:
  assumes "stopping s" "has_room cfg s" "dy_poller s \<noteq> P_Done"
  shows "\<exists>s'. dyn_step read_json q cfg e s s' \<and> nearer cfg s s'"
proof (cases "dy_poller s")
  case P_Checking
  from dyn_step.P_Check [OF P_Checking] assms(1) show ?thesis
    by (intro exI [of _ "s\<lparr>dy_poller := P_Done\<rparr>"]) (simp add: nearer_simps P_Checking)
next
  case P_Sleeping
  from dyn_step.P_Stop [OF P_Sleeping] assms(1) show ?thesis
    by (intro exI [of _ "s\<lparr>dy_poller := P_Done\<rparr>"]) (simp add: nearer_simps P_Sleeping)
next
  case (P_Sending us)
  show ?thesis
  proof (cases us)
    case Nil
    from dyn_step.P_Sent [OF P_Sending [unfolded Nil]] assms(1) show ?thesis
      by (intro exI [of _ "s\<lparr>dy_poller := P_Sleeping\<rparr>"]) (simp add: nearer_simps P_Sending)
  next
    case (Cons t ts)
    from dyn_step.P_Send [OF P_Sending [unfolded Cons] assms(2)] assms(1) show ?thesis
      by (intro exI [of _ "(send_task t s)\<lparr>dy_poller := P_Sending ts\<rparr>"]) (simp add: nearer_simps P_Sending Cons)
  qed
qed (use assms(1,3) in \<open>simp_all add: stopping_def\<close>)

lemma manager_progress:
  assumes "stopping s" "dy_listener s = L_Done" "dy_poller s = P_Done" "dy_channel s = []" "dy_manager s \<noteq> M_Done"
    "\<forall>i < length (dy_workers s). \<not> busy (dy_workers s ! i)"
  shows "\<exists>s'. dyn_step read_json q cfg e s s' \<and> nearer cfg s s'"
proof (cases "dy_manager s")
  case M_Waiting
  from dyn_step.M_Stop [OF M_Waiting] assms(1) show ?thesis
    by (intro exI [of _ "s\<lparr>dy_manager := M_Joining_Listener\<rparr>"]) (simp add: nearer_simps M_Waiting)
next
  case M_Joining_Listener
  from dyn_step.M_Listener [OF M_Joining_Listener assms(2)] assms(1) show ?thesis
    by (intro exI [of _ "s\<lparr>dy_manager := M_Joining_Poller\<rparr>"]) (simp add: nearer_simps M_Joining_Listener)
next
  case M_Joining_Poller
  from dyn_step.M_Poller [OF M_Joining_Poller assms(3)] assms(1) show ?thesis
    by (intro exI [of _ "s\<lparr>dy_manager := M_Joining_Workers\<rparr>"]) (simp add: nearer_simps M_Joining_Poller)
next
  case M_Joining_Workers
  show ?thesis
  proof (cases "list_all ended (dy_workers s)")
    case True
    from dyn_step.M_Workers [OF M_Joining_Workers True] assms(1) show ?thesis
      by (intro exI [of _ "s\<lparr>dy_manager := M_Done\<rparr>"]) (simp add: nearer_simps M_Joining_Workers)
  next
    case False
    then obtain i where i: "i < length (dy_workers s)" "\<not> ended (dy_workers s ! i)" by (auto simp: list_all_length)
    then have wait: "dy_workers s ! i = Waiting" using assms(6) by (cases "dy_workers s ! i") (auto simp: ended_def)
    have "closed_channel s" using assms(2,3) M_Joining_Workers by (simp add: closed_channel_def)
    from dyn_step.Worker_Ends [OF i(1) wait assms(4) this] worker_sizes_update [OF i(1), of cfg Finished] wait assms(1)
    show ?thesis by (intro exI [of _ "s\<lparr>dy_workers := (dy_workers s)[i := Finished]\<rparr>"]) (simp add: nearer_simps)
  qed
qed (use assms(5) in simp)

lemma shutdown_progress:
  assumes "dyn_reach read_json q cfg e w s" "fair_env cfg e" "stopping s" "dy_manager s \<noteq> M_Done"
  shows "\<exists>s'. dyn_step read_json q cfg e s s' \<and> nearer cfg s s'"
proof (cases "\<exists>i < length (dy_workers s). busy (dy_workers s ! i)")
  case True
  then show ?thesis using busy_worker_progress [OF assms(2) workers_ok_reach [OF assms(1,2)] assms(3)] by blast
next
  case False
  note has = reach_has_workers [OF assms(1)] and inv = channel_inv_reach [OF assms(1)]
  show ?thesis
  proof (cases "dy_channel s")
    case Nil
    then have room: "has_room cfg s" using has by (simp add: has_room_def)
    consider "dy_listener s \<noteq> L_Done" | "dy_poller s \<noteq> P_Done" | "dy_listener s = L_Done" "dy_poller s = P_Done" by blast
    then show ?thesis
    proof cases
      case 1
      then show ?thesis by (rule listener_progress [OF assms(3) room])
    next
      case 2
      then show ?thesis by (rule poller_progress [OF assms(3) room])
    next
      case 3
      show ?thesis by (rule manager_progress [OF assms(3) 3 Nil assms(4)]) (use False in simp)
    qed
  next
    case (Cons t ts)
    let ?x = "dy_workers s ! 0"
    have "?x \<in> set (dy_workers s)" using has by simp
    then have "worker_ok cfg ?x" "?x = Finished \<longrightarrow> dy_channel s = []"
      using inv workers_ok_reach [OF assms(1,2)] unfolding channel_inv_def list_all_iff by metis+
    moreover have "\<not> busy ?x" using False has by blast
    ultimately have "?x = Waiting" using Cons by (cases ?x) auto
    moreover have "safe_config cfg" using assms(2) by (simp add: fair_env_def)
    ultimately show ?thesis using waiting_task_progress [OF _ assms(3) _ _ Cons] has by blast
  qed
qed

lemma dyn_reach_step: "dyn_reach read_json q cfg e w s \<Longrightarrow> dyn_step read_json q cfg e s s' \<Longrightarrow> dyn_reach read_json q cfg e w s'"
  unfolding dyn_reach_def by (blast intro: rtranclp.rtrancl_into_rtrancl)

lemma stopping_completes:
  assumes "dyn_reach read_json q cfg e w s" "fair_env cfg e" "stopping s"
  shows "\<exists>s'. (dyn_step read_json q cfg e)\<^sup>*\<^sup>* s s' \<and> dy_manager s' = M_Done"
  using assms(1,3)
proof (induction "left_to_do cfg s" arbitrary: s rule: less_induct)
  case less
  show ?case
  proof (cases "dy_manager s = M_Done")
    case False
    from shutdown_progress [OF less.prems(1) assms(2) less.prems(2) False] obtain s1
      where s1: "dyn_step read_json q cfg e s s1" "nearer cfg s s1" by blast
    then have "stopping s1" "left_to_do cfg s1 < left_to_do cfg s" by (simp_all add: nearer_def)
    with less.hyps [OF _ dyn_reach_step [OF less.prems(1) s1(1)]] s1(1) show ?thesis
      by (meson converse_rtranclp_into_rtranclp)
  qed blast
qed

text \<open>
  C31.  The manager cannot get stuck: from every reachable state in which a shutdown has been requested there is a
  continuation in which the listener and the poller stop, the workers empty the channel and \<open>run\<close> returns.
\<close>

theorem shutdown_completes:
  assumes "dyn_reach read_json q cfg e w s" "fair_env cfg e" "dy_shutdown s"
  shows "\<exists>s'. (dyn_step read_json q cfg e)\<^sup>*\<^sup>* s s' \<and> dy_manager s' = M_Done \<and> dy_started s' = dy_sent s'"
proof -
  have "\<exists>s1. (dyn_step read_json q cfg e)\<^sup>*\<^sup>* s s1 \<and> stopping s1"
  proof (cases "dy_poller s = P_Querying")
    case True
    obtain r w' where "db_list_pools e (dy_world s) = Some (r, w')" by (simp add: db_list_pools_def db_read_def)
    from dyn_step.P_Query [OF True this] assms(3) show ?thesis
      by (intro exI [of _ "s\<lparr>dy_world := w', dy_poller := poll_tasks r\<rparr>"])
        (auto simp: stopping_def poll_tasks_def split: outcome.split)
  qed (use assms(3) in \<open>auto simp: stopping_def\<close>)
  then obtain s1 where s1: "(dyn_step read_json q cfg e)\<^sup>*\<^sup>* s s1" "stopping s1" by blast
  have "dyn_reach read_json q cfg e w s1" using assms(1) s1(1) by (auto simp: dyn_reach_def)
  from stopping_completes [OF this assms(2) s1(2)] obtain s' where
    s': "(dyn_step read_json q cfg e)\<^sup>*\<^sup>* s1 s'" "dy_manager s' = M_Done" by blast
  then have path: "(dyn_step read_json q cfg e)\<^sup>*\<^sup>* s s'" using s1(1) by simp
  then have reach: "dyn_reach read_json q cfg e w s'" using assms(1) by (auto simp: dyn_reach_def)
  show ?thesis using path s'(2) done_drained(3) [OF reach assms(2) s'(2)] by blast
qed

subsection \<open>Witnesses\<close>

definition pushed_json :: json where
  "pushed_json = JObj [(''params'', JObj [(''result'', JObj [(''type'', JStr ''0x1::cetus::SwapEvent''),
     (''json'', JObj [(''pool_id'', JStr ''0xp'')])])])]"

abbreviation demo_step :: "blob dyn_state \<Rightarrow> blob dyn_state \<Rightarrow> bool" where
  "demo_step \<equiv> dyn_step (\<lambda>_. Some pushed_json) ''q'' demo_cfg live_env"

abbreviation demo_reach :: "blob dyn_state \<Rightarrow> bool" where
  "demo_reach \<equiv> dyn_reach (\<lambda>_. Some pushed_json) ''q'' demo_cfg live_env (world_of empty_db)"

lemma live_fair: "fair_env demo_cfg live_env"
  using blob_ok demo_safe by (simp add: fair_env_def node_errs_def calm_env_def chain_api_def)

lemma demo_pushed: "on_text (\<lambda>_. Some pushed_json) [] = L_Handing demo_task None"
proof -
  have "pushed_dex_name ''0x1::cetus::SwapEvent'' = Some ''Cetus''" by code_simp
  then show ?thesis
    by (simp add: on_text_def parse_websocket_message_def parse_swap_event_def pushed_json_def jstr_def demo_task_def)
qed

text \<open>A run in which the listener connects, receives a swap event and hands the task to the first worker.\<close>

lemma demo_started:
  "\<exists>s. demo_reach s \<and> dy_sent s = [demo_task] \<and> dy_world s = world_of empty_db \<and> 0 < length (dy_workers s) \<and>
     dy_workers s ! 0 = Fetching demo_task CetusCollector 0 200 \<and> dy_poller s = P_Checking"
proof -
  define s0 :: "blob dyn_state" where "s0 = \<lparr>dy_world = world_of empty_db, dy_channel = [], dy_sent = [], dy_started = [],
    dy_workers = replicate 4 Waiting, dy_listener = L_Checking, dy_poller = P_Checking, dy_manager = M_Waiting, dy_shutdown = False\<rparr>"
  have start: "dyn_start demo_cfg (world_of empty_db) = Ok s0"
    by (simp add: dyn_start_def s0_def channel_capacity_def dynamic_worker_config_default_def)
  then have r0: "demo_reach s0" by (auto simp: dyn_reach_def)
  note go = dyn_reach_step
  have r1: "demo_reach (s0\<lparr>dy_listener := L_Connecting\<rparr>)"
    using go [OF r0 dyn_step.L_Check [of s0]] by (simp add: s0_def)
  have r2: "demo_reach (s0\<lparr>dy_listener := L_Listening\<rparr>)" using go [OF r1 dyn_step.L_Connect] by simp
  have r3: "demo_reach (s0\<lparr>dy_listener := L_Handing demo_task None\<rparr>)" using go [OF r2 dyn_step.L_Text [of _ _ _ _ _ "[]"]] demo_pushed by simp
  let ?s4 = "s0\<lparr>dy_channel := [demo_task], dy_sent := [demo_task], dy_listener := L_Listening\<rparr>"
  have r4: "demo_reach ?s4"
    using go [OF r3 dyn_step.L_Hand [of _ demo_task None]]
    by (simp add: has_room_def send_task_def s0_def channel_capacity_def dynamic_worker_config_default_def)
  have r5: "demo_reach (?s4\<lparr>dy_channel := [], dy_started := [demo_task], dy_workers := (dy_workers s0)[0 := begin_task demo_cfg demo_task]\<rparr>)"
    using go [OF r4 dyn_step.Worker_Takes [of 0 _ demo_task "[]"]] by (simp add: s0_def)
  show ?thesis
    by (rule exI, rule conjI, rule r5) (simp add: s0_def begin_task_def demo_collector dynamic_worker_config_default_def)
qed

text \<open>The first worker then fetches the pool, caches it, queues it and announces it.\<close>

definition demo_at :: "worker \<Rightarrow> blob world \<Rightarrow> bool" where
  "demo_at x w \<longleftrightarrow> (\<exists>s. demo_reach s \<and> dy_world s = w \<and> 0 < length (dy_workers s) \<and> dy_workers s ! 0 = x)"

lemma demo_moves:
  assumes "demo_at st w" "busy st" "worker_step ''q'' demo_cfg live_env (st, w) = (x, w')"
  shows "demo_at x w'"
proof -
  obtain s where s: "demo_reach s" "dy_world s = w" "0 < length (dy_workers s)" "dy_workers s ! 0 = st"
    using assms(1) by (auto simp: demo_at_def)
  have r: "demo_reach (s\<lparr>dy_world := w', dy_workers := (dy_workers s)[0 := x]\<rparr>)"
    by (rule dyn_reach_step [OF s(1) dyn_step.Worker_Moves [of 0 s]]) (use s assms(2,3) in simp_all)
  show ?thesis unfolding demo_at_def by (rule exI, rule conjI, rule r) (use s(3) in simp)
qed

lemma demo_announced: "\<exists>s. demo_reach s \<and> w_broadcast (dy_world s) = [demo_pool]"
proof -
  let ?w1 = "ticked 1 (world_of empty_db)"
  have a0: "demo_at (Fetching demo_task CetusCollector 0 200) (world_of empty_db)"
    using demo_started unfolding demo_at_def by blast
  have a1: "demo_at (Caching demo_pool) ?w1"
    by (rule demo_moves [OF a0]) (simp_all add: worker_step_def act_bind_def act_return_def fetch_round_result live_answer)
  obtain r2 w2 where c: "cache_fetched demo_pool live_env ?w1 = Some (r2, w2)"
    using act_not_None(1) [of demo_pool live_env ?w1] by fastforce
  note cw = cache_fetched_world [OF live_calm(2) c]
  have a2: "demo_at (Publishing demo_pool) w2"
    by (rule demo_moves [OF a1]) (use c cw(4) live_calm(4) in \<open>simp_all add: worker_step_def act_bind_def act_return_def\<close>)
  obtain r3 w3 where p: "act_publish ''q'' (PoolStateUpdate demo_pool) live_env w2 = Some (r3, w3)"
    using act_not_None(2) [of "''q''" "PoolStateUpdate demo_pool" live_env w2] by fastforce
  note pw = publish_world [OF live_calm(1) p]
  have a3: "demo_at (Announcing demo_pool) w3"
    by (rule demo_moves [OF a2]) (use p pw(5) live_calm(3) in \<open>simp_all add: worker_step_def act_bind_def act_return_def\<close>)
  have "demo_at Waiting (w3\<lparr>w_broadcast := w_broadcast w3 @ [demo_pool]\<rparr>)"
    by (rule demo_moves [OF a3]) (simp_all add: announce_step)
  moreover have "w_broadcast w3 = []" using pw(2) cw(2) by (simp add: world_of_def)
  ultimately show ?thesis by (auto simp: demo_at_def)
qed

theorem broadcast_states_queued_witness:
  "\<exists>s. demo_reach s \<and> w_broadcast (dy_world s) = [demo_pool] \<and>
     Some (PoolStateUpdate demo_pool) \<in> set (msgs blob_queue (w_lists (dy_world s)) ''q'')"
proof -
  obtain s where s: "demo_reach s" "w_broadcast (dy_world s) = [demo_pool]" using demo_announced by blast
  have "w_broadcast (world_of empty_db) = []" by (simp add: world_of_def)
  from broadcast_states_queued [OF s(1) live_fair this] s(2)
  have "Some (PoolStateUpdate demo_pool) \<in> set (msgs (we_queue live_env) (w_lists (dy_world s)) ''q'')" by simp
  then have "Some (PoolStateUpdate demo_pool) \<in> set (msgs blob_queue (w_lists (dy_world s)) ''q'')" by (simp add: calm_env_def)
  with s show ?thesis by blast
qed

text \<open>From the started task a shutdown is requested.\<close>

lemma demo_stopping: "\<exists>s. demo_reach s \<and> dy_sent s = [demo_task] \<and> stopping s"
proof -
  obtain s where s: "demo_reach s" "dy_sent s = [demo_task]" "dy_poller s = P_Checking" using demo_started by blast
  from dyn_reach_step [OF s(1) dyn_step.Shutdown] have r: "demo_reach (s\<lparr>dy_shutdown := True\<rparr>)" .
  show ?thesis by (rule exI, rule conjI, rule r) (simp add: s stopping_def)
qed

theorem shutdown_drains_channel_witness:
  "\<exists>s. demo_reach s \<and> dy_manager s = M_Done \<and> dy_channel s = [] \<and> set (dy_workers s) = {Finished}"
proof -
  obtain s where s: "demo_reach s" "stopping s" using demo_stopping by blast
  obtain s' where s': "demo_step\<^sup>*\<^sup>* s s'" "dy_manager s' = M_Done" using stopping_completes [OF s(1) live_fair s(2)] by blast
  then have r: "demo_reach s'" using s(1) by (auto simp: dyn_reach_def)
  from shutdown_drains_channel [OF r live_fair] s'(2) have "dy_channel s' = []" "set (dy_workers s') = {Finished}" by simp_all
  with r s'(2) show ?thesis by blast
qed

theorem shutdown_completes_witness:
  "\<exists>s s'. demo_reach s \<and> dy_sent s = [demo_task] \<and> demo_step\<^sup>*\<^sup>* s s' \<and> dy_manager s' = M_Done \<and> dy_started s' = dy_sent s'"
proof -
  obtain s where s: "demo_reach s" "dy_sent s = [demo_task]" "dy_shutdown s" using demo_stopping by (auto simp: stopping_def)
  from shutdown_completes [OF s(1) live_fair s(3)] s(1,2) show ?thesis by blast
qed

end
