(* ===== verification/Daemon.thy ===== *)
theory Daemon
  imports Static_Worker Dynamic_System
begin

text \<open>
  \<open>src/daemon.rs\<close>: the configuration read from the environment, connecting with retries, the seeded tokens, and the start
  of the daemon up to the launch of its workers.

  The environment variables are a function from names to values.  Opening a connection and creating the tables are
  calls of client libraries; their outcome at each attempt is the record \<open>links\<close>.
\<close>

subsection \<open>Configuration\<close>

definition DEFAULT_QUEUE_NAME :: string where
  "DEFAULT_QUEUE_NAME = ''devilray_write_queue''"

record daemon_config =
  pg_url :: string
  redis_url :: string
  clickhouse_url :: "string option"
  rpc_url :: string
  graphql_url :: string
  ws_url :: string
  bind_addr :: string

definition from_env_map :: "(string \<Rightarrow> string option) \<Rightarrow> (daemon_config, string) outcome" where
  "from_env_map get =
     bind_outcome (ok_or (get ''DATABASE_URL'') ''DATABASE_URL required'') (\<lambda>pg.
     bind_outcome (ok_or (get ''REDIS_URL'') ''REDIS_URL required'') (\<lambda>redis.
       Ok \<lparr>pg_url = pg, redis_url = redis,
           clickhouse_url = Option.bind (get ''CLICKHOUSE_URL'') (\<lambda>s. if s \<noteq> [] then Some s else None),
           rpc_url = unwrap_or (get ''RPC_URL'') ''https://fullnode.mainnet.sui.io:443'',
           graphql_url = unwrap_or (get ''GRAPHQL_URL'') ''https://graphql.mainnet.sui.io/graphql'',
           ws_url = unwrap_or (get ''WEBSOCKET_URL'') ''wss://fullnode.mainnet.sui.io:443'',
           bind_addr = unwrap_or (get ''BIND_ADDR'') ''0.0.0.0:3000''\<rparr>))"

definition env_parse_u64 :: "(string \<Rightarrow> string option) \<Rightarrow> string \<Rightarrow> u64 \<Rightarrow> u64" where
  "env_parse_u64 var key dflt = unwrap_or (Option.bind (var key) parse_u64) dflt"

definition env_parse_u32 :: "(string \<Rightarrow> string option) \<Rightarrow> string \<Rightarrow> u32 \<Rightarrow> u32" where
  "env_parse_u32 var key dflt = unwrap_or (Option.bind (var key) parse_u32) dflt"

definition static_worker_config_from_env :: "(string \<Rightarrow> string option) \<Rightarrow> static_worker_config" where
  "static_worker_config_from_env var =
     \<lparr>sw_num_workers = 1,
      scan_interval_secs = env_parse_u64 var ''STATIC_SCAN_INTERVAL_SECS'' 3600,
      discovery_page_size = env_parse_u32 var ''DISCOVERY_PAGE_SIZE'' 50,
      discovery_max_pages_per_scan = env_parse_u32 var ''DISCOVERY_MAX_PAGES'' 100,
      discovery_inter_page_ms = env_parse_u64 var ''DISCOVERY_INTER_PAGE_MS'' 100,
      discovery_hydrate_concurrency = unat (env_parse_u32 var ''DISCOVERY_HYDRATE_CONCURRENCY'' 8),
      reconciliation_every_n_scans = env_parse_u32 var ''RECONCILIATION_EVERY_N_SCANS'' 1\<rparr>"

definition daemon_dynamic_config :: "daemon_config \<Rightarrow> dynamic_worker_config" where
  "daemon_dynamic_config cfg =
     \<lparr>num_workers = 2, poll_interval_ms = 3000, max_retries = 3, retry_backoff_ms = 300,
      websocket_url = ws_url cfg, ws_reconnect_interval_ms = 3000\<rparr>"

subsection \<open>Connecting with retries\<close>

text \<open>
  \<open>connect n\<close> is the outcome of attempt \<open>n\<close>, counted from one.  The result carries the number of attempts made; \<open>left\<close> are
  the attempts that remain.  A panic of \<open>connect\<close> stops the loop.
\<close>

fun connect_attempts :: "(nat \<Rightarrow> ('a, 'e) outcome) \<Rightarrow> nat \<Rightarrow> nat \<Rightarrow> 'e option \<Rightarrow> ('a, 'e) outcome \<times> nat" where
  "connect_attempts connect made 0 last_err =
     ((case last_err of Some err \<Rightarrow> Err err | None \<Rightarrow> Panic ''max_attempts must be >= 1''), made)"
| "connect_attempts connect made (Suc remaining) last_err =
     (case connect (Suc made) of
        Ok value \<Rightarrow> (Ok value, Suc made)
      | Panic s \<Rightarrow> (Panic s, Suc made)
      | Err err \<Rightarrow> connect_attempts connect (Suc made) remaining (Some err))"

definition connect_with_retry :: "(nat \<Rightarrow> ('a, 'e) outcome) \<Rightarrow> u32 \<Rightarrow> ('a, 'e) outcome \<times> nat" where
  "connect_with_retry connect max_att = connect_attempts connect 0 (unat max_att) None"

subsection \<open>The in-memory event log\<close>

type_synonym mock_clickhouse = "swap_event list"

definition mock_insert_swap_event :: "swap_event \<Rightarrow> mock_clickhouse \<Rightarrow> mock_clickhouse" where
  "mock_insert_swap_event ev logs = logs @ [ev]"

definition mock_get_swap_events :: "u64 \<Rightarrow> mock_clickhouse \<Rightarrow> swap_event list" where
  "mock_get_swap_events limit logs = take (unat limit) logs"

subsection \<open>Starting up\<close>

definition sui_token :: token where
  "sui_token = \<lparr>address = ''0x2::sui::SUI'', symbol = ''SUI'', tok_name = ''Sui'', decimals = 9\<rparr>"

definition usdc_token :: token where
  "usdc_token = \<lparr>address = ''0x5d4b302506645c37ff133b98c4b50a5ae14841659738d6d733d59d0d217a93bf::coin::COIN'',
     symbol = ''USDC'', tok_name = ''USDC'', decimals = 6\<rparr>"

definition seed_known_tokens :: "(unit, 't) act" where
  "seed_known_tokens =
     act_bind (db_write (\<lambda>fa now. insert_token (fa 0) sui_token)) (\<lambda>_.
       db_write (\<lambda>fa now. insert_token (fa 0) usdc_token))"

record links =
  pg_connect :: "nat \<Rightarrow> (unit, string) outcome"
  pg_create_tables :: "(unit, string) outcome"
  redis_open :: "nat \<Rightarrow> (unit, string) outcome"
  redis_connect :: "nat \<Rightarrow> (unit, string) outcome"
  clickhouse_setup :: "string \<Rightarrow> nat \<Rightarrow> (unit, string) outcome"

datatype analytics = Clickhouse string | Mock_Clickhouse

definition choose_analytics :: "links \<Rightarrow> daemon_config \<Rightarrow> (analytics, string) outcome" where
  "choose_analytics lk cfg =
     (case clickhouse_url cfg of
        Some url \<Rightarrow> bind_outcome (fst (connect_with_retry (clickhouse_setup lk url) 5)) (\<lambda>_. Ok (Clickhouse url))
      | None \<Rightarrow> Ok Mock_Clickhouse)"

text \<open>
  The wait for the first topology: \<open>ready i\<close> is the flag when it is read in round \<open>i\<close>, \<open>stop i\<close> the shutdown flag after
  the second of that round.  The result is the number of seconds slept.
\<close>

fun wait_topology :: "(nat \<Rightarrow> bool) \<Rightarrow> (nat \<Rightarrow> bool) \<Rightarrow> nat \<Rightarrow> nat \<Rightarrow> nat" where
  "wait_topology ready stop i 0 = i"
| "wait_topology ready stop i (Suc n) =
     (if ready i then i else if stop i then Suc i else wait_topology ready stop (Suc i) n)"

text \<open>\<open>run_daemon\<close> up to the launch of the dynamic workers, with the second listing of the pools.\<close>

definition run_daemon_start ::
  "links \<Rightarrow> (nat \<Rightarrow> bool) \<Rightarrow> (nat \<Rightarrow> bool) \<Rightarrow> daemon_config \<Rightarrow> (analytics \<times> nat, 't) act" where
  "run_daemon_start lk ready stop cfg =
     act_bind (act_lift (fst (connect_with_retry (pg_connect lk) 5))) (\<lambda>_.
     act_bind (act_lift (pg_create_tables lk)) (\<lambda>_.
     act_bind (act_lift (fst (connect_with_retry (redis_open lk) 5))) (\<lambda>_.
     act_bind (act_lift (fst (connect_with_retry (redis_connect lk) 5))) (\<lambda>_.
     act_bind (act_lift (choose_analytics lk cfg)) (\<lambda>an.
     act_bind seed_known_tokens (\<lambda>_.
     act_bind db_list_pools (\<lambda>existing.
     act_bind
       (if existing = [] then act_return (wait_topology ready stop 0 600)
        else act_bind (act_modify (\<lambda>w. w\<lparr>w_ready := True\<rparr>)) (\<lambda>_. act_return 0)) (\<lambda>waited.
     act_bind db_list_pools (\<lambda>_. act_return (an, waited))))))))))"

subsection \<open>Correctness\<close>

lemma connect_attempts_first:
  "k < n \<Longrightarrow> (\<forall>j<k. \<exists>err. connect (made + Suc j) = Err err) \<Longrightarrow> connect (made + Suc k) = Ok v \<Longrightarrow>
   connect_attempts connect made n last_err = (Ok v, made + Suc k)"
proof (induction n arbitrary: made k last_err)
  case (Suc n)
  show ?case
  proof (cases k)
    case (Suc k')
    with Suc.prems(2) obtain err where err: "connect (Suc made) = Err err" by auto
    have "connect_attempts connect (Suc made) n (Some err) = (Ok v, Suc made + Suc k')"
      by (rule Suc.IH) (use Suc.prems Suc in auto)
    then show ?thesis using err Suc by simp
  qed (use Suc.prems in simp)
qed simp

lemma connect_attempts_never:
  "(\<forall>j<n. \<exists>err. connect (made + Suc j) = Err err) \<Longrightarrow> 0 < n \<Longrightarrow>
   \<exists>err. connect (made + n) = Err err \<and> connect_attempts connect made n last_err = (Err err, made + n)"
proof (induction n arbitrary: made last_err)
  case (Suc n)
  from Suc.prems(1) obtain err where err: "connect (Suc made) = Err err" by auto
  show ?case
  proof (cases n)
    case (Suc n')
    have "\<forall>j<n. \<exists>err. connect (Suc made + Suc j) = Err err" using Suc.prems(1) by auto
    from Suc.IH [OF this, of "Some err"] Suc err show ?thesis by simp
  qed (use err in simp)
qed simp

text \<open>
  Connecting returns the first success among the attempts and makes no further one, and otherwise the error of the last
  of exactly \<open>max_attempts\<close> attempts; it panics only when no attempt is allowed at all.
\<close>

lemma connect_with_retry_spec:
  "connect_with_retry connect 0 = (Panic ''max_attempts must be >= 1'', 0)"
  "k < unat m \<Longrightarrow> \<forall>j<k. \<exists>err. connect (Suc j) = Err err \<Longrightarrow> connect (Suc k) = Ok v \<Longrightarrow>
   connect_with_retry connect m = (Ok v, Suc k)"
  "0 < m \<Longrightarrow> \<forall>j<unat m. \<exists>err. connect (Suc j) = Err err \<Longrightarrow>
   \<exists>err. connect (unat m) = Err err \<and> connect_with_retry connect m = (Err err, unat m)"
proof -
  show "connect_with_retry connect 0 = (Panic ''max_attempts must be >= 1'', 0)" by (simp add: connect_with_retry_def)
  show "connect_with_retry connect m = (Ok v, Suc k)"
    if "k < unat m" "\<forall>j<k. \<exists>err. connect (Suc j) = Err err" "connect (Suc k) = Ok v"
    using connect_attempts_first [of k "unat m" connect 0 v None] that by (simp add: connect_with_retry_def)
  show "\<exists>err. connect (unat m) = Err err \<and> connect_with_retry connect m = (Err err, unat m)"
    if "0 < m" "\<forall>j<unat m. \<exists>err. connect (Suc j) = Err err"
    using connect_attempts_never [of "unat m" connect 0 None] that by (simp add: connect_with_retry_def unat_gt_0)
qed

lemma from_env_map_ok: "is_ok (from_env_map get) \<longleftrightarrow> get ''DATABASE_URL'' \<noteq> None \<and> get ''REDIS_URL'' \<noteq> None"
  by (cases "get ''DATABASE_URL''"; cases "get ''REDIS_URL''") (simp_all add: from_env_map_def)

lemma wait_topology_bounded: "i \<le> wait_topology ready stop i n \<and> wait_topology ready stop i n \<le> i + n"
proof (induction n arbitrary: i)
  case (Suc n)
  from Suc.IH [of "Suc i"] show ?case by auto
qed simp

text \<open>The wait ends at once when the flag is raised; what it waits for is not guaranteed after the ten minutes.\<close>

lemma wait_topology_ready:
  "wait_topology ready stop i n < i + n \<Longrightarrow>
   ready (wait_topology ready stop i n) \<or> (i < wait_topology ready stop i n \<and> stop (wait_topology ready stop i n - 1))"
proof (induction n arbitrary: i)
  case (Suc n)
  from Suc.IH [of "Suc i"] Suc.prems show ?case by (auto split: if_splits)
qed simp

lemma token_seeded:
  "db_write (\<lambda>fa now. insert_token (fa 0) t) e w = Some (Ok (), w') \<Longrightarrow>
   token_fits t \<and> w_db w' = put_token t (w_db w) \<and> w_ready w' = w_ready w \<and> w_lists w' = w_lists w \<and> w_kv w' = w_kv w"
  by (auto simp: db_write_def insert_token_def put_token_def exec_stmt_def upsert_token_def too_long_def
      split: prod.splits fault.splits if_splits)

lemma known_tokens_differ: "address sui_token \<noteq> address usdc_token"
  by (simp add: sui_token_def usdc_token_def)

lemma seeded_tokens:
  assumes "seed_known_tokens e w = Some (Ok (), w')"
  shows "look_token (w_db w') (address sui_token) = Some sui_token \<and> look_token (w_db w') (address usdc_token) = Some usdc_token"
proof -
  obtain w1 where w1: "db_write (\<lambda>fa now. insert_token (fa 0) sui_token) e w = Some (Ok (), w1)"
    "db_write (\<lambda>fa now. insert_token (fa 0) usdc_token) e w1 = Some (Ok (), w')"
    using assms by (auto simp: seed_known_tokens_def act_bind_Ok)
  note t = token_seeded [OF w1(1)] token_seeded [OF w1(2)]
  show ?thesis
    using t pg_tokens.look_put [of sui_token "w_db w"] pg_tokens.look_put [of usdc_token "w_db w1"]
      pg_tokens.look_put_other [OF known_tokens_differ, of "w_db w1"] by simp
qed

lemma list_pools_world: "db_list_pools e w = Some (r, w') \<Longrightarrow> w_db w' = w_db w \<and> w_ready w' = w_ready w"
  by (auto simp: db_list_pools_def db_read_def)

lemma connected_within:
  "fst (connect_attempts connect made n last_err) = Ok v \<Longrightarrow> \<exists>k. made < k \<and> k \<le> made + n \<and> connect k = Ok v"
proof (induction n arbitrary: made last_err)
  case (Suc n)
  show ?case
  proof (cases "connect (Suc made)")
    case (Err err)
    with Suc.prems have "fst (connect_attempts connect (Suc made) n (Some err)) = Ok v" by simp
    from Suc.IH [OF this] obtain k where "Suc made < k" "k \<le> Suc made + n" "connect k = Ok v" by blast
    then show ?thesis by (intro exI [of _ k]) simp
  qed (use Suc.prems in auto)
qed (auto split: option.splits)

lemma connected_in_five: "fst (connect_with_retry connect 5) = Ok u \<Longrightarrow> \<exists>k\<le>5. 0 < k \<and> connect k = Ok ()"
  using connected_within [of connect 0 5 None u] by (auto simp: connect_with_retry_def)

lemma wait_topology_unready: "j < wait_topology ready stop i n \<Longrightarrow> i \<le> j \<Longrightarrow> \<not> ready j"
proof (induction n arbitrary: i)
  case (Suc n)
  show ?case
  proof (cases "j = i")
    case False
    with Suc.prems Suc.IH [of "Suc i"] show ?thesis by (auto split: if_splits)
  qed (use Suc.prems in \<open>auto split: if_splits\<close>)
qed simp

lemma daemon_start_returns: "returns e (run_daemon_start lk ready stop cfg)"
  by (auto simp: run_daemon_start_def seed_known_tokens_def intro!: returns_rules)

lemma choose_analytics_mock: "choose_analytics lk cfg = Ok an \<Longrightarrow> an = Mock_Clickhouse \<longleftrightarrow> clickhouse_url cfg = None"
  by (auto simp: choose_analytics_def outcome_simps split: option.splits)

lemma daemon_started:
  assumes "run_daemon_start lk ready stop cfg e w = Some (Ok (an, waited), w')"
  shows "\<forall>connect \<in> {pg_connect lk, redis_open lk, redis_connect lk}. \<exists>k\<le>5. 0 < k \<and> connect k = Ok ()"
    "an = Mock_Clickhouse \<longleftrightarrow> clickhouse_url cfg = None"
    "look_token (w_db w') (address sui_token) = Some sui_token \<and> look_token (w_db w') (address usdc_token) = Some usdc_token"
    "waited \<le> 600 \<and> (\<forall>i<waited. \<not> ready i)"
proof -
  obtain w1 w2 w3 existing ps where steps:
    "fst (connect_with_retry (pg_connect lk) 5) = Ok ()" "fst (connect_with_retry (redis_open lk) 5) = Ok ()"
    "fst (connect_with_retry (redis_connect lk) 5) = Ok ()" "choose_analytics lk cfg = Ok an"
    "seed_known_tokens e w = Some (Ok (), w1)" "db_list_pools e w1 = Some (Ok existing, w2)"
    "(if existing = [] then act_return (wait_topology ready stop 0 600)
      else act_bind (act_modify (\<lambda>w. w\<lparr>w_ready := True\<rparr>)) (\<lambda>_. act_return 0)) e w2 = Some (Ok waited, w3)"
    "db_list_pools e w3 = Some (Ok ps, w')"
    using assms by (auto simp: run_daemon_start_def act_bind_Ok act_lift_def act_return_def simp del: if_split_asm)
  show "\<forall>connect \<in> {pg_connect lk, redis_open lk, redis_connect lk}. \<exists>k\<le>5. 0 < k \<and> connect k = Ok ()"
    using connected_in_five steps(1-3) by auto
  show "an = Mock_Clickhouse \<longleftrightarrow> clickhouse_url cfg = None" by (rule choose_analytics_mock [OF steps(4)])
  have "w_db w3 = w_db w2" using steps(7) by (auto simp: act_simps split: if_splits)
  then have "w_db w' = w_db w1" using list_pools_world [OF steps(6)] list_pools_world [OF steps(8)] by simp
  then show "look_token (w_db w') (address sui_token) = Some sui_token \<and> look_token (w_db w') (address usdc_token) = Some usdc_token"
    using seeded_tokens [OF steps(5)] by simp
  have "waited = 0 \<or> waited = wait_topology ready stop 0 600" using steps(7) by (auto simp: act_simps split: if_splits)
  then show "waited \<le> 600 \<and> (\<forall>i<waited. \<not> ready i)"
    using wait_topology_bounded [of 0 ready stop 600] wait_topology_unready [of _ ready stop 0 600] by auto
qed

text \<open>
  C33.  Starting the daemon returns, and when it succeeds PostgreSQL and both Redis connections were made within five
  attempts, the swap log goes to ClickHouse exactly when a URL is configured, SUI and USDC are readable from the token
  table, and at most ten minutes were spent waiting, all of them before the topology was ready.
\<close>

theorem daemon_start_sound:
  "\<exists>r w'. run_daemon_start lk ready stop cfg e w = Some (r, w') \<and>
    (\<forall>an waited. r = Ok (an, waited) \<longrightarrow>
       (\<forall>connect \<in> {pg_connect lk, redis_open lk, redis_connect lk}. \<exists>k\<le>5. 0 < k \<and> connect k = Ok ()) \<and>
       (an = Mock_Clickhouse \<longleftrightarrow> clickhouse_url cfg = None) \<and>
       look_token (w_db w') (address sui_token) = Some sui_token \<and>
       look_token (w_db w') (address usdc_token) = Some usdc_token \<and>
       waited \<le> 600 \<and> (\<forall>i<waited. \<not> ready i))"
proof -
  obtain r w' where run: "run_daemon_start lk ready stop cfg e w = Some (r, w')"
    using daemon_start_returns [of e lk ready stop cfg] unfolding returns_def by fastforce
  have "(\<forall>connect \<in> {pg_connect lk, redis_open lk, redis_connect lk}. \<exists>k\<le>5. 0 < k \<and> connect k = Ok ()) \<and>
       (an = Mock_Clickhouse \<longleftrightarrow> clickhouse_url cfg = None) \<and>
       look_token (w_db w') (address sui_token) = Some sui_token \<and>
       look_token (w_db w') (address usdc_token) = Some usdc_token \<and>
       waited \<le> 600 \<and> (\<forall>i<waited. \<not> ready i)" if "r = Ok (an, waited)" for an waited
    using daemon_started [OF run [unfolded that]] by simp
  with run show ?thesis by blast
qed

text \<open>The daemon's own configuration of the dynamic worker meets the conditions under which its shutdown completes.\<close>

lemma daemon_dynamic_safe:
  "safe_config (daemon_dynamic_config cfg)" "is_ok (dyn_start (daemon_dynamic_config cfg) w)"
  by (simp_all add: safe_config_def daemon_dynamic_config_def duration_bound_def dyn_start_def channel_capacity_def)

subsection \<open>Witness\<close>

definition good_links :: links where
  "good_links = \<lparr>pg_connect = (\<lambda>_. Ok ()), pg_create_tables = Ok (), redis_open = (\<lambda>_. Ok ()), redis_connect = (\<lambda>_. Ok ()),
     clickhouse_setup = (\<lambda>_ _. Ok ())\<rparr>"

definition local_config :: daemon_config where
  "local_config = \<lparr>pg_url = ''p'', redis_url = ''r'', clickhouse_url = None, rpc_url = [], graphql_url = [], ws_url = [], bind_addr = []\<rparr>"

lemma demo_seed: "\<exists>w'. seed_known_tokens dead_env (world_of empty_db) = Some (Ok (), w') \<and> pools_t (w_db w') = pools_t empty_db"
proof -
  have "token_fits sui_token" "token_fits usdc_token" by code_simp+
  then show ?thesis
    by (simp add: seed_known_tokens_def act_bind_def db_write_def insert_token_def exec_stmt_def upsert_token_def too_long_def
        calm_env_def world_of_def)
qed

theorem daemon_start_sound_witness:
  "\<exists>w'. run_daemon_start good_links (\<lambda>_. True) (\<lambda>_. False) local_config dead_env (world_of empty_db) =
       Some (Ok (Mock_Clickhouse, 0), w') \<and> look_token (w_db w') (address sui_token) = Some sui_token"
proof -
  obtain w1 where w1: "seed_known_tokens dead_env (world_of empty_db) = Some (Ok (), w1)" using demo_seed by blast
  have five: "connect_with_retry (\<lambda>_. Ok ()) 5 = (Ok (), 1)" 
    using connect_with_retry_spec(2) [of 0 5 "\<lambda>_. Ok ()" "()"] by simp
  have now: "wait_topology (\<lambda>_. True) (\<lambda>_. False) 0 600 = 0"
    using wait_topology.simps(2) [of "\<lambda>_. True" "\<lambda>_. False" 0 599] by simp
  have pools: "db_list_pools dead_env w = Some (Ok [], w\<lparr>w_clock := Suc (w_clock w)\<rparr>)" for w
    by (simp add: db_list_pools_def db_read_def list_pools_def calm_env_def)
  obtain w' where run: "run_daemon_start good_links (\<lambda>_. True) (\<lambda>_. False) local_config dead_env (world_of empty_db) =
      Some (Ok (Mock_Clickhouse, 0), w')"
    by (simp add: run_daemon_start_def act_bind_def act_lift_def good_links_def five choose_analytics_def local_config_def w1 pools
        act_return_def now)
  from daemon_start_sound [of good_links "\<lambda>_. True" "\<lambda>_. False" local_config dead_env "world_of empty_db"] run show ?thesis by simp
qed

end
