(* ===== verification/Replay_Tool.thy ===== *)
theory Replay_Tool
  imports Daemon
begin

text \<open>
  The operator's tool \<open>src/bin/replay_dlq.rs\<close>: it moves dead letters back to the write queue and prints the depth of the
  dead-letter queue before and after.  \<open>open_client\<close> stands for opening the Redis client and connecting to it; the faults
  of the two \<open>LLEN\<close> commands and of the replay are arguments.
\<close>

definition replay_limit :: "string list \<Rightarrow> nat" where
  "replay_limit args = (if 1 < length args then unat (unwrap_or (parse_u64 (args ! 1)) 100) else 100)"

definition replay_queue_name :: "string list \<Rightarrow> string" where
  "replay_queue_name args = (if 2 < length args then args ! 2 else DEFAULT_QUEUE_NAME)"

definition depth_line :: "string \<Rightarrow> string \<Rightarrow> nat \<Rightarrow> string" where
  "depth_line dlq moment n = ''DLQ `'' @ dlq @ ''` depth '' @ moment @ '' replay: '' @ show_nat n"

definition replayed_line :: "string \<Rightarrow> nat \<Rightarrow> string" where
  "replayed_line q n = ''Replayed '' @ show_nat n @ '' message(s) to `'' @ q @ ''`.''"

text \<open>The result, the lines printed to standard output, and the lists.\<close>

definition replay_main ::
  "'t queue_env \<Rightarrow> (string \<Rightarrow> string option) \<Rightarrow> (string \<Rightarrow> (unit, string) outcome) \<Rightarrow>
   fault \<Rightarrow> (nat \<Rightarrow> fault \<times> fault) \<Rightarrow> fault \<Rightarrow> string list \<Rightarrow> 't redis_lists \<Rightarrow>
   (unit, string) outcome \<times> string list \<times> 't redis_lists" where
  "replay_main env var open_client fb fa fe args ls =
     (let limit = replay_limit args; queue_name = replay_queue_name args; dlq = queue_name @ ''_dlq''
      in case var ''REDIS_URL'' of
           None \<Rightarrow> (Err ''Error: REDIS_URL environment variable is required.'', [], ls)
         | Some url \<Rightarrow>
             (case open_client url of
                Err e \<Rightarrow> (Err e, [], ls)
              | Panic m \<Rightarrow> (Panic m, [], ls)
              | Ok _ \<Rightarrow>
                  (case dlq_len fb dlq ls of
                     Err e \<Rightarrow> (Err e, [], ls)
                   | Panic m \<Rightarrow> (Panic m, [], ls)
                   | Ok before \<Rightarrow>
                       (let out = [depth_line dlq ''before'' before]
                        in case replay_dlq env fa queue_name dlq limit ls of
                             (Err e, ls') \<Rightarrow> (Err e, out, ls')
                           | (Panic m, ls') \<Rightarrow> (Panic m, out, ls')
                           | (Ok moved, ls') \<Rightarrow>
                               (case dlq_len fe dlq ls' of
                                  Err e \<Rightarrow> (Err e, out, ls')
                                | Panic m \<Rightarrow> (Panic m, out, ls')
                                | Ok after \<Rightarrow>
                                    (Ok (), out @ [replayed_line queue_name moved, depth_line dlq ''after'' after], ls'))))))"

lemma replayed_nothing: "replayed env q d 0 0 ls ls"
  by (simp add: replayed_def)

lemma contents_length: "length (dlq_contents env ls d) = length (ls d)"
  by (simp add: dlq_contents_def list_view_def)

lemma dlq_len_Ok: "dlq_len fa d ls = Ok n \<Longrightarrow> n = length (ls d)"
  by (auto simp: dlq_len_def read_stmt_def outcome_simps split: fault.splits)

text \<open>A replay that succeeds takes as many entries as there are, up to the limit.\<close>

lemma replay_succeeds:
  assumes "env_ok env" "q \<noteq> d" "replay_dlq env fa q d limit ls = (Ok n, ls')"
  shows "n = min limit (length (ls d))" "replayed env q d n 0 ls ls'" "length (ls' d) = length (ls d) - n"
proof -
  obtain k where k: "k \<le> limit" "replayed env q d k 0 ls ls'" "n = k" "k < limit \<longrightarrow> dlq_contents env ls' d = []"
    using replay_loop_spec [OF assms(1,2) assms(3) [unfolded replay_dlq_def]] by auto
  have "k \<le> length (ls d)" "length (ls' d) = length (ls d) - k"
    using k(2) unfolding replayed_def contents_length [of env, symmetric] by auto
  moreover have "k < limit \<longrightarrow> length (ls' d) = 0"
    using k(4) contents_length [of env ls' d] by auto
  ultimately show "n = min limit (length (ls d))" "length (ls' d) = length (ls d) - n" using k(1,3) by linarith+
  show "replayed env q d n 0 ls ls'" using k by simp
qed

lemma replay_returns:
  assumes "env_ok env" "q \<noteq> d" "replay_dlq env fa q d limit ls = (r, ls')"
  shows "\<exists>k l. k \<le> limit \<and> l \<le> 1 \<and> replayed env q d k l ls ls'"
  using replay_loop_spec [OF assms(1,2) assms(3) [unfolded replay_dlq_def]] by blast

lemma replay_main_cases:
  assumes "replay_main env var open_client fb fa fe args ls = (r, out, ls')"
  obtains (early) "ls' = ls" "r \<noteq> Ok ()"
  | (replay) o1 where "replay_dlq env fa (replay_queue_name args) (replay_queue_name args @ ''_dlq'') (replay_limit args) ls = (o1, ls')"
      "r \<noteq> Ok ()"
  | (full) n b a where "replay_dlq env fa (replay_queue_name args) (replay_queue_name args @ ''_dlq'') (replay_limit args) ls = (Ok n, ls')"
      "dlq_len fb (replay_queue_name args @ ''_dlq'') ls = Ok b" "dlq_len fe (replay_queue_name args @ ''_dlq'') ls' = Ok a"
      "out = [depth_line (replay_queue_name args @ ''_dlq'') ''before'' b, replayed_line (replay_queue_name args) n,
              depth_line (replay_queue_name args @ ''_dlq'') ''after'' a]"
proof (cases "var ''REDIS_URL''")
  case None
  then show thesis using assms early by (auto simp: replay_main_def)
next
  case (Some url)
  define q where "q = replay_queue_name args"
  define d where "d = q @ ''_dlq''"
  obtain o1 ls1 where rep: "replay_dlq env fa q d (replay_limit args) ls = (o1, ls1)" by fastforce
  obtain oc ob oa where "open_client url = oc" "dlq_len fb d ls = ob" "dlq_len fe d ls1 = oa" by blast
  note run = assms [symmetric, unfolded replay_main_def Let_def q_def [symmetric] d_def [symmetric]] Some rep this
  note targets = early replay [unfolded q_def [symmetric] d_def [symmetric]] full [unfolded q_def [symmetric] d_def [symmetric]]
  show thesis
    by (cases oc; cases ob; cases o1; cases oa) (use run targets in simp_all)
qed

text \<open>
  C34.  The replay tool works between the two lists of the writer of the same queue name.  However it ends, it has moved a
  prefix of the dead letters in order to the tail of the write queue, kept the others, and lost at most one.  When it
  ends well nothing is lost, as many entries moved as there were up to the limit, and the printed figures are the depth
  before, the number moved and their difference.
\<close>

theorem replay_tool_sound:
  assumes "env_ok env" "w = writer_new (replay_queue_name args)"
    and "replay_main env var open_client fb fa fe args ls = (r, out, ls')"
  shows "\<exists>k l. k \<le> replay_limit args \<and> l \<le> 1 \<and> replayed env (dw_queue_name w) (dlq_name w) k l ls ls' \<and>
    (r = Ok () \<longrightarrow> l = 0 \<and> k = min (replay_limit args) (length (ls (dlq_name w))) \<and>
       out = [depth_line (dlq_name w) ''before'' (length (ls (dlq_name w))), replayed_line (dw_queue_name w) k,
              depth_line (dlq_name w) ''after'' (length (ls (dlq_name w)) - k)])"
proof -
  let ?q = "dw_queue_name w" and ?d = "dlq_name w"
  have w: "?q = replay_queue_name args" "?d = replay_queue_name args @ ''_dlq''" by (simp_all add: assms(2) writer_new_def)
  have ne: "?q \<noteq> ?d" by (simp add: w)
  from assms(3) consider (early) "ls' = ls" "r \<noteq> Ok ()"
    | (replay) o1 where "replay_dlq env fa ?q ?d (replay_limit args) ls = (o1, ls')" "r \<noteq> Ok ()"
    | (full) n b a where "replay_dlq env fa ?q ?d (replay_limit args) ls = (Ok n, ls')"
        "dlq_len fb ?d ls = Ok b" "dlq_len fe ?d ls' = Ok a"
        "out = [depth_line ?d ''before'' b, replayed_line ?q n, depth_line ?d ''after'' a]"
    unfolding w by (rule replay_main_cases)
  then show ?thesis
  proof cases
    case early
    then show ?thesis using replayed_nothing by (intro exI [of _ 0]) simp
  next
    case replay
    then show ?thesis using replay_returns [OF assms(1) ne] by blast
  next
    case full
    note moved = replay_succeeds [OF assms(1) ne full(1)]
    show ?thesis
      using moved dlq_len_Ok [OF full(2)] dlq_len_Ok [OF full(3)] full(4)
      by (intro exI [of _ n] exI [of _ 0]) simp
  qed
qed

theorem replay_tool_sound_witness:
  "\<exists>r out ls'. replay_main plain_env (\<lambda>_. Some ''redis://localhost'') (\<lambda>_. Ok ()) NoFault (\<lambda>_. (NoFault, NoFault)) NoFault
      [''replay_dlq'', ''5'', ''q''] ((\<lambda>_. [])(''q_dlq'' := [Inr demo_entry])) = (r, out, ls') \<and>
    (\<exists>k l. k \<le> 5 \<and> l \<le> 1 \<and> replayed plain_env ''q'' ''q_dlq'' k l ((\<lambda>_. [])(''q_dlq'' := [Inr demo_entry])) ls' \<and>
      (r = Ok () \<longrightarrow> l = 0 \<and> k = 1 \<and>
         out = [depth_line ''q_dlq'' ''before'' 1, replayed_line ''q'' 1, depth_line ''q_dlq'' ''after'' 0]))"
proof -
  let ?ls = "(\<lambda>_. [])(''q_dlq'' := [Inr demo_entry])" and ?args = "[''replay_dlq'', ''5'', ''q'']"
  obtain r out ls' where run: "replay_main plain_env (\<lambda>_. Some ''redis://localhost'') (\<lambda>_. Ok ()) NoFault (\<lambda>_. (NoFault, NoFault)) NoFault
      ?args ?ls = (r, out, ls')"
    by (metis prod.collapse)
  have lim: "replay_limit ?args = 5"
    by (simp add: replay_limit_def parse_u64_def parse_unsigned_def digit_of_def unwrap_or_def)
  have wr: "dw_queue_name (writer_new (replay_queue_name ?args)) = ''q''" "dlq_name (writer_new (replay_queue_name ?args)) = ''q_dlq''"
    by (simp_all add: writer_new_def replay_queue_name_def)
  have depth: "length (?ls ''q_dlq'') = 1" by simp
  from replay_tool_sound [OF plain_env_ok refl run] obtain k l where
    kl: "k \<le> 5" "l \<le> 1" "replayed plain_env ''q'' ''q_dlq'' k l ?ls ls'"
    and fine: "r = Ok () \<longrightarrow> l = 0 \<and> k = 1 \<and>
       out = [depth_line ''q_dlq'' ''before'' 1, replayed_line ''q'' k, depth_line ''q_dlq'' ''after'' (1 - k)]"
    unfolding lim wr depth by auto
  show ?thesis
    using kl fine run by (intro exI [of _ r] exI [of _ out] exI [of _ ls'] conjI exI [of _ k] exI [of _ l]) auto
qed

end
