(* ===== verification/Bellman_Ford.thy ===== *)
theory Bellman_Ford
  imports Router_Dijkstra
begin

text \<open>
  \<open>find_shortest_path_bellman_ford\<close> of \<open>src/router.rs\<close>: rounds of relaxation over all tokens, the test for a negative
  cycle, and the walk back along the parent links.

  Distances are 64-bit signed integers, an edge weighs its fee rate cast to \<open>i64\<close>, and the sum wraps.  The set of
  tokens is a \<open>HashSet\<close>, whose iteration order is the argument \<open>order\<close>: it enumerates the tokens of the graph and does
  not change, since the set does not.
\<close>

subsection \<open>The search\<close>

definition wrap_i64 :: "int \<Rightarrow> int" where
  "wrap_i64 x = (x + 2 ^ 63) mod 2 ^ 64 - 2 ^ 63"

record bf_state =
  bf_dists :: "string \<rightharpoonup> int"
  bf_parent :: "string \<rightharpoonup> (string \<times> edge)"

definition bf_edge :: "string \<Rightarrow> int \<Rightarrow> string \<times> edge \<Rightarrow> bf_state \<times> bool \<Rightarrow> bf_state \<times> bool" where
  "bf_edge u u_dist ne sr =
     (let st = fst sr; v = fst ne;
          new_dist = wrap_i64 (u_dist + sint (e_fee_rate (snd ne)));
          should_update = (case bf_dists st v of Some d \<Rightarrow> new_dist < d | None \<Rightarrow> True)
      in if should_update then
           (st\<lparr>bf_dists := (bf_dists st)(v \<mapsto> new_dist), bf_parent := (bf_parent st)(v \<mapsto> (u, snd ne))\<rparr>, True)
         else sr)"

definition bf_token :: "token_graph \<Rightarrow> string \<Rightarrow> bf_state \<times> bool \<Rightarrow> bf_state \<times> bool" where
  "bf_token g u sr =
     (case bf_dists (fst sr) u of
        None \<Rightarrow> sr
      | Some u_dist \<Rightarrow>
          (case adjacency_list g u of None \<Rightarrow> sr | Some edges \<Rightarrow> fold (bf_edge u u_dist) edges sr))"

fun bf_rounds :: "token_graph \<Rightarrow> string list \<Rightarrow> nat \<Rightarrow> bf_state \<Rightarrow> bf_state" where
  "bf_rounds g order 0 st = st"
| "bf_rounds g order (Suc n) st =
     (let sr = fold (bf_token g) order (st, False)
      in if snd sr then bf_rounds g order n (fst sr) else fst sr)"

definition bf_negative_cycle :: "token_graph \<Rightarrow> string list \<Rightarrow> bf_state \<Rightarrow> bool" where
  "bf_negative_cycle g order st \<longleftrightarrow>
     list_ex (\<lambda>u. case bf_dists st u of
        None \<Rightarrow> False
      | Some u_dist \<Rightarrow>
          (case adjacency_list g u of
             None \<Rightarrow> False
           | Some edges \<Rightarrow>
               list_ex (\<lambda>ne. wrap_i64 (u_dist + sint (e_fee_rate (snd ne))) <
                 (case bf_dists st (fst ne) of Some d \<Rightarrow> d | None \<Rightarrow> 2 ^ 63 - 1)) edges)) order"

partial_function (option) bf_walk ::
  "(string \<rightharpoonup> (string \<times> edge)) \<Rightarrow> string set \<Rightarrow> string \<Rightarrow> swap_hop list \<Rightarrow> swap_hop list option" where
  "bf_walk par seen cur acc =
     (case par cur of
        None \<Rightarrow> Some acc
      | Some pe \<Rightarrow>
          if cur \<in> seen then Some acc
          else bf_walk par (insert cur seen) (fst pe) (mk_hop (fst pe) (cur, snd pe) # acc))"

declare bf_walk.simps [code]

definition bf_init :: "string \<Rightarrow> bf_state" where
  "bf_init from = \<lparr>bf_dists = [from \<mapsto> 0], bf_parent = Map.empty\<rparr>"

text \<open>The outer \<open>option\<close> is non-termination of the walk, the inner one the result of the source.\<close>

definition find_shortest_path_bellman_ford ::
  "string list \<Rightarrow> token_graph \<Rightarrow> string \<Rightarrow> string \<Rightarrow> (route_path \<times> bool) option option" where
  "find_shortest_path_bellman_ford order g from to =
     (let st = bf_rounds g order (length order - 1) (bf_init from);
          has_negative_cycle = bf_negative_cycle g order st
      in if bf_dists st to \<noteq> None then
           (case bf_walk (bf_parent st) {} to [] of
              None \<Rightarrow> None
            | Some hs \<Rightarrow> Some (Some (\<lparr>hops = hs\<rparr>, has_negative_cycle)))
         else Some None)"

definition graph_tokens :: "token_graph \<Rightarrow> string set" where
  "graph_tokens g = dom (adjacency_list g) \<union> (\<Union>t. fst ` set (out_edges g t))"

lemma bf_token_edges:
  "bf_token g u sr = (case bf_dists (fst sr) u of None \<Rightarrow> sr | Some d \<Rightarrow> fold (bf_edge u d) (out_edges g u) sr)"
  by (simp add: bf_token_def out_edges_def split: option.split)

lemma bf_negative_cycle_edges:
  "bf_negative_cycle g order st \<longleftrightarrow>
     (\<exists>u \<in> set order. \<exists>d. bf_dists st u = Some d \<and> (\<exists>ne \<in> set (out_edges g u).
        wrap_i64 (d + sint (e_fee_rate (snd ne))) < (case bf_dists st (fst ne) of Some d \<Rightarrow> d | None \<Rightarrow> 2 ^ 63 - 1)))"
  unfolding bf_negative_cycle_def list_ex_iff [of _ order]
proof (rule bex_cong [OF refl])
  fix u
  show "(case bf_dists st u of None \<Rightarrow> False | Some u_dist \<Rightarrow>
          (case adjacency_list g u of None \<Rightarrow> False | Some edges \<Rightarrow>
             list_ex (\<lambda>ne. wrap_i64 (u_dist + sint (e_fee_rate (snd ne))) <
               (case bf_dists st (fst ne) of Some d \<Rightarrow> d | None \<Rightarrow> 2 ^ 63 - 1)) edges)) \<longleftrightarrow>
     (\<exists>d. bf_dists st u = Some d \<and> (\<exists>ne \<in> set (out_edges g u).
        wrap_i64 (d + sint (e_fee_rate (snd ne))) < (case bf_dists st (fst ne) of Some d \<Rightarrow> d | None \<Rightarrow> 2 ^ 63 - 1)))"
    by (cases "bf_dists st u"; cases "adjacency_list g u") (simp_all add: out_edges_def list_ex_iff)
qed

subsection \<open>Fees without overflow\<close>

definition fee :: "edge \<Rightarrow> int" where
  "fee e = uint (e_fee_rate e)"

definition fee_sum :: "swap_hop list \<Rightarrow> int" where
  "fee_sum hs = (\<Sum>h \<leftarrow> hs. uint (h_fee_rate h))"

lemma fee_sum_simps [simp]:
  "fee_sum [] = 0" "fee_sum (h # hs) = uint (h_fee_rate h) + fee_sum hs" "fee_sum (hs @ ks) = fee_sum hs + fee_sum ks"
  by (simp_all add: fee_sum_def)

lemma fee_sum_nonneg [simp]: "0 \<le> fee_sum hs"
  by (induction hs) simp_all

lemma fee_nonneg [simp]: "0 \<le> fee e"
  by (simp add: fee_def)

lemma mk_hop_fee [simp]: "uint (h_fee_rate (mk_hop u ne)) = fee (snd ne)"
  by (simp add: mk_hop_def fee_def)

definition fees_below :: "token_graph \<Rightarrow> string list \<Rightarrow> int \<Rightarrow> bool" where
  "fees_below g order F \<longleftrightarrow> (\<forall>t. \<forall>ne \<in> set (out_edges g t). fee (snd ne) \<le> F) \<and> 0 \<le> F \<and> F * int (length order + 1) < 2 ^ 63"

lemma wrap_i64_id: "- (2 ^ 63) \<le> x \<Longrightarrow> x < 2 ^ 63 \<Longrightarrow> wrap_i64 x = x"
  by (simp add: wrap_i64_def)

lemma sint_fee: "fee e < 2 ^ 63 \<Longrightarrow> sint (e_fee_rate e) = fee e"
  using sint_cases [of "e_fee_rate e"] unfolding fee_def by (auto split: if_splits)

subsection \<open>Simple chains are enough\<close>

lemma hop_chain_split:
  "hop_chain g a hs b \<Longrightarrow> t \<in> set (path_tokens a hs) \<Longrightarrow>
   \<exists>ms ns. hs = ms @ ns \<and> hop_chain g a ms t \<and> hop_chain g t ns b \<and>
     (distinct (path_tokens a hs) \<longrightarrow> distinct (path_tokens t ns))"
proof (induction hs arbitrary: a)
  case (Cons h hs)
  show ?case
  proof (cases "t = a")
    case True
    then show ?thesis using Cons.prems by (intro exI [of _ "[]"] exI [of _ "h # hs"]) simp
  next
    case False
    with Cons.prems Cons.IH [of "h_output_token h"] obtain ms ns where
      "hs = ms @ ns" "hop_chain g (h_output_token h) ms t" "hop_chain g t ns b"
      "distinct (path_tokens (h_output_token h) hs) \<longrightarrow> distinct (path_tokens t ns)" by auto
    then show ?thesis using Cons.prems(1) by (intro exI [of _ "h # ms"] exI [of _ ns]) auto
  qed
qed simp

lemma simple_chain:
  "hop_chain g a hs b \<Longrightarrow> \<exists>ks. hop_chain g a ks b \<and> distinct (path_tokens a ks) \<and> fee_sum ks \<le> fee_sum hs"
proof (induction hs arbitrary: a)
  case (Cons h hs)
  then obtain ks where ks: "hop_chain g (h_output_token h) ks b" "distinct (path_tokens (h_output_token h) ks)"
    "fee_sum ks \<le> fee_sum hs" by auto
  show ?case
  proof (cases "a \<in> set (path_tokens (h_output_token h) ks)")
    case True
    from hop_chain_split [OF ks(1) True] obtain ms ns where
      "ks = ms @ ns" "hop_chain g a ns b" "distinct (path_tokens a ns)" using ks(2) by auto
    moreover have "fee_sum ns \<le> fee_sum (h # hs)"
      using ks(3) fee_sum_nonneg [of ms] uint_nonnegative [of "h_fee_rate h"] unfolding \<open>ks = ms @ ns\<close> fee_sum_simps by linarith
    ultimately show ?thesis by blast
  next
    case False
    then show ?thesis using ks Cons.prems by (intro exI [of _ "h # ks"]) auto
  qed
qed (simp add: exI [of _ "[]"])

lemma chain_tokens: "hop_chain g a hs b \<Longrightarrow> hs \<noteq> [] \<Longrightarrow> set (path_tokens a hs) \<subseteq> graph_tokens g"
proof (induction hs arbitrary: a)
  case (Cons h hs)
  then obtain ne where ne: "ne \<in> set (out_edges g a)" "h = mk_hop a ne" by auto
  have "a \<in> graph_tokens g" using ne(1) by (auto simp: graph_tokens_def out_edges_def split: option.splits)
  moreover have "h_output_token h \<in> graph_tokens g" using ne by (auto simp: graph_tokens_def)
  ultimately show ?case using Cons by (cases hs) auto
qed simp

lemma simple_chain_length:
  assumes "hop_chain g a hs b" "distinct (path_tokens a hs)" "set order = graph_tokens g"
  shows "length hs \<le> length order - 1"
proof (cases "hs = []")
  case False
  have "length (path_tokens a hs) = card (set (path_tokens a hs))" using assms(2) by (simp add: distinct_card)
  also have "\<dots> \<le> card (set order)" using chain_tokens [OF assms(1) False] assms(3) by (metis List.finite_set card_mono)
  also have "\<dots> \<le> length order" by (rule card_length)
  finally show ?thesis by (simp add: path_tokens_def)
qed simp

lemma fee_sum_bound:
  assumes "hop_chain g a hs b" "\<forall>t. \<forall>ne \<in> set (out_edges g t). fee (snd ne) \<le> F"
  shows "fee_sum hs \<le> F * int (length hs)"
  using assms(1)
proof (induction hs arbitrary: a)
  case (Cons h hs)
  then obtain ne where "ne \<in> set (out_edges g a)" "h = mk_hop a ne" by auto
  then have "uint (h_fee_rate h) \<le> F" using assms(2) by auto
  moreover have "fee_sum hs \<le> F * int (length hs)" using Cons by auto
  ultimately show ?case by (simp add: algebra_simps)
qed simp

subsection \<open>The invariant\<close>

definition at_most :: "(string \<rightharpoonup> int) \<Rightarrow> string \<Rightarrow> int \<Rightarrow> bool" where
  "at_most d v x \<longleftrightarrow> (\<exists>y. d v = Some y \<and> y \<le> x)"

lemma at_mostI: "d v = Some y \<Longrightarrow> y \<le> x \<Longrightarrow> at_most d v x"
  by (auto simp: at_most_def)

lemma at_most_trans: "at_most d v x \<Longrightarrow> x \<le> y \<Longrightarrow> at_most d v y"
  by (auto simp: at_most_def)

text \<open>
  A distance is the fee of a simple chain along which no prefix is dearer than the distance of its end; this is what
  keeps the distances from overflowing while the rounds go on.
\<close>

definition justified :: "token_graph \<Rightarrow> string \<Rightarrow> (string \<rightharpoonup> int) \<Rightarrow> string \<Rightarrow> swap_hop list \<Rightarrow> bool" where
  "justified g from d v hs \<longleftrightarrow> hop_chain g from hs v \<and> distinct (path_tokens from hs) \<and> d v = Some (fee_sum hs) \<and>
     (\<forall>ms ns t. hs = ms @ ns \<longrightarrow> hop_chain g from ms t \<longrightarrow> at_most d t (fee_sum ms))"

text \<open>The parent links lead back to the source in \<open>n\<close> steps.\<close>

inductive deep :: "(string \<rightharpoonup> (string \<times> edge)) \<Rightarrow> string \<Rightarrow> nat \<Rightarrow> string \<Rightarrow> bool" for par "from" where
  deep_root: "deep par from 0 from"
| deep_step: "par x = Some (y, e) \<Longrightarrow> deep par from n y \<Longrightarrow> deep par from (Suc n) x"

definition parents_ok :: "token_graph \<Rightarrow> bf_state \<Rightarrow> bool" where
  "parents_ok g st \<longleftrightarrow> (\<forall>v u e. bf_parent st v = Some (u, e) \<longrightarrow> (v, e) \<in> set (out_edges g u) \<and>
     (\<exists>x y. bf_dists st u = Some y \<and> bf_dists st v = Some x \<and> y + fee e \<le> x))"

definition bf_inv :: "token_graph \<Rightarrow> string \<Rightarrow> bf_state \<Rightarrow> bool" where
  "bf_inv g from st \<longleftrightarrow> bf_dists st from = Some 0 \<and> bf_parent st from = None \<and> parents_ok g st \<and>
     (\<forall>v x. bf_dists st v = Some x \<longrightarrow> (\<exists>hs. justified g from (bf_dists st) v hs) \<and> (\<exists>n. deep (bf_parent st) from n v))"

lemma bf_inv_init: "bf_inv g from (bf_init from)"
  by (auto simp: bf_inv_def bf_init_def parents_ok_def justified_def at_most_def intro!: exI [of _ "[]"] exI [of _ 0] deep_root)

text \<open>The effect of a relaxation that improves a token.\<close>

lemma deep_kept:
  assumes "parents_ok g st" "\<not> at_most (bf_dists st) v b" "deep (bf_parent st) from n x" "at_most (bf_dists st) x b"
  shows "deep ((bf_parent st)(v \<mapsto> p)) from n x"
  using assms(3,4)
proof (induction rule: deep.induct)
  case (deep_step x y e n)
  obtain a c where "bf_dists st y = Some c" "bf_dists st x = Some a" "c + fee e \<le> a"
    using assms(1) deep_step(1) unfolding parents_ok_def by blast
  moreover from this have "c \<le> a" using fee_nonneg [of e] by linarith
  ultimately have "at_most (bf_dists st) y b" using deep_step(4) unfolding at_most_def by auto
  moreover have "x \<noteq> v" using assms(2) deep_step(4) by auto
  ultimately show ?case using deep_step by (auto intro: deep.deep_step)
qed (rule deep_root)

lemma deep_redirected:
  assumes "deep (par(v \<mapsto> (u, e))) from m u" "deep par from n x"
  shows "\<exists>k. deep (par(v \<mapsto> (u, e))) from k x"
  using assms(2)
proof (induction rule: deep.induct)
  case (deep_step x y e' n)
  show ?case
  proof (cases "x = v")
    case True
    have "deep (par(v \<mapsto> (u, e))) from (Suc m) v" by (rule deep.deep_step [OF _ assms(1)]) simp
    with True show ?thesis by blast
  next
    case False
    from deep_step(3) obtain k where k: "deep (par(v \<mapsto> (u, e))) from k y" by blast
    have "deep (par(v \<mapsto> (u, e))) from (Suc k) x" by (rule deep.deep_step [OF _ k]) (use False deep_step(1) in simp)
    then show ?thesis by blast
  qed
qed (blast intro: deep_root)

lemma justified_kept:
  assumes "justified g from d x hs" "\<And>t y. at_most d t y \<Longrightarrow> at_most d' t y" "d' x = d x"
  shows "justified g from d' x hs"
  using assms by (auto simp: justified_def)

lemma new_dist_exact:
  assumes "bf_inv g from st" "fees_below g order F" "set order = graph_tokens g" "bf_dists st u = Some d" "ne \<in> set (out_edges g u)"
  shows "wrap_i64 (d + sint (e_fee_rate (snd ne))) = d + fee (snd ne)" "0 \<le> d" "d + fee (snd ne) < 2 ^ 63"
proof -
  obtain hs where hs: "justified g from (bf_dists st) u hs" using assms(1,4) by (auto simp: bf_inv_def)
  then have sum: "hop_chain g from hs u" "distinct (path_tokens from hs)" "d = fee_sum hs" using assms(4) by (auto simp: justified_def)
  have F: "\<forall>t. \<forall>ne \<in> set (out_edges g t). fee (snd ne) \<le> F" "0 \<le> F" "F * int (length order + 1) < 2 ^ 63"
    using assms(2) by (auto simp: fees_below_def)
  have "d \<le> F * int (length hs)" using fee_sum_bound [OF sum(1) F(1)] sum(3) by simp
  also have "\<dots> \<le> F * int (length order)"
    using simple_chain_length [OF sum(1,2) assms(3)] F(2) by (intro mult_left_mono) auto
  finally have d: "d \<le> F * int (length order)" .
  have f: "fee (snd ne) \<le> F" using F(1) assms(5) by blast
  have all: "F * int (length order) + F < 2 ^ 63" using F(3) by (simp add: algebra_simps)
  show nonneg: "0 \<le> d" by (simp add: sum(3))
  show small: "d + fee (snd ne) < 2 ^ 63" using d f all by linarith
  have "fee (snd ne) < 2 ^ 63" using small nonneg by linarith
  then have "sint (e_fee_rate (snd ne)) = fee (snd ne)" by (rule sint_fee)
  moreover have "0 \<le> d + fee (snd ne)" using nonneg fee_nonneg [of "snd ne"] by linarith
  ultimately show "wrap_i64 (d + sint (e_fee_rate (snd ne))) = d + fee (snd ne)"
    using small by (simp add: wrap_i64_id)
qed

text \<open>Improving \<open>v\<close> along an edge from \<open>u\<close> keeps the invariant: \<open>v\<close> is not on the chain of \<open>u\<close>.\<close>

lemma improve_inv:
  assumes inv: "bf_inv g from st" and u: "bf_dists st u = Some d" and e: "(v, e) \<in> set (out_edges g u)"
    and better: "\<not> at_most (bf_dists st) v (d + fee e)"
  defines "st' \<equiv> st\<lparr>bf_dists := (bf_dists st)(v \<mapsto> d + fee e), bf_parent := (bf_parent st)(v \<mapsto> (u, e))\<rparr>"
  shows "bf_inv g from st' \<and> u \<noteq> v"
proof -
  obtain hs m where hs: "justified g from (bf_dists st) u hs" and m: "deep (bf_parent st) from m u"
    using inv u unfolding bf_inv_def by blast
  have sum: "d = fee_sum hs" and chain_u: "hop_chain g from hs u" using hs u by (simp_all add: justified_def)
  have nb: "\<not> at_most (bf_dists st) v d" using better fee_nonneg [of e] at_most_trans [of "bf_dists st" v d "d + fee e"] by auto
  have off: "v \<notin> set (path_tokens from hs)"
  proof
    assume "v \<in> set (path_tokens from hs)"
    then obtain ms ns where split: "hs = ms @ ns" "hop_chain g from ms v"
      using hop_chain_split [OF chain_u] by blast
    then have "at_most (bf_dists st) v (fee_sum ms)" using hs by (auto simp: justified_def)
    then have "at_most (bf_dists st) v d" by (rule at_most_trans) (simp add: sum split(1))
    with nb show False by blast
  qed
  have uv: "u \<noteq> v" using off hop_chain_end_in [of g "from" hs u] hs by (auto simp: justified_def)
  have fv: "from \<noteq> v" using off start_in_path_tokens [of "from" hs] by auto
  have mono: "at_most (bf_dists st') t y" if "at_most (bf_dists st) t y" for t y
  proof (cases "t = v")
    case True
    have "\<not> y \<le> d + fee e" using at_most_trans [OF that] better True by blast
    then show ?thesis using True by (simp add: at_most_def st'_def)
  qed (use that in \<open>simp add: at_most_def st'_def\<close>)
  have new: "justified g from (bf_dists st') v (hs @ [mk_hop u (v, e)])"
    unfolding justified_def
  proof (intro conjI allI impI)
    show chain: "hop_chain g from (hs @ [mk_hop u (v, e)]) v" using hs e by (auto simp: justified_def hop_chain_append)
    show "distinct (path_tokens from (hs @ [mk_hop u (v, e)]))" using hs off by (auto simp: justified_def path_tokens_def)
    show "bf_dists st' v = Some (fee_sum (hs @ [mk_hop u (v, e)]))" by (simp add: st'_def sum)
    fix ms ns t
    assume split: "hs @ [mk_hop u (v, e)] = ms @ ns" and ms: "hop_chain g from ms t"
    show "at_most (bf_dists st') t (fee_sum ms)"
    proof (cases ns rule: rev_cases)
      case Nil
      then have "ms = hs @ [mk_hop u (v, e)]" using split by simp
      moreover from this have "t = v" using ms chain hop_chain_last by metis
      ultimately show ?thesis by (simp add: at_most_def st'_def sum)
    next
      case (snoc ns' h)
      then have "hs = ms @ ns'" using split by simp
      then show ?thesis using hs ms mono by (auto simp: justified_def)
    qed
  qed
  have root: "deep (bf_parent st') from m u"
    using deep_kept [OF _ nb m, of g "(u, e)"] inv u by (simp add: st'_def bf_inv_def at_most_def)
  have "parents_ok g st'"
    unfolding parents_ok_def
  proof (intro allI impI)
    fix x z k
    assume p: "bf_parent st' x = Some (z, k)"
    show "(x, k) \<in> set (out_edges g z) \<and> (\<exists>a b. bf_dists st' z = Some b \<and> bf_dists st' x = Some a \<and> b + fee k \<le> a)"
    proof (cases "x = v")
      case True
      then show ?thesis using p u e uv by (simp add: st'_def)
    next
      case False
      then have "bf_parent st x = Some (z, k)" using p by (simp add: st'_def)
      then obtain a b where ab: "(x, k) \<in> set (out_edges g z)" "bf_dists st z = Some b" "bf_dists st x = Some a" "b + fee k \<le> a"
        using inv unfolding bf_inv_def parents_ok_def by blast
      then obtain b' where "bf_dists st' z = Some b'" "b' \<le> b" using mono [of z b] by (auto simp: at_most_def)
      then show ?thesis using ab False by (auto simp: st'_def)
    qed
  qed
  moreover have "(\<exists>hs. justified g from (bf_dists st') x hs) \<and> (\<exists>n. deep (bf_parent st') from n x)" if x: "bf_dists st' x = Some y" for x y
  proof (cases "x = v")
    case True
    have "deep (bf_parent st') from (Suc m) v" by (rule deep_step [OF _ root]) (simp add: st'_def)
    with new True show ?thesis by blast
  next
    case False
    with x have "bf_dists st x = Some y" by (simp add: st'_def)
    then obtain ks n where ks: "justified g from (bf_dists st) x ks" and n: "deep (bf_parent st) from n x"
      using inv unfolding bf_inv_def by blast
    have "justified g from (bf_dists st') x ks" by (rule justified_kept [OF ks mono]) (use False in \<open>simp_all add: st'_def\<close>)
    moreover have "\<exists>k. deep (bf_parent st') from k x" using deep_redirected [OF _ n] root by (simp add: st'_def)
    ultimately show ?thesis by blast
  qed
  ultimately show ?thesis using inv fv uv by (auto simp: bf_inv_def st'_def)
qed

subsection \<open>Rounds of relaxation\<close>

text \<open>What holds before a step still holds after it; the flag tells whether anything changed.\<close>

definition bf_next :: "token_graph \<Rightarrow> string \<Rightarrow> bf_state \<times> bool \<Rightarrow> bf_state \<times> bool \<Rightarrow> bool" where
  "bf_next g from sr sr' \<longleftrightarrow> bf_inv g from (fst sr') \<and> (snd sr' \<or> sr' = sr) \<and> (snd sr \<longrightarrow> snd sr') \<and>
     (\<forall>t y. at_most (bf_dists (fst sr)) t y \<longrightarrow> at_most (bf_dists (fst sr')) t y)"

lemma bf_next_refl: "bf_inv g from (fst sr) \<Longrightarrow> bf_next g from sr sr"
  by (simp add: bf_next_def)

lemma bf_next_trans: "bf_next g from a b \<Longrightarrow> bf_next g from b c \<Longrightarrow> bf_next g from a c"
  by (auto simp: bf_next_def)

definition bf_fit :: "token_graph \<Rightarrow> string list \<Rightarrow> int \<Rightarrow> bool" where
  "bf_fit g order F \<longleftrightarrow> fees_below g order F \<and> set order = graph_tokens g"

lemma bf_fitD: "bf_fit g order F \<Longrightarrow> fees_below g order F" "bf_fit g order F \<Longrightarrow> set order = graph_tokens g"
  by (simp_all add: bf_fit_def)

lemma edge_next:
  assumes fit: "bf_fit g order F" and "bf_inv g from (fst sr)" "bf_dists (fst sr) u = Some d" "ne \<in> set (out_edges g u)"
  shows "bf_next g from sr (bf_edge u d ne sr) \<and> bf_dists (fst (bf_edge u d ne sr)) u = Some d \<and>
    at_most (bf_dists (fst (bf_edge u d ne sr))) (fst ne) (d + fee (snd ne))"
proof -
  note exact = new_dist_exact [OF assms(2) bf_fitD [OF fit] assms(3,4)]
  let ?upd = "case bf_dists (fst sr) (fst ne) of Some x \<Rightarrow> d + fee (snd ne) < x | None \<Rightarrow> True"
  have upd: "?upd \<longleftrightarrow> \<not> at_most (bf_dists (fst sr)) (fst ne) (d + fee (snd ne))"
    by (auto simp: at_most_def split: option.split)
  show ?thesis
  proof (cases ?upd)
    case False
    then have "bf_edge u d ne sr = sr" by (simp only: bf_edge_def Let_def exact(1) if_False)
    then show ?thesis using False upd assms(2-) bf_next_refl by auto
  next
    case True
    let ?st = "(fst sr)\<lparr>bf_dists := (bf_dists (fst sr))(fst ne \<mapsto> d + fee (snd ne)),
      bf_parent := (bf_parent (fst sr))(fst ne \<mapsto> (u, snd ne))\<rparr>"
    from True have step: "bf_edge u d ne sr = (?st, True)" by (simp only: bf_edge_def Let_def exact(1) if_True)
    have better: "\<not> at_most (bf_dists (fst sr)) (fst ne) (d + fee (snd ne))" using True upd by blast
    have inv: "bf_inv g from ?st" "u \<noteq> fst ne"
      using improve_inv [OF assms(2,3) _ better] assms(4) by auto
    have "at_most (bf_dists ?st) t y" if "at_most (bf_dists (fst sr)) t y" for t y
    proof (cases "t = fst ne")
      case True
      have "\<not> y \<le> d + fee (snd ne)" using at_most_trans [OF that] better True by blast
      then show ?thesis using True by (simp add: at_most_def)
    qed (use that in \<open>simp add: at_most_def\<close>)
    then show ?thesis using inv assms(3) by (auto simp: step bf_next_def at_most_def)
  qed
qed

lemma edges_next:
  assumes fit: "bf_fit g order F" and "bf_inv g from (fst sr)" "bf_dists (fst sr) u = Some d" "set es \<subseteq> set (out_edges g u)"
  shows "bf_next g from sr (fold (bf_edge u d) es sr) \<and> bf_dists (fst (fold (bf_edge u d) es sr)) u = Some d \<and>
    (\<forall>ne \<in> set es. at_most (bf_dists (fst (fold (bf_edge u d) es sr))) (fst ne) (d + fee (snd ne)))"
  using assms(2-)
proof (induction es arbitrary: sr)
  case Nil
  then show ?case by (simp add: bf_next_refl)
next
  case (Cons ne es)
  have one: "bf_next g from sr (bf_edge u d ne sr)" "bf_dists (fst (bf_edge u d ne sr)) u = Some d"
    "at_most (bf_dists (fst (bf_edge u d ne sr))) (fst ne) (d + fee (snd ne))"
    using edge_next [OF fit Cons.prems(1,2), of ne] Cons.prems(3) by auto
  have rest: "bf_next g from (bf_edge u d ne sr) (fold (bf_edge u d) es (bf_edge u d ne sr)) \<and>
    bf_dists (fst (fold (bf_edge u d) es (bf_edge u d ne sr))) u = Some d \<and>
    (\<forall>ne' \<in> set es. at_most (bf_dists (fst (fold (bf_edge u d) es (bf_edge u d ne sr)))) (fst ne') (d + fee (snd ne')))"
    by (rule Cons.IH) (use one Cons.prems(3) in \<open>auto simp: bf_next_def\<close>)
  then show ?case using one bf_next_trans [OF one(1)] by (auto simp: bf_next_def)
qed

lemma token_next:
  assumes fit: "bf_fit g order F" and "bf_inv g from (fst sr)"
  shows "bf_next g from sr (bf_token g u sr) \<and>
    (\<forall>x ne. at_most (bf_dists (fst sr)) u x \<longrightarrow> ne \<in> set (out_edges g u) \<longrightarrow>
       at_most (bf_dists (fst (bf_token g u sr))) (fst ne) (x + fee (snd ne)))"
proof (cases "bf_dists (fst sr) u")
  case None
  then show ?thesis using assms(2) by (simp add: bf_token_edges bf_next_refl at_most_def)
next
  case (Some d)
  have bound: "d \<le> x" if "at_most (bf_dists (fst sr)) u x" for x using Some that by (simp add: at_most_def)
  have step: "bf_token g u sr = fold (bf_edge u d) (out_edges g u) sr" using Some by (simp add: bf_token_edges)
  note all = edges_next [OF fit assms(2) Some order_refl, folded step]
  have "at_most (bf_dists (fst (bf_token g u sr))) (fst ne) (x + fee (snd ne))"
    if "at_most (bf_dists (fst sr)) u x" "ne \<in> set (out_edges g u)" for x ne
    by (rule at_most_trans [of _ _ "d + fee (snd ne)"]) (use all bound [OF that(1)] that(2) in auto)
  then show ?thesis using all by blast
qed

lemma round_next:
  assumes fit: "bf_fit g order F" and "bf_inv g from (fst sr)"
  shows "bf_next g from sr (fold (bf_token g) us sr) \<and>
    (\<forall>u x ne. u \<in> set us \<longrightarrow> at_most (bf_dists (fst sr)) u x \<longrightarrow> ne \<in> set (out_edges g u) \<longrightarrow>
       at_most (bf_dists (fst (fold (bf_token g) us sr))) (fst ne) (x + fee (snd ne)))"
  using assms(2)
proof (induction us arbitrary: sr)
  case Nil
  then show ?case by (simp add: bf_next_refl)
next
  case (Cons a us)
  note one = token_next [OF fit Cons.prems, of a]
  have inv: "bf_inv g from (fst (bf_token g a sr))" using one by (simp add: bf_next_def)
  note rest = Cons.IH [OF inv]
  have keep: "at_most (bf_dists (fst sr)) t y \<Longrightarrow> at_most (bf_dists (fst (bf_token g a sr))) t y"
    "at_most (bf_dists (fst (bf_token g a sr))) t y \<Longrightarrow> at_most (bf_dists (fst (fold (bf_token g) us (bf_token g a sr)))) t y" for t y
    using one rest by (auto simp: bf_next_def)
  have "bf_next g from sr (fold (bf_token g) (a # us) sr)"
    using bf_next_trans [OF conjunct1 [OF one] conjunct1 [OF rest]] by simp
  moreover have "at_most (bf_dists (fst (fold (bf_token g) (a # us) sr))) (fst ne) (x + fee (snd ne))"
    if "u \<in> set (a # us)" "at_most (bf_dists (fst sr)) u x" "ne \<in> set (out_edges g u)" for u x ne
  proof (cases "u = a")
    case True
    then show ?thesis using one that keep(2) by auto
  next
    case False
    then show ?thesis using rest keep(1) that by auto
  qed
  ultimately show ?case by blast
qed

subsection \<open>Walking back\<close>

lemma deep_unique:
  assumes "deep par from n x" "deep par from m x" "par from = None"
  shows "n = m"
  using assms(1,2)
proof (induction arbitrary: m rule: deep.induct)
  case deep_root
  then show ?case using assms(3) by (auto elim: deep.cases)
next
  case (deep_step x y e n)
  from deep_step(4) show ?case
  proof cases
    case deep_root
    then show ?thesis using deep_step(1) assms(3) by simp
  next
    case (deep_step y' e' n')
    then show ?thesis using \<open>par x = Some (y, e)\<close> \<open>\<And>m. deep par from m y \<Longrightarrow> n = m\<close> by simp
  qed
qed

text \<open>The walk from a token meets no token twice, since the tokens it has seen lie deeper.\<close>

lemma bf_walk_chain:
  assumes "parents_ok g st" "bf_parent st from = None" "bf_dists st from = Some 0" "deep (bf_parent st) from n x"
    "\<forall>y \<in> seen. \<exists>m > n. deep (bf_parent st) from m y"
  shows "\<exists>hs. bf_walk (bf_parent st) seen x acc = Some (hs @ acc) \<and> hop_chain g from hs x \<and> at_most (bf_dists st) x (the (bf_dists st x)) \<and>
    fee_sum hs \<le> the (bf_dists st x)"
  using assms(4,5)
proof (induction arbitrary: seen acc rule: deep.induct)
  case deep_root
  then show ?case by (subst bf_walk.simps) (simp add: assms(2,3) at_most_def)
next
  case (deep_step x y e n)
  have dx: "deep (bf_parent st) from (Suc n) x" using deep_step(1,2) by (rule deep.deep_step)
  have fresh: "x \<notin> seen" using deep_step(4) deep_unique [OF dx _ assms(2)] by auto
  have deeper: "\<forall>z \<in> insert x seen. \<exists>m > n. deep (bf_parent st) from m z"
    using deep_step(4) dx by (auto intro: Suc_lessD)
  obtain a b where edge: "(x, e) \<in> set (out_edges g y)" "bf_dists st y = Some b" "bf_dists st x = Some a" "b + fee e \<le> a"
    using assms(1) deep_step(1) unfolding parents_ok_def by blast
  from deep_step(3) [OF deeper] obtain hs where hs:
    "bf_walk (bf_parent st) (insert x seen) y (mk_hop y (x, e) # acc) = Some (hs @ mk_hop y (x, e) # acc)"
    "hop_chain g from hs y" "fee_sum hs \<le> b" using edge(2) by auto
  have "bf_walk (bf_parent st) seen x acc = Some ((hs @ [mk_hop y (x, e)]) @ acc)"
    by (subst bf_walk.simps) (simp add: deep_step(1) fresh hs(1))
  moreover have "hop_chain g from (hs @ [mk_hop y (x, e)]) x" using hs(2) edge(1) by (auto simp: hop_chain_append)
  moreover have "fee_sum (hs @ [mk_hop y (x, e)]) \<le> the (bf_dists st x)" using hs(3) edge by simp
  ultimately show ?case using edge(3) by (auto simp: at_most_def)
qed

subsection \<open>All chains are covered\<close>

definition covered :: "token_graph \<Rightarrow> string \<Rightarrow> nat \<Rightarrow> bf_state \<Rightarrow> bool" where
  "covered g from k st \<longleftrightarrow> (\<forall>hs v. hop_chain g from hs v \<longrightarrow> length hs \<le> k \<longrightarrow> at_most (bf_dists st) v (fee_sum hs))"

lemma covered_round:
  assumes fit: "bf_fit g order F" and "bf_inv g from st" "covered g from k st"
  shows "covered g from (Suc k) (fst (fold (bf_token g) order (st, False)))"
  unfolding covered_def
proof (intro allI impI)
  let ?st = "fst (fold (bf_token g) order (st, False))"
  have round: "bf_next g from (st, False) (fold (bf_token g) order (st, False))"
    "\<And>u x ne. u \<in> set order \<Longrightarrow> at_most (bf_dists st) u x \<Longrightarrow> ne \<in> set (out_edges g u) \<Longrightarrow>
       at_most (bf_dists ?st) (fst ne) (x + fee (snd ne))"
    using round_next [OF fit, of "from" "(st, False)" order] assms(2) by simp_all
  fix hs v
  assume chain: "hop_chain g from hs v" and len: "length hs \<le> Suc k"
  show "at_most (bf_dists ?st) v (fee_sum hs)"
  proof (cases hs rule: rev_cases)
    case Nil
    then show ?thesis using chain round(1) by (auto simp: bf_next_def bf_inv_def at_most_def)
  next
    case (snoc ks h)
    then obtain u ne where u: "hop_chain g from ks u" "ne \<in> set (out_edges g u)" "h = mk_hop u ne" "v = fst ne"
      using chain by (auto simp: hop_chain_append)
    have "u \<in> set order" using u(2) by (auto simp: bf_fitD(2) [OF fit] graph_tokens_def out_edges_def split: option.splits)
    moreover have "at_most (bf_dists st) u (fee_sum ks)" using assms(3) u(1) len snoc by (simp add: covered_def)
    ultimately have "at_most (bf_dists ?st) (fst ne) (fee_sum ks + fee (snd ne))" using round(2) u(2) by blast
    then show ?thesis using snoc u(3,4) by simp
  qed
qed

lemma covered_stable:
  assumes "bf_fit g order F" "bf_inv g from st" "covered g from k st" "fst (fold (bf_token g) order (st, False)) = st"
  shows "covered g from (k + n) st"
proof (induction n)
  case (Suc n)
  from covered_round [OF assms(1,2) Suc] assms(4) show ?case by simp
qed (use assms(3) in simp)

lemma rounds_covered:
  "bf_fit g order F \<Longrightarrow> bf_inv g from st \<Longrightarrow> covered g from k st \<Longrightarrow>
   bf_inv g from (bf_rounds g order n st) \<and> covered g from (k + n) (bf_rounds g order n st)"
proof (induction n arbitrary: k st)
  case (Suc n)
  let ?sr = "fold (bf_token g) order (st, False)"
  have round: "bf_next g from (st, False) ?sr" using round_next [OF Suc.prems(1), of "from" "(st, False)" order] Suc.prems(2) by simp
  then have inv: "bf_inv g from (fst ?sr)" by (simp add: bf_next_def)
  show ?case
  proof (cases "snd ?sr")
    case True
    then show ?thesis using Suc.IH [OF Suc.prems(1) inv covered_round [OF Suc.prems]] by (simp add: Let_def)
  next
    case False
    then have "fst ?sr = st" using round by (auto simp: bf_next_def)
    then show ?thesis using covered_stable [OF Suc.prems, of "Suc n"] Suc.prems(2) False by (simp add: Let_def)
  qed
qed simp

lemma search_covers:
  fixes "from" :: string
  assumes fit: "bf_fit g order F"
  defines "st \<equiv> bf_rounds g order (length order - 1) (bf_init from)"
  shows "bf_inv g from st" "hop_chain g from hs v \<Longrightarrow> at_most (bf_dists st) v (fee_sum hs)"
proof -
  have "covered g from 0 (bf_init from)" by (auto simp: covered_def bf_init_def at_most_def)
  from rounds_covered [OF fit bf_inv_init this] have inv: "bf_inv g from st" and cov: "covered g from (length order - 1) st"
    by (simp_all add: st_def)
  show "bf_inv g from st" by (rule inv)
  assume "hop_chain g from hs v"
  then obtain ks where ks: "hop_chain g from ks v" "distinct (path_tokens from ks)" "fee_sum ks \<le> fee_sum hs"
    using simple_chain by blast
  then have "at_most (bf_dists st) v (fee_sum ks)" using cov simple_chain_length [OF ks(1,2) bf_fitD(2) [OF fit]] by (auto simp: covered_def)
  then show "at_most (bf_dists st) v (fee_sum hs)" using ks(3) by (rule at_most_trans)
qed

lemma no_negative_cycle:
  assumes fit: "bf_fit g order F"
  shows "\<not> bf_negative_cycle g order (bf_rounds g order (length order - 1) (bf_init from))"
proof
  let ?st = "bf_rounds g order (length order - 1) (bf_init from)"
  assume "bf_negative_cycle g order ?st"
  then obtain u d ne where u: "bf_dists ?st u = Some d" "ne \<in> set (out_edges g u)"
    "wrap_i64 (d + sint (e_fee_rate (snd ne))) < (case bf_dists ?st (fst ne) of Some d \<Rightarrow> d | None \<Rightarrow> 2 ^ 63 - 1)"
    unfolding bf_negative_cycle_edges by blast
  obtain hs where hs: "justified g from (bf_dists ?st) u hs" using search_covers(1) [OF fit] u(1) unfolding bf_inv_def by blast
  then have "hop_chain g from (hs @ [mk_hop u ne]) (fst ne)" using u(2) by (auto simp: justified_def hop_chain_append)
  from search_covers(2) [OF fit this] have "at_most (bf_dists ?st) (fst ne) (d + fee (snd ne))"
    using hs u(1) by (simp add: justified_def)
  then show False using u(3) new_dist_exact(1) [OF search_covers(1) [OF fit] bf_fitD [OF fit] u(1,2)] by (auto simp: at_most_def)
qed

text \<open>The search ends with a chain of least total fee, or with \<open>None\<close> exactly when there is no chain.\<close>

lemma search_correct:
  assumes fit: "bf_fit g order F"
  shows "\<exists>r. find_shortest_path_bellman_ford order g from to = Some r \<and>
    (case r of
       None \<Rightarrow> \<not> (\<exists>hs. hop_chain g from hs to)
     | Some (p, neg) \<Rightarrow> hop_chain g from (hops p) to \<and> \<not> neg \<and>
         (\<forall>hs. hop_chain g from hs to \<longrightarrow> fee_sum (hops p) \<le> fee_sum hs))"
proof -
  let ?st = "bf_rounds g order (length order - 1) (bf_init from)"
  note inv = search_covers(1) [OF fit, unfolded bf_inv_def]
  show ?thesis
  proof (cases "bf_dists ?st to")
    case None
    have "\<not> hop_chain g from hs to" for hs using search_covers(2) [OF fit, of "from" hs to] None by (auto simp: at_most_def)
    then show ?thesis using None by (simp add: find_shortest_path_bellman_ford_def Let_def)
  next
    case (Some d)
    then obtain n where "deep (bf_parent ?st) from n to" using inv by blast
    from bf_walk_chain [OF _ _ _ this, of g "{}" "[]"] inv Some obtain hs where
      hs: "bf_walk (bf_parent ?st) {} to [] = Some hs" "hop_chain g from hs to" "fee_sum hs \<le> d" by auto
    have "fee_sum hs \<le> fee_sum ks" if "hop_chain g from ks to" for ks
      using search_covers(2) [OF fit that] Some hs(3) by (auto simp: at_most_def)
    then show ?thesis using Some hs(1,2) no_negative_cycle [OF fit]
      by (simp add: find_shortest_path_bellman_ford_def Let_def)
  qed
qed

subsection \<open>On pools\<close>

definition active_tokens :: "pool_state list \<Rightarrow> string list" where
  "active_tokens pools = concat (map (\<lambda>p. if is_paused p then [] else [coin_type_a p, coin_type_b p]) pools)"

lemma dom_push_entry: "dom (push_entry m k v) = insert k (dom m)"
  by (simp add: push_entry_def)

lemma dom_add_pools: "dom (add_pools adj pools) = dom adj \<union> set (active_tokens pools)"
  by (induction adj pools rule: add_pools.induct) (simp_all add: dom_push_entry active_tokens_def Let_def insert_commute)

lemma graph_tokens_build: "graph_tokens (build_from_pools g pools) = set (active_tokens pools)"
proof -
  have "fst ` set (out_edges (build_from_pools g pools) t) \<subseteq> set (active_tokens pools)" for t
    by (fastforce simp: out_edges_build pool_edges_at_def active_tokens_def split: if_splits)
  moreover have "dom (adjacency_list (build_from_pools g pools)) = set (active_tokens pools)"
    by (simp add: build_from_pools_def dom_add_pools)
  ultimately show ?thesis unfolding graph_tokens_def by blast
qed

lemma pools_bf_fit:
  assumes "set order = graph_tokens (build_from_pools g pools)" "\<forall>p \<in> set pools. uint (fee_rate p) \<le> F"
    "0 \<le> F" "F * int (length order + 1) < 2 ^ 63"
  shows "bf_fit (build_from_pools g pools) order F"
proof -
  have "fee (snd ne) \<le> F" if "ne \<in> set (out_edges (build_from_pools g pools) t)" for t ne
    using that assms(2) by (auto simp: out_edges_build pool_edges_at_def fee_def pool_edge_def split: if_splits)
  then show ?thesis using assms by (simp add: bf_fit_def fees_below_def)
qed

text \<open>
  C3.  The Bellman-Ford search ends on every pool list whose fees cannot overflow a signed 64-bit sum, in whatever order
  the set of tokens is iterated.  It answers \<open>None\<close> exactly when no chain of active pools leads to the target, and
  otherwise a chain of least total fee, with the negative-cycle flag unset.
\<close>

theorem bellman_ford_cheapest:
  assumes "set order = graph_tokens (build_from_pools g pools)" "\<forall>p \<in> set pools. uint (fee_rate p) \<le> F"
    "0 \<le> F" "F * int (length order + 1) < 2 ^ 63"
  shows "\<exists>r. find_shortest_path_bellman_ford order (build_from_pools g pools) from to = Some r \<and>
    (case r of
       None \<Rightarrow> \<not> (\<exists>hs. pool_chain pools from hs to)
     | Some (p, neg) \<Rightarrow> pool_chain pools from (hops p) to \<and> \<not> neg \<and>
         (\<forall>hs. pool_chain pools from hs to \<longrightarrow> fee_sum (hops p) \<le> fee_sum hs))"
  using search_correct [OF pools_bf_fit [OF assms], of "from" to] unfolding hop_chain_build .

theorem bellman_ford_cheapest_witness:
  "\<exists>r. find_shortest_path_bellman_ford [''SUI'', ''USDC'', ''DEEP''] (build_from_pools graph_new sample_pools) ''SUI'' ''USDC'' = Some r \<and>
    (case r of
       None \<Rightarrow> \<not> (\<exists>hs. pool_chain sample_pools ''SUI'' hs ''USDC'')
     | Some (p, neg) \<Rightarrow> pool_chain sample_pools ''SUI'' (hops p) ''USDC'' \<and> \<not> neg \<and>
         (\<forall>hs. pool_chain sample_pools ''SUI'' hs ''USDC'' \<longrightarrow> fee_sum (hops p) \<le> fee_sum hs))"
proof (rule bellman_ford_cheapest [where F = 2500])
  show "set [''SUI'', ''USDC'', ''DEEP''] = graph_tokens (build_from_pools graph_new sample_pools)"
    unfolding graph_tokens_build by (simp add: active_tokens_def sample_pools_def insert_commute)
qed (simp_all add: sample_pools_def)

end
