(* ===== verification/Benchmark.thy ===== *)
theory Benchmark
  imports Bellman_Ford
begin

text \<open>
  The routing benchmark, \<open>src/bin/benchmark_routing.rs\<close>: its synthetic graphs and the searches it times.  The times
  themselves are not modelled.  \<open>pop\<close> is the binary heap, \<open>order\<close> the order in which the set of tokens is iterated.
\<close>

definition token_name :: "nat \<Rightarrow> string" where
  "token_name i = ''token_'' @ show_nat i"

definition synthetic_pool :: "nat \<Rightarrow> nat \<Rightarrow> pool_state" where
  "synthetic_pool i j =
     \<lparr>pool_id = ''pool_'' @ show_nat i @ ''_'' @ show_nat j, dex_name = ''Cetus'', coin_type_a = token_name i,
      coin_type_b = token_name j, sqrt_price = 1000, liquidity = 1000000, fee_rate = 3000, is_paused = False\<rparr>"

text \<open>Token \<open>i\<close> is connected with its \<open>density\<close> successors; the tokens form a ring.\<close>

definition synthetic_pools_of :: "nat \<Rightarrow> nat \<Rightarrow> nat \<Rightarrow> pool_state list" where
  "synthetic_pools_of v_count density i =
     List.map_filter (\<lambda>step. let j = (i + step) mod v_count in if i \<noteq> j then Some (synthetic_pool i j) else None) [1..<density + 1]"

definition synthetic_pools :: "nat \<Rightarrow> nat \<Rightarrow> pool_state list" where
  "synthetic_pools v_count density = concat (map (synthetic_pools_of v_count density) [0..<v_count])"

definition generate_synthetic_graph :: "nat \<Rightarrow> nat \<Rightarrow> token_graph" where
  "generate_synthetic_graph v_count density = build_from_pools graph_new (synthetic_pools v_count density)"

record bench_row =
  topology :: "nat \<times> nat"
  paths_dfs2 :: "route_path list"
  paths_dfs3 :: "route_path list"
  paths_dfs4 :: "route_path list"
  path_dijkstra :: "route_path option option"
  path_bf :: "(route_path \<times> bool) option option"

definition bench_case ::
  "(dijkstra_node list \<Rightarrow> (dijkstra_node \<times> dijkstra_node list) option) \<Rightarrow> (token_graph \<Rightarrow> string list) \<Rightarrow> nat \<times> nat \<Rightarrow> bench_row" where
  "bench_case pop order = (\<lambda>(v, density).
     let graph = generate_synthetic_graph v density; from = ''token_0''; to = token_name (v - 1)
     in \<lparr>topology = (v, v * density),
         paths_dfs2 = find_all_paths_dfs graph from to 2,
         paths_dfs3 = find_all_paths_dfs graph from to 3,
         paths_dfs4 = find_all_paths_dfs graph from to 4,
         path_dijkstra = find_shortest_path_dijkstra pop graph from to,
         path_bf = find_shortest_path_bellman_ford (order graph) graph from to\<rparr>)"

definition bench_main ::
  "(dijkstra_node list \<Rightarrow> (dijkstra_node \<times> dijkstra_node list) option) \<Rightarrow> (token_graph \<Rightarrow> string list) \<Rightarrow> bench_row list" where
  "bench_main pop order = map (bench_case pop order) [(10, 2), (50, 3), (100, 4)]"

subsection \<open>What the benchmark measures\<close>

lemma show_nat_inject [simp]: "show_nat i = show_nat j \<longleftrightarrow> i = j"
  by (metis option.inject parse_digits_show_nat)

lemma token_0: "''token_0'' = token_name 0"
proof -
  have "show_nat 0 = ''0''" by code_simp
  then show ?thesis by (simp add: token_name_def)
qed

lemma successor_differs:
  assumes "i < v" "0 < k" "k < v"
  shows "(i + k) mod (v::nat) \<noteq> i"
proof (cases "i + k < v")
  case False
  then have "(i + k) mod v = i + k - v" using assms by (simp add: mod_if)
  then show ?thesis using False assms by simp
qed (use assms in simp)

lemma filtered_map: "List.map_filter (\<lambda>x. if P x then Some (f x) else None) xs = map f (filter P xs)"
  by (induction xs) (simp_all add: map_filter_simps)

lemma synthetic_row:
  assumes "density < v" "i < v"
  shows "synthetic_pools_of v density i = map (\<lambda>k. synthetic_pool i ((i + k) mod v)) [1..<density + 1]"
proof -
  have "i \<noteq> (i + k) mod v" if "k \<in> set [1..<density + 1]" for k
    using successor_differs [OF assms(2), of k] that assms(1) by force
  then have "filter (\<lambda>k. i \<noteq> (i + k) mod v) [1..<density + 1] = [1..<density + 1]" by (simp add: filter_id_conv)
  then show ?thesis unfolding synthetic_pools_of_def Let_def filtered_map by (simp only:)
qed

lemma synthetic_count:
  assumes "density < v"
  shows "length (synthetic_pools v density) = v * density"
proof -
  have "map length (map (synthetic_pools_of v density) [0..<v]) = replicate v density"
    by (rule nth_equalityI) (simp_all add: synthetic_row [OF assms])
  then show ?thesis by (simp add: synthetic_pools_def length_concat sum_list_replicate)
qed

lemma synthetic_fee: "p \<in> set (synthetic_pools v density) \<Longrightarrow> fee_rate p = 3000"
  by (auto simp: synthetic_pools_def synthetic_pools_of_def List.map_filter_def synthetic_pool_def Let_def split: if_splits)

lemma closing_pool:
  assumes "0 < density" "density < v"
  shows "synthetic_pool (v - 1) 0 \<in> set (synthetic_pools v density)"
proof -
  have last: "v - 1 < v" using assms by simp
  have "synthetic_pool (v - 1) ((v - 1 + 1) mod v) \<in> set (synthetic_pools_of v density (v - 1))"
    unfolding synthetic_row [OF assms(2) last] set_map by (rule imageI) (use assms in auto)
  then show ?thesis using assms by (auto simp: synthetic_pools_def intro!: bexI [of _ "v - 1"])
qed

definition closing_hop :: "nat \<Rightarrow> swap_hop" where
  "closing_hop v = mk_hop (token_name 0) (token_name (v - 1), pool_edge (synthetic_pool (v - 1) 0))"

lemma closing_chain:
  assumes "0 < density" "density < v"
  shows "pool_chain (synthetic_pools v density) (token_name 0) [closing_hop v] (token_name (v - 1))"
    "h_fee_rate (closing_hop v) = 3000"
  using closing_pool [OF assms]
  by (auto simp: closing_hop_def mk_hop_def hop_of_pool_def pool_edge_def synthetic_pool_def intro!: bexI [of _ "synthetic_pool (v - 1) 0"])

lemma chain_fees:
  "pool_chain (synthetic_pools v density) a hs b \<Longrightarrow> path_cost hs = 3100 * length hs \<and> fee_sum hs = 3000 * int (length hs)"
proof (induction hs arbitrary: a)
  case (Cons h hs)
  then have "h_fee_rate h = 3000" by (auto simp: hop_of_pool_def synthetic_fee)
  then show ?case using Cons by force
qed simp

text \<open>What the routing benchmark measures. The edge count it prints is the number of pools of its graph, the
  depth-first searches answer exactly the simple chains within their hop limit, and both shortest-path searches answer a
  single hop: the ring of tokens closes, so that the target is a neighbour of the source in every one of its graphs.\<close>

theorem benchmark_single_hop:
  assumes "binary_heap pop" "set (order (generate_synthetic_graph v density)) = graph_tokens (generate_synthetic_graph v density)"
    "0 < density" "density < v" "3100 * (2 * (v * density) + 1) < 2 ^ 64"
    "3000 * int (length (order (generate_synthetic_graph v density)) + 1) < 2 ^ 63"
  shows "topology (bench_case pop order (v, density)) = (v, length (synthetic_pools v density)) \<and>
    (\<exists>p. path_dijkstra (bench_case pop order (v, density)) = Some (Some p) \<and> length (hops p) = 1) \<and>
    (\<exists>p. path_bf (bench_case pop order (v, density)) = Some (Some (p, False)) \<and> length (hops p) = 1) \<and>
    (\<forall>k \<in> {2, 3, 4}. \<forall>q. q \<in> set (find_all_paths_dfs (generate_synthetic_graph v density) ''token_0'' (token_name (v - 1)) k) \<longleftrightarrow>
       hops q \<noteq> [] \<and> length (hops q) \<le> k \<and> distinct (''token_0'' # map h_output_token (hops q)) \<and>
       pool_chain (synthetic_pools v density) ''token_0'' (hops q) (token_name (v - 1)))"
proof -
  let ?ps = "synthetic_pools v density" and ?a = "token_name 0" and ?b = "token_name (v - 1)"
  let ?g = "generate_synthetic_graph v density"
  have ab: "?a \<noteq> ?b" using assms(3,4) by (simp add: token_name_def)
  have one: "length hs = 1" if "pool_chain ?ps ?a hs ?b" "length hs \<le> 1" for hs
    using that ab by (cases hs) auto
  have fit: "fees_fit ?ps 3000"
    using assms(4,5) by (simp add: fees_fit_def synthetic_fee synthetic_count)
  obtain r where r: "find_shortest_path_dijkstra pop ?g ?a ?b = Some r" "cheapest_route ?g ?a ?b r"
    using binary_heap.dijkstra_correct [OF assms(1) pools_cost_bounded [OF fit]] unfolding generate_synthetic_graph_def by blast
  note closing = closing_chain [OF assms(3,4)]
  have dijkstra: "\<exists>p. r = Some p \<and> length (hops p) = 1"
  proof (cases r)
    case None
    then show ?thesis using r(2) [unfolded None cheapest_route_def generate_synthetic_graph_def hop_chain_build option.case] closing(1) by blast
  next
    case (Some p)
    have p: "pool_chain ?ps ?a (hops p) ?b" "path_cost (hops p) \<le> path_cost [closing_hop v]"
      using r(2) [unfolded Some cheapest_route_def generate_synthetic_graph_def hop_chain_build option.case] closing(1) by blast+
    then show ?thesis using Some one [OF p(1)] chain_fees [OF p(1)] closing(2) by simp
  qed
  have bfit: "bf_fit ?g (order ?g) 3000"
    using pools_bf_fit [OF assms(2) [unfolded generate_synthetic_graph_def], of 3000] assms(6)
    by (simp add: generate_synthetic_graph_def synthetic_fee)
  obtain q where q: "find_shortest_path_bellman_ford (order ?g) ?g ?a ?b = Some q"
    "case q of None \<Rightarrow> \<not> (\<exists>hs. pool_chain ?ps ?a hs ?b)
     | Some (p, neg) \<Rightarrow> pool_chain ?ps ?a (hops p) ?b \<and> \<not> neg \<and> (\<forall>hs. pool_chain ?ps ?a hs ?b \<longrightarrow> fee_sum (hops p) \<le> fee_sum hs)"
    using search_correct [OF bfit, of ?a ?b] unfolding generate_synthetic_graph_def hop_chain_build by blast
  have bf: "\<exists>p. q = Some (p, False) \<and> length (hops p) = 1"
  proof (cases q)
    case None
    then show ?thesis using q(2) [unfolded None option.case] closing(1) by blast
  next
    case (Some pn)
    obtain p neg where pn: "pn = (p, neg)" by (cases pn)
    have p: "q = Some (p, False)" "pool_chain ?ps ?a (hops p) ?b" "fee_sum (hops p) \<le> fee_sum [closing_hop v]"
      using q(2) [unfolded Some pn option.case prod.case] closing(1) Some pn by blast+
    then show ?thesis using one [OF p(2)] chain_fees [OF p(2)] chain_fees [OF closing(1)] by simp
  qed
  have dfs: "x \<in> set (find_all_paths_dfs ?g ?a ?b k) \<longleftrightarrow> hops x \<noteq> [] \<and> length (hops x) \<le> k \<and>
      distinct (?a # map h_output_token (hops x)) \<and> pool_chain ?ps ?a (hops x) ?b" for x k
    unfolding generate_synthetic_graph_def by (auto simp: dfs_paths_iff hop_chain_build path_tokens_def)
  show ?thesis
    unfolding token_0 using dijkstra bf r(1) q(1) dfs
    by (simp add: bench_case_def token_0 Let_def synthetic_count [OF assms(4)])
qed

theorem benchmark_single_hop_witness:
  "\<exists>p. path_dijkstra (bench_case pop_min (\<lambda>_. [''token_0'', ''token_1'']) (2, 1)) = Some (Some p) \<and> length (hops p) = 1"
proof -
  have names: "token_name 0 = ''token_0''" "token_name 1 = ''token_1''" by code_simp+
  have "synthetic_pools 2 1 = [synthetic_pool 0 1, synthetic_pool 1 0]"
    by (simp add: synthetic_pools_def synthetic_pools_of_def map_filter_simps upt_rec numeral_2_eq_2)
  then have "graph_tokens (generate_synthetic_graph 2 1) = set [''token_0'', ''token_1'']"
    unfolding generate_synthetic_graph_def graph_tokens_build
    by (auto simp: active_tokens_def synthetic_pool_def names [simplified])
  from benchmark_single_hop [OF pm.binary_heap_axioms, of "\<lambda>_. [''token_0'', ''token_1'']" 2 1, OF this [symmetric]]
  show ?thesis by simp
qed

end
