(* ===== verification/Schema.thy ===== *)
theory Schema
  imports Services
begin

text \<open>
  \<open>PostgresDb::create_tables\<close> of \<open>src/storage/postgres.rs\<close>: the statements that create the tables and migrate an older
  \<open>pool_discovery_progress\<close>.  The catalog maps a table name to its columns, its primary key and its rows; a row maps a
  column name to the text of its value, and \<open>None\<close> is \<open>NULL\<close>.  The statements run one by one, outside a transaction,
  and each may be refused or lose its reply.
\<close>

subsection \<open>The catalog\<close>

datatype sql_type = VARCHAR nat | SMALLINT | INTEGER | BIGINT | BOOLEAN | TEXT | TIMESTAMPTZ

record column =
  col_name :: string
  col_type :: sql_type
  col_not_null :: bool
  col_default :: "string option"

record table_def =
  tb_columns :: "column list"
  tb_primary_key :: "string list"

type_synonym sql_row = "string \<rightharpoonup> string"

type_synonym catalog = "string \<rightharpoonup> table_def \<times> sql_row list"

definition has_column :: "string \<Rightarrow> table_def \<Rightarrow> bool" where
  "has_column c t \<longleftrightarrow> c \<in> col_name ` set (tb_columns t)"

text \<open>
  The three forms of statement: \<open>CREATE TABLE IF NOT EXISTS\<close>, \<open>ALTER TABLE .. ADD COLUMN IF NOT EXISTS\<close>, and
  \<open>UPDATE .. SET target = source WHERE target IS NULL AND source IS NOT NULL\<close>.
\<close>

datatype ddl =
    Create_Table string table_def
  | Add_Column string column
  | Copy_Column string string string

definition copy_value :: "string \<Rightarrow> string \<Rightarrow> sql_row \<Rightarrow> sql_row" where
  "copy_value target source row = (if row target = None \<and> row source \<noteq> None then row(target := row source) else row)"

fun exec_ddl :: "ddl \<Rightarrow> catalog \<Rightarrow> (catalog, string) outcome" where
  "exec_ddl (Create_Table n t) c = Ok (if c n = None then c(n \<mapsto> (t, [])) else c)"
| "exec_ddl (Add_Column n col) c =
     (case c n of
        None \<Rightarrow> Err ''relation does not exist''
      | Some (t, rows) \<Rightarrow>
          Ok (if has_column (col_name col) t then c
              else c(n \<mapsto> (t\<lparr>tb_columns := tb_columns t @ [col]\<rparr>, map (\<lambda>r. r(col_name col := col_default col)) rows))))"
| "exec_ddl (Copy_Column n target source) c =
     (case c n of
        None \<Rightarrow> Err ''relation does not exist''
      | Some (t, rows) \<Rightarrow>
          if has_column target t \<and> has_column source t then Ok (c(n \<mapsto> (t, map (copy_value target source) rows)))
          else Err ''column does not exist'')"

subsection \<open>The statements\<close>

definition not_null :: "string \<Rightarrow> sql_type \<Rightarrow> column" where
  "not_null n ty = \<lparr>col_name = n, col_type = ty, col_not_null = True, col_default = None\<rparr>"

definition nullable :: "string \<Rightarrow> sql_type \<Rightarrow> column" where
  "nullable n ty = \<lparr>col_name = n, col_type = ty, col_not_null = False, col_default = None\<rparr>"

definition defaulting :: "string \<Rightarrow> sql_type \<Rightarrow> string \<Rightarrow> column" where
  "defaulting n ty d = \<lparr>col_name = n, col_type = ty, col_not_null = True, col_default = Some d\<rparr>"

definition tokens_table :: table_def where
  "tokens_table = \<lparr>tb_columns = [not_null ''address'' (VARCHAR 255), not_null ''symbol'' (VARCHAR 50),
     not_null ''name'' (VARCHAR 255), not_null ''decimals'' SMALLINT], tb_primary_key = [''address'']\<rparr>"

definition pools_table :: table_def where
  "pools_table = \<lparr>tb_columns = [not_null ''pool_id'' (VARCHAR 255), not_null ''dex_name'' (VARCHAR 100),
     not_null ''coin_type_a'' (VARCHAR 255), not_null ''coin_type_b'' (VARCHAR 255), not_null ''sqrt_price'' (VARCHAR 255),
     not_null ''liquidity'' (VARCHAR 255), not_null ''fee_rate'' BIGINT, not_null ''is_paused'' BOOLEAN],
     tb_primary_key = [''pool_id'']\<rparr>"

definition system_config_table :: table_def where
  "system_config_table = \<lparr>tb_columns = [not_null ''key'' (VARCHAR 255), not_null ''value'' (VARCHAR 255)],
     tb_primary_key = [''key'']\<rparr>"

definition pool_tick_data_table :: table_def where
  "pool_tick_data_table = \<lparr>tb_columns = [not_null ''pool_id'' (VARCHAR 255), not_null ''current_tick_index'' INTEGER,
     not_null ''tick_spacing'' INTEGER], tb_primary_key = [''pool_id'']\<rparr>"

definition pool_ticks_table :: table_def where
  "pool_ticks_table = \<lparr>tb_columns = [not_null ''pool_id'' (VARCHAR 255), not_null ''tick_index'' INTEGER,
     not_null ''liquidity_net'' BIGINT], tb_primary_key = [''pool_id'', ''tick_index'']\<rparr>"

definition progress_table :: table_def where
  "progress_table = \<lparr>tb_columns = [not_null ''dex_name'' (VARCHAR 100), not_null ''source_key'' (VARCHAR 512),
     defaulting ''discovery_source'' (VARCHAR 50) ''event_incremental'', nullable ''last_checkpoint'' BIGINT,
     nullable ''page_cursor'' TEXT, defaulting ''backfill_complete'' BOOLEAN ''FALSE'',
     defaulting ''bootstrap_complete'' BOOLEAN ''FALSE'', defaulting ''retention_limited'' BOOLEAN ''FALSE'',
     defaulting ''generation'' BIGINT ''0'', defaulting ''pools_discovered'' BIGINT ''0'',
     defaulting ''updated_at'' TIMESTAMPTZ ''NOW()''], tb_primary_key = [''dex_name'', ''source_key'']\<rparr>"

definition failures_table :: table_def where
  "failures_table = \<lparr>tb_columns = [not_null ''dex_name'' (VARCHAR 100), not_null ''event_id'' (VARCHAR 255),
     nullable ''pool_id'' (VARCHAR 255), not_null ''reason'' TEXT, defaulting ''attempts'' INTEGER ''1'',
     defaulting ''updated_at'' TIMESTAMPTZ ''NOW()''], tb_primary_key = [''dex_name'', ''event_id'']\<rparr>"

text \<open>The statements before the copy, the copy, whose error is discarded, and the last statement.\<close>

definition schema_stmts :: "ddl list" where
  "schema_stmts =
     [Create_Table ''tokens'' tokens_table,
      Create_Table ''pools'' pools_table,
      Create_Table ''system_config'' system_config_table,
      Create_Table ''pool_tick_data'' pool_tick_data_table,
      Add_Column ''pool_tick_data'' (nullable ''fee_growth_global_a'' (VARCHAR 255)),
      Add_Column ''pool_tick_data'' (nullable ''fee_growth_global_b'' (VARCHAR 255)),
      Create_Table ''pool_ticks'' pool_ticks_table,
      Create_Table ''pool_discovery_progress'' progress_table,
      Add_Column ''pool_discovery_progress'' (nullable ''source_key'' (VARCHAR 512)),
      Add_Column ''pool_discovery_progress'' (defaulting ''discovery_source'' (VARCHAR 50) ''event_incremental''),
      Add_Column ''pool_discovery_progress'' (defaulting ''bootstrap_complete'' BOOLEAN ''FALSE''),
      Add_Column ''pool_discovery_progress'' (defaulting ''retention_limited'' BOOLEAN ''FALSE''),
      Add_Column ''pool_discovery_progress'' (defaulting ''generation'' BIGINT ''0'')]"

definition legacy_copy :: ddl where
  "legacy_copy = Copy_Column ''pool_discovery_progress'' ''source_key'' ''event_type''"

definition failures_stmt :: ddl where
  "failures_stmt = Create_Table ''pool_discovery_failures'' failures_table"

fun run_ddl :: "(nat \<Rightarrow> fault) \<Rightarrow> nat \<Rightarrow> ddl list \<Rightarrow> catalog \<Rightarrow> (unit, string) outcome \<times> catalog" where
  "run_ddl fa i [] c = (Ok (), c)"
| "run_ddl fa i (d # ds) c =
     (case exec_stmt (fa i) (exec_ddl d c) c of
        (Ok _, c') \<Rightarrow> run_ddl fa (Suc i) ds c'
      | (Err e, c') \<Rightarrow> (Err e, c')
      | (Panic m, c') \<Rightarrow> (Panic m, c'))"

definition create_tables :: "(nat \<Rightarrow> fault) \<Rightarrow> catalog \<Rightarrow> (unit, string) outcome \<times> catalog" where
  "create_tables fa c =
     (case run_ddl fa 0 schema_stmts c of
        (Ok _, c1) \<Rightarrow>
          let n = length schema_stmts; c2 = snd (exec_stmt (fa n) (exec_ddl legacy_copy c1) c1)
          in run_ddl fa (Suc n) [failures_stmt] c2
      | (Err e, c1) \<Rightarrow> (Err e, c1)
      | (Panic m, c1) \<Rightarrow> (Panic m, c1))"

subsection \<open>Running the statements again\<close>

text \<open>The effect of a statement whose error is ignored.\<close>

definition apply_ddl :: "ddl \<Rightarrow> catalog \<Rightarrow> catalog" where
  "apply_ddl d c = (case exec_ddl d c of Ok c' \<Rightarrow> c' | _ \<Rightarrow> c)"

text \<open>What a structural statement establishes, and what it needs to succeed.\<close>

fun established :: "ddl \<Rightarrow> catalog \<Rightarrow> bool" where
  "established (Create_Table n t) c \<longleftrightarrow> c n \<noteq> None"
| "established (Add_Column n col) c \<longleftrightarrow> (\<exists>t rows. c n = Some (t, rows) \<and> has_column (col_name col) t)"
| "established (Copy_Column n target source) c \<longleftrightarrow> False"

fun runnable :: "ddl \<Rightarrow> catalog \<Rightarrow> bool" where
  "runnable (Create_Table n t) c \<longleftrightarrow> True"
| "runnable (Add_Column n col) c \<longleftrightarrow> c n \<noteq> None"
| "runnable (Copy_Column n target source) c \<longleftrightarrow> False"

lemma established_noop: "established d c \<Longrightarrow> exec_ddl d c = Ok c"
  by (cases d) auto

lemma has_column_add: "has_column x (t\<lparr>tb_columns := tb_columns t @ [col]\<rparr>) \<longleftrightarrow> has_column x t \<or> x = col_name col"
  by (auto simp: has_column_def)

lemma runnable_step: "runnable d c \<Longrightarrow> \<exists>c'. exec_ddl d c = Ok c' \<and> established d c'"
  by (cases d) (auto simp: has_column_add)

lemma ddl_monotone:
  assumes "exec_ddl d c = Ok c'" "established d' c"
  shows "established d' c'"
  using assms by (cases d; cases d') (auto simp: has_column_add split: option.splits if_splits)

lemma established_apply: "established d' c \<Longrightarrow> established d' (apply_ddl d c)"
  using ddl_monotone by (auto simp: apply_ddl_def split: outcome.split)

lemma established_fold: "established d c \<Longrightarrow> established d (fold apply_ddl ds c)"
  by (induction ds arbitrary: c) (simp_all add: established_apply)

lemma established_apply_noop: "established d c \<Longrightarrow> apply_ddl d c = c"
  by (simp add: apply_ddl_def established_noop)

lemma established_fold_noop: "\<forall>d \<in> set ds. established d c \<Longrightarrow> fold apply_ddl ds c = c"
  by (induction ds) (simp_all add: established_apply_noop)

lemma ddl_tables: "exec_ddl d c = Ok c' \<Longrightarrow> c n \<noteq> None \<Longrightarrow> c' n \<noteq> None"
  by (cases d) (auto split: option.splits if_splits)

text \<open>A list in which the table of every added column is created before.\<close>

fun ordered :: "string set \<Rightarrow> ddl list \<Rightarrow> bool" where
  "ordered known [] \<longleftrightarrow> True"
| "ordered known (Create_Table n t # ds) \<longleftrightarrow> ordered (insert n known) ds"
| "ordered known (Add_Column n col # ds) \<longleftrightarrow> n \<in> known \<and> ordered known ds"
| "ordered known (Copy_Column n target source # ds) \<longleftrightarrow> False"

lemma schema_ordered: "ordered {} schema_stmts"
  by (simp add: schema_stmts_def)

lemma ordered_head: "ordered known (d # ds) \<Longrightarrow> known \<subseteq> dom c \<Longrightarrow> runnable d c"
  by (cases d) auto

lemma ordered_tail:
  assumes "ordered known (d # ds)" "known \<subseteq> dom c" "exec_ddl d c = Ok c'"
  obtains known' where "ordered known' ds" "known' \<subseteq> dom c'"
proof (cases d)
  case (Create_Table n t)
  have "insert n known \<subseteq> dom c'" using assms Create_Table ddl_tables [OF assms(3)] by (auto split: if_splits)
  then show thesis using that assms(1) Create_Table by simp
next
  case (Add_Column n col)
  have "known \<subseteq> dom c'" using assms(2) ddl_tables [OF assms(3)] by blast
  then show thesis using that [of known] assms(1) Add_Column by simp
qed (use assms in simp)

text \<open>Whatever fails, a run has carried out a prefix of the statements, and all of them when it succeeds.\<close>

lemma run_ddl_prefix:
  assumes "ordered known ds" "known \<subseteq> dom c" "run_ddl fa i ds c = (r, c')"
  shows "\<exists>k \<le> length ds. c' = fold apply_ddl (take k ds) c \<and> (\<forall>d \<in> set (take k ds). established d c') \<and> (r = Ok () \<longrightarrow> k = length ds)"
  using assms
proof (induction ds arbitrary: known c i)
  case (Cons d ds)
  obtain c1 where c1: "exec_ddl d c = Ok c1" "established d c1"
    using runnable_step [OF ordered_head [OF Cons.prems(1,2)]] by blast
  obtain known' where known': "ordered known' ds" "known' \<subseteq> dom c1"
    using ordered_tail [OF Cons.prems(1,2) c1(1)] by blast
  have one: "apply_ddl d c = c1" by (simp add: apply_ddl_def c1)
  show ?case
  proof (cases "fa i")
    case NoFault
    then have "run_ddl fa (Suc i) ds c1 = (r, c')" using Cons.prems(3) c1 by (simp add: exec_stmt_def)
    from Cons.IH [OF known' this] obtain k where k: "k \<le> length ds" "c' = fold apply_ddl (take k ds) c1"
      "\<forall>d \<in> set (take k ds). established d c'" "r = Ok () \<longrightarrow> k = length ds" by blast
    have "established d c'" unfolding k(2) by (rule established_fold [OF c1(2)])
    then show ?thesis using k one by (intro exI [of _ "Suc k"]) auto
  next
    case (Refused e)
    then show ?thesis using Cons.prems(3) by (intro exI [of _ 0]) (auto simp: exec_stmt_def)
  next
    case (LostReply e)
    then show ?thesis using Cons.prems(3) c1 one by (intro exI [of _ 1]) (auto simp: exec_stmt_def)
  qed
qed simp

definition migrated :: "catalog \<Rightarrow> catalog" where
  "migrated c = apply_ddl failures_stmt (apply_ddl legacy_copy (fold apply_ddl schema_stmts c))"

lemma copy_idem: "apply_ddl (Copy_Column n x y) (apply_ddl (Copy_Column n x y) c) = apply_ddl (Copy_Column n x y) c"
  by (auto simp: apply_ddl_def copy_value_def comp_def split: option.splits outcome.splits)

lemma legacy_idem: "apply_ddl legacy_copy (apply_ddl legacy_copy c) = apply_ddl legacy_copy c"
  by (simp add: legacy_copy_def copy_idem)

lemma copy_create_commute:
  "n \<noteq> m \<Longrightarrow> apply_ddl (Copy_Column n x y) (apply_ddl (Create_Table m t) c) = apply_ddl (Create_Table m t) (apply_ddl (Copy_Column n x y) c)"
  by (auto simp: apply_ddl_def fun_upd_twist split: option.splits)

lemma legacy_after_failures:
  "apply_ddl legacy_copy (apply_ddl failures_stmt c) = apply_ddl failures_stmt (apply_ddl legacy_copy c)"
  by (simp add: legacy_copy_def failures_stmt_def copy_create_commute)

lemma run_ddl_calm:
  "ordered known ds \<Longrightarrow> known \<subseteq> dom c \<Longrightarrow> run_ddl (\<lambda>_. NoFault) i ds c = (Ok (), fold apply_ddl ds c)"
proof (induction ds arbitrary: known c i)
  case (Cons d ds)
  obtain c1 where c1: "exec_ddl d c = Ok c1" using runnable_step [OF ordered_head [OF Cons.prems]] by blast
  obtain known' where "ordered known' ds" "known' \<subseteq> dom c1" using ordered_tail [OF Cons.prems c1] by blast
  from Cons.IH [OF this] show ?case by (simp add: c1 apply_ddl_def)
qed simp

lemma schema_calm: "run_ddl (\<lambda>_. NoFault) 0 schema_stmts c = (Ok (), fold apply_ddl schema_stmts c)"
  by (rule run_ddl_calm [OF schema_ordered]) simp

lemma schema_established: "\<forall>d \<in> set schema_stmts. established d (fold apply_ddl schema_stmts c)"
  using run_ddl_prefix [OF schema_ordered _ schema_calm, of c] by fastforce

lemma failures_run: "run_ddl fa i [failures_stmt] c = (r, c') \<Longrightarrow> c' = c \<or> c' = apply_ddl failures_stmt c"
  by (cases "fa i") (auto simp: failures_stmt_def apply_ddl_def exec_stmt_def)

lemma failures_calm: "run_ddl (\<lambda>_. NoFault) i [failures_stmt] c = (Ok (), apply_ddl failures_stmt c)"
  by (simp add: failures_stmt_def apply_ddl_def)

lemma copy_stmt: "snd (exec_stmt fa (exec_ddl d c) c) = c \<or> snd (exec_stmt fa (exec_ddl d c) c) = apply_ddl d c"
  by (cases fa) (simp_all add: exec_stmt_def apply_ddl_def split: outcome.split)

lemma copy_calm: "snd (exec_stmt NoFault (exec_ddl d c) c) = apply_ddl d c"
  by (simp add: exec_stmt_def apply_ddl_def split: outcome.split)

lemma create_tables_calm: "create_tables (\<lambda>_. NoFault) c = (Ok (), migrated c)"
  by (simp add: create_tables_def schema_calm Let_def copy_calm failures_calm migrated_def del: run_ddl.simps)

lemma schema_again:
  assumes "\<forall>d \<in> set schema_stmts. established d c"
  shows "migrated c = apply_ddl failures_stmt (apply_ddl legacy_copy c)"
  unfolding migrated_def established_fold_noop [OF assms] ..

lemma failures_idem: "apply_ddl failures_stmt (apply_ddl failures_stmt c) = apply_ddl failures_stmt c"
  by (simp add: failures_stmt_def apply_ddl_def)

text \<open>After the structural statements, the copy and the last statement may each have happened or not.\<close>

lemma tail_again:
  assumes "c1 = c \<or> c1 = apply_ddl legacy_copy c" "c2 = c1 \<or> c2 = apply_ddl failures_stmt c1"
  shows "apply_ddl failures_stmt (apply_ddl legacy_copy c2) = apply_ddl failures_stmt (apply_ddl legacy_copy c)"
  using assms by (auto simp: legacy_after_failures failures_idem legacy_idem)

lemma migrated_prefix:
  assumes "\<forall>d \<in> set (take k schema_stmts). established d (fold apply_ddl (take k schema_stmts) c)"
  shows "migrated (fold apply_ddl (take k schema_stmts) c) = migrated c"
proof -
  let ?c = "fold apply_ddl (take k schema_stmts) c"
  have "fold apply_ddl schema_stmts ?c = fold apply_ddl (drop k schema_stmts) (fold apply_ddl (take k schema_stmts) ?c)"
    by (metis append_take_drop_id comp_apply fold_append)
  also have "\<dots> = fold apply_ddl (drop k schema_stmts) ?c" unfolding established_fold_noop [OF assms] ..
  also have "\<dots> = fold apply_ddl schema_stmts c" by (metis append_take_drop_id comp_apply fold_append)
  finally show ?thesis unfolding migrated_def by simp
qed

text \<open>
  C36.  Creating the tables can be interrupted anywhere and started again.  Whatever statements were refused or lost their
  reply, a later run without faults succeeds and leaves exactly the catalog, rows included, that an undisturbed run would
  have left; running it on a finished catalog changes nothing.
\<close>

theorem create_tables_converges:
  assumes "create_tables fa c = (r, c1)"
  shows "create_tables (\<lambda>_. NoFault) c1 = create_tables (\<lambda>_. NoFault) c \<and> fst (create_tables (\<lambda>_. NoFault) c) = Ok () \<and>
    create_tables (\<lambda>_. NoFault) (migrated c) = (Ok (), migrated c)"
proof -
  obtain r0 c0 where run: "run_ddl fa 0 schema_stmts c = (r0, c0)" by fastforce
  obtain k where k: "c0 = fold apply_ddl (take k schema_stmts) c"
    "\<forall>d \<in> set (take k schema_stmts). established d c0" "r0 = Ok () \<longrightarrow> k = length schema_stmts"
    using run_ddl_prefix [OF schema_ordered _ run] by blast
  have start: "migrated c0 = migrated c" using migrated_prefix k(1,2) by simp
  have tail: "migrated c2 = migrated c" if "c0 = fold apply_ddl schema_stmts c"
    "c1' = c0 \<or> c1' = apply_ddl legacy_copy c0" "c2 = c1' \<or> c2 = apply_ddl failures_stmt c1'" for c1' c2
  proof -
    have "\<forall>d \<in> set schema_stmts. established d c2"
      using schema_established [of c] that by (auto simp: established_apply)
    from schema_again [OF this] show ?thesis using tail_again [OF that(2,3)] that(1) by (simp add: migrated_def)
  qed
  have "migrated c1 = migrated c"
  proof (cases r0)
    case (Ok u)
    then have full: "c0 = fold apply_ddl schema_stmts c" using k by simp
    define c' where "c' = snd (exec_stmt (fa (length schema_stmts)) (exec_ddl legacy_copy c0) c0)"
    have "run_ddl fa (Suc (length schema_stmts)) [failures_stmt] c' = (r, c1)"
      using assms run Ok by (simp add: create_tables_def Let_def c'_def del: run_ddl.simps)
    then show ?thesis using tail [OF full] copy_stmt c'_def failures_run by metis
  qed (use assms run start in \<open>simp_all add: create_tables_def\<close>)
  moreover have "migrated (migrated c) = migrated c"
  proof -
    have "\<forall>d \<in> set schema_stmts. established d (migrated c)"
      using schema_established [of c] by (simp add: migrated_def established_apply)
    from schema_again [OF this] show ?thesis
      by (simp add: migrated_def legacy_after_failures failures_idem legacy_idem)
  qed
  ultimately show ?thesis by (simp add: create_tables_calm)
qed

subsection \<open>Migrating an older table\<close>

text \<open>What the structural statements keep of the older table.\<close>

definition legacy_inv :: "table_def \<Rightarrow> sql_row list \<Rightarrow> catalog \<Rightarrow> bool" where
  "legacy_inv t rows c \<longleftrightarrow>
     (\<exists>t' rows'. c ''pool_discovery_progress'' = Some (t', rows') \<and> tb_primary_key t' = tb_primary_key t \<and>
        has_column ''event_type'' t' \<and> map (\<lambda>r. r ''event_type'') rows' = map (\<lambda>r. r ''event_type'') rows \<and>
        (has_column ''source_key'' t' \<longrightarrow> (\<forall>r \<in> set rows'. r ''source_key'' = None)))"

fun structural :: "ddl \<Rightarrow> bool" where
  "structural (Create_Table n t) \<longleftrightarrow> True"
| "structural (Add_Column n col) \<longleftrightarrow> (col_name col = ''source_key'' \<longrightarrow> col_default col = None)"
| "structural (Copy_Column n target source) \<longleftrightarrow> False"

lemma legacy_inv_apply:
  assumes "structural d" "legacy_inv t rows c"
  shows "legacy_inv t rows (apply_ddl d c)"
proof (cases d)
  case (Create_Table n t0)
  then show ?thesis using assms(2) by (auto simp: legacy_inv_def apply_ddl_def)
next
  case (Add_Column n col)
  obtain t' rows' where tab: "c ''pool_discovery_progress'' = Some (t', rows')" "tb_primary_key t' = tb_primary_key t"
    "has_column ''event_type'' t'" "map (\<lambda>r. r ''event_type'') rows' = map (\<lambda>r. r ''event_type'') rows"
    "has_column ''source_key'' t' \<longrightarrow> (\<forall>r \<in> set rows'. r ''source_key'' = None)"
    using assms(2) by (auto simp: legacy_inv_def)
  show ?thesis
  proof (cases "n = ''pool_discovery_progress'' \<and> \<not> has_column (col_name col) t'")
    case True
    then have "col_name col \<noteq> ''event_type''" using tab(3) by auto
    then have "map ((\<lambda>r. r ''event_type'') \<circ> (\<lambda>r. r(col_name col := col_default col))) rows' = map (\<lambda>r. r ''event_type'') rows"
      using tab(4) by (simp add: comp_def)
    then show ?thesis using True tab assms(1) Add_Column by (auto simp: legacy_inv_def apply_ddl_def has_column_add)
  next
    case False
    then have "apply_ddl d c ''pool_discovery_progress'' = c ''pool_discovery_progress''"
      using tab(1) Add_Column by (auto simp: apply_ddl_def split: option.split)
    then show ?thesis using assms(2) by (simp add: legacy_inv_def)
  qed
qed (use assms in simp)

lemma legacy_inv_fold: "\<forall>d \<in> set ds. structural d \<Longrightarrow> legacy_inv t rows c \<Longrightarrow> legacy_inv t rows (fold apply_ddl ds c)"
  by (induction ds arbitrary: c) (simp_all add: legacy_inv_apply)

lemma schema_structural: "\<forall>d \<in> set schema_stmts. structural d"
  by (simp add: schema_stmts_def nullable_def defaulting_def)

lemma copy_value_column:
  assumes "\<forall>r \<in> set rows. r x = None" "x \<noteq> y"
  shows "map (\<lambda>r. r x) (map (copy_value x y) rows) = map (\<lambda>r. r y) rows"
  using assms by (induction rows) (auto simp: copy_value_def)

text \<open>
  A table of an older version, without the column \<open>source_key\<close>.  The migration gives every row that has an \<open>event_type\<close>
  that value as its \<open>source_key\<close>, but leaves the primary key alone, so the conflict target \<open>(dex_name, source_key)\<close> of the
  progress upsert is not the key of the migrated table.
\<close>

theorem legacy_key_not_migrated:
  assumes "c ''pool_discovery_progress'' = Some (t, rows)" "\<not> has_column ''source_key'' t" "has_column ''event_type'' t"
    and "set (tb_primary_key t) \<subseteq> col_name ` set (tb_columns t)"
  obtains t' rows' where "create_tables (\<lambda>_. NoFault) c = (Ok (), migrated c)"
    "migrated c ''pool_discovery_progress'' = Some (t', rows')" "tb_primary_key t' \<noteq> tb_primary_key progress_table"
    "map (\<lambda>r. r ''source_key'') rows' = map (\<lambda>r. r ''event_type'') rows"
proof -
  let ?P = "''pool_discovery_progress''" and ?c = "fold apply_ddl schema_stmts c"
  have "legacy_inv t rows c" using assms(1-3) by (simp add: legacy_inv_def)
  then have "legacy_inv t rows ?c" by (rule legacy_inv_fold [OF schema_structural])
  then obtain t' rows' where tab: "?c ?P = Some (t', rows')" "tb_primary_key t' = tb_primary_key t" "has_column ''event_type'' t'"
    "map (\<lambda>r. r ''event_type'') rows' = map (\<lambda>r. r ''event_type'') rows"
    "has_column ''source_key'' t' \<longrightarrow> (\<forall>r \<in> set rows'. r ''source_key'' = None)"
    by (auto simp: legacy_inv_def)
  have "established (Add_Column ?P (nullable ''source_key'' (VARCHAR 512))) ?c"
    using schema_established [of c] by (simp add: schema_stmts_def del: established.simps fold_simps)
  then have key: "has_column ''source_key'' t'" using tab(1) by (simp add: nullable_def)
  then have "migrated c ?P = Some (t', map (copy_value ''source_key'' ''event_type'') rows')"
    using tab(1,3) by (simp add: migrated_def failures_stmt_def legacy_copy_def apply_ddl_def)
  moreover have "map (\<lambda>r. r ''source_key'') (map (copy_value ''source_key'' ''event_type'') rows') = map (\<lambda>r. r ''event_type'') rows"
    using copy_value_column [of rows' "''source_key''" "''event_type''"] tab(4,5) key by simp
  moreover have "tb_primary_key t' \<noteq> tb_primary_key progress_table"
    using assms(2,4) tab(2) by (auto simp: progress_table_def has_column_def)
  ultimately show thesis using that create_tables_calm by blast
qed

text \<open>Instances.\<close>

theorem create_tables_converges_witness:
  "create_tables (\<lambda>_. NoFault) (snd (create_tables (\<lambda>n. if n = 5 then LostReply ''closed'' else NoFault) Map.empty)) =
     create_tables (\<lambda>_. NoFault) Map.empty"
  using create_tables_converges [of "\<lambda>n. if n = 5 then LostReply ''closed'' else NoFault" Map.empty] by (metis prod.collapse)

end
