(* ===== verification/Clickhouse.thy ===== *)
theory Clickhouse
  imports Db_Writer
begin

text \<open>
  The rest of \<open>src/storage/clickhouse_storage.rs\<close>: creating the table of swap events and reading the newest of them.
  \<open>None\<close> is a table that does not exist.  The server chooses the order of events with the same timestamp: \<open>rows\<close> is the
  order in which it holds the table.
\<close>

definition ch_create_tables :: "fault \<Rightarrow> swap_event list option \<Rightarrow> (unit, string) outcome \<times> swap_event list option" where
  "ch_create_tables fa t =
     (case exec_stmt fa (Ok (Some (case t of None \<Rightarrow> [] | Some evs \<Rightarrow> evs))) t of
        (r, t') \<Rightarrow> (map_err (\<lambda>e. ''ClickHouse create table error: '' @ e) r, t'))"

definition get_swap_events ::
  "fault \<Rightarrow> (swap_event list \<Rightarrow> swap_event list) \<Rightarrow> u64 \<Rightarrow> swap_event list \<Rightarrow> (swap_event list, string) outcome" where
  "get_swap_events fa rows limit evs =
     map_err (\<lambda>e. ''ClickHouse select query error: '' @ e)
       (read_stmt fa (Ok (take (unat limit) (rev (sort_key (\<lambda>ev. unat (se_timestamp ev)) (rows evs))))))"

definition rows_enumerate :: "(swap_event list \<Rightarrow> swap_event list) \<Rightarrow> bool" where
  "rows_enumerate rows \<longleftrightarrow> (\<forall>evs. mset (rows evs) = mset evs)"

text \<open>An element of a descending list is among the first \<open>k\<close> when at most \<open>k\<close> elements are no smaller.\<close>

lemma take_descending:
  fixes f :: "'a \<Rightarrow> nat"
  assumes "sorted_wrt (\<lambda>a b. f b \<le> f a) xs" "x \<in> set xs" "length (filter (\<lambda>y. f x \<le> f y) xs) \<le> k"
  shows "x \<in> set (take k xs)"
proof -
  obtain i where i: "i < length xs" "xs ! i = x" using assms(2) by (auto simp: in_set_conv_nth)
  have "\<forall>y \<in> set (take (Suc i) xs). f x \<le> f y"
  proof
    fix y assume "y \<in> set (take (Suc i) xs)"
    then obtain j where j: "j \<le> i" "y = xs ! j" using i(1) by (auto simp: in_set_conv_nth less_Suc_eq_le)
    show "f x \<le> f y"
      using sorted_wrt_nth_less [OF assms(1), of j i] i j by (cases "j = i") auto
  qed
  then have "length (filter (\<lambda>y. f x \<le> f y) (take (Suc i) xs)) = Suc i" using i(1) by (simp add: filter_id_conv)
  moreover have "length (filter (\<lambda>y. f x \<le> f y) (take (Suc i) xs)) \<le> length (filter (\<lambda>y. f x \<le> f y) xs)"
    by (metis append_take_drop_id filter_append le_add1 length_append)
  ultimately have "i < k" using assms(3) by linarith
  then show ?thesis using i by (auto simp: in_set_conv_nth intro!: exI [of _ i])
qed

text \<open>An event is among the newest \<open>limit\<close> when at most \<open>limit\<close> events, itself included, are as new.\<close>

lemma newest_events:
  assumes "rows_enumerate rows" "get_swap_events fa rows limit evs = Ok got" "ev \<in> set evs"
    and "length (filter (\<lambda>x. se_timestamp ev \<le> se_timestamp x) evs) \<le> unat limit"
  shows "ev \<in> set got"
proof -
  let ?f = "\<lambda>ev. unat (se_timestamp ev)" and ?xs = "rev (sort_key (\<lambda>ev. unat (se_timestamp ev)) (rows evs))"
  have got: "got = take (unat limit) ?xs" using assms(2) by (auto simp: get_swap_events_def read_stmt_def outcome_simps split: fault.splits)
  have m: "mset ?xs = mset evs" using assms(1) by (simp add: rows_enumerate_def)
  have "sorted (map ?f (sort_key ?f (rows evs)))" by simp
  then have "sorted_wrt (\<lambda>a b. ?f b \<le> ?f a) ?xs" by (simp add: sorted_wrt_rev sorted_wrt_map)
  moreover have "ev \<in> set ?xs" using m assms(3) by (metis set_mset_mset)
  moreover have "length (filter (\<lambda>y. ?f ev \<le> ?f y) ?xs) \<le> unat limit"
    using assms(4) m by (metis (no_types, lifting) mset_filter size_mset word_le_nat_alt filter_cong)
  ultimately show ?thesis unfolding got by (rule take_descending)
qed

end
