(* ===== verification/Tool.thy ===== *)
theory Tool
  imports Scanner Schema Clickhouse
begin

text \<open>
  What the command-line tools under \<open>src/bin\<close> share: a run of a tool is an action on the services that also prints.  A
  line of output is a value of a type of the tool's own, with a constructor per \<open>println!\<close> and the printed values as its
  arguments, so that nothing depends on how a value is rendered.  The state adds the output, the PostgreSQL catalog and
  the ClickHouse log to the world of the services.
\<close>

record ('l, 't) tool_state =
  printed :: "'l list"
  tl_world :: "'t world"
  tl_catalog :: catalog
  tl_events :: "swap_event list option"

type_synonym ('a, 'l, 't) tool = "'t world_env \<Rightarrow> ('l, 't) tool_state \<Rightarrow> (('a, string) outcome \<times> ('l, 't) tool_state) option"

named_theorems tool_simps "unfolding of tool actions"

definition tool_lift :: "('a, string) outcome \<Rightarrow> ('a, 'l, 't) tool" where
  "tool_lift r e s = Some (r, s)"

abbreviation tool_return :: "'a \<Rightarrow> ('a, 'l, 't) tool" where
  "tool_return x \<equiv> tool_lift (Ok x)"

definition tool_bind :: "('a, 'l, 't) tool \<Rightarrow> ('a \<Rightarrow> ('b, 'l, 't) tool) \<Rightarrow> ('b, 'l, 't) tool" where
  "tool_bind m f e s =
     (case m e s of
        None \<Rightarrow> None
      | Some (Ok x, s') \<Rightarrow> f x e s'
      | Some (Err err, s') \<Rightarrow> Some (Err err, s')
      | Some (Panic p, s') \<Rightarrow> Some (Panic p, s'))"

definition tool_try :: "('a, 'l, 't) tool \<Rightarrow> (('a, string) outcome, 'l, 't) tool" where
  "tool_try m e s =
     (case m e s of
        None \<Rightarrow> None
      | Some (Panic p, s') \<Rightarrow> Some (Panic p, s')
      | Some (r, s') \<Rightarrow> Some (Ok r, s'))"

definition say :: "'l \<Rightarrow> (unit, 'l, 't) tool" where
  "say l e s = Some (Ok (), s\<lparr>printed := printed s @ [l]\<rparr>)"

definition service :: "('a, 't) act \<Rightarrow> ('a, 'l, 't) tool" where
  "service m e s = map_option (\<lambda>(r, w'). (r, s\<lparr>tl_world := w'\<rparr>)) (m e (tl_world s))"

fun tool_iter :: "('a \<Rightarrow> (unit, 'l, 't) tool) \<Rightarrow> 'a list \<Rightarrow> (unit, 'l, 't) tool" where
  "tool_iter f [] = tool_return ()"
| "tool_iter f (x # xs) = tool_bind (f x) (\<lambda>_. tool_iter f xs)"

fun tool_fold :: "('a \<Rightarrow> 's \<Rightarrow> ('s, 'l, 't) tool) \<Rightarrow> 'a list \<Rightarrow> 's \<Rightarrow> ('s, 'l, 't) tool" where
  "tool_fold f [] acc = tool_return acc"
| "tool_fold f (x # xs) acc = tool_bind (f x acc) (\<lambda>acc'. tool_fold f xs acc')"

text \<open>A statement batch on the catalog and a call of ClickHouse each take one tick of the clock, like the other calls.\<close>

definition tick_tool :: "('l, 't) tool_state \<Rightarrow> ('l, 't) tool_state" where
  "tick_tool s = s\<lparr>tl_world := (tl_world s)\<lparr>w_clock := Suc (w_clock (tl_world s))\<rparr>\<rparr>"

definition tool_create_tables :: "(unit, 'l, 't) tool" where
  "tool_create_tables e s =
     (case create_tables (we_fault e (w_clock (tl_world s))) (tl_catalog s) of
        (r, c) \<Rightarrow> Some (r, (tick_tool s)\<lparr>tl_catalog := c\<rparr>))"

definition tool_events ::
  "((nat \<Rightarrow> fault) \<Rightarrow> swap_event list option \<Rightarrow> ('a, string) outcome \<times> swap_event list option) \<Rightarrow> ('a, 'l, 't) tool" where
  "tool_events f e s =
     (case f (we_fault e (w_clock (tl_world s))) (tl_events s) of (r, t) \<Rightarrow> Some (r, (tick_tool s)\<lparr>tl_events := t\<rparr>))"

definition tool_cache_get ::
  "('t cache_env \<Rightarrow> (nat \<Rightarrow> fault) \<Rightarrow> nat \<Rightarrow> 't redis_kv \<Rightarrow> ('a, string) outcome) \<Rightarrow> ('a, 'l, 't) tool" where
  "tool_cache_get f e s =
     (let w = tl_world s in Some (f (we_cache e) (we_fault e (w_clock w)) (we_now e (w_clock w)) (w_kv w), tick_tool s))"

lemmas [tool_simps] = tool_lift_def tool_bind_def tool_try_def say_def service_def tool_create_tables_def tool_events_def tool_cache_get_def Let_def

lemma tool_bind_Ok:
  "tool_bind m f e s = Some (Ok y, s'') \<longleftrightarrow> (\<exists>x s'. m e s = Some (Ok x, s') \<and> f x e s' = Some (Ok y, s''))"
  by (auto simp: tool_bind_def split: option.splits prod.splits outcome.splits)

lemma tool_return_Ok [simp]: "tool_lift r e s = Some (r', s') \<longleftrightarrow> r = r' \<and> s' = s"
  by (auto simp: tool_lift_def)

lemma say_Ok [simp]: "say l e s = Some (r, s') \<longleftrightarrow> r = Ok () \<and> s' = s\<lparr>printed := printed s @ [l]\<rparr>"
  by (auto simp: say_def)

lemma tool_try_Ok:
  "tool_try m e s = Some (Ok r, s') \<longleftrightarrow> (\<forall>p. r \<noteq> Panic p) \<and> m e s = Some (r, s')"
  by (auto simp: tool_try_def split: option.splits prod.splits outcome.splits)

text \<open>A tool returns when its calls do.\<close>

definition tool_returns :: "'t world_env \<Rightarrow> ('a, 'l, 't) tool \<Rightarrow> bool" where
  "tool_returns e m \<longleftrightarrow> (\<forall>s. m e s \<noteq> None)"

lemma tool_returns_pure:
  "tool_returns e (tool_lift r)" "tool_returns e (say l)" "tool_returns e tool_create_tables"
  "tool_returns e (tool_events f)" "tool_returns e (tool_cache_get g)"
  by (auto simp: tool_returns_def tool_simps split: prod.splits)

lemma tool_returns_service: "returns e m \<Longrightarrow> tool_returns e (service m)"
  by (auto simp: tool_returns_def returns_def service_def)

lemma tool_returns_bind: "tool_returns e m \<Longrightarrow> (\<And>x. tool_returns e (f x)) \<Longrightarrow> tool_returns e (tool_bind m f)"
  by (auto simp: tool_returns_def tool_bind_def split: option.splits outcome.splits)

lemma tool_returns_try: "tool_returns e m \<Longrightarrow> tool_returns e (tool_try m)"
  by (auto simp: tool_returns_def tool_try_def split: option.splits outcome.splits)

lemma tool_returns_iter: "(\<And>x. tool_returns e (f x)) \<Longrightarrow> tool_returns e (tool_iter f xs)"
  by (induction xs) (simp_all add: tool_returns_pure tool_returns_bind)

lemma tool_returns_fold: "(\<And>x a. tool_returns e (f x a)) \<Longrightarrow> tool_returns e (tool_fold f xs a)"
  by (induction xs arbitrary: a) (simp_all add: tool_returns_pure tool_returns_bind)

lemmas tool_returns_rules = tool_returns_pure tool_returns_service tool_returns_bind tool_returns_try tool_returns_iter tool_returns_fold

end
