(* ===== verification/Probe_Discovery.thy ===== *)
theory Probe_Discovery
  imports Tool
begin

text \<open>
  \<open>src/bin/probe_pool_discovery.rs\<close>: the operator's probe of the discovery contracts.  Its \<open>verify\<close> mode decides, per
  exchange, whether the event contract on chain has the required fields, whether pools are found and whether one of them
  can be hydrated.  \<open>modules\<close> is the client's \<open>get_normalized_move_modules\<close>.
\<close>

datatype probe_line =
    P_Range "u64 option" "u64 option"
  | P_Spec string string string
  | P_Objects nat bool
  | P_Pool string
  | P_Event_Type string
  | P_Events nat bool
  | P_Parse_Error string
  | V_Mode bool
  | V_Retention "u64 option" "u64 option"
  | V_Spec string
  | V_Contract_Ok
  | V_Contract_Fail string
  | V_Object_Count nat
  | V_No_Objects
  | V_Collector_Missing string
  | V_Hydrate_Ok string u128 u64
  | V_Hydrate_Skip string u128 u64
  | V_Hydrate_Fail string string
  | V_Not_Hydrated
  | V_Event_Samples u32
  | V_Backfill bool
  | V_Pass
  | V_Fail
  | P_Unknown_Command string
  | P_Usage

subsection \<open>The event contract\<close>

function split_path :: "string \<Rightarrow> string list" where
  "split_path s =
     (case s of
        [] \<Rightarrow> [[]]
      | c # r \<Rightarrow>
          if take 2 s = ''::'' then [] # split_path (drop 2 s)
          else (case split_path r of [] \<Rightarrow> [[c]] | w # ws \<Rightarrow> (c # w) # ws))"
  by pat_completeness auto
termination by (relation "measure length") auto

declare split_path.simps [simp del]

definition struct_fields :: "string \<Rightarrow> json \<Rightarrow> json list option" where
  "struct_fields struct_name module_def =
     Option.bind (jget ''structs'' module_def) (\<lambda>s.
     Option.bind (jget struct_name s) (\<lambda>st.
     Option.bind (jget ''fields'' st) as_array))"

definition verify_event_type :: "dex_discovery_spec \<Rightarrow> json \<Rightarrow> string \<Rightarrow> (unit, string) outcome" where
  "verify_event_type spec modules event_type =
     (case split_path event_type of
        _ # m # struct_name # _ \<Rightarrow>
          bind_outcome (ok_or (jget m modules) (''missing module '' @ m @ '' in package '' @ ds_package_id spec)) (\<lambda>module_def.
          bind_outcome (ok_or (struct_fields struct_name module_def)
              (''missing event struct '' @ struct_name @ '' in module '' @ m)) (\<lambda>flds.
            validate_event_contract_fields spec (List.map_filter (jstr ''name'') flds)))
      | _ \<Rightarrow> Err (''invalid event type: '' @ event_type))"

fun verify_event_types :: "dex_discovery_spec \<Rightarrow> json \<Rightarrow> string list \<Rightarrow> (unit, string) outcome" where
  "verify_event_types spec modules [] = Ok ()"
| "verify_event_types spec modules (t # ts) =
     bind_outcome (verify_event_type spec modules t) (\<lambda>_. verify_event_types spec modules ts)"

definition verify_event_contract ::
  "(string \<Rightarrow> (json, string) outcome) \<Rightarrow> dex_discovery_spec \<Rightarrow> (unit, string) outcome" where
  "verify_event_contract modules spec =
     bind_outcome (modules (ds_package_id spec)) (\<lambda>ms. verify_event_types spec ms (create_pool_event_types spec))"

subsection \<open>Probing one exchange\<close>

definition query_objects :: "string \<Rightarrow> u32 \<Rightarrow> (discovery_object_page, 'l, 't) tool" where
  "query_objects pool_type n =
     tool_bind (service (ask_node (\<lambda>api. api_graphql api DISCOVER_OBJECTS_QUERY (discover_objects_variables pool_type n None)))) (\<lambda>data.
       tool_lift (parse_object_page data ALL_DISCOVERY_SPECS))"

definition query_events :: "string \<Rightarrow> u32 \<Rightarrow> (discovery_page, 'l, 't) tool" where
  "query_events event_type n =
     tool_bind (service (ask_node (\<lambda>api. api_graphql api DISCOVER_EVENTS_QUERY (discover_events_variables event_type n None None)))) (\<lambda>data.
       tool_lift (parse_event_page data ALL_DISCOVERY_SPECS))"

definition probe_event :: "discovery_event_ref \<Rightarrow> (unit, probe_line, 't) tool" where
  "probe_event ev =
     (case er_pool_ref ev of
        Some meta \<Rightarrow> say (P_Pool (pr_pool_id meta))
      | None \<Rightarrow> (case er_parse_error ev of Some err \<Rightarrow> say (P_Parse_Error err) | None \<Rightarrow> tool_return ()))"

definition probe_event_type :: "string \<Rightarrow> (unit, probe_line, 't) tool" where
  "probe_event_type event_type =
     tool_bind (say (P_Event_Type event_type)) (\<lambda>_.
     tool_bind (query_events event_type 3) (\<lambda>page.
     tool_bind (say (P_Events (length (pg_events page)) (pg_has_next_page page))) (\<lambda>_.
       tool_iter probe_event (take 2 (pg_events page)))))"

definition probe_dex :: "string \<Rightarrow> (unit, probe_line, 't) tool" where
  "probe_dex dex =
     tool_bind (tool_lift (ok_or (find (\<lambda>s. to_lowercase (ds_dex_name s) = to_lowercase dex) ALL_DISCOVERY_SPECS)
         (''unknown DEX: '' @ dex))) (\<lambda>spec.
     tool_bind (say (P_Spec (ds_dex_name spec) (ds_package_id spec) (pool_object_type spec))) (\<lambda>_.
     tool_bind (query_objects (pool_object_type spec) 3) (\<lambda>page.
     tool_bind (say (P_Objects (length (op_objects page)) (op_has_next_page page))) (\<lambda>_.
     tool_bind (case op_objects page of [] \<Rightarrow> tool_return () | obj # _ \<Rightarrow> say (P_Pool (or_pool_id obj))) (\<lambda>_.
       tool_iter probe_event_type (create_pool_event_types spec))))))"

subsection \<open>Verification\<close>

text \<open>The loop over the sampled objects: whether one was hydrated, and whether the exchange is still fine.\<close>

fun verify_hydrate :: "bool \<Rightarrow> discovery_object_ref list \<Rightarrow> bool \<Rightarrow> (bool \<times> bool, probe_line, 't) tool" where
  "verify_hydrate strict [] dex_ok = tool_return (False, dex_ok)"
| "verify_hydrate strict (obj # objs) dex_ok =
     (if or_parse_error obj \<noteq> None then verify_hydrate strict objs dex_ok
      else case collector_for_dex_name (or_dex_name obj) of
        None \<Rightarrow> tool_bind (say (V_Collector_Missing (or_dex_name obj))) (\<lambda>_. verify_hydrate strict objs False)
      | Some c \<Rightarrow>
          tool_bind (tool_try (service (ask_node (\<lambda>api. fetch_pool c api (or_pool_id obj))))) (\<lambda>r.
            case r of
              Ok pool \<Rightarrow>
                if 0 < liquidity pool \<and> 0 < fee_rate pool \<and> coin_type_a pool \<noteq> [] then
                  tool_bind (say (V_Hydrate_Ok (pool_id pool) (liquidity pool) (fee_rate pool))) (\<lambda>_. tool_return (True, dex_ok))
                else
                  tool_bind (say (V_Hydrate_Skip (pool_id pool) (liquidity pool) (fee_rate pool))) (\<lambda>_.
                    verify_hydrate strict objs dex_ok)
            | Err err \<Rightarrow>
                tool_bind (say (V_Hydrate_Fail (or_pool_id obj) err)) (\<lambda>_. verify_hydrate strict objs (dex_ok \<and> \<not> strict))
            | Panic p \<Rightarrow> tool_lift (Panic p)))"

text \<open>The samples of the create events: their number, and whether every type has one where the service keeps events.\<close>

definition verify_event_samples ::
  "graphql_available_range \<Rightarrow> string \<Rightarrow> u32 \<times> bool \<Rightarrow> (u32 \<times> bool, probe_line, 't) tool" where
  "verify_event_samples rng event_type acc =
     tool_bind (query_events event_type 1) (\<lambda>page.
       tool_return (fst acc + of_nat (length (pg_events page)),
         snd acc \<and> \<not> (pg_events page = [] \<and> first_checkpoint rng \<noteq> None)))"

text \<open>A failed check prints its line and clears the flag.\<close>

definition demand :: "bool \<Rightarrow> 'l \<Rightarrow> bool \<Rightarrow> (bool, 'l, 't) tool" where
  "demand failed l ok = (if failed then tool_bind (say l) (\<lambda>_. tool_return False) else tool_return ok)"

definition verify_contract ::
  "(string \<Rightarrow> (json, string) outcome) \<Rightarrow> bool \<Rightarrow> dex_discovery_spec \<Rightarrow> (bool, probe_line, 't) tool" where
  "verify_contract modules strict spec =
     (if strict then
        (case verify_event_contract modules spec of
           Ok _ \<Rightarrow> tool_bind (say V_Contract_Ok) (\<lambda>_. tool_return True)
         | Err err \<Rightarrow> tool_bind (say (V_Contract_Fail err)) (\<lambda>_. tool_return False)
         | Panic p \<Rightarrow> tool_lift (Panic p))
      else tool_return True)"

definition verify_dex ::
  "(string \<Rightarrow> (json, string) outcome) \<Rightarrow> bool \<Rightarrow> graphql_available_range \<Rightarrow> dex_discovery_spec \<Rightarrow> bool \<Rightarrow> (bool, probe_line, 't) tool" where
  "verify_dex modules strict rng spec all_ok =
     tool_bind (say (V_Spec (ds_dex_name spec))) (\<lambda>_.
     tool_bind (verify_contract modules strict spec) (\<lambda>contract_ok.
     tool_bind (query_objects (pool_object_type spec) 5) (\<lambda>page.
     tool_bind (say (V_Object_Count (length (op_objects page)))) (\<lambda>_.
     tool_bind (demand (strict \<and> op_objects page = []) V_No_Objects contract_ok) (\<lambda>objects_ok.
     tool_bind (verify_hydrate strict (take 5 (op_objects page)) objects_ok) (\<lambda>hyd.
     tool_bind (demand (strict \<and> \<not> fst hyd) V_Not_Hydrated (snd hyd)) (\<lambda>dex_ok.
     tool_bind (tool_fold (verify_event_samples rng) (create_pool_event_types spec) (0, True)) (\<lambda>samples.
     tool_bind (say (V_Event_Samples (fst samples))) (\<lambda>_.
     tool_bind (say (V_Backfill (snd samples))) (\<lambda>_.
       tool_return (all_ok \<and> dex_ok)))))))))))"

definition verify_all :: "(string \<Rightarrow> (json, string) outcome) \<Rightarrow> bool \<Rightarrow> (bool, probe_line, 't) tool" where
  "verify_all modules strict =
     tool_bind (service (ask_node fetch_graphql_available_range)) (\<lambda>rng.
     tool_bind (say (V_Mode strict)) (\<lambda>_.
     tool_bind (say (V_Retention (first_checkpoint rng) (range_last_checkpoint rng))) (\<lambda>_.
     tool_bind (tool_fold (verify_dex modules strict rng) ALL_DISCOVERY_SPECS True) (\<lambda>all_ok.
     tool_bind (say (if all_ok then V_Pass else V_Fail)) (\<lambda>_. tool_return all_ok)))))"

text \<open>The result of \<open>main\<close> is the exit code; an error it returns is the code \<open>1\<close> of the Rust runtime.\<close>

definition probe_main :: "(string \<Rightarrow> (json, string) outcome) \<Rightarrow> string list \<Rightarrow> (nat, probe_line, 't) tool" where
  "probe_main modules args =
     (case args of
        _ # cmd # rest \<Rightarrow>
          if cmd = ''range'' then
            tool_bind (service (ask_node fetch_graphql_available_range)) (\<lambda>rng.
            tool_bind (say (P_Range (first_checkpoint rng) (range_last_checkpoint rng))) (\<lambda>_. tool_return 0))
          else if cmd = ''all'' then
            tool_bind (tool_iter (\<lambda>spec. probe_dex (ds_dex_name spec)) ALL_DISCOVERY_SPECS) (\<lambda>_. tool_return 0)
          else if cmd = ''dex'' then
            tool_bind (probe_dex (case rest of [] \<Rightarrow> ''Cetus'' | d # _ \<Rightarrow> d)) (\<lambda>_. tool_return 0)
          else if cmd = ''verify'' then
            tool_bind (verify_all modules (''--strict'' \<in> set args)) (\<lambda>ok. tool_return (if ok then 0 else 1))
          else
            tool_bind (say (P_Unknown_Command cmd)) (\<lambda>_. tool_bind (say P_Usage) (\<lambda>_. tool_return 1))
      | _ \<Rightarrow> tool_bind (say P_Usage) (\<lambda>_. tool_return 1))"

subsection \<open>What the verdict means\<close>

definition contract_holds :: "(string \<Rightarrow> (json, string) outcome) \<Rightarrow> dex_discovery_spec \<Rightarrow> bool" where
  "contract_holds modules spec \<longleftrightarrow>
     (\<exists>ms. modules (ds_package_id spec) = Ok ms \<and>
        (\<forall>t \<in> set (create_pool_event_types spec). \<exists>p m st rest module_def flds. split_path t = p # m # st # rest \<and>
           jget m ms = Some module_def \<and> struct_fields st module_def = Some flds \<and>
           set (required_event_fields spec) \<subseteq> set (List.map_filter (jstr ''name'') flds)))"

definition usable_pool :: "pool_state \<Rightarrow> bool" where
  "usable_pool p \<longleftrightarrow> 0 < liquidity p \<and> 0 < fee_rate p \<and> coin_type_a p \<noteq> []"

text \<open>Some object the node lists for the exchange was fetched by its collector with liquidity, a fee and a coin type.\<close>

definition fetched_usable :: "'t world_env \<Rightarrow> discovery_object_ref list \<Rightarrow> bool" where
  "fetched_usable e objs \<longleftrightarrow>
     (\<exists>obj \<in> set objs. \<exists>c n pool. or_parse_error obj = None \<and> collector_for_dex_name (or_dex_name obj) = Some c \<and>
        fetch_pool c (we_api e n) (or_pool_id obj) = Ok pool \<and> usable_pool pool)"

definition exchange_hydrates :: "'t world_env \<Rightarrow> dex_discovery_spec \<Rightarrow> bool" where
  "exchange_hydrates e spec \<longleftrightarrow>
     (\<exists>n data page. api_graphql (we_api e n) DISCOVER_OBJECTS_QUERY (discover_objects_variables (pool_object_type spec) 5 None) = Ok data \<and>
        parse_object_page data ALL_DISCOVERY_SPECS = Ok page \<and> fetched_usable e (take 5 (op_objects page)))"

lemma verify_event_type_Ok:
  "verify_event_type spec ms t = Ok () \<Longrightarrow> \<exists>p m st rest module_def flds. split_path t = p # m # st # rest \<and>
     jget m ms = Some module_def \<and> struct_fields st module_def = Some flds \<and>
     set (required_event_fields spec) \<subseteq> set (List.map_filter (jstr ''name'') flds)"
  by (auto simp: verify_event_type_def outcome_simps validate_event_contract_fields_def require_fields_Ok split: list.splits option.splits)

lemma verify_event_types_Ok:
  "verify_event_types spec ms ts = Ok () \<longleftrightarrow> (\<forall>t \<in> set ts. verify_event_type spec ms t = Ok ())"
  by (induction ts) (auto simp: outcome_simps)

lemma verify_event_contract_Ok: "verify_event_contract modules spec = Ok u \<Longrightarrow> contract_holds modules spec"
  using verify_event_type_Ok unfolding contract_holds_def verify_event_contract_def
  by (fastforce simp: outcome_simps verify_event_types_Ok)

lemma node_service: "service (ask_node f) e s = Some (f (we_api e (w_clock (tl_world s))), tick_tool s)"
  by (simp add: service_def ask_node_def tick_tool_def)

text \<open>An object without a parse error belongs to an exchange that has a collector.\<close>

definition dispatched :: "discovery_object_ref \<Rightarrow> bool" where
  "dispatched obj \<longleftrightarrow> (or_parse_error obj = None \<longrightarrow> collector_for_dex_name (or_dex_name obj) \<noteq> None)"

lemma page_dispatched:
  assumes "parse_object_page data ALL_DISCOVERY_SPECS = Ok page"
  shows "\<forall>obj \<in> set (op_objects page). dispatched obj"
proof -
  have "dispatched (object_ref_of ALL_DISCOVERY_SPECS node)" for node
    using find_spec_collector by (auto simp: dispatched_def object_ref_of_def Let_def split: option.split)
  then show ?thesis using assms by (auto simp: parse_object_page_def outcome_simps)
qed

lemma verify_hydrate_Ok:
  assumes "verify_hydrate strict objs dex_ok e s = Some (Ok (hydrated, ok'), s')"
  shows "(hydrated \<longrightarrow> fetched_usable e objs) \<and> (ok' \<longrightarrow> dex_ok) \<and> (\<not> strict \<and> (\<forall>obj \<in> set objs. dispatched obj) \<longrightarrow> ok' = dex_ok)"
  using assms
proof (induction objs arbitrary: dex_ok s)
  case (Cons obj objs)
  have more: "fetched_usable e objs \<Longrightarrow> fetched_usable e (obj # objs)" by (auto simp: fetched_usable_def)
  show ?case
  proof (cases "or_parse_error obj")
    case (Some err)
    then show ?thesis using Cons.IH [of dex_ok s] Cons.prems more by simp
  next
    case None
    show ?thesis
    proof (cases "collector_for_dex_name (or_dex_name obj)")
      case no: None
      with None Cons.prems obtain s1 where "verify_hydrate strict objs False e s1 = Some (Ok (hydrated, ok'), s')"
        by (auto simp: tool_bind_Ok)
      from Cons.IH [OF this] more no None show ?thesis by (auto simp: dispatched_def)
    next
      case (Some c)
      let ?r = "fetch_pool c (we_api e (w_clock (tl_world s))) (or_pool_id obj)"
      show ?thesis
      proof (cases ?r)
        case (Ok pool)
        show ?thesis
        proof (cases "usable_pool pool")
          case True
          then have "hydrated \<and> ok' = dex_ok"
            using Cons.prems None Some Ok by (auto simp: tool_bind_Ok tool_try_Ok node_service usable_pool_def)
          moreover have "fetched_usable e (obj # objs)" using None Some Ok True unfolding fetched_usable_def by fastforce
          ultimately show ?thesis by simp
        next
          case False
          then obtain s1 where "verify_hydrate strict objs dex_ok e s1 = Some (Ok (hydrated, ok'), s')"
            using Cons.prems None Some Ok by (auto simp: tool_bind_Ok tool_try_Ok node_service usable_pool_def)
          from Cons.IH [OF this] more show ?thesis by auto
        qed
      next
        case (Err err)
        then obtain s1 where "verify_hydrate strict objs (dex_ok \<and> \<not> strict) e s1 = Some (Ok (hydrated, ok'), s')"
          using Cons.prems None Some by (auto simp: tool_bind_Ok tool_try_Ok node_service)
        from Cons.IH [OF this] more show ?thesis by auto
      next
        case (Panic p)
        then show ?thesis using Cons.prems None Some by (auto simp: tool_bind_Ok tool_try_Ok node_service)
      qed
    qed
  qed
qed simp

lemma query_objects_Ok:
  "query_objects ty n e s = Some (Ok page, s') \<Longrightarrow>
   \<exists>m data. api_graphql (we_api e m) DISCOVER_OBJECTS_QUERY (discover_objects_variables ty n None) = Ok data \<and>
     parse_object_page data ALL_DISCOVERY_SPECS = Ok page"
  unfolding query_objects_def tool_bind_Ok node_service tool_return_Ok by (metis option.inject prod.inject)

lemma demand_Ok: "demand failed l ok e s = Some (Ok b, s') \<Longrightarrow> b \<longleftrightarrow> ok \<and> \<not> failed"
  by (auto simp: demand_def tool_bind_Ok split: if_splits)

lemma verify_contract_Ok:
  "verify_contract modules strict spec e s = Some (Ok b, s') \<Longrightarrow> (strict \<and> b \<longrightarrow> contract_holds modules spec) \<and> (\<not> strict \<longrightarrow> b)"
  using verify_event_contract_Ok [of modules spec]
  by (auto simp: verify_contract_def tool_bind_Ok split: if_splits outcome.splits)

lemma verify_dex_Ok:
  assumes "verify_dex modules strict rng spec all_ok e s = Some (Ok b, s')"
  shows "(b \<longrightarrow> all_ok) \<and> (strict \<and> b \<longrightarrow> contract_holds modules spec \<and> exchange_hydrates e spec) \<and> (\<not> strict \<longrightarrow> b = all_ok)"
proof -
  obtain contract_ok page objects_ok hyd dex_ok s1 s2 s3 s4 s5 s6 s7 s8 where steps:
    "verify_contract modules strict spec e s1 = Some (Ok contract_ok, s2)"
    "query_objects (pool_object_type spec) 5 e s2 = Some (Ok page, s3)"
    "demand (strict \<and> op_objects page = []) V_No_Objects contract_ok e s4 = Some (Ok objects_ok, s5)"
    "verify_hydrate strict (take 5 (op_objects page)) objects_ok e s5 = Some (Ok hyd, s6)"
    "demand (strict \<and> \<not> fst hyd) V_Not_Hydrated (snd hyd) e s6 = Some (Ok dex_ok, s7)" "b = (all_ok \<and> dex_ok)"
    using assms unfolding verify_dex_def tool_bind_Ok say_Ok tool_return_Ok by fast
  obtain m data where page: "api_graphql (we_api e m) DISCOVER_OBJECTS_QUERY (discover_objects_variables (pool_object_type spec) 5 None) = Ok data"
    "parse_object_page data ALL_DISCOVERY_SPECS = Ok page" using query_objects_Ok [OF steps(2)] by blast
  have disp: "\<forall>obj \<in> set (take 5 (op_objects page)). dispatched obj"
    using page_dispatched [OF page(2)] by (meson in_set_takeD)
  have hyd: "(fst hyd \<longrightarrow> fetched_usable e (take 5 (op_objects page))) \<and> (snd hyd \<longrightarrow> objects_ok) \<and> (\<not> strict \<longrightarrow> snd hyd = objects_ok)"
    using verify_hydrate_Ok [of strict "take 5 (op_objects page)" objects_ok e s5 "fst hyd" "snd hyd" s6] steps(4) disp by simp
  have ok: "dex_ok \<longleftrightarrow> snd hyd \<and> \<not> (strict \<and> \<not> fst hyd)" "objects_ok \<longleftrightarrow> contract_ok \<and> \<not> (strict \<and> op_objects page = [])"
    using demand_Ok [OF steps(5)] demand_Ok [OF steps(3)] by simp_all
  have "strict \<and> b \<Longrightarrow> exchange_hydrates e spec"
    using hyd ok steps(6) page unfolding exchange_hydrates_def by blast
  then show ?thesis using hyd ok steps(6) verify_contract_Ok [OF steps(1)] by blast
qed

lemma verify_specs_Ok:
  "tool_fold (verify_dex modules strict rng) specs all_ok e s = Some (Ok b, s') \<Longrightarrow>
   (b \<longrightarrow> all_ok) \<and> (strict \<and> b \<longrightarrow> (\<forall>spec \<in> set specs. contract_holds modules spec \<and> exchange_hydrates e spec)) \<and> (\<not> strict \<longrightarrow> b = all_ok)"
proof (induction specs arbitrary: all_ok s)
  case (Cons spec specs)
  then obtain b1 s1 where "verify_dex modules strict rng spec all_ok e s = Some (Ok b1, s1)"
    "tool_fold (verify_dex modules strict rng) specs b1 e s1 = Some (Ok b, s')" by (auto simp: tool_bind_Ok)
  from verify_dex_Ok [OF this(1)] Cons.IH [OF this(2)] show ?case by auto
qed simp

lemma verify_hydrate_returns: "tool_returns e (verify_hydrate strict objs dex_ok)"
  by (induction objs arbitrary: dex_ok)
    (auto intro!: tool_returns_rules returns_rules split: option.split outcome.split)

lemma verify_all_returns: "tool_returns e (verify_all modules strict)"
  unfolding verify_all_def verify_dex_def verify_contract_def demand_def query_objects_def verify_event_samples_def query_events_def
  by (auto intro!: tool_returns_rules returns_rules verify_hydrate_returns split: outcome.split)

text \<open>
  C38.  The verification of the discovery contracts returns.  A strict run that passes has, for every registered exchange,
  found all required fields of its create events on chain and fetched a listed pool with liquidity, a fee and a coin type.
  Without \<open>--strict\<close> every run that ends without a node or parse error passes, whatever the node listed.  The last line
  printed is the verdict.
\<close>

theorem verify_verdict:
  "\<exists>r s'. verify_all modules strict e s = Some (r, s') \<and>
    (\<forall>b. r = Ok b \<longrightarrow> (strict \<and> b \<longrightarrow> (\<forall>spec \<in> set ALL_DISCOVERY_SPECS. contract_holds modules spec \<and> exchange_hydrates e spec)) \<and>
      (\<not> strict \<longrightarrow> b) \<and> last (printed s') = (if b then V_Pass else V_Fail))"
proof -
  obtain r s' where run: "verify_all modules strict e s = Some (r, s')"
    using verify_all_returns [of e modules strict] unfolding tool_returns_def by fastforce
  have "(strict \<and> b \<longrightarrow> (\<forall>spec \<in> set ALL_DISCOVERY_SPECS. contract_holds modules spec \<and> exchange_hydrates e spec)) \<and>
      (\<not> strict \<longrightarrow> b) \<and> last (printed s') = (if b then V_Pass else V_Fail)" if ok: "r = Ok b" for b
  proof -
    obtain rng s1 s2 where steps: "tool_fold (verify_dex modules strict rng) ALL_DISCOVERY_SPECS True e s1 = Some (Ok b, s2)"
      "s' = s2\<lparr>printed := printed s2 @ [if b then V_Pass else V_Fail]\<rparr>"
      using run unfolding ok verify_all_def tool_bind_Ok say_Ok tool_return_Ok by fast
    show ?thesis using verify_specs_Ok [OF steps(1)] steps(2) by simp
  qed
  with run show ?thesis by blast
qed

text \<open>A node that lists nothing passes the verification that is not strict.\<close>

definition quiet_data :: json where
  "quiet_data = JObj [(''serviceConfig'', JObj [(''availableRange'', JObj [])]), (''objects'', JObj []), (''events'', JObj [])]"

definition quiet_env :: "blob world_env" where
  "quiet_env = calm_env (dead_api\<lparr>api_graphql := \<lambda>_ _. Ok quiet_data\<rparr>) [] []"

definition quiet_start :: "(probe_line, blob) tool_state" where
  "quiet_start = \<lparr>printed = [], tl_world = world_of empty_db, tl_catalog = Map.empty, tl_events = None\<rparr>"

lemma quiet_queries:
  "query_objects ty n quiet_env s = Some (Ok \<lparr>op_objects = [], op_has_next_page = False, op_end_cursor = None\<rparr>, tick_tool s)"
  "query_events t n quiet_env s = Some (Ok \<lparr>pg_events = [], pg_has_next_page = False, pg_end_cursor = None\<rparr>, tick_tool s)"
  by (simp_all add: query_objects_def query_events_def tool_bind_def node_service quiet_env_def calm_env_def quiet_data_def
      parse_object_page_def parse_event_page_def page_nodes_def page_has_next_def page_end_cursor_def jpath_def List.map_filter_def tool_lift_def)

lemma quiet_samples: "\<exists>acc' s'. tool_fold (verify_event_samples rng) ts acc quiet_env s = Some (Ok acc', s')"
  by (induction ts arbitrary: acc s) (simp_all add: verify_event_samples_def tool_bind_def quiet_queries tool_lift_def)

lemma quiet_dex: "\<exists>s'. verify_dex modules False rng spec ok quiet_env s = Some (Ok ok, s')"
proof -
  obtain acc' s' where "tool_fold (verify_event_samples rng) (create_pool_event_types spec) (0, True) quiet_env
      (tick_tool (s\<lparr>printed := printed s @ [V_Spec (ds_dex_name spec)]\<rparr>)\<lparr>printed := printed (tick_tool (s\<lparr>printed := printed s @ [V_Spec (ds_dex_name spec)]\<rparr>)) @ [V_Object_Count 0]\<rparr>) =
      Some (Ok acc', s')" using quiet_samples by blast
  then show ?thesis
    by (simp add: verify_dex_def verify_contract_def demand_def tool_bind_def quiet_queries tool_lift_def say_def)
qed

lemma quiet_specs: "\<exists>s'. tool_fold (verify_dex modules False rng) specs ok quiet_env s = Some (Ok ok, s')"
proof (induction specs arbitrary: s)
  case (Cons spec specs)
  obtain s1 where "verify_dex modules False rng spec ok quiet_env s = Some (Ok ok, s1)" using quiet_dex by blast
  with Cons.IH [of s1] show ?case by (simp add: tool_bind_def)
qed (simp add: tool_lift_def)

lemma quiet_pass: "\<exists>s'. verify_all modules False quiet_env quiet_start = Some (Ok True, s')"
proof -
  have rng: "fetch_graphql_available_range (we_api quiet_env n) = Ok \<lparr>first_checkpoint = None, range_last_checkpoint = None\<rparr>" for n
    by (simp add: fetch_graphql_available_range_def quiet_env_def calm_env_def quiet_data_def jpath_def)
  define s0 where "s0 = (tick_tool quiet_start)\<lparr>printed := [V_Mode False, V_Retention None None]\<rparr>"
  obtain s2 where "tool_fold (verify_dex modules False \<lparr>first_checkpoint = None, range_last_checkpoint = None\<rparr>)
      ALL_DISCOVERY_SPECS True quiet_env s0 = Some (Ok True, s2)" using quiet_specs by blast
  then show ?thesis
    by (simp add: verify_all_def tool_bind_def node_service rng say_def tool_lift_def s0_def tick_tool_def quiet_start_def)
qed

text \<open>A chain on which every exchange lists a pool of its own type and has its create events.\<close>

definition rich_node :: "string \<Rightarrow> json" where
  "rich_node pool_type = JObj [(''address'', JStr ''0xp''),
     (''contents'', JObj [(''type'', JObj [(''repr'', JStr (pool_type @ ''<A, B>''))])])]"

definition rich_data :: "json \<Rightarrow> json" where
  "rich_data vars = JObj [(''serviceConfig'', JObj [(''availableRange'', JObj [])]),
     (''objects'', JObj [(''nodes'', JArr [rich_node (case jstr ''type'' vars of Some t \<Rightarrow> t | None \<Rightarrow> [])])]), (''events'', JObj [])]"

definition rich_pool :: json where
  "rich_pool = JObj [(''data'', JObj [(''content'', JObj [(''type'', JStr ''0x1::pool::Pool<A, B>''),
     (''fields'', JObj [(''current_sqrt_price'', JStr ''7''), (''sqrt_price'', JStr ''7''), (''liquidity'', JStr ''5''),
        (''fee_rate'', JStr ''3''), (''is_pause'', JBool False)])])])]"

definition rich_api :: sui_api where
  "rich_api = dead_api\<lparr>api_graphql := \<lambda>_ vars. Ok (rich_data vars), api_get_object := \<lambda>_. Ok rich_pool\<rparr>"

definition rich_env :: "blob world_env" where
  "rich_env = calm_env rich_api [] []"

definition event_struct :: json where
  "event_struct = JObj [(''fields'', JArr (map (\<lambda>f. JObj [(''name'', JStr f)])
     [''pool_id'', ''pool'', ''coin_type_a'', ''coin_type_b'', ''type_x'', ''type_y'']))]"

definition rich_modules :: "string \<Rightarrow> (json, string) outcome" where
  "rich_modules package =
     (let m = JObj [(''structs'', JObj [(''CreatePoolEvent'', event_struct), (''PoolCreatedEvent'', event_struct)])]
      in Ok (JObj [(''factory'', m), (''pool_factory'', m), (''create_pool'', m)]))"

lemma rich_contracts: "list_all (\<lambda>spec. verify_event_contract rich_modules spec = Ok ()) ALL_DISCOVERY_SPECS"
  by code_simp

lemma rich_refs:
  "list_all (\<lambda>spec. or_parse_error (object_ref_of ALL_DISCOVERY_SPECS (rich_node (pool_object_type spec))) = None \<and>
     or_dex_name (object_ref_of ALL_DISCOVERY_SPECS (rich_node (pool_object_type spec))) = ds_dex_name spec) ALL_DISCOVERY_SPECS"
  by code_simp

lemma rich_fetch: "\<exists>pool. fetch_pool c rich_api pid = Ok pool \<and> usable_pool pool"
proof -
  have "parse_coin_types_from_pool_type ''0x1::pool::Pool<A, B>'' = Ok (''A'', ''B'')" by code_simp
  then show ?thesis
    by (cases c)
      (simp_all add: fetch_pool_defs rich_api_def rich_pool_def parse_move_object_response_def jpath_def jstr_def
        cetus_parse_json_response_def turbos_parse_json_response_def magma_parse_json_response_def momentum_parse_json_response_def
        turbos_parse_coin_types_def magma_parse_coin_types_def momentum_parse_coin_types_def demo_coin_types
        u128_string_field_def demo_numbers turbos_fee_rate_def turbos_is_paused_def magma_sqrt_price_def magma_fee_rate_def
        momentum_sqrt_price_def momentum_fee_rate_def fee_value_def flag_or_false_def usable_pool_def)
qed

lemma rich_events: "query_events t n rich_env s = Some (Ok \<lparr>pg_events = [], pg_has_next_page = False, pg_end_cursor = None\<rparr>, tick_tool s)"
  by (simp add: query_events_def tool_bind_def node_service rich_env_def rich_api_def calm_env_def rich_data_def
      parse_event_page_def page_nodes_def page_has_next_def page_end_cursor_def jpath_def List.map_filter_def tool_lift_def)

lemma rich_samples: "\<exists>acc' s'. tool_fold (verify_event_samples rng) ts acc rich_env s = Some (Ok acc', s')"
  by (induction ts arbitrary: acc s) (simp_all add: verify_event_samples_def tool_bind_def rich_events tool_lift_def)

lemma rich_objects:
  "query_objects ty n rich_env s = Some (Ok \<lparr>op_objects = [object_ref_of ALL_DISCOVERY_SPECS (rich_node ty)],
     op_has_next_page = False, op_end_cursor = None\<rparr>, tick_tool s)"
  by (simp add: query_objects_def tool_bind_def node_service rich_env_def rich_api_def calm_env_def rich_data_def
      discover_objects_variables_def parse_object_page_def page_nodes_def page_has_next_def page_end_cursor_def jpath_def jstr_def tool_lift_def)

lemma rich_hydrate:
  assumes "spec \<in> set ALL_DISCOVERY_SPECS"
  shows "\<exists>s'. verify_hydrate True [object_ref_of ALL_DISCOVERY_SPECS (rich_node (pool_object_type spec))] ok rich_env s = Some (Ok (True, ok), s')"
proof -
  obtain c where c: "collector_for_dex_name (ds_dex_name spec) = Some c"
    using assms specs_have_collectors by (auto simp: list_all_iff)
  have api: "we_api rich_env n = rich_api" for n by (simp add: rich_env_def calm_env_def)
  define obj where "obj = object_ref_of ALL_DISCOVERY_SPECS (rich_node (pool_object_type spec))"
  have obj: "or_parse_error obj = None" "or_dex_name obj = ds_dex_name spec"
    using rich_refs assms unfolding obj_def list_all_iff by blast+
  obtain pool where "fetch_pool c rich_api (or_pool_id obj) = Ok pool" "usable_pool pool" using rich_fetch by blast
  then show ?thesis unfolding obj_def [symmetric]
    by (simp add: obj c tool_bind_def tool_try_def node_service api usable_pool_def say_def tool_lift_def)
qed

lemma rich_dex:
  assumes "spec \<in> set ALL_DISCOVERY_SPECS"
  shows "\<exists>s'. verify_dex rich_modules True rng spec ok rich_env s = Some (Ok ok, s')"
proof -
  let ?ref = "object_ref_of ALL_DISCOVERY_SPECS (rich_node (pool_object_type spec))"
  have contract: "verify_event_contract rich_modules spec = Ok ()" using rich_contracts assms by (simp add: list_all_iff)
  obtain h where h: "\<And>s. verify_hydrate True [?ref] True rich_env s = Some (Ok (True, True), h s)"
    using rich_hydrate [OF assms] by metis
  obtain f g where g: "\<And>s. tool_fold (verify_event_samples rng) (create_pool_event_types spec) (0, True) rich_env s = Some (Ok (f s), g s)"
    using rich_samples by metis
  show ?thesis
    by (simp add: verify_dex_def verify_contract_def contract demand_def tool_bind_def rich_objects h g tool_lift_def say_def
        del: verify_hydrate.simps)
qed

lemma rich_specs: "set specs \<subseteq> set ALL_DISCOVERY_SPECS \<Longrightarrow>
  \<exists>s'. tool_fold (verify_dex rich_modules True rng) specs ok rich_env s = Some (Ok ok, s')"
proof (induction specs arbitrary: s)
  case (Cons spec specs)
  then obtain s1 where "verify_dex rich_modules True rng spec ok rich_env s = Some (Ok ok, s1)" using rich_dex by (metis list.set_intros(1) subsetD)
  with Cons show ?case by (simp add: tool_bind_def)
qed (simp add: tool_lift_def)

lemma rich_pass: "\<exists>s'. verify_all rich_modules True rich_env quiet_start = Some (Ok True, s')"
proof -
  have rng: "fetch_graphql_available_range (we_api rich_env n) = Ok \<lparr>first_checkpoint = None, range_last_checkpoint = None\<rparr>" for n
    by (simp add: fetch_graphql_available_range_def rich_env_def calm_env_def rich_api_def rich_data_def jpath_def)
  define s0 where "s0 = (tick_tool quiet_start)\<lparr>printed := [V_Mode True, V_Retention None None]\<rparr>"
  obtain s2 where "tool_fold (verify_dex rich_modules True \<lparr>first_checkpoint = None, range_last_checkpoint = None\<rparr>)
      ALL_DISCOVERY_SPECS True rich_env s0 = Some (Ok True, s2)" using rich_specs [OF order_refl] by blast
  then show ?thesis
    by (simp add: verify_all_def tool_bind_def node_service rng say_def tool_lift_def s0_def tick_tool_def quiet_start_def)
qed

theorem verify_verdict_witness:
  "(\<exists>s'. verify_all rich_modules True rich_env quiet_start = Some (Ok True, s') \<and> last (printed s') = V_Pass \<and>
     (\<forall>spec \<in> set ALL_DISCOVERY_SPECS. contract_holds rich_modules spec \<and> exchange_hydrates rich_env spec)) \<and>
   (\<exists>s'. verify_all (\<lambda>_. Err ''down'') False quiet_env quiet_start = Some (Ok True, s') \<and> last (printed s') = V_Pass)"
proof (intro conjI)
  obtain s' where "verify_all rich_modules True rich_env quiet_start = Some (Ok True, s')" using rich_pass by blast
  with verify_verdict [of rich_modules True rich_env quiet_start]
  show "\<exists>s'. verify_all rich_modules True rich_env quiet_start = Some (Ok True, s') \<and> last (printed s') = V_Pass \<and>
     (\<forall>spec \<in> set ALL_DISCOVERY_SPECS. contract_holds rich_modules spec \<and> exchange_hydrates rich_env spec)" by auto
  obtain s' where "verify_all (\<lambda>_. Err ''down'') False quiet_env quiet_start = Some (Ok True, s')" using quiet_pass by blast
  with verify_verdict [of "\<lambda>_. Err ''down''" False quiet_env quiet_start]
  show "\<exists>s'. verify_all (\<lambda>_. Err ''down'') False quiet_env quiet_start = Some (Ok True, s') \<and> last (printed s') = V_Pass" by auto
qed

end
