(* ===== verification/Probe_Ticks.thy ===== *)
theory Probe_Ticks
  imports Tool "HOL-Library.List_Lexorder"
begin

text \<open>
  The tick probe, \<open>src/bin/probe_ticks.rs\<close>: it prints what a pool object and its dynamic fields hold on chain.  Text is a
  list of UTF-8 bytes: \<open>&s[..n]\<close> panics when byte \<open>n\<close> continues a character and \<open>chars()\<close> groups the bytes of a
  character.  \<open>render\<close> is \<open>serde_json::to_string\<close>.
\<close>

subsection \<open>Text and pointers\<close>

definition continuation :: "char \<Rightarrow> bool" where
  "continuation c \<longleftrightarrow> (of_char c :: nat) div 64 = 2"

definition str_prefix :: "nat \<Rightarrow> string \<Rightarrow> (string, string) outcome" where
  "str_prefix n s =
     (if length s < n \<or> n < length s \<and> continuation (s ! n) then Panic ''not a char boundary'' else Ok (take n s))"

fun take_chars :: "nat \<Rightarrow> string \<Rightarrow> string" where
  "take_chars n [] = []"
| "take_chars n (c # cs) =
     (if continuation c then c # take_chars n cs
      else case n of 0 \<Rightarrow> [] | Suc m \<Rightarrow> c # take_chars m cs)"

fun split_slash :: "string \<Rightarrow> string list" where
  "split_slash [] = [[]]"
| "split_slash (c # cs) =
     (if c = CHR ''/'' then [] # split_slash cs else case split_slash cs of t # ts \<Rightarrow> (c # t) # ts | [] \<Rightarrow> [[c]])"

fun replace_tilde :: "char \<Rightarrow> char \<Rightarrow> string \<Rightarrow> string" where
  "replace_tilde d r (c # c' # cs) =
     (if c = CHR ''~'' \<and> c' = d then r # replace_tilde d r cs else c # replace_tilde d r (c' # cs))"
| "replace_tilde d r cs = cs"

definition parse_index :: "string \<Rightarrow> nat option" where
  "parse_index s =
     (if take 1 s = ''+'' \<or> take 1 s = ''0'' \<and> length s \<noteq> 1 then None else map_option unat (parse_u64 s))"

fun pointer_step :: "string \<Rightarrow> json \<Rightarrow> json option" where
  "pointer_step tok (JObj kvs) = map_of kvs tok"
| "pointer_step tok (JArr vs) = Option.bind (parse_index tok) (\<lambda>i. if i < length vs then Some (vs ! i) else None)"
| "pointer_step tok v = None"

text \<open>\<open>Value::pointer\<close>: the empty pointer is the whole value, any other one starts with a slash.\<close>

definition pointer :: "string \<Rightarrow> json \<Rightarrow> json option" where
  "pointer p v =
     (case p of
        [] \<Rightarrow> Some v
      | c # rest \<Rightarrow>
          if c = CHR ''/''
          then fold (\<lambda>tok r. Option.bind r (pointer_step (replace_tilde (CHR ''0'') (CHR ''~'') (replace_tilde (CHR ''1'') (CHR ''/'') tok))))
                 (split_slash rest) (Some v)
          else None)"

subsection \<open>Printing\<close>

datatype name_val = N_Bits int int | N_Text string | N_Unknown

datatype tick_line =
    K_Usage
  | K_Blank
  | K_Title string
  | K_Pool string
  | K_Rpc string
  | K_Type string
  | K_Keys "string list"
  | K_Highlight string string
  | K_Cross_Raw int u32 nat
  | K_Cross_Mate int
  | K_Fees "u128 option" "u128 option"
  | K_Fee_Error string
  | K_Fields string nat
  | K_Field string "name_val option" string string
  | K_Unknown string
  | K_Tick_Map string
  | K_I32_Type string
  | K_Sample int string
  | K_Sample_Error int string
  | K_Skip_List string
  | K_Table string
  | K_Bitmap string
  | K_Summary
  | K_Encoding string
  | K_Storage string

definition MAX_DF_SAMPLE :: u32 where "MAX_DF_SAMPLE = 8"

definition tool_partial :: "'a option \<Rightarrow> ('a, 'l, 't) tool" where
  "tool_partial r e s = map_option (\<lambda>x. (Ok x, s)) r"

fun field_keys :: "json \<Rightarrow> string list" where
  "field_keys (JObj kvs) = sort_key (map (of_char :: char \<Rightarrow> nat)) (remdups (map fst kvs))"
| "field_keys v = []"

definition highlights :: "string \<Rightarrow> string list" where
  "highlights dex =
     (if dex = ''turbos'' then
        [''tick_current_index'', ''tick_spacing'', ''tick_map'', ''sqrt_price'', ''fee_growth_global_a'', ''fee_growth_global_b'']
      else if dex = ''magma'' then
        [''current_tick_index'', ''tick_spacing'', ''tick_manager'', ''current_sqrt_price'', ''fee_growth_global_a'', ''fee_growth_global_b'']
      else if dex = ''momentum'' then
        [''tick_index'', ''tick_spacing'', ''ticks'', ''tick_bitmap'', ''sqrt_price'', ''fee_growth_global_x'', ''fee_growth_global_y'']
      else
        [''current_tick_index'', ''tick_spacing'', ''ticks_manager'', ''current_sqrt_price'', ''fee_growth_global_a'', ''fee_growth_global_b''])"

definition trimmed :: "string \<Rightarrow> (string, string) outcome" where
  "trimmed snippet =
     (if 220 < length snippet then bind_outcome (str_prefix 220 snippet) (\<lambda>s. Ok (s @ map char_of [226 :: nat, 128, 166]))
      else Ok snippet)"

definition print_highlight :: "(json \<Rightarrow> string) \<Rightarrow> json \<Rightarrow> string \<Rightarrow> (unit, tick_line, 't) tool" where
  "print_highlight render flds key =
     (case jget key flds of
        None \<Rightarrow> tool_return ()
      | Some v \<Rightarrow> tool_bind (tool_lift (trimmed (render v))) (\<lambda>t. say (K_Highlight key t)))"

definition cross_check :: "json \<Rightarrow> (unit, tick_line, 't) tool" where
  "cross_check flds =
     (case parse_raw_tick_index flds [''tick_current_index'', ''tick_index''] of
        Ok current \<Rightarrow>
          (case parse_u32_field flds [''tick_spacing''] of
             Ok spacing \<Rightarrow>
               tool_bind (tool_partial (aligned_ticks_in_window current (wrap_i32 (uint spacing)) 200)) (\<lambda>aligned.
                 say (K_Cross_Raw current spacing (length aligned)))
           | _ \<Rightarrow> tool_return ())
      | _ \<Rightarrow> (case parse_cetus_tick_index flds of Ok current \<Rightarrow> say (K_Cross_Mate current) | _ \<Rightarrow> tool_return ()))"

definition print_tick_related_fields :: "(json \<Rightarrow> string) \<Rightarrow> string \<Rightarrow> json \<Rightarrow> (unit, tick_line, 't) tool" where
  "print_tick_related_fields render dex flds =
     tool_bind (tool_iter (print_highlight render flds) (highlights dex)) (\<lambda>_. cross_check flds)"

definition or_unknown :: "string option \<Rightarrow> string" where
  "or_unknown r = (case r of Some s \<Rightarrow> s | None \<Rightarrow> ''?'')"

definition name_value :: "json \<Rightarrow> name_val" where
  "name_value n =
     (case parse_i32_bits_from_json (case jget ''value'' n of Some v \<Rightarrow> v | None \<Rightarrow> n) of
        Some bits \<Rightarrow> N_Bits (decode_sui_i32 bits) (decode_raw_i32 bits)
      | None \<Rightarrow> (case jstr ''value'' n of Some v \<Rightarrow> N_Text (take_chars 40 v) | None \<Rightarrow> N_Unknown))"

definition field_line :: "json \<Rightarrow> tick_line" where
  "field_line entry =
     K_Field (or_unknown (Option.bind (pointer ''/name/type'' entry) as_str)) (map_option name_value (jget ''name'' entry))
       (or_unknown (jstr ''objectType'' entry)) (or_unknown (jstr ''objectId'' entry))"

definition page_entries :: "json \<Rightarrow> json list" where
  "page_entries page = (case Option.bind (jget ''data'' page) as_array of Some es \<Rightarrow> es | None \<Rightarrow> [])"

definition summarize_dynamic_fields :: "string \<Rightarrow> json \<Rightarrow> (unit, tick_line, 't) tool" where
  "summarize_dynamic_fields label page =
     tool_iter say (K_Fields label (length (page_entries page)) # map field_line (page_entries page))"

subsection \<open>The exchanges\<close>

definition sample_fields :: "string \<Rightarrow> string \<Rightarrow> (unit, tick_line, 't) tool" where
  "sample_fields label owner =
     tool_bind (service (ask_node (\<lambda>api. api_get_dynamic_fields api owner None (Some MAX_DF_SAMPLE)))) (summarize_dynamic_fields label)"

definition probe_cetus :: "string \<Rightarrow> (unit, tick_line, 't) tool" where
  "probe_cetus pid = sample_fields ''cetus pool'' pid"

definition probe_sample_tick :: "(json \<Rightarrow> string) \<Rightarrow> string \<Rightarrow> string \<Rightarrow> int \<Rightarrow> (unit, tick_line, 't) tool" where
  "probe_sample_tick render pid ty t =
     tool_bind (tool_try (service (ask_node (\<lambda>api. api_get_dynamic_field_object api pid (i32_name ty t))))) (\<lambda>r.
       case r of
         Ok obj \<Rightarrow>
           say (K_Sample t (case pointer ''/data/content/fields/value/fields/liquidity_net'' obj of Some v \<Rightarrow> render v | None \<Rightarrow> ''<missing>''))
       | Err err \<Rightarrow> say (K_Sample_Error t err)
       | Panic p \<Rightarrow> tool_lift (Panic p))"

definition probe_turbos :: "(json \<Rightarrow> string) \<Rightarrow> string \<Rightarrow> json \<Rightarrow> (unit, tick_line, 't) tool" where
  "probe_turbos render pid flds =
     tool_bind
       (case Option.bind (jget ''tick_map'' flds) extract_nested_object_id of
          Some table_id \<Rightarrow> tool_bind (say (K_Tick_Map table_id)) (\<lambda>_. sample_fields ''tick_map (bitmap words)'' table_id)
        | None \<Rightarrow> tool_return ()) (\<lambda>_.
       case (parse_raw_tick_index flds [''tick_current_index''], parse_u32_field flds [''tick_spacing'']) of
         (Ok current, Ok spacing) \<Rightarrow>
           (let i32_type = (case Option.bind (jget ''tick_current_index'' flds) (jstr ''type'') of Some t \<Rightarrow> t | None \<Rightarrow> ''<unknown>'')
            in tool_bind (say (K_I32_Type i32_type)) (\<lambda>_.
               tool_bind (tool_partial (aligned_ticks_in_window current (wrap_i32 (uint spacing)) 200)) (\<lambda>aligned.
                 case aligned of [] \<Rightarrow> tool_return () | sample_tick # _ \<Rightarrow> probe_sample_tick render pid i32_type sample_tick)))
       | _ \<Rightarrow> tool_return ())"

definition probe_magma :: "json \<Rightarrow> (unit, tick_line, 't) tool" where
  "probe_magma flds =
     (case Option.bind (Option.bind (jget ''tick_manager'' flds) (pointer ''fields/ticks'')) extract_nested_object_id of
        Some i \<Rightarrow> tool_bind (say (K_Skip_List i)) (\<lambda>_. sample_fields ''magma skip list'' i)
      | None \<Rightarrow> tool_return ())"

definition probe_momentum :: "json \<Rightarrow> (unit, tick_line, 't) tool" where
  "probe_momentum flds =
     tool_bind
       (case Option.bind (jget ''ticks'' flds) extract_nested_object_id of
          Some i \<Rightarrow> tool_bind (say (K_Table i)) (\<lambda>_. sample_fields ''momentum ticks table'' i)
        | None \<Rightarrow> tool_return ()) (\<lambda>_.
       case Option.bind (jget ''tick_bitmap'' flds) extract_nested_object_id of
         Some i \<Rightarrow> say (K_Bitmap i)
       | None \<Rightarrow> tool_return ())"

definition gate_summary :: "string \<Rightarrow> tick_line list" where
  "gate_summary dex =
     (if dex = ''cetus'' then
        [K_Encoding ''integer_mate I32 (decode_sui_i32)'', K_Storage ''pool dynamic fields, I32 tick name'']
      else if dex = ''turbos'' then
        [K_Encoding ''raw i32 bits (decode_raw_i32)'', K_Storage ''pool dynamic_field_object per aligned tick; tick_map=bitmap'']
      else if dex = ''magma'' then
        [K_Encoding ''raw i32 current tick; integer_mate I128 liquidity_net'', K_Storage ''tick_manager.ticks SkipList dynamic fields'']
      else if dex = ''momentum'' then
        [K_Encoding ''raw i32 tick_index; integer_mate I128 liquidity_net'', K_Storage ''ticks Table dynamic fields (I32 key)'']
      else [])"

definition probe_exchange :: "(json \<Rightarrow> string) \<Rightarrow> string \<Rightarrow> string \<Rightarrow> json \<Rightarrow> (nat, tick_line, 't) tool" where
  "probe_exchange render dex pid flds =
     (let known = (\<lambda>m. tool_bind m (\<lambda>_. tool_bind (tool_iter say ([K_Blank, K_Summary] @ gate_summary dex)) (\<lambda>_. tool_return 0)))
      in if dex = ''turbos'' then known (probe_turbos render pid flds)
         else if dex = ''magma'' then known (probe_magma flds)
         else if dex = ''momentum'' then known (probe_momentum flds)
         else if dex = ''cetus'' then known (probe_cetus pid)
         else tool_bind (say (K_Unknown dex)) (\<lambda>_. tool_return 1))"

definition fee_line :: "json \<Rightarrow> (tick_line, string) outcome" where
  "fee_line flds =
     (case parse_fee_growth_global flds of
        Ok (a, b) \<Rightarrow> Ok (K_Fees a b)
      | Err err \<Rightarrow> Ok (K_Fee_Error err)
      | Panic p \<Rightarrow> Panic p)"

definition probe_ticks_main ::
  "(json \<Rightarrow> string) \<Rightarrow> (string \<Rightarrow> string option) \<Rightarrow> string list \<Rightarrow> (nat, tick_line, 't) tool" where
  "probe_ticks_main render var args =
     (case tl args of
        arg # pid # rest \<Rightarrow>
          (let dex = to_lowercase arg;
               rpc_url = (case rest of url # _ \<Rightarrow> url
                          | [] \<Rightarrow> (case var ''RPC_URL'' of Some url \<Rightarrow> url | None \<Rightarrow> ''https://fullnode.mainnet.sui.io:443''))
           in tool_bind (tool_iter say [K_Title dex, K_Pool pid, K_Rpc rpc_url, K_Blank]) (\<lambda>_.
              tool_bind (service (ask_node (\<lambda>api. api_get_object api pid))) (\<lambda>response.
              tool_bind (tool_lift (parse_move_object_response response)) (\<lambda>(flds, type_str).
              tool_bind (tool_iter say [K_Type type_str, K_Keys (field_keys flds), K_Blank]) (\<lambda>_.
              tool_bind (print_tick_related_fields render dex flds) (\<lambda>_.
              tool_bind (tool_lift (fee_line flds)) (\<lambda>fees.
              tool_bind (tool_iter say [fees, K_Blank]) (\<lambda>_.
              tool_bind (sample_fields ''pool'' pid) (\<lambda>_.
              probe_exchange render dex pid flds)))))))))
      | _ \<Rightarrow> tool_bind (say K_Usage) (\<lambda>_. tool_return 1))"

subsection \<open>What a run prints\<close>

lemma says_printed: "tool_iter say ls e s = Some (r, s') \<Longrightarrow> printed s' = printed s @ ls"
  by (induction ls arbitrary: s) (auto simp: tool_bind_def tool_lift_def say_def split: option.splits)

definition probed_exchanges :: "string list" where
  "probed_exchanges = [''turbos'', ''magma'', ''momentum'', ''cetus'']"

lemma summary_printed:
  "tool_bind m (\<lambda>_. tool_bind (tool_iter say ls) (\<lambda>_. tool_return k)) e s = Some (Ok n, s') \<Longrightarrow> n = k \<and> (\<exists>before. printed s' = before @ ls)"
  by (auto simp: tool_bind_Ok dest: says_printed)

lemma tool_if: "(if c then f else g) e s = x \<longleftrightarrow> (if c then f e s = x else g e s = x)"
  by simp

lemma chosen:
  assumes "if d = x then P else if d = y then Q else if d = z then R else if d = w then S else T"
  shows "d \<in> set [x, y, z, w] \<Longrightarrow> P \<or> Q \<or> R \<or> S" "d \<notin> set [x, y, z, w] \<Longrightarrow> T"
  using assms by (auto split: if_splits)

lemma probe_exchange_Ok:
  assumes "probe_exchange render dex pid flds e s = Some (Ok n, s')"
  shows "n = 0 \<and> dex \<in> set probed_exchanges \<and> (\<exists>before. printed s' = before @ [K_Blank, K_Summary] @ gate_summary dex) \<or>
    n = 1 \<and> dex \<notin> set probed_exchanges \<and> (\<exists>before. printed s' = before @ [K_Unknown dex])"
proof -
  let ?known = "\<lambda>m :: (unit, tick_line, 'a) tool.
    tool_bind m (\<lambda>_. tool_bind (tool_iter say ([K_Blank, K_Summary] @ gate_summary dex)) (\<lambda>_. tool_return 0)) e s = Some (Ok n, s')"
  have run: "if dex = ''turbos'' then ?known (probe_turbos render pid flds)
      else if dex = ''magma'' then ?known (probe_magma flds)
      else if dex = ''momentum'' then ?known (probe_momentum flds)
      else if dex = ''cetus'' then ?known (probe_cetus pid)
      else tool_bind (say (K_Unknown dex)) (\<lambda>_. tool_return 1) e s = Some (Ok n, s')"
    using assms unfolding probe_exchange_def Let_def tool_if .
  show ?thesis
  proof (cases "dex \<in> set probed_exchanges")
    case True
    have verdict: "?known m \<Longrightarrow> n = 0 \<and> (\<exists>before. printed s' = before @ [K_Blank, K_Summary] @ gate_summary dex)" for m
      by (rule summary_printed)
    from chosen(1) [OF run True [unfolded probed_exchanges_def]]
    have "n = 0 \<and> (\<exists>before. printed s' = before @ [K_Blank, K_Summary] @ gate_summary dex)" by (elim disjE) (rule verdict, assumption)+
    with True show ?thesis by (intro disjI1 conjI) simp_all
  next
    case False
    from chosen(2) [OF run this [unfolded probed_exchanges_def]] False show ?thesis by (auto simp: tool_bind_Ok)
  qed
qed

text \<open>The exit code of the tick probe and its closing lines tell the outcome. When a run ends without an error, it
  exits with 0 exactly after a pool of one of the four exchanges was probed, and then its output closes with the summary of
  that exchange; otherwise it exits with 1, and its last line is the usage or the rejection of the exchange's name.\<close>

theorem probe_ticks_outcome:
  assumes "probe_ticks_main render var args e s = Some (Ok n, s')"
  shows "case tl args of
      arg # pid # rest \<Rightarrow>
        (if to_lowercase arg \<in> set probed_exchanges
         then n = 0 \<and> (\<exists>before. printed s' = before @ [K_Blank, K_Summary] @ gate_summary (to_lowercase arg))
         else n = 1 \<and> (\<exists>before. printed s' = before @ [K_Unknown (to_lowercase arg)]))
    | _ \<Rightarrow> n = 1 \<and> printed s' = printed s @ [K_Usage]"
proof (cases "\<exists>arg pid rest. tl args = arg # pid # rest")
  case True
  then obtain arg pid rest where args: "tl args = arg # pid # rest" by blast
  obtain flds s1 where "probe_exchange render (to_lowercase arg) pid flds e s1 = Some (Ok n, s')"
    using assms unfolding probe_ticks_main_def args list.case Let_def tool_bind_Ok case_prod_unfold by blast
  from probe_exchange_Ok [OF this] show ?thesis unfolding args list.case by auto
next
  case False
  then show ?thesis using assms by (auto simp: probe_ticks_main_def tool_bind_Ok split: list.splits)
qed

text \<open>
  The pointer that \<open>probe_magma\<close> follows has no leading slash, so it finds nothing whatever the pool holds, and the tick
  list of a Magma pool is never sampled.
\<close>

lemma probe_magma_silent: "probe_magma flds e s = Some (Ok (), s)"
proof -
  have "pointer ''fields/ticks'' v = None" for v by (simp add: pointer_def)
  then have "pointer ''fields/ticks'' = (\<lambda>v. None)" by blast
  then have "Option.bind (jget ''tick_manager'' flds) (pointer ''fields/ticks'') = None"
    by (cases "jget ''tick_manager'' flds") simp_all
  then show ?thesis by (simp add: probe_magma_def tool_lift_def)
qed

text \<open>A long field value whose byte 220 continues a character stops the probe.\<close>

lemma trimmed_panics: "(\<exists>p. trimmed v = Panic p) \<longleftrightarrow> 220 < length v \<and> continuation (v ! 220)"
  by (auto simp: trimmed_def str_prefix_def outcome_simps)

subsection \<open>A probe of an empty pool\<close>

definition bare_object :: json where
  "bare_object = JObj [(''data'', JObj [(''content'', JObj [(''fields'', JObj []), (''type'', JStr ''T'')])])]"

definition bare_env :: "blob world_env" where
  "bare_env = calm_env (dead_api\<lparr>api_get_object := (\<lambda>_. Ok bare_object), api_get_dynamic_fields := (\<lambda>_ _ _. Ok (JObj []))\<rparr>) [] []"

definition bare_start :: "(tick_line, blob) tool_state" where
  "bare_start = \<lparr>printed = [], tl_world = world_of empty_db, tl_catalog = Map.empty, tl_events = None\<rparr>"

lemma bare_node:
  "service (ask_node (\<lambda>api. api_get_object api pid)) bare_env s = Some (Ok bare_object, tick_tool s)"
  "service (ask_node (\<lambda>api. api_get_dynamic_fields api pid c n)) bare_env s = Some (Ok (JObj []), tick_tool s)"
  by (simp_all add: service_def ask_node_def bare_env_def calm_env_def tick_tool_def)

lemma bare_highlights: "tool_iter (print_highlight render (JObj [])) ks e s = Some (Ok (), s)"
  by (induction ks) (simp_all add: print_highlight_def tool_simps)

lemma bare_parts:
  "print_tick_related_fields render dex (JObj []) e s = Some (Ok (), s)" "fee_line (JObj []) = Ok (K_Fees None None)"
  "parse_move_object_response bare_object = Ok (JObj [], ''T'')"
  by (simp_all add: print_tick_related_fields_def tool_bind_def bare_highlights cross_check_def parse_cetus_tick_index_def tool_lift_def
      fee_line_def parse_fee_growth_global_def bare_object_def parse_move_object_response_def jpath_def jstr_def outcome_simps)

lemma bare_run: "\<exists>s'. probe_ticks_main render (\<lambda>_. None) [''probe_ticks'', ''Magma'', ''0xp''] bare_env bare_start = Some (Ok 0, s')"
proof -
  have dex: "to_lowercase ''Magma'' = ''magma''" by code_simp
  show ?thesis
    by (simp add: probe_ticks_main_def Let_def dex tool_bind_def say_def bare_node bare_parts sample_fields_def summarize_dynamic_fields_def
        page_entries_def probe_exchange_def probe_magma_silent tool_lift_def gate_summary_def)
qed

theorem probe_ticks_outcome_witness:
  "\<exists>s' before. probe_ticks_main (\<lambda>_. []) (\<lambda>_. None) [''probe_ticks'', ''Magma'', ''0xp''] bare_env bare_start = Some (Ok 0, s') \<and>
     printed s' = before @ [K_Blank, K_Summary] @ gate_summary ''magma''"
proof -
  obtain s' where run: "probe_ticks_main (\<lambda>_. []) (\<lambda>_. None) [''probe_ticks'', ''Magma'', ''0xp''] bare_env bare_start = Some (Ok 0, s')"
    using bare_run by blast
  have dex: "to_lowercase ''Magma'' = ''magma''" "''magma'' \<in> set probed_exchanges" by code_simp+
  from probe_ticks_outcome [OF run] run show ?thesis unfolding list.sel list.case dex(1) if_P [OF dex(2)] by blast
qed

end
