(* ===== verification/Tools.thy ===== *)
theory Tools
  imports Tool
begin

text \<open>
  The tools \<open>fetch_pool\<close>, \<open>fetch_ticks\<close>, \<open>probe_swap\<close> and \<open>verify_storage\<close> of \<open>src/bin\<close>.  \<open>var\<close> reads the process environment; \<open>hosts\<close> says what connecting to a service yields.  The Sui
  client of the URLs a tool picks is the node of the environment.  A tool's result is its exit code.
\<close>

record hosts =
  open_pg :: "string \<Rightarrow> (unit, string) outcome"
  open_redis :: "string \<Rightarrow> (unit, string) outcome"

definition arg_or :: "string list \<Rightarrow> nat \<Rightarrow> string \<Rightarrow> string" where
  "arg_or args i d = (if i < length args then args ! i else d)"

definition parsed_arg :: "string list \<Rightarrow> nat \<Rightarrow> nat \<Rightarrow> nat \<Rightarrow> nat" where
  "parsed_arg args i bound d = (if i < length args then unwrap_or (parse_unsigned bound (args ! i)) d else d)"

subsection \<open>\<open>fetch_pool\<close>\<close>

datatype fetch_line =
    F_Usage
  | F_Header string string string string u8 u8 u32
  | F_Unsupported string
  | F_Fetching
  | F_Fetched pool_state
  | F_Price f64
  | F_Failed string

definition named_collector :: "string \<Rightarrow> collector option" where
  "named_collector dex =
     (if dex = ''cetus'' then Some CetusCollector
      else if dex = ''turbos'' then Some TurbosCollector
      else if dex = ''magma'' then Some MagmaCollector
      else if dex = ''momentum'' then Some MomentumCollector
      else None)"

definition fetch_pool_main :: "libm \<Rightarrow> string list \<Rightarrow> (nat, fetch_line, 't) tool" where
  "fetch_pool_main m args =
     (if length args < 3 then tool_bind (say F_Usage) (\<lambda>_. tool_return 0)
      else
        (let dex = to_lowercase (args ! 1); pid = args ! 2;
             rpc_url = arg_or args 3 ''https://fullnode.mainnet.sui.io:443'';
             graphql_url = arg_or args 4 ''https://graphql.mainnet.sui.io/graphql'';
             decimals_a = of_nat (parsed_arg args 5 (2 ^ 8) 9);
             decimals_b = of_nat (parsed_arg args 6 (2 ^ 8) 6);
             factor_bits = of_nat (parsed_arg args 7 (2 ^ 32) (if dex = ''turbos'' then 96 else 64))
         in tool_bind (say (F_Header dex pid rpc_url graphql_url decimals_a decimals_b factor_bits)) (\<lambda>_.
            case named_collector dex of
              None \<Rightarrow> tool_bind (say (F_Unsupported dex)) (\<lambda>_. tool_return 0)
            | Some c \<Rightarrow>
                tool_bind (say F_Fetching) (\<lambda>_.
                tool_bind (tool_try (service (ask_node (\<lambda>api. fetch_pool c api pid)))) (\<lambda>r.
                  case r of
                    Ok pool \<Rightarrow>
                      tool_bind (say (F_Fetched pool)) (\<lambda>_.
                      tool_bind (say (F_Price (calculate_price m pool decimals_a decimals_b (sint factor_bits)))) (\<lambda>_. tool_return 0))
                  | Err err \<Rightarrow> tool_bind (say (F_Failed err)) (\<lambda>_. tool_return 0)
                  | Panic p \<Rightarrow> tool_lift (Panic p))))))"

subsection \<open>\<open>fetch_ticks\<close>\<close>

datatype ticks_line =
    T_Usage
  | T_Unsupported string
  | T_Dex string
  | T_Pool string
  | T_Current int
  | T_Spacing u32
  | T_Count nat
  | T_Tick int int
  | T_Persisted
  | T_Cached

definition persist_fetched :: "(string \<Rightarrow> string option) \<Rightarrow> hosts \<Rightarrow> pool_tick_data \<Rightarrow> (unit, ticks_line, 't) tool" where
  "persist_fetched var h d =
     (case var ''DATABASE_URL'' of
        None \<Rightarrow> tool_return ()
      | Some url \<Rightarrow>
          tool_bind (tool_lift (open_pg h url)) (\<lambda>_.
          tool_bind tool_create_tables (\<lambda>_.
          tool_bind (service (db_write (\<lambda>fa now. pg_set_pool_tick_data fa d))) (\<lambda>_. say T_Persisted))))"

definition cache_ticks :: "(string \<Rightarrow> string option) \<Rightarrow> hosts \<Rightarrow> pool_tick_data \<Rightarrow> (unit, ticks_line, 't) tool" where
  "cache_ticks var h d =
     (case var ''REDIS_URL'' of
        None \<Rightarrow> tool_return ()
      | Some url \<Rightarrow>
          tool_bind (tool_lift (open_redis h url)) (\<lambda>_.
          tool_bind (service (kv_write (\<lambda>env fa now. cache_set_tick_data env fa now d))) (\<lambda>_. say T_Cached)))"

definition fetch_ticks_main :: "(string \<Rightarrow> string option) \<Rightarrow> hosts \<Rightarrow> string list \<Rightarrow> (nat, ticks_line, 't) tool" where
  "fetch_ticks_main var h args =
     (case tl args of
        dex # pid # _ \<Rightarrow>
          (case collector_for_dex_name dex of
             None \<Rightarrow> tool_bind (say (T_Unsupported dex)) (\<lambda>_. tool_return 1)
           | Some c \<Rightarrow>
               tool_bind (service (ask_node_partial (\<lambda>api. fetch_tick_data c api pid))) (\<lambda>d.
               tool_bind (tool_iter say
                 ([T_Dex dex, T_Pool (td_pool_id d), T_Current (current_tick_index d), T_Spacing (tick_spacing d), T_Count (length (ticks d))] @
                  map (\<lambda>t. T_Tick (tick_index t) (liquidity_net t)) (ticks d))) (\<lambda>_.
               tool_bind (persist_fetched var h d) (\<lambda>_.
               tool_bind (cache_ticks var h d) (\<lambda>_. tool_return 0)))))
      | _ \<Rightarrow> tool_bind (say T_Usage) (\<lambda>_. tool_return 1))"

subsection \<open>\<open>probe_swap\<close>\<close>

definition MAGMA_PACKAGE :: string where "MAGMA_PACKAGE = MAGMA_SWAP_PACKAGE"

definition MOMENTUM_PACKAGE :: string where "MOMENTUM_PACKAGE = MOMENTUM_DISCOVERY_PACKAGE"

definition MOMENTUM_VERSION :: string where "MOMENTUM_VERSION = MOMENTUM_VERSION_OBJECT"

datatype swap_line =
    S_Constants string string string string
  | S_Probing string
  | S_Exists
  | S_Unexpected json
  | S_Usage
  | S_Fetching string string
  | S_Type string
  | S_Unknown_Dex string
  | S_Matches string
  | S_Mismatch string

definition probe_object :: "string \<Rightarrow> string \<Rightarrow> (unit, swap_line, 't) tool" where
  "probe_object label oid =
     tool_bind (say (S_Probing label)) (\<lambda>_.
     tool_bind (service (ask_node (\<lambda>api. api_get_object api oid))) (\<lambda>v.
       say (if jget ''data'' v \<noteq> None \<or> jget ''object'' v \<noteq> None then S_Exists else S_Unexpected v)))"

definition pool_type_of :: "json \<Rightarrow> string" where
  "pool_type_of v =
     unwrap_or (Option.bind (or_else (jpath [''data'', ''content'', ''type''] v) (jpath [''object'', ''asMoveObject'', ''type'', ''repr''] v)) as_str)
       ''<unknown>''"

definition references_package :: "string \<Rightarrow> string \<Rightarrow> bool" where
  "references_package ty pkg \<longleftrightarrow> contains ty (trim_start_0x pkg) \<or> contains ty (take 8 (drop 2 pkg))"

definition probe_swap_main :: "string list \<Rightarrow> (nat, swap_line, 't) tool" where
  "probe_swap_main args =
     (if 2 \<le> length args \<and> args ! 1 = ''verify-config'' then
        tool_bind (say (S_Constants MAGMA_PACKAGE MAGMA_GLOBAL_CONFIG MOMENTUM_PACKAGE MOMENTUM_VERSION)) (\<lambda>_.
        tool_bind (probe_object ''Magma GlobalConfig'' MAGMA_GLOBAL_CONFIG) (\<lambda>_.
        tool_bind (probe_object ''Momentum Version'' MOMENTUM_VERSION) (\<lambda>_. tool_return 0)))
      else if length args < 3 then tool_bind (say S_Usage) (\<lambda>_. tool_return 1)
      else
        (let dex = to_lowercase (args ! 1); pid = args ! 2
         in tool_bind (say (S_Fetching pid dex)) (\<lambda>_.
            tool_bind (service (ask_node (\<lambda>api. api_get_object api pid))) (\<lambda>v.
            tool_bind (say (S_Type (pool_type_of v))) (\<lambda>_.
              case (if dex = ''magma'' then Some MAGMA_PACKAGE else if dex = ''momentum'' then Some MOMENTUM_PACKAGE else None) of
                None \<Rightarrow> tool_bind (say (S_Unknown_Dex dex)) (\<lambda>_. tool_return 1)
              | Some pkg \<Rightarrow>
                  tool_bind (say (if references_package (pool_type_of v) pkg then S_Matches pkg else S_Mismatch pkg)) (\<lambda>_.
                    tool_return 0))))))"

subsection \<open>\<open>verify_storage\<close>\<close>

datatype storage_line =
    V_Title
  | V_Not_Set string
  | V_Connecting string
  | V_Creating string
  | V_Doing string
  | V_Token_Found string string
  | V_Token_Missing
  | V_Pool_Found string u128
  | V_Pool_Missing
  | V_Cached_Found u128
  | V_Cached_Missing
  | V_Event_Found nat
  | V_Event_Missing
  | V_Completed

definition sample_token :: token where
  "sample_token = \<lparr>address = ''0x2::sui::SUI'', symbol = ''SUI'', tok_name = ''Sui'', decimals = 9\<rparr>"

definition sample_pool :: pool_state where
  "sample_pool =
     \<lparr>pool_id = ''0xcf994611fd4c48e277ce3ffd4d4364c914af2c3cbb05f7bf6facd371de688630'', dex_name = ''Cetus'',
      coin_type_a = ''0x5d4b302506645c37ff133b98c4b50a5ae14841659738d6d733d59d0d217a93bf::coin::COIN'',
      coin_type_b = ''0x2::sui::SUI'', sqrt_price = 692304700626636288339, liquidity = 2977078914442, fee_rate = 2500,
      is_paused = False\<rparr>"

definition cache_sample :: pool_state where
  "cache_sample =
     \<lparr>pool_id = ''redis_hot_pool_test'', dex_name = ''Turbos'', coin_type_a = ''0xcoinA'', coin_type_b = ''0xcoinB'',
      sqrt_price = 123456789012345, liquidity = 987654321, fee_rate = 3000, is_paused = False\<rparr>"

definition sample_event :: "u64 \<Rightarrow> swap_event" where
  "sample_event now_epoch =
     \<lparr>se_event_id = ''tx_log_'' @ show_word now_epoch, se_timestamp = now_epoch,
      se_pool_id = ''0xcf994611fd4c48e277ce3ffd4d4364c914af2c3cbb05f7bf6facd371de688630'', se_dex_name = ''Cetus'',
      se_sender = ''0xsender_verify'', se_amount_in = ''10000000000'', se_amount_out = ''9950000000'',
      se_coin_in = ''0x2::sui::SUI'',
      se_coin_out = ''0x5d4b302506645c37ff133b98c4b50a5ae14841659738d6d733d59d0d217a93bf::coin::COIN''\<rparr>"

text \<open>A URL from the environment; a missing one is announced and counts as empty.\<close>

definition url_or_skip :: "(string \<Rightarrow> string option) \<Rightarrow> string \<Rightarrow> (string, storage_line, 't) tool" where
  "url_or_skip var key =
     (case var key of
        Some url \<Rightarrow> tool_return url
      | None \<Rightarrow> tool_bind (say (V_Not_Set key)) (\<lambda>_. tool_return []))"

definition verify_postgres :: "hosts \<Rightarrow> string \<Rightarrow> (unit, storage_line, 't) tool" where
  "verify_postgres h url =
     tool_bind (say (V_Connecting ''PostgreSQL'')) (\<lambda>_.
     tool_bind (tool_lift (open_pg h url)) (\<lambda>_.
     tool_bind (say (V_Creating ''PostgreSQL'')) (\<lambda>_.
     tool_bind tool_create_tables (\<lambda>_.
     tool_bind (say (V_Doing ''Inserting sample token'')) (\<lambda>_.
     tool_bind (service (db_write (\<lambda>fa now. insert_token (fa 0) sample_token))) (\<lambda>_.
     tool_bind (say (V_Doing ''Retrieving sample token'')) (\<lambda>_.
     tool_bind (service (db_read (\<lambda>fa. get_token fa ''0x2::sui::SUI''))) (\<lambda>fetched_token.
     tool_bind (say (case fetched_token of Some t \<Rightarrow> V_Token_Found (tok_name t) (symbol t) | None \<Rightarrow> V_Token_Missing)) (\<lambda>_.
     tool_bind (say (V_Doing ''Inserting sample pool'')) (\<lambda>_.
     tool_bind (service (db_write (\<lambda>fa now. insert_pool (fa 0) sample_pool))) (\<lambda>_.
     tool_bind (say (V_Doing ''Retrieving sample pool'')) (\<lambda>_.
     tool_bind (service (db_read (\<lambda>fa. get_pool fa (pool_id sample_pool)))) (\<lambda>fetched_pool.
       say (case fetched_pool of Some p \<Rightarrow> V_Pool_Found (dex_name p) (liquidity p) | None \<Rightarrow> V_Pool_Missing))))))))))))))"

definition verify_redis :: "hosts \<Rightarrow> string \<Rightarrow> (unit, storage_line, 't) tool" where
  "verify_redis h url =
     tool_bind (say (V_Connecting ''Redis'')) (\<lambda>_.
     tool_bind (tool_lift (open_redis h url)) (\<lambda>_.
     tool_bind (say (V_Doing ''Setting pool state in Redis'')) (\<lambda>_.
     tool_bind (service (kv_write (\<lambda>env fa now. cache_set_pool_state env fa now cache_sample))) (\<lambda>_.
     tool_bind (say (V_Doing ''Retrieving pool state from Redis'')) (\<lambda>_.
     tool_bind (tool_cache_get (\<lambda>env fa now. cache_get_pool_state env fa now ''redis_hot_pool_test'')) (\<lambda>fetched.
       say (case fetched of Some p \<Rightarrow> V_Cached_Found (sqrt_price p) | None \<Rightarrow> V_Cached_Missing)))))))"

text \<open>Inserting into a table that does not exist fails; \<open>rows\<close> is the server's order and \<open>now_epoch\<close> the time of day.\<close>

definition log_event :: "swap_event \<Rightarrow> (unit, 'l, 't) tool" where
  "log_event ev = tool_events (\<lambda>fa t. case t of
     None \<Rightarrow> (Err ''ClickHouse insert init error: no such table'', None)
   | Some evs \<Rightarrow> (case insert_swap_event fa ev evs of (r, evs') \<Rightarrow> (r, Some evs')))"

definition newest_log :: "(swap_event list \<Rightarrow> swap_event list) \<Rightarrow> u64 \<Rightarrow> (swap_event list, 'l, 't) tool" where
  "newest_log rows limit = tool_events (\<lambda>fa t. case t of
     None \<Rightarrow> (Err ''ClickHouse select query error: no such table'', None)
   | Some evs \<Rightarrow> (get_swap_events (fa 0) rows limit evs, Some evs))"

definition verify_clickhouse :: "(swap_event list \<Rightarrow> swap_event list) \<Rightarrow> u64 \<Rightarrow> (unit, storage_line, 't) tool" where
  "verify_clickhouse rows now_epoch =
     tool_bind (say (V_Connecting ''ClickHouse'')) (\<lambda>_.
     tool_bind (say (V_Creating ''ClickHouse'')) (\<lambda>_.
     tool_bind (tool_events (\<lambda>fa. ch_create_tables (fa 0))) (\<lambda>_.
     tool_bind (say (V_Doing ''Logging swap event to ClickHouse'')) (\<lambda>_.
     tool_bind (log_event (sample_event now_epoch)) (\<lambda>_.
     tool_bind (say (V_Doing ''Retrieving swap events from ClickHouse'')) (\<lambda>_.
     tool_bind (newest_log rows 5) (\<lambda>logs.
       say (if list_ex (\<lambda>ev. se_event_id ev = se_event_id (sample_event now_epoch)) logs then V_Event_Found (length logs)
            else V_Event_Missing))))))))"

definition verify_storage_main ::
  "(string \<Rightarrow> string option) \<Rightarrow> hosts \<Rightarrow> (swap_event list \<Rightarrow> swap_event list) \<Rightarrow> u64 \<Rightarrow> (nat, storage_line, 't) tool" where
  "verify_storage_main var h rows now_epoch =
     tool_bind (say V_Title) (\<lambda>_.
     tool_bind (url_or_skip var ''DATABASE_URL'') (\<lambda>pg.
     tool_bind (if pg \<noteq> [] then verify_postgres h pg else tool_return ()) (\<lambda>_.
     tool_bind (url_or_skip var ''REDIS_URL'') (\<lambda>rd.
     tool_bind (if rd \<noteq> [] then verify_redis h rd else tool_return ()) (\<lambda>_.
     tool_bind (url_or_skip var ''CLICKHOUSE_URL'') (\<lambda>ch.
     tool_bind (if ch \<noteq> [] then verify_clickhouse rows now_epoch else tool_return ()) (\<lambda>_.
     tool_bind (say V_Completed) (\<lambda>_. tool_return 0))))))))"

subsection \<open>What the tools leave behind\<close>

lemma service_Ok: "service m e s = Some (r, s') \<longleftrightarrow> (\<exists>w'. m e (tl_world s) = Some (r, w') \<and> s' = s\<lparr>tl_world := w'\<rparr>)"
  by (auto simp: service_def)

lemma persist_fetched_Ok:
  assumes "persist_fetched var h d e s = Some (Ok u, s')" "var ''DATABASE_URL'' \<noteq> None"
  shows "look_ticks (w_db (tl_world s')) (td_pool_id d) = Some (stored_ticks d)"
proof -
  obtain url where "var ''DATABASE_URL'' = Some url" using assms(2) by blast
  then have "\<exists>w. db_write (\<lambda>fa now. pg_set_pool_tick_data fa d) e w = Some (Ok (), tl_world s')"
    using assms(1) by (auto simp: persist_fetched_def tool_bind_Ok service_Ok)
  then obtain w where w: "db_write (\<lambda>fa now. pg_set_pool_tick_data fa d) e w = Some (Ok (), tl_world s')" ..
  obtain r db where pg: "pg_set_pool_tick_data (we_fault e (w_clock w)) d (w_db w) = (r, db)" by fastforce
  then have "r = Ok ()" "tl_world s' = w\<lparr>w_clock := Suc (w_clock w), w_db := db\<rparr>" using w by (simp_all add: db_write_def)
  then have "r = Ok ()" "w_db (tl_world s') = db" by simp_all
  then show ?thesis using set_ticks_Ok pg by metis
qed

lemma cache_ticks_Ok:
  assumes "cache_ticks var h d e s = Some (Ok u, s')" "codecs_ok (we_cache e)" "var ''REDIS_URL'' \<noteq> None"
  shows "w_db (tl_world s') = w_db (tl_world s) \<and>
    (\<exists>n. \<forall>later fb. later < we_now e n + 300 \<and> (\<exists>k < 3. fb k = NoFault) \<longrightarrow>
       cache_get_tick_data (we_cache e) fb later (td_pool_id d) (w_kv (tl_world s')) = Ok (Some d))"
proof -
  obtain url where "var ''REDIS_URL'' = Some url" using assms(3) by blast
  then obtain w v where w: "kv_write (\<lambda>env fa now. cache_set_tick_data env fa now d) e (tl_world s) = Some (Ok v, w)" "tl_world s' = w"
    using assms(1) by (auto simp: cache_ticks_def tool_bind_Ok service_Ok)
  let ?n = "w_clock (tl_world s)"
  have c: "codec_ok (ticks_codec (we_cache e))" using assms(2) by (simp add: codecs_ok_def)
  have fst: "fst (cache_set_tick_data (we_cache e) (we_fault e ?n) (we_now e ?n) d (w_kv (tl_world s))) = Ok ()"
    and kv: "w_kv w = snd (cache_set_tick_data (we_cache e) (we_fault e ?n) (we_now e ?n) d (w_kv (tl_world s)))"
    and db: "w_db w = w_db (tl_world s)"
    using w(1) by (auto simp: kv_write_def split: prod.splits)
  have some: "\<exists>k < 3. we_fault e ?n k = NoFault" using fst set_as_outcome(1) [OF c] by (simp add: cache_set_tick_data_def)
  have "cache_get_tick_data (we_cache e) fb later (td_pool_id d) (w_kv (tl_world s')) = Ok (Some d)"
    if "later < we_now e ?n + 300" "\<exists>k < 3. fb k = NoFault" for later fb
    using set_get_as(1) [OF c some that(2,1)] by (simp add: w(2) kv cache_set_tick_data_def cache_get_tick_data_def)
  then show ?thesis using db w(2) by blast
qed

lemma cache_ticks_skip: "cache_ticks var h d e s = Some (Ok u, s') \<Longrightarrow> w_db (tl_world s') = w_db (tl_world s)"
  unfolding cache_ticks_def
  by (auto simp: tool_bind_Ok service_Ok kv_write_def split: option.splits prod.splits)

text \<open>
  C39.  When \<open>fetch_ticks\<close> ends with exit code zero, it has fetched tick data for the pool and exchange of its
  arguments.  If a database is configured (\<open>DATABASE_URL\<close>), PostgreSQL then gives back this data with every net liquidity
  reduced to the 64 bits of its column, that is the data itself when all of them fit; if Redis is configured (\<open>REDIS_URL\<close>), the
  cache gives back exactly the fetched data for five minutes.
\<close>

theorem fetch_ticks_stored:
  assumes "fetch_ticks_main var h args e s = Some (Ok 0, s')" "codecs_ok (we_cache e)"
  shows "\<exists>dex pid c n d. take 2 (tl args) = [dex, pid] \<and> collector_for_dex_name dex = Some c \<and>
    fetch_tick_data c (we_api e n) pid = Some (Ok d) \<and>
    (var ''DATABASE_URL'' \<noteq> None \<longrightarrow>
       look_ticks (w_db (tl_world s')) pid = Some (d\<lparr>ticks := map stored_tick (ticks d)\<rparr>) \<and>
       (nets_fit d \<longrightarrow> look_ticks (w_db (tl_world s')) pid = Some d)) \<and>
    (var ''REDIS_URL'' \<noteq> None \<longrightarrow> (\<exists>m. \<forall>later fb. later < we_now e m + 300 \<and> (\<exists>k < 3. fb k = NoFault) \<longrightarrow>
       cache_get_tick_data (we_cache e) fb later pid (w_kv (tl_world s')) = Ok (Some d)))"
proof -
  obtain dex pid rest where args: "tl args = dex # pid # rest"
    using assms(1) by (auto simp: fetch_ticks_main_def tool_bind_Ok split: list.splits)
  obtain c where c: "collector_for_dex_name dex = Some c"
    using assms(1) by (auto simp: fetch_ticks_main_def args tool_bind_Ok split: option.splits)
  obtain d s1 s2 s3 u v where steps:
    "service (ask_node_partial (\<lambda>api. fetch_tick_data c api pid)) e s = Some (Ok d, s1)"
    "persist_fetched var h d e s2 = Some (Ok u, s3)" "cache_ticks var h d e s3 = Some (Ok v, s')"
    using assms(1) unfolding fetch_ticks_main_def args list.case c option.case tool_bind_Ok tool_return_Ok by fast
  have fetched: "fetch_tick_data c (we_api e (w_clock (tl_world s))) pid = Some (Ok d)"
    using steps(1) by (auto simp: service_Ok ask_node_partial_def)
  have ok: "td_pool_id d = pid" "stored_ticks d = d\<lparr>ticks := map stored_tick (ticks d)\<rparr>"
    using fetched_tick_data_ok [OF fetched] stored_sorted_ticks [of d] by (auto simp: tick_data_ok_def)
  have stored: "var ''DATABASE_URL'' \<noteq> None \<Longrightarrow> look_ticks (w_db (tl_world s')) pid = Some (d\<lparr>ticks := map stored_tick (ticks d)\<rparr>)"
    using persist_fetched_Ok [OF steps(2)] cache_ticks_skip [OF steps(3)] ok by simp
  then have exact: "var ''DATABASE_URL'' \<noteq> None \<Longrightarrow> nets_fit d \<Longrightarrow> look_ticks (w_db (tl_world s')) pid = Some d"
    by (simp add: stored_exact)
  have cached: "var ''REDIS_URL'' \<noteq> None \<Longrightarrow> \<exists>m. \<forall>later fb. later < we_now e m + 300 \<and> (\<exists>k < 3. fb k = NoFault) \<longrightarrow>
       cache_get_tick_data (we_cache e) fb later pid (w_kv (tl_world s')) = Ok (Some d)"
    using cache_ticks_Ok [OF steps(3) assms(2)] unfolding ok(1) by blast
  have names: "take 2 (tl args) = [dex, pid]" by (simp add: args)
  show ?thesis
    by (rule exI [of _ dex], rule exI [of _ pid], rule exI [of _ c], rule exI [of _ "w_clock (tl_world s)"], rule exI [of _ d])
      (intro conjI impI names c fetched stored exact cached)
qed

lemma says_return: "\<exists>s'. tool_iter say ls e s = Some (Ok (), s')"
  by (induction ls arbitrary: s) (auto simp: tool_bind_def tool_lift_def say_def)

lemma calm_persist:
  assumes "we_fault e = (\<lambda>_ _. NoFault)" "ticks_fit d" "\<forall>url. open_pg h url = Ok ()"
  shows "\<exists>s'. persist_fetched var h d e s = Some (Ok (), s')"
proof (cases "var ''DATABASE_URL''")
  case (Some url)
  have "\<exists>db'. pg_set_pool_tick_data (\<lambda>_. NoFault) d db = (Ok (), db')" for db
    using tick_data_stmts_fit [OF assms(2), of db] by (auto simp: pg_set_pool_tick_data_def transaction_no_fault)
  then have "fst (pg_set_pool_tick_data (\<lambda>_. NoFault) d db) = Ok ()" for db by (metis fst_conv)
  then have "\<exists>w'. db_write (\<lambda>fa now. pg_set_pool_tick_data fa d) e w = Some (Ok (), w')" for w
    by (simp add: db_write_def assms(1) case_prod_beta)
  then have store: "\<exists>s'. service (db_write (\<lambda>fa now. pg_set_pool_tick_data fa d)) e s = Some (Ok (), s')"
    for s :: "(ticks_line, 'a) tool_state" by (auto simp: service_Ok)
  obtain s1 where s1: "tool_create_tables e s = Some (Ok (), s1)"
    by (simp add: tool_create_tables_def assms(1) create_tables_calm)
  obtain s2 where s2: "service (db_write (\<lambda>fa now. pg_set_pool_tick_data fa d)) e s1 = Some (Ok (), s2)" using store by blast
  show ?thesis by (simp add: persist_fetched_def Some tool_bind_def tool_lift_def assms(3) s1 s2)
qed (simp add: persist_fetched_def)

lemma calm_cache_ticks:
  assumes "we_fault e = (\<lambda>_ _. NoFault)" "codecs_ok (we_cache e)" "\<forall>url. open_redis h url = Ok ()"
  shows "\<exists>s'. cache_ticks var h d e s = Some (Ok (), s')"
proof (cases "var ''REDIS_URL''")
  case (Some url)
  have "codec_ok (ticks_codec (we_cache e))" using assms(2) by (simp add: codecs_ok_def)
  from set_as_outcome(1) [OF this] have "fst (cache_set_tick_data (we_cache e) (\<lambda>_. NoFault) now d kv) = Ok ()" for now kv
    by (auto simp: cache_set_tick_data_def intro: exI [of _ 0])
  then obtain s1 where s1: "service (kv_write (\<lambda>env fa now. cache_set_tick_data env fa now d)) e s = Some (Ok (), s1)"
    by (simp add: service_def kv_write_def assms(1) case_prod_beta)
  show ?thesis by (simp add: cache_ticks_def Some tool_bind_def tool_lift_def assms(3) s1)
qed (simp add: cache_ticks_def)

definition local_hosts :: hosts where
  "local_hosts = \<lparr>open_pg = (\<lambda>_. Ok ()), open_redis = (\<lambda>_. Ok ())\<rparr>"

definition tool_start :: "('l, blob) tool_state" where
  "tool_start = \<lparr>printed = [], tl_world = world_of empty_db, tl_catalog = Map.empty, tl_events = None\<rparr>"

lemma demo_fetch_run:
  "\<exists>s'. fetch_ticks_main (\<lambda>_. Some ''url'') local_hosts [''fetch_ticks'', ''cetus'', ''0xp''] (calm_env chain_api [] []) tool_start =
     Some (Ok 0, s')"
proof -
  let ?e = "calm_env chain_api [] []"
  have e: "we_fault ?e = (\<lambda>_ _. NoFault)" "codecs_ok (we_cache ?e)" by (simp_all add: calm_env_def blob_ok)
  have fit: "ticks_fit demo_fetched" by (simp add: demo_fetched_def build_pool_tick_data_def ticks_fit_def varchar_def)
  obtain s1 :: "(ticks_line, blob) tool_state" where
    s1: "service (ask_node_partial (\<lambda>api. fetch_tick_data CetusCollector api ''0xp'')) ?e tool_start = Some (Ok demo_fetched, s1)"
    using demo_fetch by (simp add: service_def ask_node_partial_def calm_env_def)
  let ?ls = "[T_Dex ''cetus'', T_Pool (td_pool_id demo_fetched), T_Current (current_tick_index demo_fetched), T_Spacing (tick_spacing demo_fetched),
    T_Count (length (ticks demo_fetched))] @ map (\<lambda>t. T_Tick (tick_index t) (liquidity_net t)) (ticks demo_fetched)"
  obtain s2 where s2: "tool_iter say ?ls ?e s1 = Some (Ok (), s2)" using says_return by blast
  obtain s3 where s3: "persist_fetched (\<lambda>_. Some ''url'') local_hosts demo_fetched ?e s2 = Some (Ok (), s3)"
    using calm_persist [OF e(1) fit] by (force simp: local_hosts_def)
  obtain s4 where s4: "cache_ticks (\<lambda>_. Some ''url'') local_hosts demo_fetched ?e s3 = Some (Ok (), s4)"
    using calm_cache_ticks [OF e] by (force simp: local_hosts_def)
  have c: "collector_for_dex_name ''cetus'' = Some CetusCollector" by code_simp
  show ?thesis
    unfolding fetch_ticks_main_def list.sel list.case c option.case tool_bind_def s1 s2 s3 s4 outcome.case prod.case
    by (simp add: tool_lift_def)
qed

theorem fetch_ticks_stored_witness:
  "\<exists>s'. fetch_ticks_main (\<lambda>_. Some ''url'') local_hosts [''fetch_ticks'', ''cetus'', ''0xp''] (calm_env chain_api [] []) tool_start =
     Some (Ok 0, s') \<and> look_ticks (w_db (tl_world s')) ''0xp'' = Some demo_fetched"
proof -
  obtain s' where run: "fetch_ticks_main (\<lambda>_. Some ''url'') local_hosts [''fetch_ticks'', ''cetus'', ''0xp''] (calm_env chain_api [] []) tool_start =
      Some (Ok 0, s')" using demo_fetch_run by blast
  have codecs: "codecs_ok (we_cache (calm_env chain_api [] []))" by (simp add: calm_env_def blob_ok)
  have c: "collector_for_dex_name ''cetus'' = Some CetusCollector" by code_simp
  have fit: "nets_fit demo_fetched" by (simp add: nets_fit_def demo_fetched_def build_pool_tick_data_def)
  have api: "we_api (calm_env chain_api [] []) n = chain_api" for n by (simp add: calm_env_def)
  have "look_ticks (w_db (tl_world s')) ''0xp'' = Some demo_fetched"
    using fetch_ticks_stored [OF run codecs] c fit demo_fetch by (auto simp: api numeral_2_eq_2)
  with run show ?thesis by blast
qed

subsection \<open>What the storage check reports\<close>

definition report_failures :: "storage_line set" where
  "report_failures = {V_Token_Missing, V_Pool_Missing, V_Cached_Missing, V_Event_Missing}"

lemma get_token_look: "get_token fa a db = Ok r \<Longrightarrow> r = look_token db a"
  by (auto simp: get_token_def look_token_def read_stmt_def split: fault.splits)

lemma get_pool_look: "get_pool fa pid db = Ok r \<Longrightarrow> r = look_pool db pid"
  by (auto simp: get_pool_def look_pool_def read_stmt_def split: fault.splits)

lemma token_written:
  "service (db_write (\<lambda>fa now. insert_token (fa 0) t)) e s = Some (Ok u, s') \<Longrightarrow>
   look_token (w_db (tl_world s')) (address t) = Some t \<and> printed s' = printed s"
  using pg_tokens.look_put [of t "w_db (tl_world s)"]
  by (auto simp: service_Ok db_write_def insert_token_def put_token_def exec_stmt_def upsert_token_def too_long_def
      split: prod.splits fault.splits if_splits)

lemma pool_written:
  "service (db_write (\<lambda>fa now. insert_pool (fa 0) p)) e s = Some (Ok u, s') \<Longrightarrow>
   look_pool (w_db (tl_world s')) (pool_id p) = Some (stored_pool p) \<and> printed s' = printed s"
  using pg_pools.look_put [of p "w_db (tl_world s)"]
  by (auto simp: service_Ok db_write_def insert_pool_def put_pool_def exec_stmt_def upsert_pool_def too_long_def
      split: prod.splits fault.splits if_splits)

lemma token_read:
  "service (db_read (\<lambda>fa. get_token fa a)) e s = Some (Ok r, s') \<Longrightarrow>
   r = look_token (w_db (tl_world s)) a \<and> printed s' = printed s"
  by (auto simp: service_Ok db_read_def dest: get_token_look)

lemma pool_read:
  "service (db_read (\<lambda>fa. get_pool fa a)) e s = Some (Ok r, s') \<Longrightarrow>
   r = look_pool (w_db (tl_world s)) a \<and> printed s' = printed s"
  by (auto simp: service_Ok db_read_def dest: get_pool_look)

lemma tables_created: "tool_create_tables e s = Some (r, s') \<Longrightarrow> printed s' = printed s"
  by (auto simp: tool_create_tables_def tick_tool_def split: prod.splits)

definition say_on :: "'l \<Rightarrow> ('l, 't) tool_state \<Rightarrow> ('l, 't) tool_state" where
  "say_on l s = s\<lparr>printed := printed s @ [l]\<rparr>"

lemma say_on_simps [simp]:
  "printed (say_on l s) = printed s @ [l]" "tl_world (say_on l s) = tl_world s" "tl_events (say_on l s) = tl_events s"
  by (simp_all add: say_on_def)

lemma say_on_Ok: "say l e s = Some (r, s') \<longleftrightarrow> r = Ok () \<and> s' = say_on l s"
  by (simp add: say_on_def)

lemma verify_postgres_Ok:
  assumes "verify_postgres h url e s = Some (Ok u, s')"
  shows "\<exists>ls. printed s' = printed s @ ls \<and> set ls \<inter> report_failures = {}"
proof -
  have steps: "\<exists>s1 u1 u2 u3 s2 s3 s4 s5 t p.
      s1 = say_on (V_Creating ''PostgreSQL'') (say_on (V_Connecting ''PostgreSQL'') s) \<and>
      tool_create_tables e s1 = Some (Ok u1, s2) \<and>
      service (db_write (\<lambda>fa now. insert_token (fa 0) sample_token)) e (say_on (V_Doing ''Inserting sample token'') s2) = Some (Ok u2, s3) \<and>
      service (db_read (\<lambda>fa. get_token fa ''0x2::sui::SUI'')) e (say_on (V_Doing ''Retrieving sample token'') s3) = Some (Ok t, s4) \<and>
      service (db_write (\<lambda>fa now. insert_pool (fa 0) sample_pool)) e
        (say_on (V_Doing ''Inserting sample pool'')
          (say_on (case t of Some t \<Rightarrow> V_Token_Found (tok_name t) (symbol t) | None \<Rightarrow> V_Token_Missing) s4)) = Some (Ok u3, s5) \<and>
      (\<exists>s6. service (db_read (\<lambda>fa. get_pool fa (pool_id sample_pool))) e (say_on (V_Doing ''Retrieving sample pool'') s5) = Some (Ok p, s6) \<and>
        s' = say_on (case p of Some p \<Rightarrow> V_Pool_Found (dex_name p) (liquidity p) | None \<Rightarrow> V_Pool_Missing) s6)"
    using assms unfolding verify_postgres_def tool_bind_Ok say_on_Ok tool_return_Ok by blast
  then obtain u1 u2 u3 s2 s3 s4 s5 s6 t p where
    run: "tool_create_tables e (say_on (V_Creating ''PostgreSQL'') (say_on (V_Connecting ''PostgreSQL'') s)) = Some (Ok u1, s2)"
      "service (db_write (\<lambda>fa now. insert_token (fa 0) sample_token)) e (say_on (V_Doing ''Inserting sample token'') s2) = Some (Ok u2, s3)"
      "service (db_read (\<lambda>fa. get_token fa ''0x2::sui::SUI'')) e (say_on (V_Doing ''Retrieving sample token'') s3) = Some (Ok t, s4)"
      "service (db_write (\<lambda>fa now. insert_pool (fa 0) sample_pool)) e
        (say_on (V_Doing ''Inserting sample pool'')
          (say_on (case t of Some t \<Rightarrow> V_Token_Found (tok_name t) (symbol t) | None \<Rightarrow> V_Token_Missing) s4)) = Some (Ok u3, s5)"
      "service (db_read (\<lambda>fa. get_pool fa (pool_id sample_pool))) e (say_on (V_Doing ''Retrieving sample pool'') s5) = Some (Ok p, s6)"
      "s' = say_on (case p of Some p \<Rightarrow> V_Pool_Found (dex_name p) (liquidity p) | None \<Rightarrow> V_Pool_Missing) s6"
    by blast
  have t: "t = Some sample_token" using token_written [OF run(2)] token_read [OF run(3)] by (simp add: sample_token_def)
  have p: "p = Some (stored_pool sample_pool)" using pool_written [OF run(4)] pool_read [OF run(5)] by simp
  show ?thesis
    using tables_created [OF run(1)] token_written [OF run(2), THEN conjunct2] token_read [OF run(3), THEN conjunct2]
      pool_written [OF run(4) [unfolded t], THEN conjunct2] pool_read [OF run(5), THEN conjunct2]
    by (simp add: run(6) t p report_failures_def)
qed

lemma get_as_all_fail: "\<not> (\<exists>k < 3. fa k = NoFault) \<Longrightarrow> get_as c fa now label k kv \<noteq> Ok r"
  by (cases "fa 0"; cases "fa 1"; cases "fa 2")
    (simp_all add: ex_less_3 get_as_def get_loop.simps read_stmt_def outcome_simps numeral_2_eq_2)

lemma cache_read_back:
  assumes "codecs_ok (we_cache e)" "\<forall>n. we_now e (Suc n) < we_now e n + 300"
    and "service (kv_write (\<lambda>env fa now. cache_set_pool_state env fa now p)) e s = Some (Ok u, s1)"
    and "tool_cache_get (\<lambda>env fa now. cache_get_pool_state env fa now (pool_id p)) e (say_on l s1) = Some (Ok r, s2)"
  shows "r = Some p \<and> printed s1 = printed s \<and> printed s2 = printed s1 @ [l]"
proof -
  let ?n = "w_clock (tl_world s)"
  have c: "codec_ok (pool_codec (we_cache e))" using assms(1) by (simp add: codecs_ok_def)
  have set: "fst (cache_set_pool_state (we_cache e) (we_fault e ?n) (we_now e ?n) p (w_kv (tl_world s))) = Ok ()"
    and s1: "s1 = s\<lparr>tl_world := (tl_world s)\<lparr>w_clock := Suc ?n,
        w_kv := snd (cache_set_pool_state (we_cache e) (we_fault e ?n) (we_now e ?n) p (w_kv (tl_world s)))\<rparr>\<rparr>"
    using assms(3) by (auto simp: service_Ok kv_write_def split: prod.splits)
  have get: "cache_get_pool_state (we_cache e) (we_fault e (Suc ?n)) (we_now e (Suc ?n)) (pool_id p)
      (snd (cache_set_pool_state (we_cache e) (we_fault e ?n) (we_now e ?n) p (w_kv (tl_world s)))) = Ok r"
    and s2: "printed s2 = printed s1 @ [l]"
    using assms(4) s1 by (auto simp: tool_cache_get_def Let_def tick_tool_def)
  have some: "\<exists>k < 3. we_fault e ?n k = NoFault" using set set_as_outcome(1) [OF c] by (simp add: cache_set_pool_state_def)
  show ?thesis
  proof (cases "\<exists>k < 3. we_fault e (Suc ?n) k = NoFault")
    case True
    then have "r = Some p"
      using set_get_as(1) [OF c some True] assms(2) get by (simp add: cache_set_pool_state_def cache_get_pool_state_def)
    then show ?thesis using s1 s2 by simp
  next
    case False
    from get_as_all_fail [OF this] get show ?thesis unfolding cache_get_pool_state_def by blast
  qed
qed

lemma verify_redis_Ok:
  assumes "codecs_ok (we_cache e)" "\<forall>n. we_now e (Suc n) < we_now e n + 300" "verify_redis h url e s = Some (Ok u, s')"
  shows "\<exists>ls. printed s' = printed s @ ls \<and> set ls \<inter> report_failures = {}"
proof -
  have "cache_get_pool_state env fa now ''redis_hot_pool_test'' = cache_get_pool_state env fa now (pool_id cache_sample)"
    for env :: "'a cache_env" and fa now by (simp add: cache_sample_def)
  then obtain u1 r s1 s2 where
    run: "service (kv_write (\<lambda>env fa now. cache_set_pool_state env fa now cache_sample)) e
        (say_on (V_Doing ''Setting pool state in Redis'') (say_on (V_Connecting ''Redis'') s)) = Some (Ok u1, s1)"
      "tool_cache_get (\<lambda>env fa now. cache_get_pool_state env fa now (pool_id cache_sample)) e
        (say_on (V_Doing ''Retrieving pool state from Redis'') s1) = Some (Ok r, s2)"
      "s' = say_on (case r of Some p \<Rightarrow> V_Cached_Found (sqrt_price p) | None \<Rightarrow> V_Cached_Missing) s2"
    using assms(3) unfolding verify_redis_def tool_bind_Ok say_on_Ok tool_return_Ok by (simp only:) blast
  from cache_read_back [OF assms(1,2) run(1,2)] show ?thesis by (simp add: run(3) report_failures_def)
qed

lemma log_event_Ok:
  "log_event ev e s = Some (Ok u, s') \<Longrightarrow> \<exists>evs. tl_events s' = Some evs \<and> ev \<in> set evs \<and> printed s' = printed s"
  by (auto simp: log_event_def tool_events_def tick_tool_def split: option.splits prod.splits dest!: insert_swap_event_Ok)

lemma newest_log_Ok:
  "newest_log rows k e s = Some (Ok got, s') \<Longrightarrow>
   \<exists>evs fa. tl_events s = Some evs \<and> tl_events s' = Some evs \<and> get_swap_events fa rows k evs = Ok got \<and> printed s' = printed s"
  by (auto simp: newest_log_def tool_events_def tick_tool_def split: option.splits)

lemma sample_event_time [simp]: "se_timestamp (sample_event n) = n"
  by (simp add: sample_event_def)

lemma verify_clickhouse_Ok:
  assumes "rows_enumerate rows" "verify_clickhouse rows now_epoch e s = Some (Ok u, s')"
  obtains ls evs where "printed s' = printed s @ ls" "tl_events s' = Some evs" "set ls \<inter> report_failures \<subseteq> {V_Event_Missing}"
    "length (filter (\<lambda>x. now_epoch \<le> se_timestamp x) evs) \<le> 5 \<Longrightarrow> V_Event_Missing \<notin> set ls"
proof -
  obtain u1 u2 s1 s2 s3 logs where
    run: "tool_events (\<lambda>fa. ch_create_tables (fa 0)) e (say_on (V_Creating ''ClickHouse'') (say_on (V_Connecting ''ClickHouse'') s)) = Some (Ok u1, s1)"
      "log_event (sample_event now_epoch) e (say_on (V_Doing ''Logging swap event to ClickHouse'') s1) = Some (Ok u2, s2)"
      "newest_log rows 5 e (say_on (V_Doing ''Retrieving swap events from ClickHouse'') s2) = Some (Ok logs, s3)"
      "s' = say_on (if list_ex (\<lambda>ev. se_event_id ev = se_event_id (sample_event now_epoch)) logs then V_Event_Found (length logs)
            else V_Event_Missing) s3"
    using assms(2) unfolding verify_clickhouse_def tool_bind_Ok say_on_Ok tool_return_Ok by blast
  have s1: "printed s1 = printed s @ [V_Connecting ''ClickHouse'', V_Creating ''ClickHouse'']"
    using run(1) by (auto simp: tool_events_def tick_tool_def split: prod.splits)
  obtain evs where evs: "tl_events s2 = Some evs" "sample_event now_epoch \<in> set evs"
    "printed s2 = printed s1 @ [V_Doing ''Logging swap event to ClickHouse'']" using log_event_Ok [OF run(2)] by auto
  obtain fa where got: "get_swap_events fa rows 5 evs = Ok logs" "tl_events s3 = Some evs"
    "printed s3 = printed s2 @ [V_Doing ''Retrieving swap events from ClickHouse'']" using newest_log_Ok [OF run(3)] evs(1) by auto
  have found: "list_ex (\<lambda>ev. se_event_id ev = se_event_id (sample_event now_epoch)) logs"
    if "length (filter (\<lambda>x. now_epoch \<le> se_timestamp x) evs) \<le> 5"
  proof -
    have "sample_event now_epoch \<in> set logs" using newest_events [OF assms(1) got(1) evs(2)] that by simp
    then show ?thesis unfolding list_ex_iff by blast
  qed
  show thesis
    by (rule that [of "[V_Connecting ''ClickHouse'', V_Creating ''ClickHouse'', V_Doing ''Logging swap event to ClickHouse'',
          V_Doing ''Retrieving swap events from ClickHouse'', if list_ex (\<lambda>ev. se_event_id ev = se_event_id (sample_event now_epoch)) logs
          then V_Event_Found (length logs) else V_Event_Missing]" evs])
      (use s1 evs(3) got(2,3) run(4) found in \<open>auto simp: report_failures_def\<close>)
qed

lemma url_or_skip_Ok:
  "url_or_skip var key e s = Some (Ok url, s') \<Longrightarrow> \<exists>ls. printed s' = printed s @ ls \<and> set ls \<inter> report_failures = {} \<and> tl_events s' = tl_events s"
  by (auto simp: url_or_skip_def tool_bind_Ok say_on_Ok report_failures_def split: option.splits)

definition clean_lines :: "storage_line list \<Rightarrow> storage_line list \<Rightarrow> bool" where
  "clean_lines before after \<longleftrightarrow> (\<exists>ls. after = before @ ls \<and> set ls \<inter> report_failures = {})"

lemma clean_lines_trans: "clean_lines a b \<Longrightarrow> clean_lines b c \<Longrightarrow> clean_lines a c"
  by (fastforce simp: clean_lines_def)

lemma clean_sections:
  "url_or_skip var key e s = Some (Ok url, s') \<Longrightarrow> clean_lines (printed s) (printed s')"
  "(if pg \<noteq> [] then verify_postgres h pg else tool_return ()) e s = Some (Ok u, s') \<Longrightarrow> clean_lines (printed s) (printed s')"
  using url_or_skip_Ok [of var key e s url s'] verify_postgres_Ok [of h pg e s u s']
  by (auto simp: clean_lines_def split: if_splits)

lemma clean_redis:
  assumes "codecs_ok (we_cache e)" "\<forall>n. we_now e (Suc n) < we_now e n + 300"
    "(if rd \<noteq> [] then verify_redis h rd else tool_return ()) e s = Some (Ok u, s')"
  shows "clean_lines (printed s) (printed s')"
  using verify_redis_Ok [OF assms(1,2), of h rd s u s'] assms(3) by (auto simp: clean_lines_def split: if_splits)

text \<open>The storage check reports a failure only for what really failed. When verify-storage ends without an
  error, the run returns 0 and none of the failure lines for the sample token, the sample pool and the cached pool is
  printed: what was written is what is read back, provided that the codecs of the cache are faithful and that two
  consecutive operations are less than the 300 seconds of the cache's lifetime apart. The only failure line it can print is
  the one about the swap event, and not even that unless more than five events of the log are as new as the sample one.\<close>

theorem verify_storage_reports:
  assumes "verify_storage_main var h rows now_epoch e s = Some (Ok n, s')" "codecs_ok (we_cache e)"
    "\<forall>n. we_now e (Suc n) < we_now e n + 300" "rows_enumerate rows"
  shows "n = 0 \<and> (\<exists>ls. printed s' = printed s @ ls \<and> set ls \<inter> report_failures \<subseteq> {V_Event_Missing} \<and>
     (V_Event_Missing \<in> set ls \<longrightarrow>
       (\<exists>evs. tl_events s' = Some evs \<and> 5 < length (filter (\<lambda>x. now_epoch \<le> se_timestamp x) evs))))"
proof -
  obtain pg rd ch u1 u2 u3 s1 s2 s3 s4 s5 s6 where
    run: "url_or_skip var ''DATABASE_URL'' e (say_on V_Title s) = Some (Ok pg, s1)"
      "(if pg \<noteq> [] then verify_postgres h pg else tool_return ()) e s1 = Some (Ok u1, s2)"
      "url_or_skip var ''REDIS_URL'' e s2 = Some (Ok rd, s3)"
      "(if rd \<noteq> [] then verify_redis h rd else tool_return ()) e s3 = Some (Ok u2, s4)"
      "url_or_skip var ''CLICKHOUSE_URL'' e s4 = Some (Ok ch, s5)"
      "(if ch \<noteq> [] then verify_clickhouse rows now_epoch else tool_return ()) e s5 = Some (Ok u3, s6)"
    and out: "s' = say_on V_Completed s6" "n = 0"
    using assms(1) unfolding verify_storage_main_def tool_bind_Ok say_on_Ok tool_return_Ok by (simp only: outcome.inject) blast
  have "clean_lines (printed s) (printed (say_on V_Title s))" by (simp add: clean_lines_def report_failures_def)
  then have "clean_lines (printed s) (printed s5)"
    using clean_sections(1) [OF run(1)] clean_sections(2) [OF run(2)] clean_sections(1) [OF run(3)]
      clean_redis [OF assms(2,3) run(4)] clean_sections(1) [OF run(5)] by (meson clean_lines_trans)
  then obtain ls where ls: "printed s5 = printed s @ ls" "set ls \<inter> report_failures = {}" by (auto simp: clean_lines_def)
  have "\<exists>ms. printed s6 = printed s5 @ ms \<and> set ms \<inter> report_failures \<subseteq> {V_Event_Missing} \<and>
     (V_Event_Missing \<in> set ms \<longrightarrow>
       (\<exists>evs. tl_events s6 = Some evs \<and> 5 < length (filter (\<lambda>x. now_epoch \<le> se_timestamp x) evs)))"
  proof (cases "ch = []")
    case False
    with run(6) have "verify_clickhouse rows now_epoch e s5 = Some (Ok u3, s6)" by simp
    from verify_clickhouse_Ok [OF assms(4) this] show ?thesis by (metis not_le)
  qed (use run(6) in simp)
  then obtain ms where ms: "printed s6 = printed s5 @ ms" "set ms \<inter> report_failures \<subseteq> {V_Event_Missing}"
    "V_Event_Missing \<in> set ms \<longrightarrow>
       (\<exists>evs. tl_events s6 = Some evs \<and> 5 < length (filter (\<lambda>x. now_epoch \<le> se_timestamp x) evs))" by blast
  have "V_Event_Missing \<notin> set ls" using ls(2) by (auto simp: report_failures_def)
  then show ?thesis
    using ls ms by (intro conjI exI [of _ "ls @ ms @ [V_Completed]"]) (auto simp: out report_failures_def)
qed

lemma printed_tool_start: "printed tool_start = []"
  by (simp add: tool_start_def)

lemma demo_verify_redis:
  "\<exists>s'. verify_redis local_hosts url (calm_env dead_api [] []) s = Some (Ok (), s')"
proof -
  let ?e = "calm_env dead_api [] []" and ?n = "w_clock (tl_world s)"
  have c: "codec_ok (pool_codec blob_cache)" using blob_ok(2) by (simp add: codecs_ok_def)
  have fine: "\<exists>k < (3::nat). (\<lambda>_. NoFault) k = NoFault" by (rule exI [of _ 0]) simp
  have set: "fst (cache_set_pool_state blob_cache (\<lambda>_. NoFault) now cache_sample kv) = Ok ()" for now kv
    using set_as_outcome(1) [OF c] fine by (simp add: cache_set_pool_state_def)
  have get: "cache_get_pool_state blob_cache (\<lambda>_. NoFault) (Suc now) (pool_id cache_sample)
      (snd (cache_set_pool_state blob_cache (\<lambda>_. NoFault) now cache_sample kv)) = Ok (Some cache_sample)" for now kv
    using set_get_as(1) [OF c fine fine, of "Suc now" now] by (simp add: cache_set_pool_state_def cache_get_pool_state_def)
  have "pool_id cache_sample = ''redis_hot_pool_test''" by (simp add: cache_sample_def)
  note got = get [unfolded this]
  show ?thesis
    by (simp add: verify_redis_def tool_simps kv_write_def calm_env_def local_hosts_def tick_tool_def case_prod_beta set got)
qed

lemma demo_verify_clickhouse:
  "\<exists>s'. verify_clickhouse id now_epoch (calm_env dead_api [] []) s = Some (Ok (), s')"
  by (simp add: verify_clickhouse_def tool_simps tick_tool_def log_event_def newest_log_def ch_create_tables_def insert_swap_event_def
      get_swap_events_def exec_stmt_def read_stmt_def calm_env_def outcome_simps)

theorem verify_storage_reports_witness:
  "\<exists>s' ls. verify_storage_main (\<lambda>k. if k = ''DATABASE_URL'' then None else Some ''url'') local_hosts id 7
      (calm_env dead_api [] []) tool_start = Some (Ok 0, s') \<and> printed s' = ls \<and> set ls \<inter> report_failures \<subseteq> {V_Event_Missing}"
proof -
  let ?e = "calm_env dead_api [] []" and ?var = "\<lambda>k. if k = ''DATABASE_URL'' then None else Some ''url''"
  obtain s1 where s1: "verify_redis local_hosts ''url'' ?e (say_on (V_Not_Set ''DATABASE_URL'') (say_on V_Title tool_start)) = Some (Ok (), s1)"
    using demo_verify_redis by blast
  obtain s2 where s2: "verify_clickhouse id 7 ?e s1 = Some (Ok (), s2)" using demo_verify_clickhouse by blast
  have skip: "url_or_skip ?var ''DATABASE_URL'' ?e (say_on V_Title tool_start) = Some (Ok [], say_on (V_Not_Set ''DATABASE_URL'') (say_on V_Title tool_start))"
    "url_or_skip ?var ''REDIS_URL'' ?e s = Some (Ok ''url'', s)" "url_or_skip ?var ''CLICKHOUSE_URL'' ?e s = Some (Ok ''url'', s)"
    for s :: "(storage_line, blob) tool_state" by (simp_all add: url_or_skip_def tool_bind_Ok say_on_def)
  have run: "verify_storage_main ?var local_hosts id 7 ?e tool_start = Some (Ok 0, say_on V_Completed s2)"
    unfolding verify_storage_main_def tool_bind_Ok say_on_Ok tool_return_Ok by (simp add: skip s1 s2)
  have e: "codecs_ok (we_cache ?e)" "\<forall>n. we_now ?e (Suc n) < we_now ?e n + 300" "rows_enumerate id"
    by (simp_all add: calm_env_def blob_ok rows_enumerate_def)
  from verify_storage_reports [OF run e] obtain ls where "printed (say_on V_Completed s2) = printed tool_start @ ls"
    "set ls \<inter> report_failures \<subseteq> {V_Event_Missing}" by blast
  then have "set (printed (say_on V_Completed s2)) \<inter> report_failures \<subseteq> {V_Event_Missing}" by (simp only: printed_tool_start append_Nil)
  with run show ?thesis by blast
qed

end
