(* ===== verification/Daemon_Run.thy ===== *)
theory Daemon_Run
  imports Daemon Schema
begin

text \<open>
  The rest of \<open>run_daemon\<close> (\<open>src/daemon.rs\<close>) and \<open>src/main.rs\<close>: the routes of the server, the four tasks the daemon
  spawns, the wait for Ctrl+C and the joins.  The tasks, the signal and the waiting daemon interleave; a worker that
  returns an error logs it and ends, a failed \<open>bind\<close> or a failed server panics its task.
\<close>

subsection \<open>Routes\<close>

datatype http_method = GET | POST

datatype handler = Health | Readyz | List_Tokens | Metrics_Page | Ws_Upgrade | Quote | Build_Transaction

definition app_routes :: "(string \<times> http_method \<times> handler) list" where
  "app_routes =
     [(''/health'', GET, Health),
      (''/readyz'', GET, Readyz),
      (''/api/v1/tokens'', GET, List_Tokens),
      (''/metrics'', GET, Metrics_Page),
      (''/ws'', GET, Ws_Upgrade),
      (''/api/quote'', GET, Quote),
      (''/api/build_tx'', POST, Build_Transaction)]"

subsection \<open>Tasks\<close>

datatype daemon_task = Static_Task | Manager_Task | Writer_Task | Server_Task

datatype task_state = Task_Running | Task_Ended | Task_Panicked

datatype main_state = Awaiting_Signal | Joining "daemon_task list" | Returned "(unit, string) outcome"

record daemon_run =
  dr_tasks :: "daemon_task \<Rightarrow> task_state"
  dr_shutdown :: bool
  dr_main :: main_state

definition join_order :: "daemon_task list" where
  "join_order = [Static_Task, Manager_Task, Writer_Task, Server_Task]"

definition launched :: daemon_run where
  "launched = \<lparr>dr_tasks = (\<lambda>_. Task_Running), dr_shutdown = False, dr_main = Awaiting_Signal\<rparr>"

text \<open>
  \<open>main\<close>: the configuration, then the start, whose \<open>create_tables\<close> is the one of the storage on the catalog it meets; the
  second result is the catalog afterwards.  The sender of the shutdown channel lives as long as \<open>main\<close>, so the channel
  reports nothing but a signal.
\<close>

definition service_main ::
  "(string \<Rightarrow> string option) \<Rightarrow> links \<Rightarrow> (nat \<Rightarrow> fault) \<Rightarrow> catalog \<Rightarrow> (nat \<Rightarrow> bool) \<Rightarrow> (nat \<Rightarrow> bool) \<Rightarrow>
   (daemon_run \<times> catalog, 't) act" where
  "service_main var lk ddl_faults cat ready stop =
     act_bind (act_lift (from_env_map var)) (\<lambda>cfg.
     act_bind (run_daemon_start (lk\<lparr>pg_create_tables := fst (create_tables ddl_faults cat)\<rparr>) ready stop cfg) (\<lambda>_.
       act_return (launched, snd (create_tables ddl_faults cat))))"

inductive daemon_step :: "daemon_run \<Rightarrow> daemon_run \<Rightarrow> bool" where
  Ctrl_C: "\<not> dr_shutdown s \<Longrightarrow> daemon_step s (s\<lparr>dr_shutdown := True\<rparr>)"
| Worker_Ends: "dr_tasks s t = Task_Running \<Longrightarrow> t \<noteq> Server_Task \<Longrightarrow>
    daemon_step s (s\<lparr>dr_tasks := (dr_tasks s)(t := Task_Ended)\<rparr>)"
| Server_Ends: "dr_tasks s Server_Task = Task_Running \<Longrightarrow> dr_shutdown s \<Longrightarrow>
    daemon_step s (s\<lparr>dr_tasks := (dr_tasks s)(Server_Task := Task_Ended)\<rparr>)"
| Task_Panics: "dr_tasks s t = Task_Running \<Longrightarrow> daemon_step s (s\<lparr>dr_tasks := (dr_tasks s)(t := Task_Panicked)\<rparr>)"
| Signalled: "dr_main s = Awaiting_Signal \<Longrightarrow> dr_shutdown s \<Longrightarrow> daemon_step s (s\<lparr>dr_main := Joining join_order\<rparr>)"
| Join_Ok: "dr_main s = Joining (t # ts) \<Longrightarrow> dr_tasks s t = Task_Ended \<Longrightarrow> daemon_step s (s\<lparr>dr_main := Joining ts\<rparr>)"
| Join_Err: "dr_main s = Joining (t # ts) \<Longrightarrow> dr_tasks s t = Task_Panicked \<Longrightarrow>
    daemon_step s (s\<lparr>dr_main := Returned (Err ''task panicked'')\<rparr>)"
| Joined: "dr_main s = Joining [] \<Longrightarrow> daemon_step s (s\<lparr>dr_main := Returned (Ok ())\<rparr>)"

inductive_cases daemon_stepE: "daemon_step s s'"

definition daemon_reach :: "daemon_run \<Rightarrow> bool" where
  "daemon_reach s \<longleftrightarrow> daemon_step\<^sup>*\<^sup>* launched s"

subsection \<open>What the daemon returns\<close>

fun joined_inv :: "main_state \<Rightarrow> (daemon_task \<Rightarrow> task_state) \<Rightarrow> bool" where
  "joined_inv Awaiting_Signal ts \<longleftrightarrow> True"
| "joined_inv (Joining rest) ts \<longleftrightarrow> (\<exists>before. join_order = before @ rest \<and> (\<forall>t \<in> set before. ts t = Task_Ended))"
| "joined_inv (Returned r) ts \<longleftrightarrow>
     (case r of Ok u \<Rightarrow> \<forall>t. ts t = Task_Ended | Err e \<Rightarrow> \<exists>t. ts t = Task_Panicked | Panic p \<Rightarrow> False)"

definition daemon_inv :: "daemon_run \<Rightarrow> bool" where
  "daemon_inv s \<longleftrightarrow> joined_inv (dr_main s) (dr_tasks s) \<and> (dr_main s \<noteq> Awaiting_Signal \<longrightarrow> dr_shutdown s) \<and>
     (dr_tasks s Server_Task = Task_Ended \<longrightarrow> dr_shutdown s)"

lemma all_joined: "t \<in> set join_order"
  by (cases t) (simp_all add: join_order_def)

lemma joined_inv_keeps:
  assumes "joined_inv m ts" "ts t = Task_Running"
  shows "joined_inv m (ts(t := x))"
proof (cases m)
  case (Returned r)
  show ?thesis
  proof (cases r)
    case (Err e)
    then obtain u where u: "ts u = Task_Panicked" using assms Returned by auto
    then have "u \<noteq> t" using assms(2) by auto
    with u have "(ts(t := x)) u = Task_Panicked" by simp
    then show ?thesis using Returned Err by (auto simp del: fun_upd_apply)
  qed (use assms Returned in auto)
qed (use assms in force)+

lemma daemon_inv_step: "daemon_inv s \<Longrightarrow> daemon_step s s' \<Longrightarrow> daemon_inv s'"
proof (erule daemon_stepE, goal_cases)
  case (6 t ts)
  then obtain before where "join_order = before @ t # ts" "\<forall>x \<in> set before. dr_tasks s x = Task_Ended" by (auto simp: daemon_inv_def)
  then have "joined_inv (Joining ts) (dr_tasks s)" using 6 by (auto intro!: exI [of _ "before @ [t]"])
  with 6 show ?case by (simp add: daemon_inv_def)
next
  case 8
  then show ?case using all_joined by (auto simp: daemon_inv_def)
qed (auto simp: daemon_inv_def joined_inv_keeps simp del: joined_inv.simps(2,3), auto)

lemma daemon_reach_inv: "daemon_reach s \<Longrightarrow> daemon_inv s"
  unfolding daemon_reach_def
proof (induction rule: rtranclp_induct)
  case base
  show ?case by (simp add: launched_def daemon_inv_def)
qed (rule daemon_inv_step)

text \<open>The steps left to the daemon itself once nothing else moves.\<close>

fun main_left :: "main_state \<Rightarrow> nat" where
  "main_left Awaiting_Signal = 6"
| "main_left (Joining ts) = Suc (length ts)"
| "main_left (Returned r) = 0"

definition all_ended :: "daemon_run \<Rightarrow> bool" where
  "all_ended s \<longleftrightarrow> (\<forall>t. dr_tasks s t \<noteq> Task_Running)"

lemma main_progress:
  assumes "all_ended s" "dr_shutdown s" "daemon_step s s'"
  shows "all_ended s' \<and> dr_shutdown s' \<and> main_left (dr_main s') < main_left (dr_main s)"
  using assms(3,1,2) by cases (auto simp: all_ended_def join_order_def)

lemma main_not_stuck:
  assumes "all_ended s" "dr_shutdown s" "\<not> (\<exists>r. dr_main s = Returned r)"
  shows "\<exists>s'. daemon_step s s'"
proof (cases "dr_main s")
  case (Joining ts)
  show ?thesis
  proof (cases ts)
    case (Cons t rest)
    then show ?thesis using assms(1) Joining by (cases "dr_tasks s t") (auto simp: all_ended_def intro: daemon_step.intros)
  qed (use Joining in \<open>auto intro: daemon_step.intros\<close>)
qed (use assms in \<open>auto intro: daemon_step.intros\<close>)

lemma main_returns: "all_ended s \<Longrightarrow> dr_shutdown s \<Longrightarrow> \<exists>s' r. daemon_step\<^sup>*\<^sup>* s s' \<and> dr_main s' = Returned r"
proof (induction "main_left (dr_main s)" arbitrary: s rule: less_induct)
  case less
  show ?case
  proof (cases "\<exists>r. dr_main s = Returned r")
    case False
    with main_not_stuck less.prems obtain t where t: "daemon_step s t" by blast
    from main_progress [OF less.prems t] less.hyps obtain s' r where "daemon_step\<^sup>*\<^sup>* t s'" "dr_main s' = Returned r" by blast
    with t show ?thesis by (meson converse_rtranclp_into_rtranclp)
  qed blast
qed

text \<open>C37. The daemon stops only when asked, and then with the right result. In every reachable state it has returned
  only after the signal: with success exactly when each of the four tasks ended in order, with an error only when one of
  them panicked. Once the signal is given and no task is running any more, every further step brings the daemon nearer to
  returning and it returns in the end. No two routes of the server share a path.\<close>

theorem daemon_stops_when_asked:
  assumes "daemon_reach s"
  shows "(\<forall>r. dr_main s = Returned r \<longrightarrow> dr_shutdown s \<and>
      (r = Ok () \<and> (\<forall>t. dr_tasks s t = Task_Ended) \<or> (\<exists>e. r = Err e) \<and> (\<exists>t. dr_tasks s t = Task_Panicked))) \<and>
    (all_ended s \<and> dr_shutdown s \<longrightarrow>
      (\<forall>s'. daemon_step s s' \<longrightarrow> main_left (dr_main s') < main_left (dr_main s)) \<and>
      (\<exists>s' r. daemon_step\<^sup>*\<^sup>* s s' \<and> dr_main s' = Returned r)) \<and>
    distinct (map fst app_routes)"
proof (intro conjI allI impI)
  fix r assume r: "dr_main s = Returned r"
  from daemon_reach_inv [OF assms] r show "dr_shutdown s" by (simp add: daemon_inv_def)
  from daemon_reach_inv [OF assms] r
  show "r = Ok () \<and> (\<forall>t. dr_tasks s t = Task_Ended) \<or> (\<exists>e. r = Err e) \<and> (\<exists>t. dr_tasks s t = Task_Panicked)"
    by (cases r) (auto simp: daemon_inv_def)
next
  fix s' assume "all_ended s \<and> dr_shutdown s" "daemon_step s s'"
  then show "main_left (dr_main s') < main_left (dr_main s)" using main_progress by blast
next
  assume "all_ended s \<and> dr_shutdown s"
  then show "\<exists>s' r. daemon_step\<^sup>*\<^sup>* s s' \<and> dr_main s' = Returned r" by (intro main_returns) simp_all
next
  show "distinct (map fst app_routes)" by code_simp
qed

text \<open>
  A server that cannot bind its address goes unnoticed: the daemon keeps waiting for the signal with its server gone, and
  reports the failure only when it is stopped.
\<close>

lemma bind_failure_unnoticed:
  "daemon_reach (launched\<lparr>dr_tasks := (dr_tasks launched)(Server_Task := Task_Panicked)\<rparr>)"
proof -
  have "daemon_step launched (launched\<lparr>dr_tasks := (dr_tasks launched)(Server_Task := Task_Panicked)\<rparr>)"
    by (rule Task_Panics) (simp add: launched_def)
  then show ?thesis unfolding daemon_reach_def by (rule r_into_rtranclp)
qed

theorem daemon_stops_when_asked_witness:
  "\<exists>s' r. daemon_step\<^sup>*\<^sup>* \<lparr>dr_tasks = (\<lambda>_. Task_Panicked), dr_shutdown = True, dr_main = Awaiting_Signal\<rparr> s' \<and> dr_main s' = Returned r"
  (is "\<exists>s' r. daemon_step\<^sup>*\<^sup>* ?s s' \<and> dr_main s' = Returned r")
proof -
  let ?t = "\<lambda>s t. s\<lparr>dr_tasks := (dr_tasks s)(t := Task_Panicked)\<rparr>"
  let ?all = "?t (?t (?t (?t launched Static_Task) Manager_Task) Writer_Task) Server_Task"
  have panics: "daemon_reach s \<Longrightarrow> dr_tasks s t = Task_Running \<Longrightarrow> daemon_reach (?t s t)" for s t
    unfolding daemon_reach_def by (rule rtranclp.rtrancl_into_rtrancl, assumption) (rule Task_Panics)
  have "daemon_reach launched" by (simp add: daemon_reach_def)
  then have all: "daemon_reach ?all" by (intro panics) (simp_all add: launched_def)
  moreover have "daemon_step ?all (?all\<lparr>dr_shutdown := True\<rparr>)" by (rule Ctrl_C) (simp add: launched_def)
  ultimately have "daemon_reach (?all\<lparr>dr_shutdown := True\<rparr>)"
    unfolding daemon_reach_def by (rule rtranclp.rtrancl_into_rtrancl)
  moreover have "(\<lambda>_. Task_Panicked) = dr_tasks ?all"
  proof
    show "Task_Panicked = dr_tasks ?all t" for t by (cases t) simp_all
  qed
  then have "?all\<lparr>dr_shutdown := True\<rparr> = ?s" by (simp add: launched_def)
  ultimately have "daemon_reach ?s" by simp
  from daemon_stops_when_asked [OF this] show ?thesis by (simp add: all_ended_def)
qed

end
